(* ===== verification/Prelude.thy ===== *)
theory Prelude
  imports Main "HOL-Library.Sublist" "HOL-Library.Char_ord" "HOL-Library.List_Lexorder"
begin

text \<open>
  Shared vocabulary of the development: the Python string and integer functions the
  sources use (\<^verbatim>\<open>str.strip\<close>, \<^verbatim>\<open>str.startswith\<close>, \<^verbatim>\<open>str.replace\<close> with a one-character
  pattern, \<^verbatim>\<open>int(s, base)\<close>, \<^verbatim>\<open>str(i)\<close>, \<^verbatim>\<open>hex(i)\<close>), and the Python exceptions as
  values. Strings are lists of characters; the character classes are those of ASCII, and
  a character above 127 is neither a digit, a letter nor white space. The limit of recent
  Python versions on the number of digits \<^verbatim>\<open>int()\<close> converts is not modelled.
\<close>

named_theorems str_simps \<open>evaluation of the string helpers on constructor terms\<close>
named_theorems results \<open>when a computation that may fail succeeds\<close>
named_theorems evals \<open>unfolding rules for attribute programs\<close>

section \<open>Exceptions\<close>

datatype exn =
    ValueError
  | TypeError
  | KeyError
  | AttributeError
  | RecursionError
  | EnvironmentError string
  | KconfigError string

text \<open>A computation that may fail succeeds if its parts do.\<close>

lemma bind_Inr [results]:
  "(case x of Inl e \<Rightarrow> Inl e | Inr a \<Rightarrow> f a) = Inr b \<longleftrightarrow> (\<exists>a. x = Inr a \<and> f a = Inr b)"
  by (cases x) auto

lemma map_sum_Inr [results]: "map_sum id f x = Inr b \<longleftrightarrow> (\<exists>a. x = Inr a \<and> b = f a)"
  by (cases x) auto

section \<open>Strings\<close>

text \<open>White space for \<^verbatim>\<open>str.isspace\<close>/\<^verbatim>\<open>strip\<close>, and for \<^verbatim>\<open>\s\<close> in an ASCII regex
  and for \<^verbatim>\<open>int()\<close>.\<close>

definition py_space :: "char \<Rightarrow> bool" where
  "py_space c = (let n = (of_char c :: nat) in (9 \<le> n \<and> n \<le> 13) \<or> (28 \<le> n \<and> n \<le> 32))"

definition re_space :: "char \<Rightarrow> bool" where
  "re_space c = (let n = (of_char c :: nat) in (9 \<le> n \<and> n \<le> 13) \<or> n = 32)"

definition newline :: char where
  "newline = CHR 0x0A"

definition lstrip :: "string \<Rightarrow> string" where
  "lstrip s = dropWhile py_space s"

definition rstrip :: "string \<Rightarrow> string" where
  "rstrip s = rev (dropWhile py_space (rev s))"

definition strip :: "string \<Rightarrow> string" where
  "strip s = rstrip (lstrip s)"

definition isspace :: "string \<Rightarrow> bool" where
  "isspace s = (s \<noteq> [] \<and> list_all py_space s)"

text \<open>\<^verbatim>\<open>s.startswith(p)\<close>.\<close>

definition startswith :: "string \<Rightarrow> string \<Rightarrow> bool" where
  "startswith s p = (take (length p) s = p)"

text \<open>\<^verbatim>\<open>s.replace(c, r)\<close> for a one-character \<^verbatim>\<open>c\<close>.\<close>

definition replace_char :: "char \<Rightarrow> string \<Rightarrow> string \<Rightarrow> string" where
  "replace_char c r s = concat (map (\<lambda>x. if x = c then r else [x]) s)"

text \<open>\<^verbatim>\<open>sep.join(xs)\<close>.\<close>

fun join_with :: "string \<Rightarrow> string list \<Rightarrow> string" where
  "join_with sep [] = []"
| "join_with sep [x] = x"
| "join_with sep (x # y # zs) = x @ sep @ join_with sep (y # zs)"

text \<open>\<^verbatim>\<open>os.path.join(a, b)\<close>\<close>

definition path_join :: "string \<Rightarrow> string \<Rightarrow> string" where
  "path_join a b =
     (if startswith b ''/'' then b
      else if a = [] then b
      else if last a = CHR ''/'' then a @ b
      else a @ ''/'' @ b)"

text \<open>\<^verbatim>\<open>str.splitlines()\<close>.\<close>

definition line_break :: "char \<Rightarrow> bool" where
  "line_break c = (let n = (of_char c :: nat) in (10 \<le> n \<and> n \<le> 13) \<or> (28 \<le> n \<and> n \<le> 30) \<or> n = 133)"

fun splitlines :: "string \<Rightarrow> string list" where
  "splitlines [] = []"
| "splitlines (c # cs) =
     (if line_break c then
        [] # (case cs of
                d # ds \<Rightarrow> if c = CHR 0x0D \<and> d = newline then splitlines ds else splitlines cs
              | [] \<Rightarrow> [])
      else (case splitlines cs of [] \<Rightarrow> [[c]] | l # ls \<Rightarrow> (c # l) # ls))"

lemma startswith_append [simp]: "startswith (p @ s) p"
  by (simp add: startswith_def)

lemma startswith_refl [simp]: "startswith s s"
  by (simp add: startswith_def)

lemma startswith_Nil [simp]: "startswith s []"
  by (simp add: startswith_def)

lemma startswith_Cons: "startswith s (p # ps) = (case s of [] \<Rightarrow> False | c # cs \<Rightarrow> c = p \<and> startswith cs ps)"
  by (auto simp: startswith_def split: list.splits)

lemma startswithD: "startswith s p \<Longrightarrow> s = p @ drop (length p) s"
  by (metis append_take_drop_id startswith_def)

lemma dropWhile_snoc_stop: "\<not> P x \<Longrightarrow> dropWhile P (rev (xs @ [x])) = x # rev xs"
  by simp

lemma rstrip_snoc [simp]: "\<not> py_space c \<Longrightarrow> rstrip (s @ [c]) = s @ [c]"
  by (simp add: rstrip_def)

lemma rstrip_snoc_space: "py_space c \<Longrightarrow> rstrip (s @ [c]) = rstrip s"
  by (simp add: rstrip_def)

lemma rstrip_Nil [simp]: "rstrip [] = []"
  by (simp add: rstrip_def)

lemma py_space_newline [simp]: "py_space newline"
  by (simp add: py_space_def newline_def)

lemma re_space_py_space: "re_space c \<Longrightarrow> py_space c"
  by (auto simp: re_space_def py_space_def Let_def)

lemma replace_char_Nil [simp]: "replace_char c r [] = []"
  and replace_char_Cons [simp]:
    "replace_char c r (x # xs) = (if x = c then r else [x]) @ replace_char c r xs"
  by (simp_all add: replace_char_def)

section \<open>Integers as Python reads and prints them\<close>

text \<open>The value of a character as a digit; 37 stands for ``not a digit in any base''.\<close>

definition digit_val :: "char \<Rightarrow> nat" where
  "digit_val c =
     (let n = (of_char c :: nat)
      in if 48 \<le> n \<and> n \<le> 57 then n - 48
         else if 97 \<le> n \<and> n \<le> 122 then n - 87
         else if 65 \<le> n \<and> n \<le> 90 then n - 55
         else 37)"

text \<open>The digits after the first one: one underscore may stand between two digits.\<close>

fun digit_run :: "nat \<Rightarrow> nat \<Rightarrow> string \<Rightarrow> nat option" where
  "digit_run b acc [] = Some acc"
| "digit_run b acc (c # cs) =
     (if c = CHR ''_'' then
        (case cs of
           [] \<Rightarrow> None
         | d # ds \<Rightarrow> if digit_val d < b then digit_run b (acc * b + digit_val d) ds else None)
      else if digit_val c < b then digit_run b (acc * b + digit_val c) cs
      else None)"

definition digits_value :: "nat \<Rightarrow> string \<Rightarrow> nat option" where
  "digits_value b s =
     (case s of
        [] \<Rightarrow> None
      | c # cs \<Rightarrow> if digit_val c < b then digit_run b (digit_val c) cs else None)"

text \<open>
  The digits with their optional prefix. In base 0 the prefix chooses the base and a
  number without one is decimal; such a number may start with a 0 only if it is zero.
\<close>

definition prefix_base :: "string \<Rightarrow> nat" where
  "prefix_base s =
     (case s of
        a # x # _ \<Rightarrow>
          if a \<noteq> CHR ''0'' then 0
          else if x = CHR ''x'' \<or> x = CHR ''X'' then 16
          else if x = CHR ''o'' \<or> x = CHR ''O'' then 8
          else if x = CHR ''b'' \<or> x = CHR ''B'' then 2
          else 0
      | _ \<Rightarrow> 0)"

definition after_prefix :: "string \<Rightarrow> string" where
  "after_prefix s =
     (let t = drop 2 s in case t of [] \<Rightarrow> [] | c # cs \<Rightarrow> if c = CHR ''_'' then cs else t)"

definition nat_literal :: "nat \<Rightarrow> string \<Rightarrow> nat option" where
  "nat_literal b s =
     (let p = prefix_base s
      in if b = 0 then
           (if p \<noteq> 0 then digits_value p (after_prefix s)
            else if (case s of [] \<Rightarrow> False | c # _ \<Rightarrow> c = CHR ''0'')
            then (case digits_value 10 s of Some 0 \<Rightarrow> Some 0 | _ \<Rightarrow> None)
            else digits_value 10 s)
         else if p = b then digits_value b (after_prefix s)
         else digits_value b s)"

text \<open>\<^verbatim>\<open>int(s, b)\<close>; \<^term>\<open>None\<close> is the \<^verbatim>\<open>ValueError\<close>.\<close>

definition py_int :: "string \<Rightarrow> nat \<Rightarrow> int option" where
  "py_int s b =
     (let t = rev (dropWhile re_space (rev (dropWhile re_space s)))
      in case t of
           [] \<Rightarrow> None
         | c # cs \<Rightarrow>
             if c = CHR ''-'' then map_option (\<lambda>n. - int n) (nat_literal b cs)
             else if c = CHR ''+'' then map_option int (nat_literal b cs)
             else map_option int (nat_literal b t))"

text \<open>\<^verbatim>\<open>str(i)\<close> and \<^verbatim>\<open>hex(i)\<close>.\<close>

definition digit_char :: "nat \<Rightarrow> char" where
  "digit_char d = (''0123456789abcdef'' @ replicate 240 (CHR ''0'')) ! d"

function nat_digits :: "nat \<Rightarrow> nat \<Rightarrow> string" where
  "nat_digits b n =
     (if b < 2 \<or> n < b then [digit_char n] else nat_digits b (n div b) @ [digit_char (n mod b)])"
  by pat_completeness auto
termination
  by (relation "measure snd") auto

declare nat_digits.simps [simp del]

definition py_str :: "int \<Rightarrow> string" where
  "py_str i = (if i < 0 then ''-'' else []) @ nat_digits 10 (nat \<bar>i\<bar>)"

definition py_hex :: "int \<Rightarrow> string" where
  "py_hex i = (if i < 0 then ''-0x'' else ''0x'') @ nat_digits 16 (nat \<bar>i\<bar>)"

subsection \<open>Printed integers read back\<close>

lemma less_16_cases:
  "(d::nat) < 16 \<Longrightarrow> P 0 \<Longrightarrow> P 1 \<Longrightarrow> P 2 \<Longrightarrow> P 3 \<Longrightarrow> P 4 \<Longrightarrow> P 5 \<Longrightarrow> P 6 \<Longrightarrow> P 7 \<Longrightarrow>
   P 8 \<Longrightarrow> P 9 \<Longrightarrow> P 10 \<Longrightarrow> P 11 \<Longrightarrow> P 12 \<Longrightarrow> P 13 \<Longrightarrow> P 14 \<Longrightarrow> P 15 \<Longrightarrow> P d"
  by (simp add: eval_nat_numeral less_Suc_eq) auto

lemma digit_val_digit_char [simp]: "d < 16 \<Longrightarrow> digit_val (digit_char d) = d"
  by (erule less_16_cases) (simp_all add: digit_val_def digit_char_def)

lemma digit_char_not_special:
  "d < 16 \<Longrightarrow> digit_char d \<noteq> CHR ''_'' \<and> digit_char d \<noteq> CHR ''-'' \<and>
     digit_char d \<noteq> CHR ''+'' \<and> digit_char d \<noteq> CHR ''x'' \<and> digit_char d \<noteq> CHR ''X'' \<and>
     digit_char d \<noteq> CHR ''o'' \<and> digit_char d \<noteq> CHR ''O'' \<and> \<not> re_space (digit_char d)"
  by (erule less_16_cases) (simp_all add: digit_char_def re_space_def)

lemma digit_run_append:
  "\<forall>c \<in> set xs. c \<noteq> CHR ''_'' \<and> digit_val c < b \<Longrightarrow>
   digit_run b acc (xs @ ys) =
     digit_run b (foldl (\<lambda>a c. a * b + digit_val c) acc xs) ys"
  by (induction xs arbitrary: acc) auto

lemma nat_digits_nonempty [simp]: "nat_digits b n \<noteq> []"
  by (subst nat_digits.simps) simp

lemma nat_digits_set:
  "2 \<le> b \<Longrightarrow> b \<le> 16 \<Longrightarrow> c \<in> set (nat_digits b n) \<Longrightarrow> \<exists>d < b. c = digit_char d"
proof (induction b n rule: nat_digits.induct)
  case (1 b n)
  show ?case
  proof (cases "n < b")
    case True
    with 1 show ?thesis by (auto simp: nat_digits.simps [of b n])
  next
    case False
    have m: "n mod b < b" using "1.prems"(1) by simp
    have g: "\<not> (b < 2 \<or> n < b)" using False "1.prems"(1) by simp
    from "1.prems"(3) have "c \<in> set (nat_digits b (n div b)) \<or> c = digit_char (n mod b)"
      by (subst (asm) nat_digits.simps) (use g in auto)
    then show ?thesis
    proof
      assume "c \<in> set (nat_digits b (n div b))"
      then show ?thesis by (rule "1.IH" [OF g "1.prems"(1,2)])
    next
      assume "c = digit_char (n mod b)"
      with m show ?thesis by blast
    qed
  qed
qed

lemma nat_digits_foldl:
  "2 \<le> b \<Longrightarrow> b \<le> 16 \<Longrightarrow> foldl (\<lambda>a c. a * b + digit_val c) 0 (nat_digits b n) = n"
proof (induction b n rule: nat_digits.induct)
  case (1 b n)
  show ?case
  proof (cases "n < b")
    case True
    with 1 show ?thesis by (simp add: nat_digits.simps [of b n])
  next
    case False
    from 1(2,3) have "n mod b < 16" by (meson less_le_trans mod_less_divisor zero_less_numeral order_less_le_trans not_numeral_le_zero not_le)
    with 1 False show ?thesis by (simp add: nat_digits.simps [of b n])
  qed
qed

lemma digits_value_nat_digits:
  assumes "2 \<le> b" "b \<le> 16" shows "digits_value b (nat_digits b n) = Some n"
proof -
  obtain c cs where cs: "nat_digits b n = c # cs" by (cases "nat_digits b n") auto
  have all: "\<forall>x \<in> set (c # cs). x \<noteq> CHR ''_'' \<and> digit_val x < b"
    using nat_digits_set [OF assms, of _ n] digit_char_not_special assms
    unfolding cs by (metis (no_types, lifting) digit_val_digit_char order_less_le_trans)
  then have "digits_value b (c # cs) = Some (foldl (\<lambda>a c. a * b + digit_val c) (digit_val c) cs)"
    using digit_run_append [of cs b "digit_val c" "[]"] by (simp add: digits_value_def)
  then show ?thesis using nat_digits_foldl [OF assms, of n] by (simp add: cs)
qed

lemma nat_digits_no_space:
  assumes "2 \<le> b" "b \<le> 16" shows "\<forall>c \<in> set (nat_digits b n). \<not> re_space c \<and> c \<noteq> CHR ''-'' \<and> c \<noteq> CHR ''+'' \<and> c \<noteq> CHR ''_''"
proof
  fix c assume "c \<in> set (nat_digits b n)"
  then obtain d where "d < b" "c = digit_char d" using nat_digits_set [OF assms] by blast
  with assms(2) show "\<not> re_space c \<and> c \<noteq> CHR ''-'' \<and> c \<noteq> CHR ''+'' \<and> c \<noteq> CHR ''_''"
    using digit_char_not_special [of d] by simp
qed

lemma strip_no_space:
  "\<forall>c \<in> set s. \<not> re_space c \<Longrightarrow> rev (dropWhile re_space (rev (dropWhile re_space s))) = s"
proof -
  assume a: "\<forall>c \<in> set s. \<not> re_space c"
  then have "dropWhile re_space s = s" by (cases s) auto
  moreover from a have "dropWhile re_space (rev s) = rev s" by (cases "rev s") (auto simp: rev_eq_Cons_iff)
  ultimately show ?thesis by simp
qed

lemma decimal_digit_char:
  "d < 10 \<Longrightarrow> digit_char d \<in> set ''0123456789''"
  by (simp add: eval_nat_numeral less_Suc_eq digit_char_def) auto

lemma prefix_base_digits: "prefix_base (nat_digits 10 n) = 0"
proof -
  have d: "c \<in> set ''0123456789''" if "c \<in> set (nat_digits 10 n)" for c
    using nat_digits_set [of 10 c n] that decimal_digit_char by auto
  show ?thesis
  proof (cases "nat_digits 10 n")
    case (Cons a xs)
    then show ?thesis using d by (cases xs) (auto simp: prefix_base_def)
  qed (simp add: prefix_base_def)
qed

lemma py_int_py_str: "py_int (py_str i) 10 = Some i"
proof -
  have d: "digits_value 10 (nat_digits 10 n) = Some n" for n by (rule digits_value_nat_digits) simp_all
  have p: "nat_literal 10 (nat_digits 10 n) = Some n" for n
    by (simp add: nat_literal_def prefix_base_digits d)
  have n: "\<forall>c \<in> set (nat_digits 10 n). \<not> re_space c \<and> c \<noteq> CHR ''-'' \<and> c \<noteq> CHR ''+'' \<and> c \<noteq> CHR ''_''" for n
    by (rule nat_digits_no_space) simp_all
  have m: "\<not> re_space (CHR ''-'')" by (simp add: re_space_def)
  have s: "rev (dropWhile re_space (rev (dropWhile re_space (py_str i)))) = py_str i"
    by (rule strip_no_space) (use n [of "nat \<bar>i\<bar>"] m in \<open>auto simp: py_str_def\<close>)
  obtain c cs where cs: "nat_digits 10 (nat \<bar>i\<bar>) = c # cs" by (cases "nat_digits 10 (nat \<bar>i\<bar>)") auto
  show ?thesis
  proof (cases "i < 0")
    case True
    then show ?thesis using p [of "nat \<bar>i\<bar>"]
      by (simp add: py_int_def Let_def s) (simp add: py_str_def)
  next
    case False
    then show ?thesis using p [of "nat \<bar>i\<bar>"] n [of "nat \<bar>i\<bar>"] cs
      by (simp add: py_int_def Let_def s) (simp add: py_str_def)
  qed
qed

lemma py_int_py_hex: "py_int (py_hex i) 16 = Some i"
proof -
  have d: "digits_value 16 (nat_digits 16 n) = Some n" for n by (rule digits_value_nat_digits) simp_all
  have n: "\<forall>c \<in> set (nat_digits 16 n). \<not> re_space c \<and> c \<noteq> CHR ''-'' \<and> c \<noteq> CHR ''+'' \<and> c \<noteq> CHR ''_''" for n
    by (rule nat_digits_no_space) simp_all
  have a: "after_prefix (CHR ''0'' # CHR ''x'' # nat_digits 16 n) = nat_digits 16 n" for n
    using n [of n] by (auto simp: after_prefix_def Let_def split: list.splits)
  have p: "nat_literal 16 (CHR ''0'' # CHR ''x'' # nat_digits 16 n) = Some n" for n
    by (simp add: nat_literal_def prefix_base_def a d)
  have s: "rev (dropWhile re_space (rev (dropWhile re_space (py_hex i)))) = py_hex i"
    by (rule strip_no_space)
      (use n [of "nat \<bar>i\<bar>"] in \<open>auto simp: py_hex_def re_space_def\<close>)
  show ?thesis
    using p [of "nat \<bar>i\<bar>"] by (simp add: py_int_def Let_def s) (auto simp: py_hex_def)
qed

end
