(* ===== verification/Kconfig_Const.thy ===== *)
theory Kconfig_Const
  imports Prelude
begin

text \<open>
  The global constants of \<^verbatim>\<open>kconfiglib.py\<close>: tristate values and their names, symbol
  types, tokens and the keyword table. The source uses the integers 0, 1, 2 for n, m, y
  and relies on their order (\<^verbatim>\<open>min\<close>, \<^verbatim>\<open>max\<close>) and on 0 being falsy; the model has a
  three-valued datatype with that order.
\<close>

section \<open>Tristate values\<close>

datatype tri = TN | TM | TY

instantiation tri :: linorder
begin

definition less_eq_tri :: "tri \<Rightarrow> tri \<Rightarrow> bool" where
  "less_eq_tri a b = (case a of TN \<Rightarrow> True | TM \<Rightarrow> b \<noteq> TN | TY \<Rightarrow> b = TY)"

definition less_tri :: "tri \<Rightarrow> tri \<Rightarrow> bool" where
  "less_tri a b = (case a of TN \<Rightarrow> b \<noteq> TN | TM \<Rightarrow> b = TY | TY \<Rightarrow> False)"

instance
  by standard (auto simp: less_eq_tri_def less_tri_def split: tri.splits)

end

lemma tri_le_simps [simp]:
  "TN \<le> x" "x \<le> TY" "\<not> TM \<le> TN" "\<not> TY \<le> TN" "\<not> TY \<le> TM" "TM \<le> TM" "TM \<le> TY"
  "(x::tri) \<le> TN \<longleftrightarrow> x = TN" "TY \<le> x \<longleftrightarrow> x = TY"
  by (cases x; simp add: less_eq_tri_def)+

lemma tri_less_simps [simp]:
  "\<not> (x::tri) < TN" "TN < x \<longleftrightarrow> x \<noteq> TN" "\<not> TY < x" "x < TY \<longleftrightarrow> x \<noteq> TY"
  "TM < x \<longleftrightarrow> x = TY" "x < TM \<longleftrightarrow> x = TN"
  by (cases x; simp add: less_tri_def)+

lemma tri_min_simps [simp]:
  "min TN x = TN" "min x TN = TN" "min TY x = x" "min x TY = x" "min TM TM = TM"
  by (cases x; simp add: min_def)+

lemma tri_max_simps [simp]:
  "max TN x = x" "max x TN = x" "max TY x = TY" "max x TY = TY" "max TM TM = TM"
  by (cases x; simp add: max_def)+

text \<open>\<^verbatim>\<open>2 - v\<close>.\<close>

fun tri_neg :: "tri \<Rightarrow> tri" where
  "tri_neg TN = TY"
| "tri_neg TM = TM"
| "tri_neg TY = TN"

text \<open>\<^verbatim>\<open>2*(b)\<close> for a Python bool.\<close>

definition tri_of_bool :: "bool \<Rightarrow> tri" where
  "tri_of_bool b = (if b then TY else TN)"

fun int_of_tri :: "tri \<Rightarrow> int" where
  "int_of_tri TN = 0"
| "int_of_tri TM = 1"
| "int_of_tri TY = 2"

fun TRI_TO_STR :: "tri \<Rightarrow> string" where
  "TRI_TO_STR TN = ''n''"
| "TRI_TO_STR TM = ''m''"
| "TRI_TO_STR TY = ''y''"

definition STR_TO_TRI :: "string \<Rightarrow> tri option" where
  "STR_TO_TRI s =
     (if s = ''n'' then Some TN else if s = ''m'' then Some TM
      else if s = ''y'' then Some TY else None)"

lemma STR_TO_TRI_TRI_TO_STR [simp]: "STR_TO_TRI (TRI_TO_STR t) = Some t"
  by (cases t) (simp_all add: STR_TO_TRI_def)

lemma TRI_TO_STR_inject [simp]: "TRI_TO_STR a = TRI_TO_STR b \<longleftrightarrow> a = b"
  by (cases a; cases b) simp_all

lemma TRI_TO_STR_nonempty [simp]: "TRI_TO_STR t \<noteq> []"
  by (cases t) simp_all

section \<open>Types\<close>

datatype ktype = UNKNOWN | BOOL | TRISTATE | STRING | INT_T | HEX

fun TYPE_TO_STR :: "ktype \<Rightarrow> string" where
  "TYPE_TO_STR UNKNOWN = ''unknown''"
| "TYPE_TO_STR BOOL = ''bool''"
| "TYPE_TO_STR TRISTATE = ''tristate''"
| "TYPE_TO_STR STRING = ''string''"
| "TYPE_TO_STR INT_T = ''int''"
| "TYPE_TO_STR HEX = ''hex''"

text \<open>The base for \<^verbatim>\<open>int(s, base)\<close>; bool and tristate are not keys of the table.\<close>

fun TYPE_TO_BASE :: "ktype \<Rightarrow> nat option" where
  "TYPE_TO_BASE HEX = Some 16"
| "TYPE_TO_BASE INT_T = Some 10"
| "TYPE_TO_BASE STRING = Some 0"
| "TYPE_TO_BASE UNKNOWN = Some 0"
| "TYPE_TO_BASE _ = None"

definition BOOL_TRISTATE :: "ktype set" where
  "BOOL_TRISTATE = {BOOL, TRISTATE}"

definition BOOL_TRISTATE_UNKNOWN :: "ktype set" where
  "BOOL_TRISTATE_UNKNOWN = {BOOL, TRISTATE, UNKNOWN}"

definition INT_HEX :: "ktype set" where
  "INT_HEX = {INT_T, HEX}"

lemma type_sets [simp]:
  "BOOL \<in> BOOL_TRISTATE" "TRISTATE \<in> BOOL_TRISTATE" "STRING \<notin> BOOL_TRISTATE"
  "INT_T \<notin> BOOL_TRISTATE" "HEX \<notin> BOOL_TRISTATE" "UNKNOWN \<notin> BOOL_TRISTATE"
  "INT_T \<in> INT_HEX" "HEX \<in> INT_HEX" "STRING \<notin> INT_HEX" "UNKNOWN \<notin> INT_HEX"
  "BOOL \<notin> INT_HEX" "TRISTATE \<notin> INT_HEX"
  by (simp_all add: BOOL_TRISTATE_def INT_HEX_def)

lemma in_BOOL_TRISTATE: "t \<in> BOOL_TRISTATE \<longleftrightarrow> t = BOOL \<or> t = TRISTATE"
  by (auto simp: BOOL_TRISTATE_def)

lemma in_INT_HEX: "t \<in> INT_HEX \<longleftrightarrow> t = INT_T \<or> t = HEX"
  by (auto simp: INT_HEX_def)

section \<open>Tokens\<close>

datatype token =
    T_ALLNOCONFIG_Y | T_AND | T_BOOL | T_CHOICE | T_CLOSE_PAREN | T_COMMENT | T_CONFIG
  | T_DEFAULT | T_DEFCONFIG_LIST | T_DEF_BOOL | T_DEF_HEX | T_DEF_INT | T_DEF_STRING
  | T_DEF_TRISTATE | T_DEPENDS | T_ENDCHOICE | T_ENDIF | T_ENDMENU | T_ENV | T_EQUAL
  | T_GREATER | T_GREATER_EQUAL | T_HELP | T_HEX | T_IF | T_IMPLY | T_INT | T_LESS
  | T_LESS_EQUAL | T_MAINMENU | T_MENU | T_MENUCONFIG | T_MODULES | T_NOT | T_ON
  | T_OPEN_PAREN | T_OPTION | T_OPTIONAL | T_OR | T_ORSOURCE | T_OSOURCE | T_PROMPT
  | T_RANGE | T_RSOURCE | T_SELECT | T_SOURCE | T_STRING | T_TRISTATE | T_UNEQUAL
  | T_VISIBLE

definition keyword_table :: "(string \<times> token) list" where
  "keyword_table =
    [(''---help---'', T_HELP), (''allnoconfig_y'', T_ALLNOCONFIG_Y), (''bool'', T_BOOL),
     (''boolean'', T_BOOL), (''choice'', T_CHOICE), (''comment'', T_COMMENT),
     (''config'', T_CONFIG), (''def_bool'', T_DEF_BOOL), (''def_hex'', T_DEF_HEX),
     (''def_int'', T_DEF_INT), (''def_string'', T_DEF_STRING),
     (''def_tristate'', T_DEF_TRISTATE), (''default'', T_DEFAULT),
     (''defconfig_list'', T_DEFCONFIG_LIST), (''depends'', T_DEPENDS),
     (''endchoice'', T_ENDCHOICE), (''endif'', T_ENDIF), (''endmenu'', T_ENDMENU),
     (''env'', T_ENV), (''grsource'', T_ORSOURCE), (''gsource'', T_OSOURCE),
     (''help'', T_HELP), (''hex'', T_HEX), (''if'', T_IF), (''imply'', T_IMPLY),
     (''int'', T_INT), (''mainmenu'', T_MAINMENU), (''menu'', T_MENU),
     (''menuconfig'', T_MENUCONFIG), (''modules'', T_MODULES), (''on'', T_ON),
     (''option'', T_OPTION), (''optional'', T_OPTIONAL), (''orsource'', T_ORSOURCE),
     (''osource'', T_OSOURCE), (''prompt'', T_PROMPT), (''range'', T_RANGE),
     (''rsource'', T_RSOURCE), (''select'', T_SELECT), (''source'', T_SOURCE),
     (''string'', T_STRING), (''tristate'', T_TRISTATE), (''visible'', T_VISIBLE)]"

definition get_keyword :: "string \<Rightarrow> token option" where
  "get_keyword s = map_of keyword_table s"

text \<open>Tokens after which a string is expected.\<close>

definition STRING_LEX :: "token list" where
  "STRING_LEX =
    [T_BOOL, T_CHOICE, T_COMMENT, T_HEX, T_INT, T_MAINMENU, T_MENU, T_ORSOURCE, T_OSOURCE,
     T_PROMPT, T_RSOURCE, T_SOURCE, T_STRING, T_TRISTATE]"

text \<open>\<^verbatim>\<open>_DEF_TOKEN_TO_TYPE\<close>, and the types the type tokens stand for.\<close>

fun DEF_TOKEN_TO_TYPE :: "token \<Rightarrow> ktype option" where
  "DEF_TOKEN_TO_TYPE T_DEF_BOOL = Some BOOL"
| "DEF_TOKEN_TO_TYPE T_DEF_HEX = Some HEX"
| "DEF_TOKEN_TO_TYPE T_DEF_INT = Some INT_T"
| "DEF_TOKEN_TO_TYPE T_DEF_STRING = Some STRING"
| "DEF_TOKEN_TO_TYPE T_DEF_TRISTATE = Some TRISTATE"
| "DEF_TOKEN_TO_TYPE _ = None"

fun type_of_token :: "token \<Rightarrow> ktype option" where
  "type_of_token T_BOOL = Some BOOL"
| "type_of_token T_TRISTATE = Some TRISTATE"
| "type_of_token T_INT = Some INT_T"
| "type_of_token T_HEX = Some HEX"
| "type_of_token T_STRING = Some STRING"
| "type_of_token _ = None"

end
