(* ===== verification/Expr.thy ===== *)
theory Expr
  imports Kconfig_Const
begin

text \<open>
  Kconfig expressions and the pure functions on them (\<^verbatim>\<open>_make_and\<close>, \<^verbatim>\<open>_make_or\<close>,
  \<^verbatim>\<open>expr_str\<close>, \<^verbatim>\<open>expr_items\<close>, \<^verbatim>\<open>split_expr\<close>, \<^verbatim>\<open>_expr_depends_on\<close>), string escaping
  and a few of the internal helpers. A symbol object is identified by the table it lives
  in (\<^verbatim>\<open>syms\<close> or \<^verbatim>\<open>const_syms\<close>) and its name, a choice object by a number; so the
  \<^verbatim>\<open>is\<close> of the source on symbols and choices is equality here.
\<close>

section \<open>Symbols, choices, expressions\<close>

datatype sref = SRef (is_constant: bool) (sym_name: string)

datatype sc = Sym sref | Cho nat

datatype rel = EQUAL | UNEQUAL | LESS | LESS_EQUAL | GREATER | GREATER_EQUAL

datatype expr =
    Leaf sc
  | AND expr expr
  | OR expr expr
  | NOT expr
  | REL rel sref sref

definition const_n :: sref where "const_n = SRef True ''n''"
definition const_m :: sref where "const_m = SRef True ''m''"
definition const_y :: sref where "const_y = SRef True ''y''"

abbreviation expr_n :: expr where "expr_n \<equiv> Leaf (Sym const_n)"
abbreviation expr_m :: expr where "expr_m \<equiv> Leaf (Sym const_m)"
abbreviation expr_y :: expr where "expr_y \<equiv> Leaf (Sym const_y)"

lemma const_distinct [simp]:
  "const_n \<noteq> const_m" "const_n \<noteq> const_y" "const_m \<noteq> const_n"
  "const_m \<noteq> const_y" "const_y \<noteq> const_n" "const_y \<noteq> const_m"
  by (simp_all add: const_n_def const_m_def const_y_def)

lemma const_is_constant [simp]:
  "is_constant const_n" "is_constant const_m" "is_constant const_y"
  by (simp_all add: const_n_def const_m_def const_y_def)

text \<open>\<^verbatim>\<open>Kconfig._make_and\<close> and \<^verbatim>\<open>Kconfig._make_or\<close>.\<close>

definition make_and :: "expr \<Rightarrow> expr \<Rightarrow> expr" where
  "make_and e1 e2 =
     (if e1 = expr_y then e2
      else if e2 = expr_y then e1
      else if e1 = expr_n \<or> e2 = expr_n then expr_n
      else AND e1 e2)"

definition make_or :: "expr \<Rightarrow> expr \<Rightarrow> expr" where
  "make_or e1 e2 =
     (if e1 = expr_n then e2
      else if e2 = expr_n then e1
      else if e1 = expr_y \<or> e2 = expr_y then expr_y
      else OR e1 e2)"

section \<open>Walking expressions\<close>

primrec expr_items :: "expr \<Rightarrow> sc set" where
  "expr_items (Leaf x) = {x}"
| "expr_items (AND a b) = expr_items a \<union> expr_items b"
| "expr_items (OR a b) = expr_items a \<union> expr_items b"
| "expr_items (NOT a) = expr_items a"
| "expr_items (REL r a b) = {Sym a, Sym b}"

text \<open>The \<^verbatim>\<open>op\<close> argument is one of the tokens \<^verbatim>\<open>AND\<close> and \<^verbatim>\<open>OR\<close>.\<close>

primrec split_expr :: "expr \<Rightarrow> token \<Rightarrow> expr list" where
  "split_expr (Leaf x) op = [Leaf x]"
| "split_expr (AND a b) op =
     (if op = T_AND then split_expr a op @ split_expr b op else [AND a b])"
| "split_expr (OR a b) op =
     (if op = T_OR then split_expr a op @ split_expr b op else [OR a b])"
| "split_expr (NOT a) op = [NOT a]"
| "split_expr (REL r a b) op = [REL r a b]"

text \<open>
  \<^verbatim>\<open>_expr_depends_on\<close>. The comment in the source says the relations that count are
  \<open>sym = m/y\<close>, \<open>m/y = sym\<close>, \<open>sym != n\<close>, \<open>n != sym\<close>. Python reads
  \<^verbatim>\<open>a and b or c\<close> as \<^verbatim>\<open>(a and b) or c\<close>, so \<open>sym != y\<close> counts as well.
\<close>

primrec expr_depends_on :: "expr \<Rightarrow> sref \<Rightarrow> bool" where
  "expr_depends_on (Leaf x) s = (x = Sym s)"
| "expr_depends_on (REL r l0 r0) s =
     (if r = EQUAL \<or> r = UNEQUAL then
        (if r0 \<noteq> s \<and> l0 \<noteq> s then False
         else (let right = (if r0 = s then l0 else r0)
               in ((r = EQUAL \<and> right = const_m) \<or> right = const_y) \<or>
                  (r = UNEQUAL \<and> right = const_n)))
      else False)"
| "expr_depends_on (AND a b) s = (expr_depends_on a s \<or> expr_depends_on b s)"
| "expr_depends_on (OR a b) s = False"
| "expr_depends_on (NOT a) s = False"

section \<open>Printing\<close>

definition escape :: "string \<Rightarrow> string" where
  "escape s = replace_char CHR 0x22 [CHR 0x5C, CHR 0x22] (replace_char CHR 0x5C [CHR 0x5C, CHR 0x5C] s)"

text \<open>A backslash with any character but a newline after it becomes that character.\<close>

fun unescape :: "string \<Rightarrow> string" where
  "unescape [] = []"
| "unescape [c] = [c]"
| "unescape (c # d # cs) =
     (if c = CHR 0x5C \<and> d \<noteq> newline then d # unescape cs else c # unescape (d # cs))"

fun REL_TO_STR :: "rel \<Rightarrow> string" where
  "REL_TO_STR EQUAL = ''=''"
| "REL_TO_STR UNEQUAL = ''!=''"
| "REL_TO_STR LESS = ''<''"
| "REL_TO_STR LESS_EQUAL = ''<=''"
| "REL_TO_STR GREATER = ''>''"
| "REL_TO_STR GREATER_EQUAL = ''>=''"

text \<open>\<^verbatim>\<open>cname\<close> gives the name of a choice object, if it has one.\<close>

fun standard_sc_expr_str :: "(nat \<Rightarrow> string option) \<Rightarrow> sc \<Rightarrow> string" where
  "standard_sc_expr_str cname (Sym s) =
     (if is_constant s \<and> STR_TO_TRI (sym_name s) = None
      then CHR 0x22 # escape (sym_name s) @ [CHR 0x22]
      else sym_name s)"
| "standard_sc_expr_str cname (Cho c) =
     (case cname c of
        Some n \<Rightarrow> if n = [] then ''<choice>'' else ''<choice '' @ n @ ''>''
      | None \<Rightarrow> ''<choice>'')"

text \<open>
  \<^verbatim>\<open>expr_str\<close>, with \<^verbatim>\<open>_parenthesize\<close> unfolded at its calls by the two tests below (the
  two functions call each other on subexpressions only).
\<close>

fun is_and :: "expr \<Rightarrow> bool" where
  "is_and (AND a b) = True"
| "is_and _ = False"

fun is_or :: "expr \<Rightarrow> bool" where
  "is_or (OR a b) = True"
| "is_or _ = False"

definition parenthesize_if :: "bool \<Rightarrow> string \<Rightarrow> string" where
  "parenthesize_if b s = (if b then ''('' @ s @ '')'' else s)"

primrec expr_str :: "(sc \<Rightarrow> string) \<Rightarrow> expr \<Rightarrow> string" where
  "expr_str f (Leaf x) = f x"
| "expr_str f (AND a b) =
     parenthesize_if (is_or a) (expr_str f a) @ '' && '' @
     parenthesize_if (is_or b) (expr_str f b)"
| "expr_str f (OR a b) =
     parenthesize_if (is_and a) (expr_str f a) @ '' || '' @
     parenthesize_if (is_and b) (expr_str f b)"
| "expr_str f (NOT a) =
     (case a of
        Leaf x \<Rightarrow> ''!'' @ f x
      | _ \<Rightarrow> ''!('' @ expr_str f a @ '')'')"
| "expr_str f (REL r a b) = f (Sym a) @ '' '' @ REL_TO_STR r @ '' '' @ f (Sym b)"

section \<open>Helpers\<close>

definition is_base_n :: "string \<Rightarrow> nat \<Rightarrow> bool" where
  "is_base_n s n = (py_int s n \<noteq> None)"

definition strcmp :: "string \<Rightarrow> string \<Rightarrow> int" where
  "strcmp s1 s2 = (if s1 > s2 then 1 else 0) - (if s1 < s2 then 1 else 0)"

fun ordered_unique_from :: "'a list \<Rightarrow> 'a list \<Rightarrow> 'a list" where
  "ordered_unique_from seen [] = []"
| "ordered_unique_from seen (x # xs) =
     (if x \<in> set seen then ordered_unique_from seen xs
      else x # ordered_unique_from (x # seen) xs)"

definition ordered_unique :: "'a list \<Rightarrow> 'a list" where
  "ordered_unique xs = ordered_unique_from [] xs"

section \<open>Facts\<close>

lemma expr_items_make_and: "expr_items (make_and a b) \<subseteq> expr_items a \<union> expr_items b"
  by (auto simp: make_and_def)

lemma expr_items_make_or: "expr_items (make_or a b) \<subseteq> expr_items a \<union> expr_items b"
  by (auto simp: make_or_def)

lemma expr_items_nonempty: "expr_items e \<noteq> {}"
  by (induction e) auto

lemma expr_depends_on_items: "expr_depends_on e s \<Longrightarrow> Sym s \<in> expr_items e"
  by (induction e) (auto simp: Let_def split: if_splits)

lemma split_expr_nonempty [simp]: "split_expr e op \<noteq> []"
  by (induction e) auto

lemma split_expr_items: "(\<Union>x \<in> set (split_expr e op). expr_items x) = expr_items e"
  by (induction e) auto

lemma split_expr_and_flat: "x \<in> set (split_expr e T_AND) \<Longrightarrow> \<not> is_and x"
  by (induction e) (auto split: if_splits)

lemma split_expr_or_flat: "x \<in> set (split_expr e T_OR) \<Longrightarrow> \<not> is_or x"
  by (induction e) (auto split: if_splits)

lemma escape_Nil [simp]: "escape [] = []"
  by (simp add: escape_def)

lemma escape_Cons:
  "escape (c # cs) =
     (if c = CHR 0x5C then [CHR 0x5C, CHR 0x5C] else if c = CHR 0x22 then [CHR 0x5C, CHR 0x22]
      else [c]) @ escape cs"
  by (simp add: escape_def)

lemma unescape_plain: "c \<noteq> CHR 0x5C \<Longrightarrow> unescape (c # cs) = c # unescape cs"
  by (cases cs) auto

lemma unescape_escape: "unescape (escape s) = s"
  by (induction s) (auto simp: escape_Cons unescape_plain newline_def)

lemma strcmp_sign:
  "strcmp a b = 0 \<longleftrightarrow> a = b" "strcmp a b < 0 \<longleftrightarrow> a < b" "0 < strcmp a b \<longleftrightarrow> b < a"
  by (auto simp: strcmp_def)

lemma set_ordered_unique_from: "set (ordered_unique_from seen xs) = set xs - set seen"
  by (induction seen xs rule: ordered_unique_from.induct) auto

lemma distinct_ordered_unique_from: "distinct (ordered_unique_from seen xs)"
  by (induction seen xs rule: ordered_unique_from.induct) (auto simp: set_ordered_unique_from)

lemma subseq_ordered_unique_from: "subseq (ordered_unique_from seen xs) xs"
  by (induction seen xs rule: ordered_unique_from.induct) auto

end
