(* ===== verification/Config.thy ===== *)
theory Config
  imports Expr
begin

text \<open>
  The objects of a parsed configuration. What parsing and finalisation leave fixed
  (symbols, choices, menu nodes, the tables of the \<^verbatim>\<open>Kconfig\<close> object) is the record
  \<open>kconfig\<close>; what assignments and value computation write (user values, cached values,
  \<^verbatim>\<open>_write_to_conf\<close>, warnings, the lists of a configuration load) is the record
  \<open>kstate\<close>. An attribute of the source object \<open>s\<close> is a field holding a function from
  references, applied to \<open>s\<close>.
\<close>

section \<open>Menu nodes, symbols, choices\<close>

text \<open>\<^verbatim>\<open>MenuNode.item\<close>: a symbol, a choice, \<^verbatim>\<open>MENU\<close>, \<^verbatim>\<open>COMMENT\<close>, or None for an \<^verbatim>\<open>if\<close>.\<close>

datatype node_item = ISym sref | ICho nat | IMenu | IComment | INone

record menu_node =
  item :: node_item
  nd_prompt :: "(string \<times> expr) option"
  dep :: expr
  nd_visibility :: expr
  nd_defaults :: "(expr \<times> expr) list"
  nd_selects :: "(sref \<times> expr) list"
  nd_implies :: "(sref \<times> expr) list"
  nd_ranges :: "(sref \<times> sref \<times> expr) list"
  nd_help :: "string option"
  is_menuconfig :: bool
  nd_next :: "nat option"
  nd_list :: "nat option"
  parent :: "nat option"
  filename :: string
  linenr :: nat

record symbol =
  orig_type :: ktype
  nodes :: "nat list"
  choice :: "nat option"
  defaults :: "(expr \<times> expr) list"
  selects :: "(sref \<times> expr) list"
  implies :: "(sref \<times> expr) list"
  ranges :: "(sref \<times> sref \<times> expr) list"
  direct_dep :: expr
  rev_dep :: expr
  weak_rev_dep :: expr
  env_var :: "string option"
  is_allnoconfig_y :: bool
  dependents :: "sc list"

record choice_obj =
  c_name :: "string option"
  c_orig_type :: ktype
  c_nodes :: "nat list"
  c_syms :: "sref list"
  c_defaults :: "(expr \<times> expr) list"
  c_direct_dep :: expr
  is_optional :: bool
  c_dependents :: "sc list"

text \<open>
  A symbol object as \<^verbatim>\<open>Symbol.__init__\<close> and \<^verbatim>\<open>_lookup_sym\<close> leave it: no type, no
  definition location, dependencies n. Looking up a name in \<^verbatim>\<open>syms\<close> or
  \<^verbatim>\<open>const_syms\<close> that is not there gives such an object.
\<close>

definition fresh_symbol :: symbol where
  "fresh_symbol =
     \<lparr>orig_type = UNKNOWN, nodes = [], choice = None, defaults = [], selects = [],
      implies = [], ranges = [], direct_dep = expr_n, rev_dep = expr_n,
      weak_rev_dep = expr_n, env_var = None, is_allnoconfig_y = False, dependents = []\<rparr>"

definition fresh_choice :: choice_obj where
  "fresh_choice =
     \<lparr>c_name = None, c_orig_type = UNKNOWN, c_nodes = [], c_syms = [], c_defaults = [],
      c_direct_dep = expr_n, is_optional = False, c_dependents = []\<rparr>"

definition fresh_node :: menu_node where
  "fresh_node =
     \<lparr>item = INone, nd_prompt = None, dep = expr_y, nd_visibility = expr_y, nd_defaults = [],
      nd_selects = [], nd_implies = [], nd_ranges = [], nd_help = None, is_menuconfig = False,
      nd_next = None, nd_list = None, parent = None, filename = [], linenr = 0\<rparr>"

section \<open>The configuration\<close>

record kconfig =
  symtab :: "sref \<Rightarrow> symbol option"
  choicetab :: "nat \<Rightarrow> choice_obj"
  nodetab :: "nat \<Rightarrow> menu_node"
  unique_defined_syms :: "sref list"
  unique_choices :: "nat list"
  defconfig_list :: "sref option"
  config_prefix :: string
  config_header :: string
  header_header :: string
  top_node :: nat

text \<open>The three predefined constants have type tristate.\<close>

definition const_symbol :: symbol where
  "const_symbol = fresh_symbol\<lparr>orig_type := TRISTATE\<rparr>"

definition is_nmy :: "sref \<Rightarrow> bool" where
  "is_nmy s = (s = const_n \<or> s = const_m \<or> s = const_y)"

definition sym_obj :: "kconfig \<Rightarrow> sref \<Rightarrow> symbol" where
  "sym_obj kc s =
     (if is_nmy s then const_symbol
      else case symtab kc s of Some x \<Rightarrow> x | None \<Rightarrow> fresh_symbol)"

definition modules :: sref where
  "modules = SRef False ''MODULES''"

text \<open>\<^verbatim>\<open>_locs\<close>, \<^verbatim>\<open>Symbol.name_and_loc\<close>, \<^verbatim>\<open>Choice.name_and_loc\<close>.\<close>

definition node_loc :: "menu_node \<Rightarrow> string" where
  "node_loc n = filename n @ '':'' @ py_str (int (linenr n))"

definition locs :: "kconfig \<Rightarrow> nat list \<Rightarrow> string" where
  "locs kc ns =
     (if ns \<noteq> [] then ''(defined at '' @ join_with '', '' (map (\<lambda>n. node_loc (nodetab kc n)) ns) @ '')''
      else ''(undefined)'')"

definition choice_name :: "kconfig \<Rightarrow> nat \<Rightarrow> string option" where
  "choice_name kc c = c_name (choicetab kc c)"

fun name_and_loc :: "kconfig \<Rightarrow> sc \<Rightarrow> string" where
  "name_and_loc kc (Sym s) = sym_name s @ '' '' @ locs kc (nodes (sym_obj kc s))"
| "name_and_loc kc (Cho c) =
     standard_sc_expr_str (choice_name kc) (Cho c) @ '' '' @ locs kc (c_nodes (choicetab kc c))"

definition sc_nodes :: "kconfig \<Rightarrow> sc \<Rightarrow> nat list" where
  "sc_nodes kc x = (case x of Sym s \<Rightarrow> nodes (sym_obj kc s) | Cho c \<Rightarrow> c_nodes (choicetab kc c))"

definition sc_dependents :: "kconfig \<Rightarrow> sc \<Rightarrow> sc list" where
  "sc_dependents kc x =
     (case x of Sym s \<Rightarrow> dependents (sym_obj kc s) | Cho c \<Rightarrow> c_dependents (choicetab kc c))"

section \<open>The state\<close>

text \<open>
  \<^verbatim>\<open>user_value\<close> of a bool or tristate symbol is one of 0, 1, 2 (\<open>VTri\<close>), of another
  symbol a string (\<open>VStr\<close>); \<^verbatim>\<open>set_value\<close> also takes values of the wrong kind, and
  rejects them.
\<close>

datatype uval = VTri tri | VStr string

record user_state =
  user_value :: "sref \<Rightarrow> uval option"
  c_user_value :: "nat \<Rightarrow> tri option"
  user_selection :: "nat \<Rightarrow> sref option"

text \<open>
  The cached attributes: \<^verbatim>\<open>visibility\<close>, \<^verbatim>\<open>tri_value\<close>, \<^verbatim>\<open>str_value\<close>, \<^verbatim>\<open>selection\<close>
  and \<^verbatim>\<open>assignable\<close>. \<open>cache (QVis x)\<close> is the \<^verbatim>\<open>_cached_vis\<close> field of \<open>x\<close>, and so on;
  None is the empty cache (for a selection, \<^verbatim>\<open>_NO_CACHED_SELECTION\<close>).
\<close>

datatype query = QVis sc | QTri sref | QStr sref | QSel nat | QAss sc

datatype val = VT tri | VS string | VSel "sref option" | VAss "tri list"

fun un_tri :: "val \<Rightarrow> tri" where "un_tri (VT t) = t" | "un_tri _ = TN"
fun un_str :: "val \<Rightarrow> string" where "un_str (VS s) = s" | "un_str _ = []"
fun un_sel :: "val \<Rightarrow> sref option" where "un_sel (VSel s) = s" | "un_sel _ = None"
fun un_ass :: "val \<Rightarrow> tri list" where "un_ass (VAss a) = a" | "un_ass _ = []"

record kstate =
  usr :: user_state
  was_set :: "sref \<Rightarrow> bool"
  c_was_set :: "nat \<Rightarrow> bool"
  cache :: "query \<Rightarrow> val option"
  write_to_conf :: "sref \<Rightarrow> bool"
  warnings :: "string list"
  missing_syms :: "(string \<times> string) list"
  warn :: bool
  warn_assign_undef :: bool
  warn_assign_override :: bool
  warn_assign_redun :: bool
  warn_assign_no_prompt :: bool

text \<open>\<^verbatim>\<open>Kconfig._warn\<close>; the copy on stderr is not modelled.\<close>

definition warn_msg :: "string \<Rightarrow> (string \<times> nat) option \<Rightarrow> string" where
  "warn_msg msg loc =
     (case loc of
        None \<Rightarrow> ''warning: '' @ msg
      | Some (f, l) \<Rightarrow> f @ '':'' @ py_str (int l) @ '': '' @ ''warning: '' @ msg)"

definition add_warning :: "string \<Rightarrow> (string \<times> nat) option \<Rightarrow> kstate \<Rightarrow> kstate" where
  "add_warning msg loc st =
     (if \<not> warn st then st else st\<lparr>warnings := warnings st @ [warn_msg msg loc]\<rparr>)"

text \<open>The cached values the constructor presets: the values of the constants n, m, y.\<close>

definition preset :: "query \<Rightarrow> val option" where
  "preset q =
     (if q = QTri const_n then Some (VT TN)
      else if q = QTri const_m then Some (VT TM)
      else if q = QTri const_y then Some (VT TY)
      else None)"

definition init_user :: user_state where
  "init_user =
     \<lparr>user_value = (\<lambda>_. None), c_user_value = (\<lambda>_. None), user_selection = (\<lambda>_. None)\<rparr>"

definition init_state :: kstate where
  "init_state =
     \<lparr>usr = init_user, was_set = (\<lambda>_. False), c_was_set = (\<lambda>_. False), cache = preset,
      write_to_conf = (\<lambda>_. False), warnings = [], missing_syms = [], warn = True,
      warn_assign_undef = False, warn_assign_override = True, warn_assign_redun = True,
      warn_assign_no_prompt = True\<rparr>"

section \<open>Facts\<close>

lemma sym_obj_const [simp]:
  "sym_obj kc const_n = const_symbol" "sym_obj kc const_m = const_symbol"
  "sym_obj kc const_y = const_symbol"
  by (simp_all add: sym_obj_def is_nmy_def)

lemma is_nmy_type: "is_nmy k \<Longrightarrow> orig_type (sym_obj kc k) = TRISTATE"
  by (simp add: sym_obj_def const_symbol_def)

lemma preset_simps [simp]:
  "preset (QTri const_n) = Some (VT TN)" "preset (QTri const_m) = Some (VT TM)"
  "preset (QTri const_y) = Some (VT TY)" "preset (QVis x) = None" "preset (QStr s) = None"
  "preset (QSel c) = None" "preset (QAss x) = None"
  by (simp_all add: preset_def)

lemma preset_QTri: "\<not> is_nmy s \<Longrightarrow> preset (QTri s) = None"
  by (simp add: preset_def is_nmy_def)

lemma modules_not_nmy [simp]: "\<not> is_nmy modules"
  by (simp add: modules_def is_nmy_def const_n_def const_m_def const_y_def)

lemma add_warning_fields [simp]:
  "usr (add_warning m l st) = usr st" "cache (add_warning m l st) = cache st"
  "was_set (add_warning m l st) = was_set st" "c_was_set (add_warning m l st) = c_was_set st"
  "write_to_conf (add_warning m l st) = write_to_conf st"
  "missing_syms (add_warning m l st) = missing_syms st" "warn (add_warning m l st) = warn st"
  "warn_assign_no_prompt (add_warning m l st) = warn_assign_no_prompt st"
  by (simp_all add: add_warning_def)

end
