(* ===== verification/Attr_Prog.thy ===== *)
theory Attr_Prog
  imports Config
begin

text \<open>
  Programs that read attributes. In the source an attribute access such as
  \<^verbatim>\<open>sym.visibility\<close> is a hidden function call (a property): it returns the cached value
  if there is one, and otherwise computes, caches and returns it. The bodies of these
  properties are translated to values of the type \<open>prog\<close>: a program returns, raises an
  exception, reads an attribute and continues with its value, assigns
  \<^verbatim>\<open>_write_to_conf\<close>, or emits a warning. Two interpreters give such a program its
  meaning: \<open>interp\<close>, with no state, where an attribute is whatever a given reader says,
  and \<open>run\<close>, the one the source executes, over the state with its caches.
\<close>

section \<open>Programs\<close>

datatype 'a prog =
    Ret 'a
  | Raise exn
  | ReadQ query "val \<Rightarrow> 'a prog"
  | SetW sref bool "'a prog"
  | Warn string "'a prog"

primrec bindp :: "'a prog \<Rightarrow> ('a \<Rightarrow> 'b prog) \<Rightarrow> 'b prog" where
  "bindp (Ret a) f = f a"
| "bindp (Raise e) f = Raise e"
| "bindp (ReadQ q k) f = ReadQ q (\<lambda>v. bindp (k v) f)"
| "bindp (SetW s b p) f = SetW s b (bindp p f)"
| "bindp (Warn m p) f = Warn m (bindp p f)"

text \<open>The attribute accesses.\<close>

definition rd_vis :: "sc \<Rightarrow> tri prog" where
  "rd_vis x = ReadQ (QVis x) (\<lambda>v. Ret (un_tri v))"

definition rd_tri :: "sref \<Rightarrow> tri prog" where
  "rd_tri s = ReadQ (QTri s) (\<lambda>v. Ret (un_tri v))"

definition rd_str :: "sref \<Rightarrow> string prog" where
  "rd_str s = ReadQ (QStr s) (\<lambda>v. Ret (un_str v))"

definition rd_sel :: "nat \<Rightarrow> sref option prog" where
  "rd_sel c = ReadQ (QSel c) (\<lambda>v. Ret (un_sel v))"

definition rd_ass :: "sc \<Rightarrow> tri list prog" where
  "rd_ass x = ReadQ (QAss x) (\<lambda>v. Ret (un_ass v))"

section \<open>The two interpreters\<close>

primrec interp :: "(query \<Rightarrow> exn + val) \<Rightarrow> 'a prog \<Rightarrow> exn + 'a" where
  "interp rd (Ret a) = Inr a"
| "interp rd (Raise e) = Inl e"
| "interp rd (ReadQ q k) = (case rd q of Inl e \<Rightarrow> Inl e | Inr v \<Rightarrow> interp rd (k v))"
| "interp rd (SetW s b p) = interp rd p"
| "interp rd (Warn m p) = interp rd p"

primrec run :: "(query \<Rightarrow> kstate \<Rightarrow> (exn + val) \<times> kstate) \<Rightarrow> 'a prog \<Rightarrow> kstate \<Rightarrow>
    (exn + 'a) \<times> kstate" where
  "run rd (Ret a) st = (Inr a, st)"
| "run rd (Raise e) st = (Inl e, st)"
| "run rd (ReadQ q k) st =
     (case rd q st of (Inl e, st') \<Rightarrow> (Inl e, st') | (Inr v, st') \<Rightarrow> run rd (k v) st')"
| "run rd (SetW s b p) st = run rd p (st\<lparr>write_to_conf := (write_to_conf st)(s := b)\<rparr>)"
| "run rd (Warn m p) st = run rd p (add_warning m None st)"

text \<open>\<open>allows spec p a\<close>: \<open>p\<close> returns \<open>a\<close> when every read gets a value \<open>spec\<close> allows.\<close>

primrec allows :: "(query \<Rightarrow> val \<Rightarrow> bool) \<Rightarrow> 'a prog \<Rightarrow> 'a \<Rightarrow> bool" where
  "allows spec (Ret a) b = (a = b)"
| "allows spec (Raise e) b = False"
| "allows spec (ReadQ q k) b = (\<exists>v. spec q v \<and> allows spec (k v) b)"
| "allows spec (SetW s c p) b = allows spec p b"
| "allows spec (Warn m p) b = allows spec p b"

text \<open>\<open>reads_below P p\<close>: whatever the attributes are, \<open>p\<close> reads only attributes in \<open>P\<close>.
  \<open>no_raise p\<close>: whatever they are, \<open>p\<close> raises nothing itself.\<close>

primrec reads_below :: "(query \<Rightarrow> bool) \<Rightarrow> 'a prog \<Rightarrow> bool" where
  "reads_below P (Ret a) = True"
| "reads_below P (Raise e) = True"
| "reads_below P (ReadQ q k) = (P q \<and> (\<forall>v. reads_below P (k v)))"
| "reads_below P (SetW s b p) = reads_below P p"
| "reads_below P (Warn m p) = reads_below P p"

primrec no_raise :: "'a prog \<Rightarrow> bool" where
  "no_raise (Ret a) = True"
| "no_raise (Raise e) = False"
| "no_raise (ReadQ q k) = (\<forall>v. no_raise (k v))"
| "no_raise (SetW s b p) = no_raise p"
| "no_raise (Warn m p) = no_raise p"

section \<open>Laws of programs\<close>

lemma bindp_Ret [simp]: "bindp p Ret = p"
  by (induction p) auto

lemma bindp_assoc [simp]: "bindp (bindp p f) g = bindp p (\<lambda>a. bindp (f a) g)"
  by (induction p) auto

lemma interp_bindp [evals]:
  "interp rd (bindp p f) = (case interp rd p of Inl e \<Rightarrow> Inl e | Inr a \<Rightarrow> interp rd (f a))"
  by (induction p) (auto split: sum.splits)

lemma run_bindp [evals]:
  "run rd (bindp p f) st =
     (case run rd p st of (Inl e, st') \<Rightarrow> (Inl e, st') | (Inr a, st') \<Rightarrow> run rd (f a) st')"
  by (induction p arbitrary: st) (auto split: sum.splits prod.splits)

lemma reads_below_bindp [intro]:
  "reads_below P p \<Longrightarrow> (\<And>a. reads_below P (f a)) \<Longrightarrow> reads_below P (bindp p f)"
  by (induction p) auto

lemma no_raise_bindp [intro]:
  "no_raise p \<Longrightarrow> (\<And>a. no_raise (f a)) \<Longrightarrow> no_raise (bindp p f)"
  by (induction p) auto

lemma interp_rd [evals]:
  "interp rd (rd_vis x) = map_sum id un_tri (rd (QVis x))"
  "interp rd (rd_tri s) = map_sum id un_tri (rd (QTri s))"
  "interp rd (rd_str s) = map_sum id un_str (rd (QStr s))"
  "interp rd (rd_sel c) = map_sum id un_sel (rd (QSel c))"
  "interp rd (rd_ass x) = map_sum id un_ass (rd (QAss x))"
  by (simp_all add: rd_vis_def rd_tri_def rd_str_def rd_sel_def rd_ass_def split: sum.splits)

lemma reads_below_rd [simp]:
  "reads_below P (rd_vis x) = P (QVis x)" "reads_below P (rd_tri s) = P (QTri s)"
  "reads_below P (rd_str s) = P (QStr s)" "reads_below P (rd_sel c) = P (QSel c)"
  "reads_below P (rd_ass x) = P (QAss x)"
  by (simp_all add: rd_vis_def rd_tri_def rd_str_def rd_sel_def rd_ass_def)

lemma no_raise_rd [simp]:
  "no_raise (rd_vis x)" "no_raise (rd_tri s)" "no_raise (rd_str s)" "no_raise (rd_sel c)"
  "no_raise (rd_ass x)"
  by (simp_all add: rd_vis_def rd_tri_def rd_str_def rd_sel_def rd_ass_def)

text \<open>A reader that answers more queries gives the same results.\<close>

lemma interp_mono:
  "interp rd p = Inr a \<Longrightarrow> (\<And>q v. rd q = Inr v \<Longrightarrow> rd' q = Inr v) \<Longrightarrow> interp rd' p = Inr a"
  by (induction p) (auto split: sum.splits)

text \<open>A program that raises nothing returns, if its reader answers every query it reads.\<close>

lemma interp_total:
  "reads_below P p \<Longrightarrow> no_raise p \<Longrightarrow> (\<And>q. P q \<Longrightarrow> \<exists>v. rd q = Inr v) \<Longrightarrow> \<exists>a. interp rd p = Inr a"
proof (induction p)
  case (ReadQ q k)
  have "P q" using ReadQ.prems(1) by simp
  then obtain v where v: "rd q = Inr v" using ReadQ.prems(3) by blast
  have "\<exists>a. interp rd (k v) = Inr a"
    using ReadQ.IH [of "k v"] ReadQ.prems by simp
  with v show ?case by simp
qed auto

section \<open>Readers that keep an invariant\<close>

text \<open>
  The contract between the property bodies and the cached reader: a reader that, from a
  state satisfying \<open>inv\<close>, answers only with values \<open>spec\<close> allows and keeps \<open>inv\<close>,
  gives every program a run whose result is one the specification reader gives.
\<close>

locale sound_reader =
  fixes rd :: "query \<Rightarrow> kstate \<Rightarrow> (exn + val) \<times> kstate"
    and spec :: "query \<Rightarrow> val \<Rightarrow> bool"
    and inv :: "kstate \<Rightarrow> bool"
  assumes rd_sound: "inv st \<Longrightarrow> rd q st = (Inr v, st') \<Longrightarrow> spec q v"
    and rd_inv: "inv st \<Longrightarrow> rd q st = (r, st') \<Longrightarrow> inv st'"
    and setw_inv: "inv st \<Longrightarrow> inv (st\<lparr>write_to_conf := f\<rparr>)"
    and warn_inv: "inv st \<Longrightarrow> inv (add_warning m l st)"
begin

lemma run_inv: "inv st \<Longrightarrow> run rd p st = (r, st') \<Longrightarrow> inv st'"
proof (induction p arbitrary: st)
  case (ReadQ q k)
  then show ?case by (auto split: prod.splits sum.splits dest: rd_inv)
qed (auto intro: setw_inv warn_inv)

lemma run_allows: "inv st \<Longrightarrow> run rd p st = (Inr a, st') \<Longrightarrow> allows spec p a"
proof (induction p arbitrary: st)
  case (ReadQ q k)
  obtain v st1 where r: "rd q st = (Inr v, st1)" "run rd (k v) st1 = (Inr a, st')"
    using ReadQ.prems(2) by (auto split: prod.splits sum.splits)
  have "allows spec (k v) a"
    using ReadQ.IH [OF _ rd_inv [OF ReadQ.prems(1) r(1)] r(2)] by blast
  with rd_sound [OF ReadQ.prems(1) r(1)] show ?case by auto
qed (auto intro: setw_inv warn_inv)

end

text \<open>
  A reader that moreover answers whatever a stateless reader \<open>rd'\<close> answers runs every
  program to the result it has under \<open>rd'\<close>.
\<close>

locale complete_reader = sound_reader +
  fixes rd' :: "query \<Rightarrow> exn + val"
  assumes rd_complete: "inv st \<Longrightarrow> rd' q = Inr v \<Longrightarrow> \<exists>st'. rd q st = (Inr v, st')"
begin

lemma run_complete: "inv st \<Longrightarrow> interp rd' p = Inr a \<Longrightarrow> \<exists>st'. run rd p st = (Inr a, st')"
proof (induction p arbitrary: st)
  case (ReadQ q k)
  obtain v where v: "rd' q = Inr v" "interp rd' (k v) = Inr a"
    using ReadQ.prems(2) by (auto split: sum.splits)
  obtain st1 where st1: "rd q st = (Inr v, st1)" using rd_complete [OF ReadQ.prems(1) v(1)] by blast
  obtain st' where "run rd (k v) st1 = (Inr a, st')"
    using ReadQ.IH [OF _ rd_inv [OF ReadQ.prems(1) st1] v(2)] by blast
  with st1 show ?case by auto
qed (auto intro: setw_inv warn_inv)

end

end
