(* ===== verification/Values.thy ===== *)
theory Values
  imports Attr_Prog
begin

text \<open>
  The values of symbols and choices: \<^verbatim>\<open>expr_value\<close>, \<^verbatim>\<open>_visibility\<close>, \<^verbatim>\<open>Symbol.type\<close>,
  \<^verbatim>\<open>Symbol.tri_value\<close>, \<^verbatim>\<open>Symbol.str_value\<close>, \<^verbatim>\<open>Symbol._assignable\<close>,
  \<^verbatim>\<open>Symbol._str_default\<close>, \<^verbatim>\<open>Choice.type\<close>, \<^verbatim>\<open>Choice.tri_value\<close>, \<^verbatim>\<open>Choice._selection\<close>,
  \<^verbatim>\<open>Choice._assignable\<close>. Each is the body of the property as an attribute program;
  \<open>attr_body\<close> collects the cached ones. \<^verbatim>\<open>Choice.tri_value\<close> and the two \<^verbatim>\<open>type\<close>
  properties are not cached in the source, so they are called in place here.
\<close>

section \<open>Choice mode\<close>

definition choice_type :: "kconfig \<Rightarrow> nat \<Rightarrow> ktype prog" where
  "choice_type kc c =
     (if c_orig_type (choicetab kc c) = TRISTATE
      then bindp (rd_tri modules) (\<lambda>m. Ret (if m = TN then BOOL else TRISTATE))
      else Ret (c_orig_type (choicetab kc c)))"

definition choice_tri :: "kconfig \<Rightarrow> user_state \<Rightarrow> nat \<Rightarrow> tri prog" where
  "choice_tri kc u c =
     (let val0 = (if is_optional (choicetab kc c) then TN else TM);
          val1 = (case c_user_value u c of None \<Rightarrow> val0 | Some t \<Rightarrow> max val0 t)
      in bindp (rd_vis (Cho c)) (\<lambda>vis.
           let val2 = min val1 vis
           in if val2 = TM
              then bindp (choice_type kc c) (\<lambda>ty. Ret (if ty = BOOL then TY else val2))
              else Ret val2))"

definition choice_str :: "kconfig \<Rightarrow> user_state \<Rightarrow> nat \<Rightarrow> string prog" where
  "choice_str kc u c = bindp (choice_tri kc u c) (\<lambda>t. Ret (TRI_TO_STR t))"

section \<open>Expressions\<close>

text \<open>\<^verbatim>\<open>_sym_to_num\<close>; None stands for the \<^verbatim>\<open>ValueError\<close>, which \<^verbatim>\<open>expr_value\<close> catches.\<close>

definition sym_to_num :: "kconfig \<Rightarrow> sref \<Rightarrow> int option prog" where
  "sym_to_num kc s =
     (case TYPE_TO_BASE (orig_type (sym_obj kc s)) of
        None \<Rightarrow> bindp (rd_tri s) (\<lambda>t. Ret (Some (int_of_tri t)))
      | Some b \<Rightarrow> bindp (rd_str s) (\<lambda>v. Ret (py_int v b)))"

definition str_compare :: "sref \<Rightarrow> sref \<Rightarrow> int prog" where
  "str_compare v1 v2 = bindp (rd_str v1) (\<lambda>a. bindp (rd_str v2) (\<lambda>b. Ret (strcmp a b)))"

definition rel_compare :: "kconfig \<Rightarrow> sref \<Rightarrow> sref \<Rightarrow> int prog" where
  "rel_compare kc v1 v2 =
     (if orig_type (sym_obj kc v1) = STRING \<and> orig_type (sym_obj kc v2) = STRING
      then str_compare v1 v2
      else bindp (sym_to_num kc v1) (\<lambda>n1.
             case n1 of None \<Rightarrow> str_compare v1 v2
             | Some a \<Rightarrow> bindp (sym_to_num kc v2) (\<lambda>n2.
                 case n2 of None \<Rightarrow> str_compare v1 v2 | Some b \<Rightarrow> Ret (a - b))))"

fun rel_holds :: "rel \<Rightarrow> int \<Rightarrow> bool" where
  "rel_holds EQUAL cmp = (cmp = 0)"
| "rel_holds UNEQUAL cmp = (cmp \<noteq> 0)"
| "rel_holds LESS cmp = (cmp < 0)"
| "rel_holds LESS_EQUAL cmp = (cmp \<le> 0)"
| "rel_holds GREATER cmp = (cmp > 0)"
| "rel_holds GREATER_EQUAL cmp = (cmp \<ge> 0)"

primrec expr_value :: "kconfig \<Rightarrow> user_state \<Rightarrow> expr \<Rightarrow> tri prog" where
  "expr_value kc u (Leaf x) = (case x of Sym s \<Rightarrow> rd_tri s | Cho c \<Rightarrow> choice_tri kc u c)"
| "expr_value kc u (AND a b) =
     bindp (expr_value kc u a) (\<lambda>v1.
       if v1 = TN then Ret TN else bindp (expr_value kc u b) (\<lambda>v2. Ret (min v1 v2)))"
| "expr_value kc u (OR a b) =
     bindp (expr_value kc u a) (\<lambda>v1.
       if v1 = TY then Ret TY else bindp (expr_value kc u b) (\<lambda>v2. Ret (max v1 v2)))"
| "expr_value kc u (NOT a) = bindp (expr_value kc u a) (\<lambda>v. Ret (tri_neg v))"
| "expr_value kc u (REL r a b) =
     bindp (rel_compare kc a b) (\<lambda>cmp. Ret (tri_of_bool (rel_holds r cmp)))"

text \<open>\<^verbatim>\<open>x.str_value\<close> for the value of a default, which is a symbol after the sanity check.\<close>

fun expr_str_value :: "kconfig \<Rightarrow> user_state \<Rightarrow> expr \<Rightarrow> string prog" where
  "expr_str_value kc u (Leaf (Sym s)) = rd_str s"
| "expr_str_value kc u (Leaf (Cho c)) = choice_str kc u c"
| "expr_str_value kc u _ = Raise AttributeError"

text \<open>
  The loops \<^verbatim>\<open>for ..., cond in xs: v = expr_value(cond); if v: ...; break\<close>: the first
  entry whose condition is not n, with the value of the condition.
\<close>

primrec first_cond :: "kconfig \<Rightarrow> user_state \<Rightarrow> ('a \<Rightarrow> expr) \<Rightarrow> 'a list \<Rightarrow> ('a \<times> tri) option prog" where
  "first_cond kc u cond [] = Ret None"
| "first_cond kc u cond (x # xs) =
     bindp (expr_value kc u (cond x)) (\<lambda>v.
       if v \<noteq> TN then Ret (Some (x, v)) else first_cond kc u cond xs)"

section \<open>Symbol type and visibility\<close>

definition modules_type :: "ktype prog" where
  "modules_type = bindp (rd_tri modules) (\<lambda>m. Ret (if m = TN then BOOL else TRISTATE))"

definition sym_type :: "kconfig \<Rightarrow> user_state \<Rightarrow> sref \<Rightarrow> ktype prog" where
  "sym_type kc u s =
     (if orig_type (sym_obj kc s) = TRISTATE then
        (case choice (sym_obj kc s) of
           Some c \<Rightarrow> bindp (choice_tri kc u c) (\<lambda>t. if t = TY then Ret BOOL else modules_type)
         | None \<Rightarrow> modules_type)
      else Ret (orig_type (sym_obj kc s)))"

fun sc_type :: "kconfig \<Rightarrow> user_state \<Rightarrow> sc \<Rightarrow> ktype prog" where
  "sc_type kc u (Sym s) = sym_type kc u s"
| "sc_type kc u (Cho c) = choice_type kc c"

text \<open>The loop over the menu nodes: the largest value of a prompt condition.\<close>

primrec prompt_vis :: "kconfig \<Rightarrow> user_state \<Rightarrow> nat list \<Rightarrow> tri \<Rightarrow> tri prog" where
  "prompt_vis kc u [] vis = Ret vis"
| "prompt_vis kc u (n # ns) vis =
     (case nd_prompt (nodetab kc n) of
        None \<Rightarrow> prompt_vis kc u ns vis
      | Some (_, cond) \<Rightarrow>
          bindp (expr_value kc u cond) (\<lambda>v. prompt_vis kc u ns (max vis v)))"

text \<open>Promotion of m to y for whatever is not a tristate (now).\<close>

definition promote_vis :: "kconfig \<Rightarrow> user_state \<Rightarrow> sc \<Rightarrow> tri \<Rightarrow> tri prog" where
  "promote_vis kc u x vis =
     (if vis = TM then bindp (sc_type kc u x) (\<lambda>ty. Ret (if ty \<noteq> TRISTATE then TY else vis))
      else Ret vis)"

definition visibility :: "kconfig \<Rightarrow> user_state \<Rightarrow> sc \<Rightarrow> tri prog" where
  "visibility kc u x =
     bindp (prompt_vis kc u (sc_nodes kc x) TN) (\<lambda>vis.
       case x of
         Cho c \<Rightarrow> promote_vis kc u x vis
       | Sym s \<Rightarrow>
           (case choice (sym_obj kc s) of
              None \<Rightarrow> promote_vis kc u x vis
            | Some c \<Rightarrow>
                if orig_type (sym_obj kc s) \<noteq> TRISTATE then
                  (if c_orig_type (choicetab kc c) = TRISTATE
                   then bindp (choice_tri kc u c) (\<lambda>t.
                          if t \<noteq> TY then Ret TN else promote_vis kc u x vis)
                   else promote_vis kc u x vis)
                else if vis = TM
                then bindp (choice_tri kc u c) (\<lambda>t.
                       if t = TY then Ret TN else promote_vis kc u x vis)
                else promote_vis kc u x vis))"

section \<open>Choice selection\<close>

primrec first_visible :: "sref list \<Rightarrow> sref option prog" where
  "first_visible [] = Ret None"
| "first_visible (s # ss) =
     bindp (rd_vis (Sym s)) (\<lambda>v. if v \<noteq> TN then Ret (Some s) else first_visible ss)"

text \<open>A default of a choice is a symbol once \<^verbatim>\<open>_check_choice_sanity\<close> has passed.\<close>

primrec default_selection ::
  "kconfig \<Rightarrow> user_state \<Rightarrow> (expr \<times> expr) list \<Rightarrow> sref option prog \<Rightarrow> sref option prog" where
  "default_selection kc u [] otherwise = otherwise"
| "default_selection kc u (d # ds) otherwise =
     bindp (expr_value kc u (snd d)) (\<lambda>v.
       if v = TN then default_selection kc u ds otherwise
       else (case fst d of
               Leaf (Sym s) \<Rightarrow>
                 bindp (rd_vis (Sym s)) (\<lambda>w.
                   if w \<noteq> TN then Ret (Some s) else default_selection kc u ds otherwise)
             | _ \<Rightarrow> Raise AttributeError))"

definition selection_from_defaults :: "kconfig \<Rightarrow> user_state \<Rightarrow> nat \<Rightarrow> sref option prog" where
  "selection_from_defaults kc u c =
     default_selection kc u (c_defaults (choicetab kc c))
       (first_visible (c_syms (choicetab kc c)))"

definition selection :: "kconfig \<Rightarrow> user_state \<Rightarrow> nat \<Rightarrow> sref option prog" where
  "selection kc u c =
     bindp (choice_tri kc u c) (\<lambda>t.
       if t \<noteq> TY then Ret None
       else (case user_selection u c of
               None \<Rightarrow> selection_from_defaults kc u c
             | Some s \<Rightarrow>
                 bindp (rd_vis (Sym s)) (\<lambda>v.
                   if v \<noteq> TN then Ret (Some s) else selection_from_defaults kc u c)))"

definition choice_assignable :: "kconfig \<Rightarrow> user_state \<Rightarrow> nat \<Rightarrow> tri list prog" where
  "choice_assignable kc u c =
     bindp (rd_vis (Cho c)) (\<lambda>vis.
       if vis = TN then Ret []
       else if vis = TY then
         bindp (choice_type kc c) (\<lambda>ty.
           if \<not> is_optional (choicetab kc c)
           then Ret (if ty = BOOL then [TY] else [TM, TY])
           else Ret (if ty = BOOL then [TN, TY] else [TN, TM, TY]))
       else Ret (if is_optional (choicetab kc c) then [TN, TM] else [TM]))"

section \<open>Tristate values of symbols\<close>

fun sc_str_value :: "kconfig \<Rightarrow> user_state \<Rightarrow> sc \<Rightarrow> string prog" where
  "sc_str_value kc u (Sym s) = rd_str s"
| "sc_str_value kc u (Cho c) = choice_str kc u c"

fun sc_direct_dep :: "kconfig \<Rightarrow> sc \<Rightarrow> expr" where
  "sc_direct_dep kc (Sym s) = direct_dep (sym_obj kc s)"
| "sc_direct_dep kc (Cho c) = c_direct_dep (choicetab kc c)"

definition kc_expr_str :: "kconfig \<Rightarrow> expr \<Rightarrow> string" where
  "kc_expr_str kc e = expr_str (standard_sc_expr_str (choice_name kc)) e"

text \<open>\<^verbatim>\<open>_warn_select_unsatisfied_deps\<close>: the lines for the selects, then the whole warning.\<close>

definition select_line :: "kconfig \<Rightarrow> user_state \<Rightarrow> expr \<Rightarrow> string prog" where
  "select_line kc u sel =
     (case hd (split_expr sel T_AND) of
        Leaf x \<Rightarrow>
          bindp (sc_str_value kc u x) (\<lambda>sv.
          bindp (expr_value kc u (sc_direct_dep kc x)) (\<lambda>dv.
            let msg = newline # '' - '' @ name_and_loc kc x @ '', with value '' @ sv @
                      '', direct dependencies '' @ kc_expr_str kc (sc_direct_dep kc x) @
                      '' (value: '' @ TRI_TO_STR dv @ '')''
            in case sel of
                 AND a b \<Rightarrow>
                   bindp (expr_value kc u b) (\<lambda>cv.
                     Ret (msg @ '', and select condition '' @ kc_expr_str kc b @
                          '' (value: '' @ TRI_TO_STR cv @ '')''))
               | _ \<Rightarrow> Ret msg))
      | _ \<Rightarrow> Raise AttributeError)"

primrec select_lines :: "kconfig \<Rightarrow> user_state \<Rightarrow> expr \<Rightarrow> expr list \<Rightarrow> string prog" where
  "select_lines kc u ddep [] = Ret []"
| "select_lines kc u ddep (sel # sels) =
     bindp (expr_value kc u sel) (\<lambda>v.
     bindp (expr_value kc u ddep) (\<lambda>d.
       if v \<le> d then select_lines kc u ddep sels
       else bindp (select_line kc u sel) (\<lambda>l.
              bindp (select_lines kc u ddep sels) (\<lambda>ls. Ret (l @ ls)))))"

definition warn_select_unsatisfied_deps :: "kconfig \<Rightarrow> user_state \<Rightarrow> sref \<Rightarrow> unit prog" where
  "warn_select_unsatisfied_deps kc u s =
     (let o_s = sym_obj kc s
      in bindp (expr_value kc u (direct_dep o_s)) (\<lambda>dv.
         bindp (expr_value kc u (rev_dep o_s)) (\<lambda>rv.
         bindp (select_lines kc u (direct_dep o_s) (split_expr (rev_dep o_s) T_OR)) (\<lambda>ls.
           Warn (name_and_loc kc (Sym s) @ '' has direct dependencies '' @
                 kc_expr_str kc (direct_dep o_s) @ '' with value '' @ TRI_TO_STR dv @
                 '', but is currently being '' @ TRI_TO_STR rv @
                 ''-selected by the following symbols:'' @ ls)
             (Ret ())))))"

text \<open>
  The parts of \<^verbatim>\<open>Symbol.tri_value\<close> for a symbol outside a choice: the value from
  defaults and implies, then selects, then the promotion of m to y.
\<close>

definition tri_from_defaults :: "kconfig \<Rightarrow> user_state \<Rightarrow> sref \<Rightarrow> tri prog" where
  "tri_from_defaults kc u s =
     bindp (first_cond kc u snd (defaults (sym_obj kc s))) (\<lambda>d.
     bindp (case d of
              None \<Rightarrow> Ret TN
            | Some (e, dep_val) \<Rightarrow>
                bindp (expr_value kc u (fst e)) (\<lambda>v.
                  let val = min v dep_val
                  in if val \<noteq> TN then SetW s True (Ret val) else Ret val)) (\<lambda>val.
     bindp (expr_value kc u (weak_rev_dep (sym_obj kc s))) (\<lambda>dep_val.
       if dep_val \<noteq> TN
       then bindp (expr_value kc u (direct_dep (sym_obj kc s))) (\<lambda>dd.
              if dd \<noteq> TN then SetW s True (Ret (max dep_val val)) else Ret val)
       else Ret val)))"

definition tri_with_selects :: "kconfig \<Rightarrow> user_state \<Rightarrow> sref \<Rightarrow> tri \<Rightarrow> tri prog" where
  "tri_with_selects kc u s val =
     bindp (expr_value kc u (rev_dep (sym_obj kc s))) (\<lambda>dep_val.
       if dep_val \<noteq> TN
       then bindp (expr_value kc u (direct_dep (sym_obj kc s))) (\<lambda>dd.
              bindp (if dd < dep_val then warn_select_unsatisfied_deps kc u s else Ret ()) (\<lambda>_.
                SetW s True (Ret (max dep_val val))))
       else Ret val)"

definition tri_promote :: "kconfig \<Rightarrow> user_state \<Rightarrow> sref \<Rightarrow> tri \<Rightarrow> tri prog" where
  "tri_promote kc u s val =
     (if val = TM
      then bindp (sym_type kc u s) (\<lambda>ty.
             if ty = BOOL then Ret TY
             else bindp (expr_value kc u (weak_rev_dep (sym_obj kc s))) (\<lambda>w.
                    Ret (if w = TY then TY else val)))
      else Ret val)"

text \<open>\<^verbatim>\<open>Symbol.tri_value\<close>.\<close>

definition sym_tri :: "kconfig \<Rightarrow> user_state \<Rightarrow> sref \<Rightarrow> tri prog" where
  "sym_tri kc u s =
     (let o_s = sym_obj kc s
      in if orig_type o_s \<notin> BOOL_TRISTATE then
           (if orig_type o_s \<noteq> UNKNOWN
            then Warn (''The '' @ TYPE_TO_STR (orig_type o_s) @ '' symbol '' @
                       name_and_loc kc (Sym s) @
                       '' is being evaluated in a logical context somewhere. '' @
                       ''It will always evaluate to n.'') (Ret TN)
            else Ret TN)
         else
           bindp (rd_vis (Sym s)) (\<lambda>vis. SetW s (vis \<noteq> TN)
             (case choice o_s of
                None \<Rightarrow>
                  bindp (case (if vis \<noteq> TN then user_value u s else None) of
                           Some (VTri t) \<Rightarrow> Ret (min t vis)
                         | Some (VStr _) \<Rightarrow> Raise TypeError
                         | None \<Rightarrow> tri_from_defaults kc u s) (\<lambda>val.
                  bindp (tri_with_selects kc u s val) (\<lambda>val. tri_promote kc u s val))
              | Some c \<Rightarrow>
                  if vis = TY then
                    bindp (rd_sel c) (\<lambda>sel. Ret (if sel = Some s then TY else TN))
                  else if vis \<noteq> TN \<and> user_value u s \<notin> {None, Some (VTri TN), Some (VStr [])}
                  then Ret TM
                  else Ret TN)))"

text \<open>\<^verbatim>\<open>Symbol._assignable\<close>.\<close>

definition bool_or_implied :: "kconfig \<Rightarrow> user_state \<Rightarrow> sref \<Rightarrow> bool prog" where
  "bool_or_implied kc u s =
     bindp (sym_type kc u s) (\<lambda>ty.
       if ty = BOOL then Ret True
       else bindp (expr_value kc u (weak_rev_dep (sym_obj kc s))) (\<lambda>w. Ret (w = TY)))"

definition sym_assignable :: "kconfig \<Rightarrow> user_state \<Rightarrow> sref \<Rightarrow> tri list prog" where
  "sym_assignable kc u s =
     (let o_s = sym_obj kc s
      in if orig_type o_s \<notin> BOOL_TRISTATE then Ret []
         else bindp (rd_vis (Sym s)) (\<lambda>vis.
           if vis = TN then Ret []
           else bindp (expr_value kc u (rev_dep o_s)) (\<lambda>rv.
             if vis = TY then
               (if choice o_s \<noteq> None then Ret [TY]
                else if rv = TN then
                  bindp (bool_or_implied kc u s) (\<lambda>b. Ret (if b then [TN, TY] else [TN, TM, TY]))
                else if rv = TY then Ret [TY]
                else bindp (bool_or_implied kc u s) (\<lambda>b. Ret (if b then [TY] else [TM, TY])))
             else if rv = TN then
               bindp (expr_value kc u (weak_rev_dep o_s)) (\<lambda>w.
                 Ret (if w \<noteq> TY then [TN, TM] else [TN, TY]))
             else if rv = TY then Ret [TY]
             else Ret [TM])))"

section \<open>String values of symbols\<close>

text \<open>
  The integer a string attribute stands for in a range or a default, 0 if it is not a
  number in the base of the type.
\<close>

definition num_or_0 :: "string \<Rightarrow> nat \<Rightarrow> int" where
  "num_or_0 v base = (case py_int v base of Some i \<Rightarrow> i | None \<Rightarrow> 0)"

definition active_range :: "kconfig \<Rightarrow> user_state \<Rightarrow> sref \<Rightarrow> nat \<Rightarrow> (int \<times> int) option prog" where
  "active_range kc u s base =
     bindp (first_cond kc u (\<lambda>r. snd (snd r)) (ranges (sym_obj kc s))) (\<lambda>r.
       case r of
         None \<Rightarrow> Ret None
       | Some ((low_expr, high_expr, _), _) \<Rightarrow>
           bindp (rd_str low_expr) (\<lambda>lo. bindp (rd_str high_expr) (\<lambda>hi.
             Ret (Some (num_or_0 lo base, num_or_0 hi base)))))"

definition num2str :: "nat \<Rightarrow> int \<Rightarrow> string" where
  "num2str base i = (if base = 10 then py_str i else py_hex i)"

definition range_str :: "nat \<Rightarrow> int \<times> int \<Rightarrow> string" where
  "range_str base r = ''(['' @ num2str base (fst r) @ '', '' @ num2str base (snd r) @ ''])''"

text \<open>The clamping of the value from defaults to the active range, then the defaults.\<close>

definition clamp_default ::
  "kconfig \<Rightarrow> sref \<Rightarrow> nat \<Rightarrow> (int \<times> int) option \<Rightarrow> bool \<Rightarrow> string \<Rightarrow> string prog" where
  "clamp_default kc s base rng has_default val =
     (let val_num = (if has_default then num_or_0 val base else 0)
      in case rng of
           None \<Rightarrow> Ret val
         | Some (low, high) \<Rightarrow>
             (let clamp = (if val_num < low then Some low
                           else if val_num > high then Some high else None)
              in case clamp of
                   None \<Rightarrow> Ret val
                 | Some cl \<Rightarrow>
                     (let val' = (if orig_type (sym_obj kc s) = INT_T then py_str cl else py_hex cl)
                      in if has_default
                         then Warn (''default value '' @ py_str val_num @ '' on '' @
                                name_and_loc kc (Sym s) @ '' clamped to '' @ num2str base cl @
                                '' due to being outside the active range '' @
                                range_str base (low, high)) (Ret val')
                         else Ret val')))"

definition num_from_defaults ::
  "kconfig \<Rightarrow> user_state \<Rightarrow> sref \<Rightarrow> nat \<Rightarrow> (int \<times> int) option \<Rightarrow> string prog" where
  "num_from_defaults kc u s base rng =
     bindp (first_cond kc u snd (defaults (sym_obj kc s))) (\<lambda>d.
       case d of
         None \<Rightarrow> clamp_default kc s base rng False []
       | Some (e, _) \<Rightarrow>
           SetW s True (bindp (expr_str_value kc u (fst e)) (\<lambda>v.
             clamp_default kc s base rng True v)))"

text \<open>The user value of a visible int or hex symbol, unless it lies outside the range.\<close>

definition num_in_range ::
  "kconfig \<Rightarrow> user_state \<Rightarrow> sref \<Rightarrow> tri \<Rightarrow> nat \<Rightarrow> (int \<times> int) option \<Rightarrow> string prog" where
  "num_in_range kc u s vis base rng =
    (case (if vis \<noteq> TN then user_value u s else None) of
         Some (VTri t) \<Rightarrow>
           if t = TN then num_from_defaults kc u s base rng else Raise TypeError
       | Some (VStr v) \<Rightarrow>
           if v = [] then num_from_defaults kc u s base rng
           else (case py_int v base of
                   None \<Rightarrow> Raise ValueError
                 | Some user_val \<Rightarrow>
                     (case rng of
                        Some (low, high) \<Rightarrow>
                          if \<not> (low \<le> user_val \<and> user_val \<le> high)
                          then Warn (''user value '' @ num2str base user_val @ '' on the '' @
                                 TYPE_TO_STR (orig_type (sym_obj kc s)) @ '' symbol '' @
                                 name_and_loc kc (Sym s) @
                                 '' ignored due to being outside the active range '' @
                                 range_str base (low, high) @ '' -- falling back on defaults'')
                                 (num_from_defaults kc u s base rng)
                          else Ret v
                      | None \<Rightarrow> Ret v))
       | None \<Rightarrow> num_from_defaults kc u s base rng)"

definition num_str :: "kconfig \<Rightarrow> user_state \<Rightarrow> sref \<Rightarrow> tri \<Rightarrow> nat \<Rightarrow> string prog" where
  "num_str kc u s vis base =
     bindp (active_range kc u s base) (\<lambda>rng. num_in_range kc u s vis base rng)"

definition string_str :: "kconfig \<Rightarrow> user_state \<Rightarrow> sref \<Rightarrow> tri \<Rightarrow> string prog" where
  "string_str kc u s vis =
     (case (if vis \<noteq> TN then user_value u s else None) of
        Some (VStr v) \<Rightarrow> Ret v
      | Some (VTri _) \<Rightarrow> Raise TypeError
      | None \<Rightarrow>
          bindp (first_cond kc u snd (defaults (sym_obj kc s))) (\<lambda>d.
            case d of
              None \<Rightarrow> Ret []
            | Some (e, _) \<Rightarrow>
                bindp (expr_str_value kc u (fst e)) (\<lambda>v. SetW s True (Ret v))))"

text \<open>\<^verbatim>\<open>Symbol.str_value\<close>.\<close>

definition sym_str :: "kconfig \<Rightarrow> user_state \<Rightarrow> sref \<Rightarrow> string prog" where
  "sym_str kc u s =
     (let o_s = sym_obj kc s
      in if orig_type o_s \<in> BOOL_TRISTATE then bindp (rd_tri s) (\<lambda>t. Ret (TRI_TO_STR t))
         else if orig_type o_s = UNKNOWN then Ret (sym_name s)
         else bindp (rd_vis (Sym s)) (\<lambda>vis. SetW s (vis \<noteq> TN)
           (bindp (case TYPE_TO_BASE (orig_type o_s) of
                     Some base \<Rightarrow>
                       if orig_type o_s \<in> INT_HEX then num_str kc u s vis base
                       else string_str kc u s vis
                   | None \<Rightarrow> Ret []) (\<lambda>val.
              if env_var o_s \<noteq> None \<or> defconfig_list kc = Some s
              then SetW s False (Ret val) else Ret val))))"

text \<open>\<^verbatim>\<open>Symbol._str_default\<close>, used by \<^verbatim>\<open>write_min_config()\<close>.\<close>

definition str_default :: "kconfig \<Rightarrow> user_state \<Rightarrow> sref \<Rightarrow> string prog" where
  "str_default kc u s =
     (let o_s = sym_obj kc s
      in if orig_type o_s \<in> BOOL_TRISTATE then
           (if choice o_s \<noteq> None then Ret (TRI_TO_STR TN)
            else bindp (first_cond kc u snd (defaults o_s)) (\<lambda>d.
                 bindp (case d of
                          None \<Rightarrow> Ret TN
                        | Some (e, cond_val) \<Rightarrow>
                            bindp (expr_value kc u (fst e)) (\<lambda>v. Ret (min v cond_val))) (\<lambda>val.
                 bindp (expr_value kc u (rev_dep o_s)) (\<lambda>rv.
                 bindp (expr_value kc u (weak_rev_dep o_s)) (\<lambda>wv.
                   let val = max (max rv wv) val
                   in if val = TM
                      then bindp (sym_type kc u s) (\<lambda>ty.
                             Ret (TRI_TO_STR (if ty = BOOL then TY else val)))
                      else Ret (TRI_TO_STR val))))))
         else if orig_type o_s \<noteq> UNKNOWN then
           bindp (first_cond kc u snd (defaults o_s)) (\<lambda>d.
             case d of None \<Rightarrow> Ret [] | Some (e, _) \<Rightarrow> expr_str_value kc u (fst e))
         else Ret [])"

section \<open>The cached properties\<close>

definition attr_body :: "kconfig \<Rightarrow> user_state \<Rightarrow> query \<Rightarrow> val prog" where
  "attr_body kc u q =
     (case q of
        QVis x \<Rightarrow> bindp (visibility kc u x) (\<lambda>v. Ret (VT v))
      | QTri s \<Rightarrow> bindp (sym_tri kc u s) (\<lambda>v. Ret (VT v))
      | QStr s \<Rightarrow> bindp (sym_str kc u s) (\<lambda>v. Ret (VS v))
      | QSel c \<Rightarrow> bindp (selection kc u c) (\<lambda>v. Ret (VSel v))
      | QAss x \<Rightarrow>
          bindp (case x of Sym s \<Rightarrow> sym_assignable kc u s | Cho c \<Rightarrow> choice_assignable kc u c)
            (\<lambda>v. Ret (VAss v)))"

text \<open>
  The value of an attribute, without caches: \<open>pure kc u n q\<close> follows at most \<open>n\<close>
  nested attribute computations, and is a \<open>RecursionError\<close> when that is not enough (the
  source runs into the recursion limit of the interpreter).
\<close>

primrec pure :: "kconfig \<Rightarrow> user_state \<Rightarrow> nat \<Rightarrow> query \<Rightarrow> exn + val" where
  "pure kc u 0 q = (case preset q of Some v \<Rightarrow> Inr v | None \<Rightarrow> Inl RecursionError)"
| "pure kc u (Suc n) q =
     (case preset q of Some v \<Rightarrow> Inr v | None \<Rightarrow> interp (pure kc u n) (attr_body kc u q))"

text \<open>
  The same with the caches of the state, as the source executes it: a cached value is
  returned, a computed one is stored.
\<close>

primrec get :: "kconfig \<Rightarrow> nat \<Rightarrow> query \<Rightarrow> kstate \<Rightarrow> (exn + val) \<times> kstate" where
  "get kc 0 q st = (case cache st q of Some v \<Rightarrow> (Inr v, st) | None \<Rightarrow> (Inl RecursionError, st))"
| "get kc (Suc n) q st =
     (case cache st q of
        Some v \<Rightarrow> (Inr v, st)
      | None \<Rightarrow>
          (case run (get kc n) (attr_body kc (usr st) q) st of
             (Inr v, st') \<Rightarrow> (Inr v, st'\<lparr>cache := (cache st')(q \<mapsto> v)\<rparr>)
           | (Inl e, st') \<Rightarrow> (Inl e, st')))"

end
