(* ===== verification/Semantics.thy ===== *)
theory Semantics
  imports Values
begin

text \<open>
  The meaning of attributes, independent of fuel and of caches: \<open>attr kc u q v\<close> says
  that attribute \<open>q\<close> has value \<open>v\<close> under the user values \<open>u\<close>, \<open>evals kc u p a\<close> that
  the program \<open>p\<close> returns \<open>a\<close>. Both are functional; the rules in \<open>evals\<close> take a
  program apart.
\<close>

definition attr :: "kconfig \<Rightarrow> user_state \<Rightarrow> query \<Rightarrow> val \<Rightarrow> bool" where
  "attr kc u q v \<longleftrightarrow> (\<exists>n. pure kc u n q = Inr v)"

definition evals :: "kconfig \<Rightarrow> user_state \<Rightarrow> 'a prog \<Rightarrow> 'a \<Rightarrow> bool" where
  "evals kc u p a \<longleftrightarrow> (\<exists>n. interp (pure kc u n) p = Inr a)"

section \<open>More fuel changes no result\<close>

lemma pure_mono: "pure kc u n q = Inr v \<Longrightarrow> n \<le> m \<Longrightarrow> pure kc u m q = Inr v"
proof (induction n arbitrary: q v m)
  case 0
  then show ?case by (cases m) (auto split: option.splits)
next
  case (Suc n)
  then obtain m' where m: "m = Suc m'" "n \<le> m'" by (cases m) auto
  show ?case
  proof (cases "preset q")
    case None
    with Suc.prems(1) have "interp (pure kc u n) (attr_body kc u q) = Inr v" by simp
    then have "interp (pure kc u m') (attr_body kc u q) = Inr v"
      using Suc.IH [OF _ m(2)] by (rule interp_mono)
    with None m show ?thesis by simp
  qed (use Suc.prems m in simp)
qed

lemma interp_pure_mono:
  "interp (pure kc u n) p = Inr a \<Longrightarrow> n \<le> m \<Longrightarrow> interp (pure kc u m) p = Inr a"
  by (erule interp_mono) (rule pure_mono)

section \<open>The rules\<close>

lemma attr_fun: "attr kc u q v \<Longrightarrow> attr kc u q w \<Longrightarrow> v = w"
  unfolding attr_def using pure_mono by (metis nat_le_linear sum.inject(2))

lemma evals_fun: "evals kc u p a \<Longrightarrow> evals kc u p b \<Longrightarrow> a = b"
  unfolding evals_def using interp_pure_mono by (metis nat_le_linear sum.inject(2))

lemma evals_Ret [simp]: "evals kc u (Ret a) b \<longleftrightarrow> a = b"
  by (auto simp: evals_def)

lemma evals_Raise [simp]: "\<not> evals kc u (Raise e) b"
  by (simp add: evals_def)

lemma evals_SetW [simp]: "evals kc u (SetW s b p) a \<longleftrightarrow> evals kc u p a"
  by (simp add: evals_def)

lemma evals_Warn [simp]: "evals kc u (Warn m p) a \<longleftrightarrow> evals kc u p a"
  by (simp add: evals_def)

lemma evals_ReadQ: "evals kc u (ReadQ q k) a \<longleftrightarrow> (\<exists>v. attr kc u q v \<and> evals kc u (k v) a)"
proof
  assume "evals kc u (ReadQ q k) a"
  then obtain n where n: "interp (pure kc u n) (ReadQ q k) = Inr a" by (auto simp: evals_def)
  then obtain v where "pure kc u n q = Inr v" by (cases "pure kc u n q") auto
  with n show "\<exists>v. attr kc u q v \<and> evals kc u (k v) a"
    by (auto simp: evals_def attr_def)
next
  assume "\<exists>v. attr kc u q v \<and> evals kc u (k v) a"
  then obtain v n m where "pure kc u n q = Inr v" "interp (pure kc u m) (k v) = Inr a"
    by (auto simp: evals_def attr_def)
  then have "interp (pure kc u (max n m)) (ReadQ q k) = Inr a"
    using pure_mono [of kc u n q v "max n m"] interp_pure_mono [of kc u m "k v" a "max n m"] by simp
  then show "evals kc u (ReadQ q k) a" unfolding evals_def by blast
qed

lemma evals_bindp: "evals kc u (bindp p f) b \<longleftrightarrow> (\<exists>a. evals kc u p a \<and> evals kc u (f a) b)"
  by (induction p) (auto simp: evals_ReadQ)

lemma evals_rd:
  "evals kc u (rd_vis x) t \<longleftrightarrow> (\<exists>v. attr kc u (QVis x) v \<and> un_tri v = t)"
  "evals kc u (rd_tri s) t \<longleftrightarrow> (\<exists>v. attr kc u (QTri s) v \<and> un_tri v = t)"
  "evals kc u (rd_str s) w \<longleftrightarrow> (\<exists>v. attr kc u (QStr s) v \<and> un_str v = w)"
  "evals kc u (rd_sel c) o_s \<longleftrightarrow> (\<exists>v. attr kc u (QSel c) v \<and> un_sel v = o_s)"
  by (auto simp: rd_vis_def rd_tri_def rd_str_def rd_sel_def evals_ReadQ)

lemma attr_unfold:
  "attr kc u q v \<longleftrightarrow>
     (case preset q of Some w \<Rightarrow> v = w | None \<Rightarrow> evals kc u (attr_body kc u q) v)"
proof (cases "preset q")
  case None
  have "(\<exists>n. pure kc u n q = Inr v) = (\<exists>n. pure kc u (Suc n) q = Inr v)"
    using pure_mono le_SucI by blast
  then show ?thesis by (simp add: attr_def evals_def None)
next
  case (Some w)
  have "pure kc u n q = Inr w" for n by (cases n) (simp_all add: Some)
  then show ?thesis by (auto simp: attr_def Some)
qed

lemma attr_const [simp]:
  "attr kc u (QTri const_n) v \<longleftrightarrow> v = VT TN" "attr kc u (QTri const_m) v \<longleftrightarrow> v = VT TM"
  "attr kc u (QTri const_y) v \<longleftrightarrow> v = VT TY"
  by (simp_all add: attr_unfold)

text \<open>The attributes by kind; each returns a value of its own kind.\<close>

definition vis_is :: "kconfig \<Rightarrow> user_state \<Rightarrow> sc \<Rightarrow> tri \<Rightarrow> bool" where
  "vis_is kc u x t \<longleftrightarrow> attr kc u (QVis x) (VT t)"

definition tri_is :: "kconfig \<Rightarrow> user_state \<Rightarrow> sref \<Rightarrow> tri \<Rightarrow> bool" where
  "tri_is kc u s t \<longleftrightarrow> attr kc u (QTri s) (VT t)"

definition str_is :: "kconfig \<Rightarrow> user_state \<Rightarrow> sref \<Rightarrow> string \<Rightarrow> bool" where
  "str_is kc u s w \<longleftrightarrow> attr kc u (QStr s) (VS w)"

definition sel_is :: "kconfig \<Rightarrow> user_state \<Rightarrow> nat \<Rightarrow> sref option \<Rightarrow> bool" where
  "sel_is kc u c o_s \<longleftrightarrow> attr kc u (QSel c) (VSel o_s)"

definition ass_is :: "kconfig \<Rightarrow> user_state \<Rightarrow> sc \<Rightarrow> tri list \<Rightarrow> bool" where
  "ass_is kc u x as \<longleftrightarrow> attr kc u (QAss x) (VAss as)"

lemma attr_kind:
  "attr kc u (QVis x) v \<longleftrightarrow> (\<exists>t. v = VT t \<and> vis_is kc u x t)"
  "attr kc u (QTri s) v \<longleftrightarrow> (\<exists>t. v = VT t \<and> tri_is kc u s t)"
  "attr kc u (QStr s) v \<longleftrightarrow> (\<exists>w. v = VS w \<and> str_is kc u s w)"
  "attr kc u (QSel c) v \<longleftrightarrow> (\<exists>o_s. v = VSel o_s \<and> sel_is kc u c o_s)"
  "attr kc u (QAss x) v \<longleftrightarrow> (\<exists>as. v = VAss as \<and> ass_is kc u x as)"
proof -
  show "attr kc u (QVis x) v \<longleftrightarrow> (\<exists>t. v = VT t \<and> vis_is kc u x t)"
    by (auto simp: vis_is_def attr_unfold attr_body_def evals_bindp)
  show "attr kc u (QTri s) v \<longleftrightarrow> (\<exists>t. v = VT t \<and> tri_is kc u s t)"
    by (auto simp: tri_is_def attr_unfold attr_body_def evals_bindp preset_def split: if_splits)
  show "attr kc u (QStr s) v \<longleftrightarrow> (\<exists>w. v = VS w \<and> str_is kc u s w)"
    by (auto simp: str_is_def attr_unfold attr_body_def evals_bindp)
  show "attr kc u (QSel c) v \<longleftrightarrow> (\<exists>o_s. v = VSel o_s \<and> sel_is kc u c o_s)"
    by (auto simp: sel_is_def attr_unfold attr_body_def evals_bindp)
  show "attr kc u (QAss x) v \<longleftrightarrow> (\<exists>as. v = VAss as \<and> ass_is kc u x as)"
    by (auto simp: ass_is_def attr_unfold attr_body_def evals_bindp)
qed

lemma evals_reads [simp]:
  "evals kc u (rd_vis x) t \<longleftrightarrow> vis_is kc u x t"
  "evals kc u (rd_tri s) t \<longleftrightarrow> tri_is kc u s t"
  "evals kc u (rd_str s) w \<longleftrightarrow> str_is kc u s w"
  "evals kc u (rd_sel c) o_s \<longleftrightarrow> sel_is kc u c o_s"
  by (auto simp: evals_rd attr_kind)

lemma vis_is_eq: "vis_is kc u x t \<longleftrightarrow> evals kc u (visibility kc u x) t"
  by (simp add: vis_is_def attr_unfold attr_body_def evals_bindp)

lemma tri_is_eq: "\<not> is_nmy s \<Longrightarrow> tri_is kc u s t \<longleftrightarrow> evals kc u (sym_tri kc u s) t"
  by (simp add: tri_is_def attr_unfold attr_body_def evals_bindp preset_QTri)

lemma str_is_eq: "str_is kc u s w \<longleftrightarrow> evals kc u (sym_str kc u s) w"
  by (simp add: str_is_def attr_unfold attr_body_def evals_bindp)

lemma sel_is_eq: "sel_is kc u c o_s \<longleftrightarrow> evals kc u (selection kc u c) o_s"
  by (simp add: sel_is_def attr_unfold attr_body_def evals_bindp)

lemma ass_is_Sym_eq: "ass_is kc u (Sym s) as \<longleftrightarrow> evals kc u (sym_assignable kc u s) as"
  by (simp add: ass_is_def attr_unfold attr_body_def evals_bindp)

lemma ass_is_Cho_eq: "ass_is kc u (Cho c) as \<longleftrightarrow> evals kc u (choice_assignable kc u c) as"
  by (simp add: ass_is_def attr_unfold attr_body_def evals_bindp)

lemma tri_is_const [simp]:
  "tri_is kc u const_n t \<longleftrightarrow> t = TN" "tri_is kc u const_m t \<longleftrightarrow> t = TM"
  "tri_is kc u const_y t \<longleftrightarrow> t = TY"
  by (simp_all add: tri_is_def)

lemma is_funs:
  "vis_is kc u x t \<Longrightarrow> vis_is kc u x t' \<Longrightarrow> t = t'"
  "tri_is kc u s t \<Longrightarrow> tri_is kc u s t' \<Longrightarrow> t = t'"
  "str_is kc u s w \<Longrightarrow> str_is kc u s w' \<Longrightarrow> w = w'"
  "sel_is kc u c o_s \<Longrightarrow> sel_is kc u c o_s' \<Longrightarrow> o_s = o_s'"
  unfolding vis_is_def tri_is_def str_is_def sel_is_def by (auto dest: attr_fun)

text \<open>Expressions: their value as a relation, compositional in the operators.\<close>

definition expr_is :: "kconfig \<Rightarrow> user_state \<Rightarrow> expr \<Rightarrow> tri \<Rightarrow> bool" where
  "expr_is kc u e t \<longleftrightarrow> evals kc u (expr_value kc u e) t"

lemma expr_is_fun: "expr_is kc u e t \<Longrightarrow> expr_is kc u e t' \<Longrightarrow> t = t'"
  unfolding expr_is_def by (rule evals_fun)

lemma expr_is_Leaf [simp]:
  "expr_is kc u (Leaf (Sym s)) t \<longleftrightarrow> tri_is kc u s t"
  "expr_is kc u (Leaf (Cho c)) t \<longleftrightarrow> evals kc u (choice_tri kc u c) t"
  by (simp_all add: expr_is_def)

lemma expr_is_AND:
  "expr_is kc u (AND a b) t \<longleftrightarrow>
     (\<exists>v1. expr_is kc u a v1 \<and>
        (if v1 = TN then t = TN else \<exists>v2. expr_is kc u b v2 \<and> t = min v1 v2))"
  by (auto simp: expr_is_def evals_bindp split: if_splits)

lemma expr_is_OR:
  "expr_is kc u (OR a b) t \<longleftrightarrow>
     (\<exists>v1. expr_is kc u a v1 \<and>
        (if v1 = TY then t = TY else \<exists>v2. expr_is kc u b v2 \<and> t = max v1 v2))"
  by (auto simp: expr_is_def evals_bindp split: if_splits)

lemma expr_is_NOT: "expr_is kc u (NOT a) t \<longleftrightarrow> (\<exists>v. expr_is kc u a v \<and> t = tri_neg v)"
  by (auto simp: expr_is_def evals_bindp)

lemma expr_is_REL:
  "expr_is kc u (REL r a b) t \<longleftrightarrow>
     (\<exists>c. evals kc u (rel_compare kc a b) c \<and> t = tri_of_bool (rel_holds r c))"
  by (auto simp: expr_is_def evals_bindp)

lemma evals_expr_value [simp]: "evals kc u (expr_value kc u e) t \<longleftrightarrow> expr_is kc u e t"
  by (simp add: expr_is_def)

end
