(* ===== verification/Cache.thy ===== *)
theory Cache
  imports Semantics
begin

text \<open>
  The caches of the state against the stateless meaning of attributes. A state is
  coherent when every cached value is the value the attribute has under the user values
  of the state (and the presets are in place). Reading an attribute through the caches
  keeps coherence and returns the meaning of the attribute; and it returns whenever the
  stateless computation does, with no more fuel.
\<close>

definition coherent :: "kconfig \<Rightarrow> user_state \<Rightarrow> kstate \<Rightarrow> bool" where
  "coherent kc u st \<longleftrightarrow>
     usr st = u \<and> (\<forall>q v. cache st q = Some v \<longrightarrow> attr kc u q v) \<and>
     (\<forall>q v. preset q = Some v \<longrightarrow> cache st q = Some v)"

lemma coherent_init: "coherent kc init_user init_state"
  by (auto simp: coherent_def init_state_def attr_unfold)

lemma coherent_setw: "coherent kc u st \<Longrightarrow> coherent kc u (st\<lparr>write_to_conf := f\<rparr>)"
  by (simp add: coherent_def)

lemma coherent_warn: "coherent kc u st \<Longrightarrow> coherent kc u (add_warning m l st)"
  by (simp add: coherent_def)

lemma coherent_store:
  "coherent kc u st \<Longrightarrow> attr kc u q v \<Longrightarrow> coherent kc u (st\<lparr>cache := (cache st)(q \<mapsto> v)\<rparr>)"
  unfolding coherent_def by (auto simp: attr_unfold)

lemma evals_allows: "evals kc u p a \<longleftrightarrow> allows (attr kc u) p a"
  by (induction p) (auto simp: evals_ReadQ)

lemma coherent_uncached: "coherent kc u st \<Longrightarrow> cache st q = None \<Longrightarrow> preset q = None"
  by (cases "preset q") (auto simp: coherent_def)

lemma get_Suc_cases:
  assumes c: "coherent kc u st" and r: "get kc (Suc n) q st = (r, st')"
  obtains v where "cache st q = Some v" "r = Inr v" "st' = st"
  | v st1 where "cache st q = None" "run (get kc n) (attr_body kc u q) st = (Inr v, st1)"
      "r = Inr v" "st' = st1\<lparr>cache := (cache st1)(q \<mapsto> v)\<rparr>"
  | e where "cache st q = None" "run (get kc n) (attr_body kc u q) st = (Inl e, st')" "r = Inl e"
proof -
  have "usr st = u" using c by (simp add: coherent_def)
  with r that show thesis by (auto split: option.splits prod.splits sum.splits)
qed

lemma get_complete_reader:
  "complete_reader (get kc n) (attr kc u) (coherent kc u) (pure kc u n)"
proof (induction n)
  case 0
  show ?case
  proof
    fix st q v st' r
    assume c: "coherent kc u st"
    { assume "get kc 0 q st = (Inr v, st')"
      with c show "attr kc u q v" by (auto simp: coherent_def split: option.splits) }
    { assume "get kc 0 q st = (r, st')"
      with c show "coherent kc u st'" by (auto split: option.splits) }
    { assume "pure kc u 0 q = Inr v"
      with c show "\<exists>st'. get kc 0 q st = (Inr v, st')"
        by (auto simp: coherent_def split: option.splits) }
  qed (simp_all add: coherent_setw coherent_warn)
next
  case (Suc n)
  have S: "sound_reader (get kc n) (attr kc u) (coherent kc u)"
    by (rule complete_reader.axioms(1) [OF Suc.IH])
  have body: "attr kc u q v"
    if "coherent kc u st" "cache st q = None" "run (get kc n) (attr_body kc u q) st = (Inr v, st1)"
    for q st v st1
    using sound_reader.run_allows [OF S that(1,3)] coherent_uncached [OF that(1,2)]
    by (simp add: attr_unfold evals_allows)
  have inv: "coherent kc u st1" if "coherent kc u st" "run (get kc n) (attr_body kc u q) st = (r, st1)"
    for q st st1 r
    by (rule sound_reader.run_inv [OF S that])
  show ?case
  proof
    fix st q v st' r
    assume c: "coherent kc u st"
    { assume g: "get kc (Suc n) q st = (Inr v, st')"
      show "attr kc u q v"
        by (rule get_Suc_cases [OF c g]) (use c body in \<open>auto simp: coherent_def\<close>) }
    { assume g: "get kc (Suc n) q st = (r, st')"
      show "coherent kc u st'"
        by (rule get_Suc_cases [OF c g])
          (use c body [OF c] inv [OF c] in \<open>auto intro!: coherent_store\<close>) }
    { assume p: "pure kc u (Suc n) q = Inr v"
      show "\<exists>st'. get kc (Suc n) q st = (Inr v, st')"
      proof (cases "cache st q")
        case None
        then have "interp (pure kc u n) (attr_body kc u q) = Inr v"
          using p coherent_uncached [OF c] by simp
        from complete_reader.run_complete [OF Suc.IH c this] obtain st1
          where "run (get kc n) (attr_body kc u q) st = (Inr v, st1)" by blast
        moreover have "usr st = u" using c by (simp add: coherent_def)
        ultimately show ?thesis using None by simp
      next
        case (Some w)
        have "attr kc u q v" using p unfolding attr_def by blast
        moreover have "attr kc u q w" using c Some by (simp add: coherent_def)
        ultimately have "w = v" by (rule attr_fun [rotated])
        then show ?thesis using Some by simp
      qed }
  qed (simp_all add: coherent_setw coherent_warn)
qed

interpretation cached: complete_reader "get kc n" "attr kc u" "coherent kc u" "pure kc u n"
  for kc n u
  by (rule get_complete_reader)

text \<open>Whole programs, for the operations outside the properties.\<close>

lemma run_evals: "coherent kc u st \<Longrightarrow> run (get kc n) p st = (Inr a, st') \<Longrightarrow> evals kc u p a"
  by (simp add: evals_allows cached.run_allows)

end
