(* ===== verification/Totality.thy ===== *)
theory Totality
  imports Cache
begin

text \<open>
  When every attribute has a value. The attributes of a configuration can be ranked if
  each item (symbol or choice) has a number larger than those of the items its
  properties mention -- the absence of dependency loops, which the source checks by
  depth-first search after parsing. Together with the form the sanity checks and
  \<^verbatim>\<open>set_value\<close> guarantee (defaults that are symbols where a symbol is expected,
  well-typed user values), a ranking bounds the nesting of attribute computations, so
  every attribute read returns, without an exception.
\<close>

section \<open>Well-typed user values\<close>

definition valid_uval :: "ktype \<Rightarrow> uval \<Rightarrow> bool" where
  "valid_uval ty v =
     (case v of
        VTri t \<Rightarrow> ty = TRISTATE \<or> (ty = BOOL \<and> t \<noteq> TM)
      | VStr w \<Rightarrow> ty = STRING \<or> (ty = INT_T \<and> is_base_n w 10) \<or>
          (ty = HEX \<and> (case py_int w 16 of Some i \<Rightarrow> i \<ge> 0 | None \<Rightarrow> False)))"

definition valid_user :: "kconfig \<Rightarrow> user_state \<Rightarrow> bool" where
  "valid_user kc u \<longleftrightarrow> (\<forall>s v. user_value u s = Some v \<longrightarrow> valid_uval (orig_type (sym_obj kc s)) v)"

lemma valid_uval_simps [simp]:
  "valid_uval ty (VTri t) \<longleftrightarrow> ty = TRISTATE \<or> (ty = BOOL \<and> t \<noteq> TM)"
  "valid_uval ty (VStr w) \<longleftrightarrow> ty = STRING \<or> (ty = INT_T \<and> is_base_n w 10) \<or>
      (ty = HEX \<and> (case py_int w 16 of Some i \<Rightarrow> i \<ge> 0 | None \<Rightarrow> False))"
  by (simp_all add: valid_uval_def)

lemma valid_user_uval:
  "valid_user kc u \<Longrightarrow> user_value u s = Some v \<Longrightarrow> valid_uval (orig_type (sym_obj kc s)) v"
  by (simp add: valid_user_def)

section \<open>Rankings\<close>

definition items_below :: "(sc \<Rightarrow> nat) \<Rightarrow> nat \<Rightarrow> expr \<Rightarrow> bool" where
  "items_below rk r e \<longleftrightarrow> (\<forall>x \<in> expr_items e. rk x < r)"

definition prompts_below :: "kconfig \<Rightarrow> (sc \<Rightarrow> nat) \<Rightarrow> nat \<Rightarrow> nat list \<Rightarrow> bool" where
  "prompts_below kc rk r ns \<longleftrightarrow>
     (\<forall>n \<in> set ns. case nd_prompt (nodetab kc n) of None \<Rightarrow> True | Some p \<Rightarrow> items_below rk r (snd p))"

text \<open>A symbol: what its prompts, defaults, ranges and dependencies mention is below it, its
  choice is below it, and \<open>crk\<close> of the choice is its rank.\<close>

definition sym_ranked :: "kconfig \<Rightarrow> (sc \<Rightarrow> nat) \<Rightarrow> (nat \<Rightarrow> nat) \<Rightarrow> sref \<Rightarrow> bool" where
  "sym_ranked kc rk crk s \<longleftrightarrow>
     (let o_s = sym_obj kc s; r = rk (Sym s)
      in prompts_below kc rk r (nodes o_s) \<and>
         (\<forall>c. choice o_s = Some c \<longrightarrow> rk (Cho c) < r \<and> crk c = r) \<and>
         (orig_type o_s = TRISTATE \<longrightarrow> rk (Sym modules) < r) \<and>
         (orig_type o_s \<noteq> UNKNOWN \<longrightarrow>
            (\<forall>d \<in> set (defaults o_s). items_below rk r (fst d) \<and> items_below rk r (snd d)) \<and>
            (\<forall>(lo, hi, c) \<in> set (ranges o_s).
               rk (Sym lo) < r \<and> rk (Sym hi) < r \<and> items_below rk r c) \<and>
            items_below rk r (direct_dep o_s) \<and> items_below rk r (rev_dep o_s) \<and>
            items_below rk r (weak_rev_dep o_s) \<and>
            (\<forall>x \<in> expr_items (rev_dep o_s). items_below rk r (sc_direct_dep kc x))))"

definition choice_ranked :: "kconfig \<Rightarrow> user_state \<Rightarrow> (sc \<Rightarrow> nat) \<Rightarrow> (nat \<Rightarrow> nat) \<Rightarrow> nat \<Rightarrow> bool" where
  "choice_ranked kc u rk crk c \<longleftrightarrow>
     (let o_c = choicetab kc c; r = rk (Cho c)
      in prompts_below kc rk r (c_nodes o_c) \<and> r \<le> crk c \<and>
         (c_orig_type o_c = TRISTATE \<longrightarrow> rk (Sym modules) < r) \<and>
         (\<forall>s \<in> set (c_syms o_c). rk (Sym s) \<le> crk c) \<and>
         (\<forall>s. user_selection u c = Some s \<longrightarrow> rk (Sym s) \<le> crk c) \<and>
         (\<forall>d \<in> set (c_defaults o_c). items_below rk (crk c) (snd d) \<and>
            (\<forall>s. fst d = Leaf (Sym s) \<longrightarrow> rk (Sym s) \<le> crk c)))"

text \<open>What the sanity checks after parsing establish, and how selects are built.\<close>

definition is_leaf_sym :: "expr \<Rightarrow> bool" where
  "is_leaf_sym e = (case e of Leaf (Sym s) \<Rightarrow> True | _ \<Rightarrow> False)"

definition select_form :: "expr \<Rightarrow> bool" where
  "select_form sel = (case hd (split_expr sel T_AND) of Leaf x \<Rightarrow> True | _ \<Rightarrow> False)"

definition sane :: "kconfig \<Rightarrow> bool" where
  "sane kc \<longleftrightarrow>
     (\<forall>s. (orig_type (sym_obj kc s) \<notin> BOOL_TRISTATE_UNKNOWN \<longrightarrow>
             (\<forall>d \<in> set (defaults (sym_obj kc s)). is_leaf_sym (fst d))) \<and>
          (\<forall>sel \<in> set (split_expr (rev_dep (sym_obj kc s)) T_OR). select_form sel)) \<and>
     (\<forall>c. \<forall>d \<in> set (c_defaults (choicetab kc c)). is_leaf_sym (fst d))"

definition ranked :: "kconfig \<Rightarrow> user_state \<Rightarrow> (sc \<Rightarrow> nat) \<Rightarrow> (nat \<Rightarrow> nat) \<Rightarrow> bool" where
  "ranked kc u rk crk \<longleftrightarrow>
     (\<forall>s. \<not> is_nmy s \<longrightarrow> sym_ranked kc rk crk s) \<and> (\<forall>c. choice_ranked kc u rk crk c)"

text \<open>The rank of an attribute: the selection of a choice lies between the visibility and
  the value of its symbols.\<close>

fun qrank :: "(sc \<Rightarrow> nat) \<Rightarrow> (nat \<Rightarrow> nat) \<Rightarrow> query \<Rightarrow> nat" where
  "qrank rk crk (QVis x) = 8 * rk x + 1"
| "qrank rk crk (QSel c) = 8 * crk c + 2"
| "qrank rk crk (QTri s) = 8 * rk (Sym s) + 4"
| "qrank rk crk (QStr s) = 8 * rk (Sym s) + 5"
| "qrank rk crk (QAss x) = 8 * rk x + 6"

section \<open>Every property body reads below itself and raises nothing\<close>

text \<open>\<open>fine P p\<close>: reads only in \<open>P\<close>, raises nothing.\<close>

definition fine :: "(query \<Rightarrow> bool) \<Rightarrow> 'a prog \<Rightarrow> bool" where
  "fine P p \<longleftrightarrow> reads_below P p \<and> no_raise p"

lemma fine_simps [simp]:
  "fine P (Ret a)" "\<not> fine P (Raise e)" "fine P (SetW s b p) \<longleftrightarrow> fine P p"
  "fine P (Warn m p) \<longleftrightarrow> fine P p" "fine P (rd_vis x) \<longleftrightarrow> P (QVis x)"
  "fine P (rd_tri s) \<longleftrightarrow> P (QTri s)" "fine P (rd_str s) \<longleftrightarrow> P (QStr s)"
  "fine P (rd_sel c) \<longleftrightarrow> P (QSel c)"
  by (auto simp: fine_def)

lemma fine_bindp [intro]: "fine P p \<Longrightarrow> (\<And>a. fine P (f a)) \<Longrightarrow> fine P (bindp p f)"
  by (auto simp: fine_def)

lemma reads_below_mono: "reads_below P p \<Longrightarrow> (\<And>q. P q \<Longrightarrow> P' q) \<Longrightarrow> reads_below P' p"
  by (induction p) auto

lemma fine_mono: "fine P p \<Longrightarrow> (\<And>q. P q \<Longrightarrow> P' q) \<Longrightarrow> fine P' p"
  using reads_below_mono by (auto simp: fine_def)

text \<open>The attribute \<^verbatim>\<open>assignable\<close> of the constants is treated apart.\<close>

definition ordinary :: "query \<Rightarrow> bool" where
  "ordinary q = (case q of QAss (Sym s) \<Rightarrow> \<not> is_nmy s | _ \<Rightarrow> True)"

text \<open>\<open>below rk crk n\<close>: the attributes of rank below \<open>n\<close>.\<close>

definition below :: "(sc \<Rightarrow> nat) \<Rightarrow> (nat \<Rightarrow> nat) \<Rightarrow> nat \<Rightarrow> query \<Rightarrow> bool" where
  "below rk crk n q \<longleftrightarrow> qrank rk crk q < n \<and> ordinary q"

lemma below_simps [simp]:
  "below rk crk n (QVis x) \<longleftrightarrow> 8 * rk x + 1 < n" "below rk crk n (QSel c) \<longleftrightarrow> 8 * crk c + 2 < n"
  "below rk crk n (QTri s) \<longleftrightarrow> 8 * rk (Sym s) + 4 < n"
  "below rk crk n (QStr s) \<longleftrightarrow> 8 * rk (Sym s) + 5 < n"
  by (simp_all add: below_def ordinary_def)

lemma fine_choice_type:
  "ranked kc u rk crk \<Longrightarrow> 8 * rk (Cho c) \<le> n \<Longrightarrow> fine (below rk crk n) (choice_type kc c)"
  unfolding choice_type_def ranked_def choice_ranked_def Let_def
  by (auto intro!: fine_bindp elim!: allE [where x = c])

lemma fine_choice_tri:
  "ranked kc u rk crk \<Longrightarrow> 8 * rk (Cho c) + 1 < n \<Longrightarrow> fine (below rk crk n) (choice_tri kc u c)"
  unfolding choice_tri_def Let_def by (auto intro!: fine_bindp fine_choice_type)

lemma fine_choice_str:
  "ranked kc u rk crk \<Longrightarrow> 8 * rk (Cho c) + 1 < n \<Longrightarrow> fine (below rk crk n) (choice_str kc u c)"
  unfolding choice_str_def by (auto intro!: fine_bindp fine_choice_tri)

lemma fine_rel_compare:
  "rk (Sym a) < r \<Longrightarrow> rk (Sym b) < r \<Longrightarrow> 8 * r \<le> n \<Longrightarrow> fine (below rk crk n) (rel_compare kc a b)"
  unfolding rel_compare_def str_compare_def sym_to_num_def
  by (auto intro!: fine_bindp split: option.splits)

lemma fine_expr_value:
  "ranked kc u rk crk \<Longrightarrow> items_below rk r e \<Longrightarrow> 8 * r \<le> n \<Longrightarrow>
   fine (below rk crk n) (expr_value kc u e)"
  by (induction e) (auto simp: items_below_def intro!: fine_bindp fine_choice_tri fine_rel_compare
      split: sc.splits)

text \<open>The loop over conditions continues with an entry of the list.\<close>

lemma fine_first_cond:
  assumes "ranked kc u rk crk" "8 * r \<le> n" "fine (below rk crk n) (f None)"
  shows "\<forall>x \<in> set xs. items_below rk r (cond x) \<and> (\<forall>v. fine (below rk crk n) (f (Some (x, v)))) \<Longrightarrow>
    fine (below rk crk n) (bindp (first_cond kc u cond xs) f)"
proof (induction xs)
  case (Cons x xs)
  have "fine (below rk crk n)
      (bindp (expr_value kc u (cond x)) (\<lambda>v.
         bindp (if v \<noteq> TN then Ret (Some (x, v)) else first_cond kc u cond xs) f))"
    by (rule fine_bindp [OF fine_expr_value [OF assms(1) _ assms(2)]])
      (use Cons in \<open>auto\<close>)
  then show ?case by simp
qed (use assms(3) in simp)

lemma fine_prompt_vis:
  "ranked kc u rk crk \<Longrightarrow> prompts_below kc rk r ns \<Longrightarrow> 8 * r \<le> n \<Longrightarrow>
   fine (below rk crk n) (prompt_vis kc u ns vis)"
  by (induction ns arbitrary: vis)
    (auto simp: prompts_below_def split: option.splits intro!: fine_bindp fine_expr_value)

lemma ranked_sym: "ranked kc u rk crk \<Longrightarrow> \<not> is_nmy s \<Longrightarrow> sym_ranked kc rk crk s"
  and ranked_choice: "ranked kc u rk crk \<Longrightarrow> choice_ranked kc u rk crk c"
  by (simp_all add: ranked_def)

lemma fine_sym_type:
  assumes "ranked kc u rk crk" "\<not> is_nmy s" "8 * rk (Sym s) \<le> n"
  shows "fine (below rk crk n) (sym_type kc u s)"
  using ranked_sym [OF assms(1,2)] assms
  unfolding sym_type_def modules_type_def sym_ranked_def Let_def
  by (auto intro!: fine_bindp fine_choice_tri split: option.splits)

lemma fine_promote_vis:
  "ranked kc u rk crk \<Longrightarrow> 8 * rk x \<le> n \<Longrightarrow> (\<forall>s. x = Sym s \<longrightarrow> \<not> is_nmy s) \<Longrightarrow>
   fine (below rk crk n) (promote_vis kc u x vis)"
  unfolding promote_vis_def
  by (cases x) (auto intro!: fine_bindp fine_sym_type fine_choice_type)

lemma fine_visibility:
  assumes r: "ranked kc u rk crk" and n: "8 * rk x \<le> n"
  shows "fine (below rk crk n) (visibility kc u x)"
proof (cases x)
  case (Sym s)
  show ?thesis
  proof (cases "is_nmy s")
    case True
    then have "sym_obj kc s = const_symbol" by (simp add: sym_obj_def)
    then show ?thesis
      by (simp add: visibility_def Sym sc_nodes_def const_symbol_def fresh_symbol_def promote_vis_def)
  next
    case False
    have "prompts_below kc rk (rk x) (sc_nodes kc x)"
      and c: "\<And>c. choice (sym_obj kc s) = Some c \<Longrightarrow> rk (Cho c) < rk (Sym s)"
      using ranked_sym [OF r False] by (auto simp: sym_ranked_def Let_def sc_nodes_def Sym)
    from fine_prompt_vis [OF r this(1) n] show ?thesis
      unfolding visibility_def
      by (rule fine_bindp)
        (use n Sym c False in \<open>auto intro!: fine_bindp fine_choice_tri [OF r] fine_promote_vis [OF r] split: option.splits\<close>)
  qed
next
  case (Cho c)
  have "prompts_below kc rk (rk x) (sc_nodes kc x)"
    using ranked_choice [OF r, of c] by (auto simp: choice_ranked_def Let_def sc_nodes_def Cho)
  from fine_prompt_vis [OF r this n] show ?thesis
    unfolding visibility_def
    by (rule fine_bindp) (use n Cho in \<open>auto intro!: fine_promote_vis [OF r]\<close>)
qed

lemma fine_first_visible:
  "\<forall>s \<in> set ss. rk (Sym s) \<le> r \<Longrightarrow> 8 * r + 1 < n \<Longrightarrow> fine (below rk crk n) (first_visible ss)"
  by (induction ss) (auto intro!: fine_bindp)

lemma fine_default_selection:
  assumes "ranked kc u rk crk" "fine (below rk crk n) otherwise" "8 * r + 1 < n"
  shows "\<forall>d \<in> set ds. items_below rk r (snd d) \<and> is_leaf_sym (fst d) \<and>
     (\<forall>s. fst d = Leaf (Sym s) \<longrightarrow> rk (Sym s) \<le> r) \<Longrightarrow>
     fine (below rk crk n) (default_selection kc u ds otherwise)"
  by (induction ds)
    (use assms in \<open>auto simp: is_leaf_sym_def intro!: fine_bindp fine_expr_value [where r = r]
      split: expr.splits sc.splits\<close>)

lemma fine_selection:
  assumes r: "ranked kc u rk crk" and s: "sane kc" and n: "8 * crk c + 1 < n"
  shows "fine (below rk crk n) (selection kc u c)"
proof -
  have c: "choice_ranked kc u rk crk c" using r by (rule ranked_choice)
  have d: "fine (below rk crk n) (selection_from_defaults kc u c)"
    unfolding selection_from_defaults_def
    by (rule fine_default_selection [OF r, where r = "crk c"])
      (use c s n in \<open>auto simp: choice_ranked_def sane_def Let_def intro!: fine_first_visible [where r = "crk c"]\<close>)
  have "8 * rk (Cho c) + 1 < n" using c n by (auto simp: choice_ranked_def Let_def)
  then show ?thesis
    unfolding selection_def using d c n
    by (auto intro!: fine_bindp fine_choice_tri [OF r] simp: choice_ranked_def Let_def split: option.splits)
qed

lemma fine_choice_assignable:
  "ranked kc u rk crk \<Longrightarrow> 8 * rk (Cho c) + 1 < n \<Longrightarrow> fine (below rk crk n) (choice_assignable kc u c)"
  unfolding choice_assignable_def by (auto intro!: fine_bindp fine_choice_type)

section \<open>Symbol values\<close>

lemma split_expr_sub:
  "sel \<in> set (split_expr e op) \<Longrightarrow> expr_items sel \<subseteq> expr_items e"
  using split_expr_items [of e op] by blast

lemma hd_split_sub: "expr_items (hd (split_expr e op)) \<subseteq> expr_items e"
  by (rule split_expr_sub [where op = op]) simp

lemma fine_sc_str_value:
  "ranked kc u rk crk \<Longrightarrow> 8 * rk x + 5 < n \<Longrightarrow> fine (below rk crk n) (sc_str_value kc u x)"
  by (cases x) (auto intro!: fine_choice_str)

lemma fine_select_line:
  assumes r: "ranked kc u rk crk" and "select_form sel" "items_below rk m sel" "8 * m \<le> n"
    and d: "\<forall>x \<in> expr_items sel. items_below rk m (sc_direct_dep kc x)"
  shows "fine (below rk crk n) (select_line kc u sel)"
proof -
  obtain x where x: "hd (split_expr sel T_AND) = Leaf x"
    using assms(2) by (auto simp: select_form_def split: expr.splits)
  have "x \<in> expr_items sel" using hd_split_sub [of sel T_AND] by (simp add: x)
  then have "rk x < m" "items_below rk m (sc_direct_dep kc x)"
    using assms(3) d by (auto simp: items_below_def)
  moreover have "items_below rk m b" if "sel = AND a b" for a b
    using assms(3) that by (simp add: items_below_def)
  ultimately show ?thesis
    unfolding select_line_def x using assms(4)
    by (auto simp: Let_def intro!: fine_bindp fine_sc_str_value [OF r] fine_expr_value [OF r, where r = m]
        split: expr.splits)
qed

lemma fine_select_lines:
  assumes r: "ranked kc u rk crk" and n: "8 * m \<le> n" and "items_below rk m ddep"
  shows "\<forall>sel \<in> set sels. select_form sel \<and> items_below rk m sel \<and>
      (\<forall>x \<in> expr_items sel. items_below rk m (sc_direct_dep kc x)) \<Longrightarrow>
    fine (below rk crk n) (select_lines kc u ddep sels)"
  by (induction sels)
    (use assms in \<open>auto intro!: fine_bindp fine_expr_value [OF r, where r = m] fine_select_line [OF r, where m = m]\<close>)

lemma fine_warn_select:
  assumes r: "ranked kc u rk crk" and s: "sane kc" "\<not> is_nmy s" "orig_type (sym_obj kc s) \<noteq> UNKNOWN"
    and n: "8 * rk (Sym s) \<le> n"
  shows "fine (below rk crk n) (warn_select_unsatisfied_deps kc u s)"
proof -
  have q: "sym_ranked kc rk crk s" by (rule ranked_sym [OF r s(2)])
  have "fine (below rk crk n)
      (select_lines kc u (direct_dep (sym_obj kc s)) (split_expr (rev_dep (sym_obj kc s)) T_OR))"
  proof (rule fine_select_lines [OF r n], goal_cases)
    case 1 show ?case using q s(3) by (simp add: sym_ranked_def Let_def)
  next
    case 2 show ?case
      using q s split_expr_sub
      by (fastforce simp: sym_ranked_def Let_def sane_def items_below_def)
  qed
  then show ?thesis
    unfolding warn_select_unsatisfied_deps_def Let_def using q s(3) n
    by (auto simp: sym_ranked_def Let_def intro!: fine_bindp fine_expr_value [OF r, where r = "rk (Sym s)"])
qed

lemma fine_tri_from_defaults:
  assumes r: "ranked kc u rk crk" "\<not> is_nmy s" "orig_type (sym_obj kc s) \<noteq> UNKNOWN" "8 * rk (Sym s) \<le> n"
  shows "fine (below rk crk n) (tri_from_defaults kc u s)"
proof -
  note e = fine_expr_value [OF r(1), where r = "rk (Sym s)", OF _ r(4)]
  have q: "sym_ranked kc rk crk s" by (rule ranked_sym [OF r(1,2)])
  then show ?thesis
    unfolding tri_from_defaults_def using r(3)
    by (intro fine_first_cond [OF r(1,4)])
      (auto simp: sym_ranked_def Let_def intro!: fine_bindp e)
qed

lemma fine_sym_tri:
  assumes r: "ranked kc u rk crk" and s: "sane kc" "\<not> is_nmy s" and v: "valid_user kc u"
    and n: "8 * rk (Sym s) + 3 < n"
  shows "fine (below rk crk n) (sym_tri kc u s)"
proof -
  have n': "8 * rk (Sym s) \<le> n" using n by simp
  have q: "sym_ranked kc rk crk s" by (rule ranked_sym [OF r s(2)])
  note e = fine_expr_value [OF r, where r = "rk (Sym s)", OF _ n']
  show ?thesis
  proof (cases "orig_type (sym_obj kc s) \<in> BOOL_TRISTATE")
    case True
    then have k: "orig_type (sym_obj kc s) \<noteq> UNKNOWN" by auto
    have uv: "user_value u s \<noteq> Some (VStr x)" for x
      using valid_user_uval [OF v] True by (fastforce simp: in_BOOL_TRISTATE)
    have sel: "fine (below rk crk n) (tri_with_selects kc u s val)" for val
      unfolding tri_with_selects_def using q k
      by (auto simp: sym_ranked_def Let_def intro!: fine_bindp e fine_warn_select [OF r s k n'])
    have pro: "fine (below rk crk n) (tri_promote kc u s val)" for val
      unfolding tri_promote_def using q k
      by (auto simp: sym_ranked_def Let_def intro!: fine_bindp e fine_sym_type [OF r s(2) n'])
    have def: "fine (below rk crk n) (tri_from_defaults kc u s)"
      by (rule fine_tri_from_defaults [OF r s(2) k n'])
    have c: "choice (sym_obj kc s) = Some c \<Longrightarrow> 8 * crk c + 2 < n" for c
      using q n by (auto simp: sym_ranked_def Let_def)
    show ?thesis
      unfolding sym_tri_def Let_def using True n uv c
      by (auto intro!: fine_bindp sel pro def split: option.splits uval.splits)
  next
    case False
    then show ?thesis by (auto simp: sym_tri_def Let_def)
  qed
qed

lemma fine_bool_or_implied:
  assumes r: "ranked kc u rk crk" "\<not> is_nmy s" "orig_type (sym_obj kc s) \<noteq> UNKNOWN" "8 * rk (Sym s) \<le> n"
  shows "fine (below rk crk n) (bool_or_implied kc u s)"
  unfolding bool_or_implied_def
  using ranked_sym [OF r(1,2)] r(3)
  by (auto simp: sym_ranked_def Let_def
      intro!: fine_bindp fine_sym_type [OF r(1,2,4)] fine_expr_value [OF r(1), where r = "rk (Sym s)", OF _ r(4)])

lemma fine_sym_assignable:
  assumes r: "ranked kc u rk crk" "\<not> is_nmy s" and n: "8 * rk (Sym s) + 1 < n"
  shows "fine (below rk crk n) (sym_assignable kc u s)"
proof (cases "orig_type (sym_obj kc s) \<in> BOOL_TRISTATE")
  case True
  then have k: "orig_type (sym_obj kc s) \<noteq> UNKNOWN" by auto
  have n': "8 * rk (Sym s) \<le> n" using n by simp
  show ?thesis
    unfolding sym_assignable_def Let_def
    using ranked_sym [OF r] n k
    by (auto simp: sym_ranked_def Let_def
        intro!: fine_bindp fine_bool_or_implied [OF r k n'] fine_expr_value [OF r(1), where r = "rk (Sym s)", OF _ n'])
qed (simp add: sym_assignable_def)

section \<open>String values\<close>

lemma fine_str_default:
  assumes r: "ranked kc u rk crk" "\<not> is_nmy s" "orig_type (sym_obj kc s) \<notin> BOOL_TRISTATE_UNKNOWN"
    "sane kc" "8 * rk (Sym s) \<le> n" and d: "d \<in> set (defaults (sym_obj kc s))"
  shows "fine (below rk crk n) (expr_str_value kc u (fst d)) \<and> items_below rk (rk (Sym s)) (snd d)"
proof -
  have "is_leaf_sym (fst d)" using r(3,4) d by (simp add: sane_def)
  then obtain t where t: "fst d = Leaf (Sym t)" by (auto simp: is_leaf_sym_def split: expr.splits sc.splits)
  have "orig_type (sym_obj kc s) \<noteq> UNKNOWN" using r(3) by (auto simp: BOOL_TRISTATE_UNKNOWN_def)
  then have "items_below rk (rk (Sym s)) (fst d)" "items_below rk (rk (Sym s)) (snd d)"
    using ranked_sym [OF r(1,2)] d by (simp_all add: sym_ranked_def Let_def)
  then show ?thesis using r(5) by (simp add: t items_below_def)
qed

lemma fine_num_from_defaults:
  assumes r: "ranked kc u rk crk" "\<not> is_nmy s" "orig_type (sym_obj kc s) \<notin> BOOL_TRISTATE_UNKNOWN"
    "sane kc" "8 * rk (Sym s) \<le> n"
  shows "fine (below rk crk n) (num_from_defaults kc u s base rng)"
proof -
  have c: "fine P (clamp_default kc s base rng b w)" for P b w
    by (auto simp: clamp_default_def Let_def split: option.splits)
  note d = fine_str_default [OF r]
  show ?thesis
    unfolding num_from_defaults_def
    by (intro fine_first_cond [OF r(1,5)]) (auto simp: c intro!: fine_bindp dest: d)
qed

lemma fine_string_str:
  assumes r: "ranked kc u rk crk" "\<not> is_nmy s" "orig_type (sym_obj kc s) = STRING"
    "sane kc" "8 * rk (Sym s) \<le> n" "valid_user kc u"
  shows "fine (below rk crk n) (string_str kc u s vis)"
proof -
  have k: "orig_type (sym_obj kc s) \<notin> BOOL_TRISTATE_UNKNOWN"
    using r(3) by (simp add: BOOL_TRISTATE_UNKNOWN_def)
  note d = fine_str_default [OF r(1,2) k r(4,5)]
  have "fine (below rk crk n) (bindp (first_cond kc u snd (defaults (sym_obj kc s))) (\<lambda>d.
      case d of None \<Rightarrow> Ret []
      | Some (e, _) \<Rightarrow> bindp (expr_str_value kc u (fst e)) (\<lambda>v. SetW s True (Ret v))))"
    by (intro fine_first_cond [OF r(1,5)]) (auto intro!: fine_bindp dest: d)
  moreover have "user_value u s \<noteq> Some (VTri t)" for t
    using valid_user_uval [OF r(6)] r(3) by fastforce
  ultimately show ?thesis by (auto simp: string_str_def split: option.splits uval.splits)
qed

lemma fine_active_range:
  assumes r: "ranked kc u rk crk" "\<not> is_nmy s" "orig_type (sym_obj kc s) \<noteq> UNKNOWN" "8 * rk (Sym s) \<le> n"
  shows "fine (below rk crk n) (active_range kc u s base)"
  unfolding active_range_def
  by (intro fine_first_cond [OF r(1,4)])
    (use ranked_sym [OF r(1,2)] r(3,4) in \<open>auto simp: sym_ranked_def Let_def intro!: fine_bindp dest!: bspec\<close>)

lemma fine_num_str:
  assumes r: "ranked kc u rk crk" "\<not> is_nmy s" "orig_type (sym_obj kc s) \<in> INT_HEX"
    "sane kc" "8 * rk (Sym s) \<le> n" "valid_user kc u"
    and b: "TYPE_TO_BASE (orig_type (sym_obj kc s)) = Some base"
  shows "fine (below rk crk n) (num_str kc u s vis base)"
proof -
  have k: "orig_type (sym_obj kc s) \<notin> BOOL_TRISTATE_UNKNOWN" "orig_type (sym_obj kc s) \<noteq> UNKNOWN"
    using r(3) by (auto simp: in_INT_HEX BOOL_TRISTATE_UNKNOWN_def)
  have u: "user_value u s = Some w \<Longrightarrow> \<exists>x. w = VStr x \<and> py_int x base \<noteq> None" for w
    using valid_user_uval [OF r(6), of s w] r(3) b
    by (cases w) (auto simp: in_INT_HEX is_base_n_def split: option.splits)
  have "fine (below rk crk n) (num_in_range kc u s vis base rng)" for rng
    unfolding num_in_range_def
    using fine_num_from_defaults [OF r(1,2) k(1) r(4,5)] u
    by (auto split: option.splits uval.splits)
  with fine_active_range [OF r(1,2) k(2) r(5)] show ?thesis
    unfolding num_str_def by (auto intro!: fine_bindp)
qed

lemma fine_sym_str:
  assumes r: "ranked kc u rk crk" and s: "sane kc" and v: "valid_user kc u"
    and n: "8 * rk (Sym s) + 4 < n"
  shows "fine (below rk crk n) (sym_str kc u s)"
proof (cases "is_nmy s")
  case True
  then show ?thesis using n is_nmy_type [OF True, of kc] by (auto simp: sym_str_def Let_def intro!: fine_bindp)
next
  case False
  have n': "8 * rk (Sym s) \<le> n" using n by simp
  show ?thesis
    unfolding sym_str_def Let_def using n
    by (cases "orig_type (sym_obj kc s)")
      (auto intro!: fine_bindp fine_num_str [OF r False _ s n' v] fine_string_str [OF r False _ s n' v])
qed

section \<open>Every attribute has a value\<close>

lemma fine_attr_body:
  assumes r: "ranked kc u rk crk" and s: "sane kc" and v: "valid_user kc u"
    and q: "preset q = None" "ordinary q" and a: "\<not> (\<exists>t. q = QTri t \<and> is_nmy t)"
  shows "fine (below rk crk (qrank rk crk q)) (attr_body kc u q)"
  using q a
  by (cases q)
    (auto simp: attr_body_def ordinary_def split: sc.splits
      intro!: fine_bindp fine_visibility [OF r] fine_sym_tri [OF r s _ v] fine_sym_str [OF r s v]
        fine_selection [OF r s] fine_sym_assignable [OF r] fine_choice_assignable [OF r])

lemma attr_total_exists:
  assumes "ranked kc u rk crk" "sane kc" "valid_user kc u" "ordinary q" "qrank rk crk q < n"
  shows "\<exists>v. pure kc u n q = Inr v"
  using assms(4,5)
proof (induction n arbitrary: q)
  case (Suc n)
  show ?case
  proof (cases "preset q")
    case None
    then have "\<not> (\<exists>t. q = QTri t \<and> is_nmy t)" by (auto simp: is_nmy_def)
    then have f: "fine (below rk crk (qrank rk crk q)) (attr_body kc u q)"
      using fine_attr_body assms(1-3) None Suc.prems(1) by blast
    have "\<exists>v. pure kc u n q' = Inr v" if "below rk crk (qrank rk crk q) q'" for q'
      using that Suc.IH [of q'] Suc.prems(2) by (simp add: below_def)
    then have "\<exists>a. interp (pure kc u n) (attr_body kc u q) = Inr a"
      using f interp_total unfolding fine_def by blast
    then show ?thesis using None by simp
  qed simp
qed simp

text \<open>\<^verbatim>\<open>assignable\<close> of the constants.\<close>

lemma const_assignable:
  assumes "is_nmy k" shows "pure kc u (Suc (Suc n)) (QAss (Sym k)) = Inr (VAss [])"
proof -
  have k: "sym_obj kc k = const_symbol" using assms by (simp add: sym_obj_def)
  have "interp (pure kc u n) (visibility kc u (Sym k)) = Inr TN"
    by (simp add: visibility_def sc_nodes_def k const_symbol_def fresh_symbol_def promote_vis_def)
  then have v: "pure kc u (Suc n) (QVis (Sym k)) = Inr (VT TN)"
    by (simp add: attr_body_def evals)
  have "interp (pure kc u (Suc n)) (sym_assignable kc u k) = Inr []"
    by (simp add: sym_assignable_def k const_symbol_def Let_def evals v del: pure.simps)
  then show ?thesis
    unfolding pure.simps(2) [of kc u "Suc n"] by (simp add: attr_body_def evals del: pure.simps)
qed

lemma attr_total_any:
  assumes "ranked kc u rk crk" "sane kc" "valid_user kc u" "qrank rk crk q < n"
  shows "\<exists>v. pure kc u n q = Inr v"
proof (cases "ordinary q")
  case False
  then obtain k where k: "q = QAss (Sym k)" "is_nmy k"
    by (auto simp: ordinary_def split: query.splits sc.splits)
  then obtain m where "n = Suc (Suc m)" using assms(4) by (cases n; cases "n - 1") auto
  then show ?thesis using const_assignable k by blast
qed (use attr_total_exists assms in blast)

text \<open>
  C25. In a ranked, sane configuration with well-typed user values, every attribute has a
  value: the computation needs no more nesting than the rank of the attribute, and raises
  no exception.
\<close>

theorem attr_total:
  assumes "ranked kc u rk crk" "sane kc" "valid_user kc u" "qrank rk crk q < n"
  shows "\<exists>v. pure kc u n q = Inr v"
  by (rule attr_total_any [OF assms])

text \<open>
  The same through the caches: in a coherent state, with fuel above its rank, reading
  an attribute returns its value and leaves a coherent state.
\<close>

theorem get_total:
  assumes "ranked kc u rk crk" "sane kc" "valid_user kc u" "qrank rk crk q < n"
    and "coherent kc u st"
  shows "\<exists>v st'. get kc n q st = (Inr v, st') \<and> attr kc u q v \<and> coherent kc u st'"
proof -
  obtain v where "pure kc u n q = Inr v" using attr_total_any assms(1-4) by blast
  then obtain st' where g: "get kc n q st = (Inr v, st')"
    using cached.rd_complete [OF assms(5)] by blast
  then show ?thesis using cached.rd_sound [OF assms(5)] cached.rd_inv [OF assms(5)] by blast
qed

end
