(* ===== verification/Value_Props.thy ===== *)
theory Value_Props
  imports Cache
begin

text \<open>
  What the values of symbols and choices satisfy: the ranges of values by type, selects
  as lower bounds, the effect of a user value, the correctness of \<^verbatim>\<open>assignable\<close>, at most
  one selected symbol in a choice, numbers inside their range, and the algebra of
  expressions.
\<close>

section \<open>Types and visibility\<close>

lemma sym_type_is:
  "evals kc u (sym_type kc u s) ty \<Longrightarrow>
     ty = orig_type (sym_obj kc s) \<or> (orig_type (sym_obj kc s) = TRISTATE \<and> ty = BOOL)"
  by (auto simp: sym_type_def modules_type_def evals_bindp split: if_splits option.splits)

lemma sym_type_BOOL [simp]:
  "orig_type (sym_obj kc s) = BOOL \<Longrightarrow> evals kc u (sym_type kc u s) ty \<longleftrightarrow> ty = BOOL"
  by (auto simp: sym_type_def)

lemma promote_vis_not_TM:
  assumes "evals kc u (promote_vis kc u x vis) t" "t = TM"
  shows "vis = TM \<and> evals kc u (sc_type kc u x) TRISTATE"
  using assms by (auto simp: promote_vis_def evals_bindp split: if_splits)

lemma vis_is_cases:
  assumes "vis_is kc u x t"
  shows "t = TN \<or> (\<exists>v. evals kc u (prompt_vis kc u (sc_nodes kc x) TN) v \<and>
                      evals kc u (promote_vis kc u x v) t)"
proof (cases x)
  case (Cho c)
  with assms show ?thesis by (auto simp: vis_is_eq visibility_def evals_bindp)
next
  case (Sym s)
  obtain v where v: "evals kc u (prompt_vis kc u (sc_nodes kc x) TN) v"
    and r: "t \<noteq> TN \<longrightarrow> evals kc u (promote_vis kc u x v) t"
    using assms by (cases "choice (sym_obj kc s)"; cases "orig_type (sym_obj kc s) = TRISTATE")
      (auto simp: vis_is_eq visibility_def evals_bindp Sym split: if_splits)
  then show ?thesis by blast
qed

lemma visibility_TM:
  assumes "vis_is kc u x TM" shows "evals kc u (sc_type kc u x) TRISTATE"
  using vis_is_cases [OF assms] by (auto dest: promote_vis_not_TM)

lemma vis_BOOL:
  assumes "vis_is kc u (Sym s) v" "orig_type (sym_obj kc s) = BOOL" shows "v \<noteq> TM"
  using visibility_TM [of kc u "Sym s"] assms by auto

section \<open>Symbols outside choices\<close>

lemma tri_with_selects_is:
  "evals kc u (tri_with_selects kc u s v) w \<Longrightarrow>
     \<exists>r. expr_is kc u (rev_dep (sym_obj kc s)) r \<and> w = max r v"
  by (auto simp: tri_with_selects_def evals_bindp split: if_splits)

lemma tri_promote_is:
  "evals kc u (tri_promote kc u s v) t \<Longrightarrow>
     (v \<noteq> TM \<and> t = v) \<or>
     (v = TM \<and> t = TY \<and> (evals kc u (sym_type kc u s) BOOL \<or>
        expr_is kc u (weak_rev_dep (sym_obj kc s)) TY)) \<or>
     (v = TM \<and> t = TM \<and> (\<exists>ty. ty \<noteq> BOOL \<and> evals kc u (sym_type kc u s) ty) \<and>
        (\<exists>w. w \<noteq> TY \<and> expr_is kc u (weak_rev_dep (sym_obj kc s)) w))"
  by (auto simp: tri_promote_def evals_bindp split: if_splits)

lemma tri_promote_le: "evals kc u (tri_promote kc u s v) t \<Longrightarrow> v \<le> t"
  by (drule tri_promote_is) auto

text \<open>The value of a symbol outside a choice before selects: its user value cut to the
  visibility, or the value from defaults and implies.\<close>

definition base_val :: "kconfig \<Rightarrow> user_state \<Rightarrow> sref \<Rightarrow> tri \<Rightarrow> tri \<Rightarrow> bool" where
  "base_val kc u s vis v \<longleftrightarrow>
     (if vis \<noteq> TN \<and> user_value u s \<noteq> None
      then \<exists>t. user_value u s = Some (VTri t) \<and> v = min t vis
      else evals kc u (tri_from_defaults kc u s) v)"

lemma base_val_evals:
  "evals kc u (case (if vis \<noteq> TN then user_value u s else None) of
      Some (VTri t) \<Rightarrow> Ret (min t vis) | Some (VStr _) \<Rightarrow> Raise TypeError
    | None \<Rightarrow> tri_from_defaults kc u s) v \<longleftrightarrow> base_val kc u s vis v"
  by (auto simp: base_val_def split: option.splits uval.splits)

lemma tri_is_plain:
  assumes "\<not> is_nmy s" "orig_type (sym_obj kc s) \<in> BOOL_TRISTATE" "choice (sym_obj kc s) = None"
  shows "tri_is kc u s t \<longleftrightarrow>
     (\<exists>vis v w. vis_is kc u (Sym s) vis \<and> base_val kc u s vis v \<and>
        evals kc u (tri_with_selects kc u s v) w \<and> evals kc u (tri_promote kc u s w) t)"
  unfolding tri_is_eq [OF assms(1)] sym_tri_def Let_def
  using assms(2,3) by (simp add: evals_bindp base_val_evals)

lemma tri_is_plainE:
  assumes "tri_is kc u s t"
    and "\<not> is_nmy s" "orig_type (sym_obj kc s) \<in> BOOL_TRISTATE" "choice (sym_obj kc s) = None"
  obtains vis v r where "vis_is kc u (Sym s) vis" "base_val kc u s vis v"
    "expr_is kc u (rev_dep (sym_obj kc s)) r" "evals kc u (tri_promote kc u s (max r v)) t"
  using assms(1) tri_with_selects_is unfolding tri_is_plain [OF assms(2-4)] by blast

section \<open>Choice symbols\<close>

lemma evals_choice_member:
  "evals kc u (if vis = TY then bindp (rd_sel c) (\<lambda>sel. Ret (if sel = Some s then TY else TN))
     else if P then Ret TM else Ret TN) t \<longleftrightarrow>
     (if vis = TY then \<exists>sel. sel_is kc u c sel \<and> t = (if sel = Some s then TY else TN)
      else t = (if P then TM else TN))"
  by (auto simp: evals_bindp)

lemma tri_is_choice:
  assumes "\<not> is_nmy s" "orig_type (sym_obj kc s) \<in> BOOL_TRISTATE" "choice (sym_obj kc s) = Some c"
  shows "tri_is kc u s t \<longleftrightarrow>
     (\<exists>vis. vis_is kc u (Sym s) vis \<and>
        (if vis = TY then \<exists>sel. sel_is kc u c sel \<and> t = (if sel = Some s then TY else TN)
         else t = (if vis \<noteq> TN \<and> user_value u s \<notin> {None, Some (VTri TN), Some (VStr [])}
                   then TM else TN)))"
  unfolding tri_is_eq [OF assms(1)] sym_tri_def Let_def
  using assms(2,3) by (simp only: evals_bindp evals_choice_member evals_SetW evals_reads
    not_not if_False if_True option.case simp_thms)

lemma tri_is_untyped:
  assumes "\<not> is_nmy s" "orig_type (sym_obj kc s) \<notin> BOOL_TRISTATE"
  shows "tri_is kc u s t \<longleftrightarrow> t = TN"
  unfolding tri_is_eq [OF assms(1)] sym_tri_def using assms(2) by (auto simp: Let_def)

lemma tri_is_choice_TM:
  assumes "tri_is kc u s TM" "\<not> is_nmy s" "orig_type (sym_obj kc s) \<in> BOOL_TRISTATE"
    and "choice (sym_obj kc s) = Some c"
  shows "vis_is kc u (Sym s) TM"
proof -
  obtain vis where "vis_is kc u (Sym s) vis" "vis \<noteq> TY" "vis \<noteq> TN"
    using assms(1) unfolding tri_is_choice [OF assms(2-4)] by (auto split: if_splits)
  then show ?thesis by (cases vis) auto
qed

section \<open>Ranges of values\<close>

text \<open>A bool symbol never has the value m, in a choice or outside one.\<close>

theorem bool_never_m:
  assumes "tri_is kc u s t" "orig_type (sym_obj kc s) = BOOL" "\<not> is_nmy s"
  shows "t \<noteq> TM"
proof (cases "choice (sym_obj kc s)")
  case None
  from assms show ?thesis
    by (elim tri_is_plainE) (use assms(2) None in \<open>auto dest!: tri_promote_is\<close>)
next
  case (Some c)
  have "\<not> vis_is kc u (Sym s) TM" using vis_BOOL assms(2) by blast
  then show ?thesis using tri_is_choice_TM [of kc u s c] assms Some by auto
qed

lemma modules_off_type:
  "tri_is kc u modules TN \<Longrightarrow> \<not> evals kc u (sc_type kc u x) TRISTATE"
  by (cases x) (auto simp: sym_type_def choice_type_def modules_type_def evals_bindp
      dest: is_funs split: option.splits if_splits)

lemma modules_off_vis: "tri_is kc u modules TN \<Longrightarrow> vis_is kc u x v \<Longrightarrow> v \<noteq> TM"
  using visibility_TM modules_off_type by blast

text \<open>With modules disabled, no symbol but the constant m has the value m.\<close>

theorem no_m_without_modules:
  assumes off: "tri_is kc u modules TN" and t: "tri_is kc u s t" and s: "\<not> is_nmy s"
  shows "t \<noteq> TM"
proof (cases "orig_type (sym_obj kc s) \<in> BOOL_TRISTATE")
  case True
  have ty: "ty = BOOL" if "evals kc u (sym_type kc u s) ty" for ty
    using sym_type_is [OF that] modules_off_type [OF off, of "Sym s"] that True
    by (auto simp: in_BOOL_TRISTATE)
  show ?thesis
  proof (cases "choice (sym_obj kc s)")
    case None
    from t s True None show ?thesis by (elim tri_is_plainE) (auto dest!: tri_promote_is dest: ty)
  next
    case (Some c)
    then show ?thesis
      using tri_is_choice_TM [of kc u s c] modules_off_vis [OF off] t s True by blast
  qed
qed (use tri_is_untyped [OF s] t in auto)

section \<open>Selects and user values\<close>

text \<open>The selects of a symbol are a lower bound on its value.\<close>

theorem select_lower_bound:
  assumes "tri_is kc u s t" "expr_is kc u (rev_dep (sym_obj kc s)) r"
    and "\<not> is_nmy s" "orig_type (sym_obj kc s) \<in> BOOL_TRISTATE" "choice (sym_obj kc s) = None"
  shows "r \<le> t"
  using assms(1,3-5)
proof (elim tri_is_plainE)
  fix vis v r' assume "expr_is kc u (rev_dep (sym_obj kc s)) r'"
    "evals kc u (tri_promote kc u s (max r' v)) t"
  with expr_is_fun [OF assms(2)] tri_promote_le show ?thesis by fastforce
qed

text \<open>The promotion at the end of \<^verbatim>\<open>tri_value\<close>, once type and implies are known.\<close>

definition promoted :: "ktype \<Rightarrow> tri \<Rightarrow> tri \<Rightarrow> tri" where
  "promoted ty w v = (if v = TM \<and> (ty = BOOL \<or> w = TY) then TY else v)"

lemma tri_promote_promoted:
  assumes "evals kc u (tri_promote kc u s v) t" "evals kc u (sym_type kc u s) ty"
    "expr_is kc u (weak_rev_dep (sym_obj kc s)) w"
  shows "t = promoted ty w v"
  using tri_promote_is [OF assms(1)] assms(2,3)
  by (auto simp: promoted_def dest: evals_fun expr_is_fun)

text \<open>
  The inputs of a symbol's value: its visibility, the values of its selects and implies,
  and its type.
\<close>

definition sym_inputs :: "kconfig \<Rightarrow> user_state \<Rightarrow> sref \<Rightarrow> tri \<Rightarrow> tri \<Rightarrow> tri \<Rightarrow> ktype \<Rightarrow> bool" where
  "sym_inputs kc u s vis r w ty \<longleftrightarrow>
     vis_is kc u (Sym s) vis \<and> expr_is kc u (rev_dep (sym_obj kc s)) r \<and>
     expr_is kc u (weak_rev_dep (sym_obj kc s)) w \<and> evals kc u (sym_type kc u s) ty"

lemma user_value_is:
  assumes "tri_is kc u s t" "sym_inputs kc u s vis r w ty" "vis \<noteq> TN"
    and "user_value u s = Some (VTri uv)"
    and "\<not> is_nmy s" "orig_type (sym_obj kc s) \<in> BOOL_TRISTATE" "choice (sym_obj kc s) = None"
  shows "t = promoted ty w (max r (min uv vis))"
  using assms(1,5-7)
proof (elim tri_is_plainE)
  fix vis' v r' assume h: "vis_is kc u (Sym s) vis'" "base_val kc u s vis' v"
    "expr_is kc u (rev_dep (sym_obj kc s)) r'" "evals kc u (tri_promote kc u s (max r' v)) t"
  have "vis' = vis" "r' = r"
    using h assms(2) by (auto simp: sym_inputs_def dest: is_funs expr_is_fun)
  moreover have "v = min uv vis" using h(2) assms(3,4) calculation by (simp add: base_val_def)
  ultimately show ?thesis
    using h(4) assms(2) by (auto simp: sym_inputs_def intro: tri_promote_promoted)
qed

text \<open>
  The value of a visible symbol with a user value: the user value cut to the
  visibility, raised to the selects, and m promoted to y if the symbol is a bool (now) or
  implied to y.
\<close>

theorem user_value_effect:
  assumes "tri_is kc u s t" "sym_inputs kc u s vis r w ty" "vis \<noteq> TN"
    and "user_value u s = Some (VTri uv)"
    and "\<not> is_nmy s" "orig_type (sym_obj kc s) \<in> BOOL_TRISTATE" "choice (sym_obj kc s) = None"
  shows "t = promoted ty w (max r (min uv vis))"
  by (rule user_value_is [OF assms])

section \<open>Assignable values\<close>

definition with_user :: "user_state \<Rightarrow> sref \<Rightarrow> tri \<Rightarrow> user_state" where
  "with_user u s v = u\<lparr>user_value := (user_value u)(s := Some (VTri v))\<rparr>"

lemma sym_assignable_is:
  assumes "ass_is kc u (Sym s) as" "sym_inputs kc u s vis r w ty" "vis \<noteq> TN"
    and "orig_type (sym_obj kc s) \<in> BOOL_TRISTATE" "choice (sym_obj kc s) = None"
  shows "as =
    (if vis = TY then
       (if r = TN then (if ty = BOOL \<or> w = TY then [TN, TY] else [TN, TM, TY])
        else if r = TY then [TY] else (if ty = BOOL \<or> w = TY then [TY] else [TM, TY]))
     else if r = TN then (if w \<noteq> TY then [TN, TM] else [TN, TY])
     else if r = TY then [TY] else [TM])"
proof -
  have b: "b = (ty = BOOL \<or> w = TY)" if "evals kc u (bool_or_implied kc u s) b" for b
    using that assms(2)
    by (auto simp: bool_or_implied_def evals_bindp sym_inputs_def dest: evals_fun expr_is_fun
        split: if_splits)
  obtain vis' r' where i: "vis_is kc u (Sym s) vis'" "vis' = vis" "r' = r"
    "expr_is kc u (rev_dep (sym_obj kc s)) r'"
    using assms(2) by (auto simp: sym_inputs_def)
  have w: "w' = w" if "expr_is kc u (weak_rev_dep (sym_obj kc s)) w'" for w'
    using that assms(2) by (auto simp: sym_inputs_def dest: expr_is_fun)
  have v: "v = vis" if "vis_is kc u (Sym s) v" for v
    using that i(1,2) is_funs(1) by blast
  have r: "r'' = r" if "expr_is kc u (rev_dep (sym_obj kc s)) r''" for r''
    using that i(3,4) expr_is_fun by blast
  from assms(1) show ?thesis
    unfolding ass_is_Sym_eq sym_assignable_def Let_def
    using assms(3-5) by (auto simp: evals_bindp dest!: b w v r split: if_splits)
qed

lemma sym_inputs_TM: "sym_inputs kc u s TM r w ty \<Longrightarrow> ty = TRISTATE"
  unfolding sym_inputs_def using visibility_TM [of kc u "Sym s"] evals_fun by fastforce

text \<open>
  C20. \<^verbatim>\<open>assignable\<close> for a visible bool or tristate symbol outside of choices, whose visibility,
  selects, implies and type do not depend on its own user value: assigning a value in
  \<^verbatim>\<open>assignable\<close> gives the symbol that value, and every value some assignment gives it is in
  \<^verbatim>\<open>assignable\<close> -- except when visibility and selects are both m and the symbol is implied to y,
  where \<^verbatim>\<open>assignable\<close> is wrong.
\<close>

theorem assignable_exact:
  assumes "ass_is kc u (Sym s) as" "sym_inputs kc u s vis r w ty" "vis \<noteq> TN"
    and "\<And>v. sym_inputs kc (with_user u s v) s vis r w ty"
    and "\<not> (vis = TM \<and> r = TM \<and> w = TY)"
    and "\<not> is_nmy s" "orig_type (sym_obj kc s) \<in> BOOL_TRISTATE" "choice (sym_obj kc s) = None"
  shows "(v \<in> set as \<and> tri_is kc (with_user u s v) s t \<longrightarrow> t = v) \<and>
         (tri_is kc (with_user u s v) s t \<longrightarrow> t \<in> set as)"
proof -
  note as = sym_assignable_is [OF assms(1-3,7,8)]
  have val: "t = promoted ty w (max r (min v vis))" if "tri_is kc (with_user u s v) s t"
    by (rule user_value_is [OF that assms(4,3) _ assms(6-8)]) (simp add: with_user_def)
  have ty: "vis = TM \<Longrightarrow> ty = TRISTATE" using sym_inputs_TM assms(2) by blast
  show ?thesis
    using val ty assms(3,5) unfolding as promoted_def
    by (cases vis; cases r; cases v) auto
qed

text \<open>
  C26. In the excepted case \<^verbatim>\<open>assignable\<close> is wrong: it lists just m, while the symbol is y
  whatever is assigned.
\<close>

theorem assignable_implied_y_corner:
  assumes "ass_is kc u (Sym s) as" "sym_inputs kc u s TM TM TY ty"
    and "\<And>v. sym_inputs kc (with_user u s v) s TM TM TY ty"
    and "\<not> is_nmy s" "orig_type (sym_obj kc s) \<in> BOOL_TRISTATE" "choice (sym_obj kc s) = None"
  shows "as = [TM] \<and> (tri_is kc (with_user u s v) s t \<longrightarrow> t = TY)"
proof -
  have "as = [TM]" using sym_assignable_is [OF assms(1,2) _ assms(5,6)] by simp
  moreover have "t = TY" if "tri_is kc (with_user u s v) s t"
    using user_value_is [OF that assms(3) _ _ assms(4-6), of v]
    by (cases v) (simp_all add: promoted_def with_user_def)
  ultimately show ?thesis by simp
qed

section \<open>Choices\<close>

lemma choice_y_selected:
  assumes "tri_is kc u s TY" "\<not> is_nmy s" "orig_type (sym_obj kc s) \<in> BOOL_TRISTATE"
    and "choice (sym_obj kc s) = Some c"
  shows "sel_is kc u c (Some s)"
  using assms(1) unfolding tri_is_choice [OF assms(2-4)] by (auto split: if_splits)

text \<open>Two symbols of the same choice are never both y.\<close>

theorem choice_at_most_one_y:
  assumes "tri_is kc u s1 TY" "tri_is kc u s2 TY"
    and "choice (sym_obj kc s1) = Some c" "choice (sym_obj kc s2) = Some c"
    and "\<not> is_nmy s1" "orig_type (sym_obj kc s1) \<in> BOOL_TRISTATE"
    and "\<not> is_nmy s2" "orig_type (sym_obj kc s2) \<in> BOOL_TRISTATE"
  shows "s1 = s2"
  using choice_y_selected [OF assms(1,5,6,3)] choice_y_selected [OF assms(2,7,8,4)] is_funs(4)
  by blast

lemma first_visible_is:
  "evals kc u (first_visible ss) o_s \<Longrightarrow>
     (case o_s of None \<Rightarrow> \<forall>s \<in> set ss. vis_is kc u (Sym s) TN
      | Some s \<Rightarrow> s \<in> set ss \<and> (\<exists>v. v \<noteq> TN \<and> vis_is kc u (Sym s) v))"
  by (induction ss) (auto simp: evals_bindp split: if_splits option.splits)

definition default_syms :: "(expr \<times> expr) list \<Rightarrow> sref set" where
  "default_syms ds = {s. \<exists>d \<in> set ds. fst d = Leaf (Sym s)}"

lemma default_selection_is:
  assumes "evals kc u (default_selection kc u ds otherwise) o_s"
  shows "evals kc u otherwise o_s \<or>
     (\<exists>s v. o_s = Some s \<and> s \<in> default_syms ds \<and> v \<noteq> TN \<and> vis_is kc u (Sym s) v)"
  using assms
proof (induction ds)
  case (Cons d ds)
  have sub: "default_syms ds \<subseteq> default_syms (d # ds)" by (auto simp: default_syms_def)
  consider "evals kc u (default_selection kc u ds otherwise) o_s"
    | s v where "fst d = Leaf (Sym s)" "o_s = Some s" "v \<noteq> TN" "vis_is kc u (Sym s) v"
    using Cons.prems by (auto simp: evals_bindp split: if_splits expr.splits sc.splits)
  then show ?case
  proof cases
    case 1 then show ?thesis using Cons.IH sub by blast
  next
    case 2 then show ?thesis by (auto simp: default_syms_def)
  qed
qed simp

text \<open>The candidates of a choice: its symbols, its defaults and the user's selection.\<close>

definition candidates :: "kconfig \<Rightarrow> user_state \<Rightarrow> nat \<Rightarrow> sref set" where
  "candidates kc u c =
     set (c_syms (choicetab kc c)) \<union> default_syms (c_defaults (choicetab kc c)) \<union>
     set_option (user_selection u c)"

lemma selection_is:
  assumes "sel_is kc u c o_s"
  shows "case o_s of
      None \<Rightarrow> (\<exists>t. t \<noteq> TY \<and> evals kc u (choice_tri kc u c) t) \<or>
              (\<forall>s \<in> set (c_syms (choicetab kc c)). vis_is kc u (Sym s) TN)
    | Some s \<Rightarrow> s \<in> candidates kc u c \<and> evals kc u (choice_tri kc u c) TY \<and>
               (\<exists>v. v \<noteq> TN \<and> vis_is kc u (Sym s) v)"
proof -
  have d: "case o_s of None \<Rightarrow> \<forall>s \<in> set (c_syms (choicetab kc c)). vis_is kc u (Sym s) TN
    | Some s \<Rightarrow> s \<in> candidates kc u c \<and> (\<exists>v. v \<noteq> TN \<and> vis_is kc u (Sym s) v)"
    if "evals kc u (selection_from_defaults kc u c) o_s" for o_s
    using default_selection_is [OF that [unfolded selection_from_defaults_def]]
    by (auto simp: candidates_def dest!: first_visible_is split: option.splits)
  from assms obtain t where t: "evals kc u (choice_tri kc u c) t"
    and r: "t \<noteq> TY \<and> o_s = None \<or> t = TY \<and> (evals kc u (selection_from_defaults kc u c) o_s \<or>
      (\<exists>s v. user_selection u c = Some s \<and> o_s = Some s \<and> v \<noteq> TN \<and> vis_is kc u (Sym s) v))"
    by (auto simp: sel_is_eq selection_def evals_bindp split: if_splits option.splits)
  from r show ?thesis
  proof (elim disjE conjE exE)
    assume ty: "t = TY" and e: "evals kc u (selection_from_defaults kc u c) o_s"
    show ?thesis using d [OF e] t ty by (cases o_s) auto
  qed (use t in \<open>auto simp: candidates_def\<close>)
qed

text \<open>
  The selection of a choice is a visible candidate, of a choice in y mode; a choice in
  y mode without a selection has no visible symbol.
\<close>

theorem selection_correct:
  assumes "sel_is kc u c o_s"
  shows "case o_s of
      None \<Rightarrow> (\<exists>t. t \<noteq> TY \<and> evals kc u (choice_tri kc u c) t) \<or>
              (\<forall>s \<in> set (c_syms (choicetab kc c)). vis_is kc u (Sym s) TN)
    | Some s \<Rightarrow> s \<in> candidates kc u c \<and> evals kc u (choice_tri kc u c) TY \<and>
               (\<exists>v. v \<noteq> TN \<and> vis_is kc u (Sym s) v)"
  by (rule selection_is [OF assms])

text \<open>A member of a choice: a bool or tristate symbol that has the choice as its choice.\<close>

definition member_of :: "kconfig \<Rightarrow> nat \<Rightarrow> sref \<Rightarrow> bool" where
  "member_of kc c s \<longleftrightarrow>
     \<not> is_nmy s \<and> orig_type (sym_obj kc s) \<in> BOOL_TRISTATE \<and> choice (sym_obj kc s) = Some c"

lemma member_vis_y_mode:
  assumes "member_of kc c s" "evals kc u (choice_tri kc u c) TY" "vis_is kc u (Sym s) v"
  shows "v \<noteq> TM"
proof
  assume v: "v = TM"
  with visibility_TM assms(3) have "evals kc u (sym_type kc u s) TRISTATE" by fastforce
  then obtain t where t: "t \<noteq> TY" "evals kc u (choice_tri kc u c) t"
    using assms(1)
    by (auto simp: sym_type_def member_of_def evals_bindp in_BOOL_TRISTATE split: if_splits)
  from evals_fun [OF t(2) assms(2)] t(1) show False by simp
qed

text \<open>
  C21. In y mode, if some symbol of the choice is visible and its symbols, its defaults and the
  selection of the user are bool or tristate symbols of this choice, exactly one of them has the
  value y: the selection; and every other one has the value n. Without a visible symbol there is
  no selection.
\<close>

theorem choice_exactly_one_y:
  assumes "sel_is kc u c sel" "evals kc u (choice_tri kc u c) TY"
    and "\<forall>s \<in> candidates kc u c. member_of kc c s"
    and "s0 \<in> set (c_syms (choicetab kc c))" "\<not> vis_is kc u (Sym s0) TN"
  shows "\<exists>s. sel = Some s \<and> member_of kc c s \<and> tri_is kc u s TY \<and>
           (\<forall>s' t. member_of kc c s' \<and> s' \<noteq> s \<and> tri_is kc u s' t \<longrightarrow> t = TN)"
proof -
  obtain s v where s: "sel = Some s" "s \<in> candidates kc u c" "v \<noteq> TN" "vis_is kc u (Sym s) v"
    using selection_is [OF assms(1)] assms(2,4,5) evals_fun
    by (fastforce split: option.splits)
  have m: "member_of kc c s" using assms(3) s(2) by blast
  have "v = TY" using member_vis_y_mode [OF m assms(2) s(4)] s(3) by (cases v) auto
  then have "tri_is kc u s TY"
    using m s(1,4) assms(1) by (auto simp: member_of_def tri_is_choice)
  moreover have "t = TN" if "member_of kc c s'" "s' \<noteq> s" "tri_is kc u s' t" for s' t
  proof -
    have "vis_is kc u (Sym s') TM \<Longrightarrow> False" using member_vis_y_mode [OF that(1) assms(2)] by blast
    then have "t \<noteq> TM" using tri_is_choice_TM that(1,3) unfolding member_of_def by blast
    moreover have "t \<noteq> TY"
      using choice_y_selected [of kc u s' c] is_funs(4) [OF assms(1)] that s(1)
      unfolding member_of_def by blast
    ultimately show ?thesis by (cases t) auto
  qed
  ultimately show ?thesis using s(1) m by blast
qed

section \<open>Numbers and their ranges\<close>

lemma num_or_0_py_str [simp]: "num_or_0 (py_str i) 10 = i"
  by (simp add: num_or_0_def py_int_py_str)

lemma num_or_0_py_hex [simp]: "num_or_0 (py_hex i) 16 = i"
  by (simp add: num_or_0_def py_int_py_hex)

lemma num_or_0_Nil [simp]: "num_or_0 [] b = 0"
  by (simp add: num_or_0_def py_int_def)

lemma clamp_default_range:
  assumes "evals kc u (clamp_default kc s base (Some (lo, hi)) b val) w" "lo \<le> hi"
    and "TYPE_TO_BASE (orig_type (sym_obj kc s)) = Some base" "orig_type (sym_obj kc s) \<in> INT_HEX"
    and "\<not> b \<longrightarrow> val = []"
  shows "lo \<le> num_or_0 w base \<and> num_or_0 w base \<le> hi"
proof -
  have cl: "num_or_0 (if orig_type (sym_obj kc s) = INT_T then py_str c else py_hex c) base = c" for c
    using assms(3,4) by (auto simp: in_INT_HEX)
  have vn: "(if b then num_or_0 val base else 0) = num_or_0 val base" using assms(5) by auto
  show ?thesis
  proof (cases "num_or_0 val base < lo \<or> num_or_0 val base > hi")
    case True
    then obtain c where "c = lo \<or> c = hi"
      "w = (if orig_type (sym_obj kc s) = INT_T then py_str c else py_hex c)"
      using assms(1) unfolding clamp_default_def vn by (auto simp: Let_def split: if_splits)
    then show ?thesis using cl [of c] assms(2) by auto
  next
    case False
    then have "w = val" using assms(1) unfolding clamp_default_def vn by simp
    with False show ?thesis by simp
  qed
qed

lemma num_from_defaults_range:
  assumes "evals kc u (num_from_defaults kc u s base (Some (lo, hi))) w" "lo \<le> hi"
    and "TYPE_TO_BASE (orig_type (sym_obj kc s)) = Some base" "orig_type (sym_obj kc s) \<in> INT_HEX"
  shows "lo \<le> num_or_0 w base \<and> num_or_0 w base \<le> hi"
proof -
  obtain b val where "evals kc u (clamp_default kc s base (Some (lo, hi)) b val) w" "\<not> b \<longrightarrow> val = []"
    using assms(1) unfolding num_from_defaults_def evals_bindp
    by (auto simp: evals_bindp split: option.splits prod.splits)
  then show ?thesis using clamp_default_range assms(2-4) by blast
qed

text \<open>
  C22. The string value of an int or hex symbol with an active range \<open>[lo, hi]\<close> stands for
  a number in that range (a string that is no number stands for 0, as it does for the C
  tools), whatever its user value and defaults are.
\<close>

theorem num_value_in_range:
  assumes "str_is kc u s w" "orig_type (sym_obj kc s) \<in> INT_HEX"
    and "TYPE_TO_BASE (orig_type (sym_obj kc s)) = Some base"
    and "evals kc u (active_range kc u s base) (Some (lo, hi))" "lo \<le> hi"
  shows "lo \<le> num_or_0 w base \<and> num_or_0 w base \<le> hi"
proof -
  obtain vis where n: "evals kc u (num_str kc u s vis base) w"
    using assms(1-3) unfolding str_is_eq sym_str_def Let_def
    by (auto simp: evals_bindp in_INT_HEX split: if_splits)
  have r: "rng = Some (lo, hi)" if "evals kc u (active_range kc u s base) rng" for rng
    using evals_fun [OF that assms(4)] .
  from n have "evals kc u (num_in_range kc u s vis base (Some (lo, hi))) w"
    unfolding num_str_def evals_bindp using r by blast
  then have "evals kc u (num_from_defaults kc u s base (Some (lo, hi))) w \<or>
        (\<exists>i. py_int w base = Some i \<and> lo \<le> i \<and> i \<le> hi)"
    unfolding num_in_range_def
    by (cases "if vis \<noteq> TN then user_value u s else None")
      (auto split: option.splits uval.splits if_splits)
  then show ?thesis
    using num_from_defaults_range [OF _ assms(5,3,2)] by (auto simp: num_or_0_def)
qed

section \<open>Expressions\<close>

text \<open>The simplifying constructors mean conjunction and disjunction: minimum, maximum.\<close>

theorem make_and_or_value:
  assumes "expr_is kc u a va" "expr_is kc u b vb"
  shows "expr_is kc u (make_and a b) (min va vb) \<and> expr_is kc u (make_or a b) (max va vb)"
proof -
  have "expr_is kc u (AND a b) (min va vb)"
    unfolding expr_is_AND by (rule exI [of _ va]) (use assms in auto)
  moreover have "expr_is kc u (OR a b) (max va vb)"
    unfolding expr_is_OR by (rule exI [of _ va]) (use assms in auto)
  ultimately show ?thesis using assms by (auto simp: make_and_def make_or_def)
qed

lemma sym_to_num_tri:
  assumes "tri_is kc u s t" "orig_type (sym_obj kc s) \<in> BOOL_TRISTATE"
  shows "evals kc u (sym_to_num kc s) n \<longleftrightarrow> n = Some (int_of_tri t)"
proof -
  have "tri_is kc u s t' \<longleftrightarrow> t' = t" for t' using assms(1) is_funs(2) by blast
  then show ?thesis using assms(2) by (auto simp: sym_to_num_def in_BOOL_TRISTATE evals_bindp)
qed

lemma rel_compare_tri:
  assumes "tri_is kc u s t" "orig_type (sym_obj kc s) \<in> BOOL_TRISTATE"
    and "tri_is kc u k v" "orig_type (sym_obj kc k) \<in> BOOL_TRISTATE"
  shows "evals kc u (rel_compare kc s k) c \<longleftrightarrow> c = int_of_tri t - int_of_tri v"
  unfolding rel_compare_def
  using assms(2,4) by (auto simp: evals_bindp sym_to_num_tri [OF assms(1,2)]
      sym_to_num_tri [OF assms(3,4)] in_BOOL_TRISTATE)

lemma rel_compare_const:
  assumes "tri_is kc u s t" "orig_type (sym_obj kc s) \<in> BOOL_TRISTATE" "is_nmy k" "tri_is kc u k v"
  shows "evals kc u (rel_compare kc s k) c \<longleftrightarrow> c = int_of_tri t - int_of_tri v"
    and "evals kc u (rel_compare kc k s) c \<longleftrightarrow> c = int_of_tri v - int_of_tri t"
  using assms by (simp_all add: rel_compare_tri is_nmy_type)

text \<open>The expressions in which no \<open>!= y\<close> occurs under conjunctions.\<close>

primrec no_unequal_y :: "expr \<Rightarrow> bool" where
  "no_unequal_y (Leaf x) = True"
| "no_unequal_y (AND a b) = (no_unequal_y a \<and> no_unequal_y b)"
| "no_unequal_y (OR a b) = True"
| "no_unequal_y (NOT a) = True"
| "no_unequal_y (REL r a b) = (r \<noteq> UNEQUAL \<or> (a \<noteq> const_y \<and> b \<noteq> const_y))"

text \<open>
  C27. What \<^verbatim>\<open>_expr_depends_on\<close> is for: an expression that depends on a bool or tristate
  symbol is n when the symbol is n -- provided no \<open>!= y\<close> is involved.
\<close>

theorem expr_depends_on_sound:
  assumes "expr_depends_on e s" "no_unequal_y e" "tri_is kc u s TN" "expr_is kc u e t"
    and "orig_type (sym_obj kc s) \<in> BOOL_TRISTATE" "\<not> is_nmy s"
  shows "t = TN"
  using assms(1,2,4)
proof (induction e arbitrary: t)
  case (Leaf x)
  then show ?case using assms(3) is_funs(2) by auto
next
  case (AND a b)
  then obtain v1 where v1: "expr_is kc u a v1"
    "if v1 = TN then t = TN else \<exists>v2. expr_is kc u b v2 \<and> t = min v1 v2"
    by (auto simp: expr_is_AND)
  show ?case
  proof (cases "v1 = TN")
    case False
    then obtain v2 where v2: "expr_is kc u b v2" "t = min v1 v2" using v1 by auto
    have "v2 = TN" using AND False v1(1) v2(1) by auto
    with v2 show ?thesis by simp
  qed (use v1 in simp)
next
  case (REL r a b)
  have k: "(a = s \<and> (b = const_y \<or> r = EQUAL \<and> b = const_m \<or> r = UNEQUAL \<and> b = const_n)) \<or>
       (b = s \<and> (a = const_y \<or> r = EQUAL \<and> a = const_m \<or> r = UNEQUAL \<and> a = const_n))"
    and r: "r = EQUAL \<or> r = UNEQUAL"
    using REL.prems(1) by (auto simp: Let_def split: if_splits)
  have rc: "evals kc u (rel_compare kc s const_n) c \<longleftrightarrow> c = 0"
    "evals kc u (rel_compare kc const_n s) c \<longleftrightarrow> c = 0"
    "evals kc u (rel_compare kc s const_m) c \<longleftrightarrow> c = -1"
    "evals kc u (rel_compare kc const_m s) c \<longleftrightarrow> c = 1"
    "evals kc u (rel_compare kc s const_y) c \<longleftrightarrow> c = -2"
    "evals kc u (rel_compare kc const_y s) c \<longleftrightarrow> c = 2" for c
    using rel_compare_const [OF assms(3,5), of const_n TN]
      rel_compare_const [OF assms(3,5), of const_m TM]
      rel_compare_const [OF assms(3,5), of const_y TY]
    by (simp_all add: is_nmy_def)
  from REL.prems(3) obtain c where c: "evals kc u (rel_compare kc a b) c"
    "t = tri_of_bool (rel_holds r c)" by (auto simp: expr_is_REL)
  show ?case
    using k r c rc REL.prems(2) by (auto simp: is_nmy_def tri_of_bool_def)
qed (use assms in auto)

text \<open>
  C28. With \<open>!= y\<close> it fails: \<open>s != y\<close> counts as depending on \<open>s\<close> and is y when
  \<open>s\<close> is n.
\<close>

theorem expr_depends_on_unequal_y:
  assumes "tri_is kc u s TN" "orig_type (sym_obj kc s) \<in> BOOL_TRISTATE"
  shows "expr_depends_on (REL UNEQUAL s const_y) s \<and> expr_is kc u (REL UNEQUAL s const_y) TY"
  using rel_compare_const(1) [OF assms, of const_y TY]
  by (auto simp: expr_is_REL is_nmy_def tri_of_bool_def)

end
