(* ===== verification/Example.thy ===== *)
theory Example
  imports Totality Value_Props
begin

text \<open>
  A small configuration on which the theorems are exercised: \<^verbatim>\<open>MODULES\<close>, a tristate
  \<^verbatim>\<open>A\<close> that selects a tristate \<^verbatim>\<open>D\<close>, which is visible up to m and implied, a bool
  \<^verbatim>\<open>B\<close> that depends on \<open>A\<close> and selects \<^verbatim>\<open>C\<close>, an int \<^verbatim>\<open>N\<close> with a range, a string
  \<^verbatim>\<open>S\<close>, and a choice of \<^verbatim>\<open>X\<close> and \<^verbatim>\<open>Y\<close>; and the attribute values in it.
\<close>

abbreviation nsym :: "string \<Rightarrow> sref" where "nsym n \<equiv> SRef False n"

definition ex_node :: "sref \<Rightarrow> expr \<Rightarrow> nat \<Rightarrow> menu_node" where
  "ex_node s cond l = fresh_node
     \<lparr>item := ISym s, nd_prompt := Some (''prompt'', cond), dep := cond,
      filename := ''Kconfig'', linenr := l\<rparr>"

definition ex_dep_A :: expr where "ex_dep_A = Leaf (Sym (nsym ''A''))"

definition ex_nodes :: "nat \<Rightarrow> menu_node" where
  "ex_nodes n =
     (if n = 1 then ex_node modules expr_y 1
      else if n = 2 then ex_node (nsym ''A'') expr_y 3
      else if n = 3 then ex_node (nsym ''B'') ex_dep_A 5
      else if n = 4 then (ex_node (nsym ''C'') expr_y 8)\<lparr>nd_prompt := None\<rparr>
      else if n = 5 then ex_node (nsym ''N'') expr_y 10
      else if n = 6 then ex_node (nsym ''S'') expr_y 14
      else if n = 7 then fresh_node\<lparr>item := ICho 0, nd_prompt := Some (''pick'', expr_y),
                            filename := ''Kconfig'', linenr := 17\<rparr>
      else if n = 8 then ex_node (nsym ''X'') (Leaf (Cho 0)) 18
      else if n = 9 then ex_node (nsym ''Y'') (Leaf (Cho 0)) 20
      else if n = 10 then ex_node (nsym ''D'') expr_m 24
      else fresh_node)"

definition ex_sym :: "ktype \<Rightarrow> nat \<Rightarrow> symbol" where
  "ex_sym t n = fresh_symbol\<lparr>orig_type := t, nodes := [n], direct_dep := expr_y\<rparr>"

definition ex_symtab :: "sref \<Rightarrow> symbol option" where
  "ex_symtab s =
     (if s = modules then Some (ex_sym BOOL 1)
      else if s = nsym ''A'' then
        Some ((ex_sym TRISTATE 2)\<lparr>defaults := [(expr_m, expr_y)],
          selects := [(nsym ''D'', expr_y)],
          dependents := [Sym (nsym ''B''), Sym (nsym ''D'')]\<rparr>)
      else if s = nsym ''B'' then
        Some ((ex_sym BOOL 3)\<lparr>direct_dep := ex_dep_A, selects := [(nsym ''C'', expr_y)],
          dependents := [Sym (nsym ''C'')]\<rparr>)
      else if s = nsym ''C'' then Some ((ex_sym BOOL 4)\<lparr>rev_dep := Leaf (Sym (nsym ''B''))\<rparr>)
      else if s = nsym ''N'' then
        Some ((ex_sym INT_T 5)\<lparr>ranges := [(nsym ''5'', nsym ''10'', expr_y)],
          defaults := [(Leaf (Sym (nsym ''20'')), expr_y)]\<rparr>)
      else if s = nsym ''S'' then
        Some ((ex_sym STRING 6)\<lparr>defaults := [(Leaf (Sym (SRef True ''text'')), expr_y)]\<rparr>)
      else if s = nsym ''X'' then
        Some ((ex_sym BOOL 8)\<lparr>choice := Some 0, direct_dep := Leaf (Cho 0), dependents := [Cho 0]\<rparr>)
      else if s = nsym ''Y'' then
        Some ((ex_sym BOOL 9)\<lparr>choice := Some 0, direct_dep := Leaf (Cho 0), dependents := [Cho 0]\<rparr>)
      else if s = nsym ''D'' then
        Some ((ex_sym TRISTATE 10)\<lparr>rev_dep := Leaf (Sym (nsym ''A'')), weak_rev_dep := expr_y\<rparr>)
      else if s \<in> {nsym ''5'', nsym ''10'', nsym ''20''} then
        Some (fresh_symbol\<lparr>dependents := [Sym (nsym ''N'')]\<rparr>)
      else None)"

definition ex_choice :: choice_obj where
  "ex_choice = fresh_choice
     \<lparr>c_orig_type := BOOL, c_nodes := [7], c_syms := [nsym ''X'', nsym ''Y''],
      c_direct_dep := expr_y, c_dependents := [Sym (nsym ''X''), Sym (nsym ''Y'')]\<rparr>"

definition ex_kc :: kconfig where
  "ex_kc =
     \<lparr>symtab = ex_symtab, choicetab = (\<lambda>c. if c = 0 then ex_choice else fresh_choice),
      nodetab = ex_nodes,
      unique_defined_syms = [modules, nsym ''A'', nsym ''B'', nsym ''C'', nsym ''N'', nsym ''S'',
        nsym ''X'', nsym ''Y'', nsym ''D''],
      unique_choices = [0], defconfig_list = None, config_prefix = ''CONFIG_'',
      config_header = [], header_header = [], top_node = 0\<rparr>"

definition ex_user :: user_state where
  "ex_user = init_user
     \<lparr>user_value := (user_value init_user)(modules := Some (VTri TY), nsym ''A'' := Some (VTri TM),
        nsym ''B'' := Some (VTri TY), nsym ''X'' := Some (VTri TY)),
      user_selection := (user_selection init_user)(0 := Some (nsym ''X''))\<rparr>"

section \<open>Values\<close>

lemma pure_attr: "pure kc u n q = Inr v \<Longrightarrow> attr kc u q v"
  unfolding attr_def by blast

lemma interp_evals: "interp (pure kc u n) p = Inr a \<Longrightarrow> evals kc u p a"
  unfolding evals_def by blast

lemma ex_modules: "tri_is ex_kc init_user modules TN"
  unfolding tri_is_def by (rule pure_attr [where n = 6]) code_simp

lemma ex_B: "tri_is ex_kc ex_user (nsym ''B'') TY"
  unfolding tri_is_def by (rule pure_attr [where n = 8]) code_simp

lemma ex_C: "tri_is ex_kc ex_user (nsym ''C'') TY"
  unfolding tri_is_def by (rule pure_attr [where n = 8]) code_simp

lemma ex_A: "tri_is ex_kc ex_user (nsym ''A'') TM"
  unfolding tri_is_def by (rule pure_attr [where n = 8]) code_simp

lemma ex_A_off: "tri_is ex_kc init_user (nsym ''A'') TY"
  unfolding tri_is_def by (rule pure_attr [where n = 8]) code_simp

lemma ex_X: "tri_is ex_kc ex_user (nsym ''X'') TY"
  unfolding tri_is_def by (rule pure_attr [where n = 8]) code_simp

lemma ex_N: "str_is ex_kc ex_user (nsym ''N'') ''10''"
  unfolding str_is_def by (rule pure_attr [where n = 8]) code_simp

lemma ex_sel: "sel_is ex_kc ex_user 0 (Some (nsym ''X''))"
  unfolding sel_is_def by (rule pure_attr [where n = 8]) code_simp

lemma ex_choice_mode: "evals ex_kc ex_user (choice_tri ex_kc ex_user 0) TY"
  by (rule interp_evals [where n = 8]) code_simp

end
