(* ===== verification/Value_Examples.thy ===== *)
theory Value_Examples
  imports Example Value_Props Totality
begin

text \<open>The theorems of \<open>Value_Props\<close> and \<open>Totality\<close> on the example configuration.\<close>

lemmas ex_obj = sym_obj_def is_nmy_def const_n_def const_m_def const_y_def ex_kc_def ex_symtab_def
  modules_def ex_sym_def

lemma ex_types [simp]:
  "orig_type (sym_obj ex_kc (nsym ''A'')) = TRISTATE" "choice (sym_obj ex_kc (nsym ''A'')) = None"
  "orig_type (sym_obj ex_kc (nsym ''B'')) = BOOL" "choice (sym_obj ex_kc (nsym ''B'')) = None"
  "orig_type (sym_obj ex_kc (nsym ''C'')) = BOOL" "choice (sym_obj ex_kc (nsym ''C'')) = None"
  "orig_type (sym_obj ex_kc (nsym ''D'')) = TRISTATE" "choice (sym_obj ex_kc (nsym ''D'')) = None"
  "orig_type (sym_obj ex_kc (nsym ''X'')) = BOOL" "choice (sym_obj ex_kc (nsym ''X'')) = Some 0"
  "orig_type (sym_obj ex_kc (nsym ''N'')) = INT_T"
  "rev_dep (sym_obj ex_kc (nsym ''A'')) = expr_n" "weak_rev_dep (sym_obj ex_kc (nsym ''A'')) = expr_n"
  "rev_dep (sym_obj ex_kc (nsym ''C'')) = Leaf (Sym (nsym ''B''))"
  by (simp_all add: ex_obj fresh_symbol_def)

lemma ex_not_nmy [simp]:
  "\<not> is_nmy (nsym n)"
  by (simp add: ex_obj)

lemma bool_never_m_witness:
  "tri_is ex_kc ex_user (nsym ''B'') TY \<and> TY \<noteq> TM"
  using bool_never_m [OF ex_B] ex_B by simp

lemma no_m_without_modules_witness:
  "tri_is ex_kc init_user (nsym ''A'') TY \<and> TY \<noteq> TM"
  using no_m_without_modules [OF ex_modules ex_A_off] ex_A_off by simp

lemma select_lower_bound_witness:
  "expr_is ex_kc ex_user (rev_dep (sym_obj ex_kc (nsym ''C''))) TY \<and> TY \<le> TY"
  using select_lower_bound [OF ex_C, of TY] ex_B by simp

lemma user_value_effect_witness:
  "tri_is ex_kc ex_user (nsym ''A'') TM \<and> TM = promoted TRISTATE TN (max TN (min TM TY))"
proof -
  have "sym_inputs ex_kc ex_user (nsym ''A'') TY TN TN TRISTATE"
    unfolding sym_inputs_def vis_is_def
    by (auto intro!: pure_attr [where n = 8] interp_evals [where n = 8]) (code_simp)+
  from user_value_effect [OF ex_A this, of TM] show ?thesis
    using ex_A by (simp add: ex_user_def init_user_def modules_def)
qed

lemma ex_inputs_A:
  "sym_inputs ex_kc ex_user (nsym ''A'') TY TN TN TRISTATE"
  "sym_inputs ex_kc (with_user ex_user (nsym ''A'') v) (nsym ''A'') TY TN TN TRISTATE"
  unfolding sym_inputs_def vis_is_def
  by (cases v; auto intro!: pure_attr [where n = 8] interp_evals [where n = 8]; code_simp)+

lemma ex_inputs_D:
  "sym_inputs ex_kc ex_user (nsym ''D'') TM TM TY TRISTATE"
  "sym_inputs ex_kc (with_user ex_user (nsym ''D'') v) (nsym ''D'') TM TM TY TRISTATE"
  unfolding sym_inputs_def vis_is_def expr_is_def
  by (cases v; intro conjI; (rule pure_attr [where n = 8] interp_evals [where n = 8]); code_simp)+

lemma assignable_exact_witness:
  "tri_is ex_kc (with_user ex_user (nsym ''A'') TM) (nsym ''A'') TM \<and>
   TM \<in> set [TN, TM, TY]"
proof -
  have a: "ass_is ex_kc ex_user (Sym (nsym ''A'')) [TN, TM, TY]"
    unfolding ass_is_def by (rule pure_attr [where n = 8]) code_simp
  have t: "tri_is ex_kc (with_user ex_user (nsym ''A'') TM) (nsym ''A'') TM"
    unfolding tri_is_def by (rule pure_attr [where n = 8]) code_simp
  from assignable_exact [OF a ex_inputs_A(1) _ ex_inputs_A(2), of TM TM] t show ?thesis by simp
qed

lemma assignable_implied_y_corner_witness:
  "ass_is ex_kc ex_user (Sym (nsym ''D'')) [TM] \<and>
   tri_is ex_kc (with_user ex_user (nsym ''D'') TM) (nsym ''D'') TY"
proof -
  have a: "ass_is ex_kc ex_user (Sym (nsym ''D'')) [TM]"
    unfolding ass_is_def by (rule pure_attr [where n = 8]) code_simp
  have t: "tri_is ex_kc (with_user ex_user (nsym ''D'') TM) (nsym ''D'') TY"
    unfolding tri_is_def by (rule pure_attr [where n = 8]) code_simp
  from assignable_implied_y_corner [OF a ex_inputs_D, of TM TY] a t show ?thesis by simp
qed

lemma choice_at_most_one_y_witness:
  "tri_is ex_kc ex_user (nsym ''X'') TY \<and> nsym ''X'' = nsym ''X''"
  using choice_at_most_one_y [OF ex_X ex_X, of 0] ex_X by simp

lemma selection_correct_witness:
  "nsym ''X'' \<in> candidates ex_kc ex_user 0 \<and> evals ex_kc ex_user (choice_tri ex_kc ex_user 0) TY"
  using selection_correct [OF ex_sel] by simp

lemma choice_exactly_one_y_witness:
  "\<exists>s. Some (nsym ''X'') = Some s \<and> member_of ex_kc 0 s \<and> tri_is ex_kc ex_user s TY"
proof -
  have v: "\<not> vis_is ex_kc ex_user (Sym (nsym ''X'')) TN"
  proof
    assume "vis_is ex_kc ex_user (Sym (nsym ''X'')) TN"
    moreover have "vis_is ex_kc ex_user (Sym (nsym ''X'')) TY"
      unfolding vis_is_def by (rule pure_attr [where n = 8]) code_simp
    ultimately show False using is_funs(1) by blast
  qed
  have c: "\<forall>s \<in> candidates ex_kc ex_user 0. member_of ex_kc 0 s"
    by (auto simp: candidates_def member_of_def default_syms_def ex_obj ex_choice_def
        fresh_choice_def fresh_symbol_def ex_user_def init_user_def)
  have m: "nsym ''X'' \<in> set (c_syms (choicetab ex_kc 0))"
    by (simp add: ex_kc_def ex_choice_def)
  show ?thesis using choice_exactly_one_y [OF ex_sel ex_choice_mode c m v] by blast
qed

lemma num_value_in_range_witness:
  "str_is ex_kc ex_user (nsym ''N'') ''10'' \<and> num_or_0 ''10'' 10 \<le> 10"
proof -
  have r: "evals ex_kc ex_user (active_range ex_kc ex_user (nsym ''N'') 10) (Some (5, 10))"
    by (rule interp_evals [where n = 8]) code_simp
  show ?thesis using num_value_in_range [OF ex_N _ _ r] ex_N by (simp add: in_INT_HEX)
qed

lemma make_and_or_value_witness:
  "expr_is ex_kc ex_user (make_and (Leaf (Sym (nsym ''A''))) (Leaf (Sym (nsym ''B'')))) (min TM TY)"
  using make_and_or_value [of ex_kc ex_user "Leaf (Sym (nsym ''A''))" TM "Leaf (Sym (nsym ''B''))" TY]
    ex_A ex_B by simp

lemma ex_B_off: "tri_is ex_kc init_user (nsym ''C'') TN"
  unfolding tri_is_def by (rule pure_attr [where n = 8]) code_simp

lemma expr_depends_on_sound_witness:
  "expr_is ex_kc init_user (REL EQUAL (nsym ''C'') const_y) TN \<and> TN = TN"
proof -
  have "expr_is ex_kc init_user (REL EQUAL (nsym ''C'') const_y) TN"
    unfolding expr_is_def by (rule interp_evals [where n = 8]) code_simp
  then show ?thesis
    using expr_depends_on_sound [of "REL EQUAL (nsym ''C'') const_y" "nsym ''C''", OF _ _ ex_B_off]
    by simp
qed

lemma expr_depends_on_unequal_y_witness:
  "expr_depends_on (REL UNEQUAL (nsym ''C'') const_y) (nsym ''C'') \<and>
   expr_is ex_kc init_user (REL UNEQUAL (nsym ''C'') const_y) TY"
  using expr_depends_on_unequal_y [OF ex_B_off] by simp

section \<open>A ranking\<close>

definition ex_rank :: "sc \<Rightarrow> nat" where
  "ex_rank x =
     (case x of
        Cho c \<Rightarrow> if c = 0 then 1 else 0
      | Sym s \<Rightarrow>
          if s = modules \<or> s = nsym ''N'' \<or> s = nsym ''S'' then 1
          else if s = nsym ''A'' then 2
          else if s = nsym ''B'' \<or> s = nsym ''D'' \<or> s = nsym ''X'' \<or> s = nsym ''Y'' then 3
          else if s = nsym ''C'' then 4 else 0)"

definition ex_crank :: "nat \<Rightarrow> nat" where
  "ex_crank c = (if c = 0 then 3 else 0)"

text \<open>What a defined symbol of the example needs; and that the others need nothing.\<close>

lemma ex_sym_cases:
  assumes "P modules" "P (nsym ''A'')" "P (nsym ''B'')" "P (nsym ''C'')" "P (nsym ''N'')"
    "P (nsym ''S'')" "P (nsym ''X'')" "P (nsym ''Y'')" "P (nsym ''D'')"
    "P (nsym ''5'')" "P (nsym ''10'')" "P (nsym ''20'')"
    and "\<And>s. ex_symtab s = None \<Longrightarrow> P s"
  shows "P s"
proof (cases "ex_symtab s")
  case (Some x)
  then show ?thesis using assms(1-12) by (auto simp: ex_symtab_def split: if_splits)
qed (rule assms(13))

lemmas ex_rank_simps = ex_kc_def ex_symtab_def ex_sym_def fresh_symbol_def prompts_below_def
  items_below_def ex_rank_def ex_crank_def ex_nodes_def ex_node_def ex_dep_A_def fresh_node_def
  modules_def is_nmy_def const_n_def const_m_def const_y_def const_symbol_def

lemma ex_sym_ranked: "\<not> is_nmy s \<Longrightarrow> sym_ranked ex_kc ex_rank ex_crank s"
proof (induction s rule: ex_sym_cases)
  case (13 s)
  then have "sym_obj ex_kc s = fresh_symbol" by (simp add: sym_obj_def ex_kc_def)
  then show ?case by (simp add: sym_ranked_def fresh_symbol_def prompts_below_def)
qed (simp_all add: sym_ranked_def Let_def sym_obj_def ex_rank_simps)

lemma ex_ranked: "ranked ex_kc ex_user ex_rank ex_crank"
  unfolding ranked_def
proof (intro conjI allI impI)
  fix c show "choice_ranked ex_kc ex_user ex_rank ex_crank c"
    by (cases "c = 0") (auto simp: choice_ranked_def Let_def ex_choice_def fresh_choice_def
        ex_rank_simps ex_user_def init_user_def)
qed (rule ex_sym_ranked)

lemma ex_sane: "sane ex_kc"
  unfolding sane_def sym_obj_def
  by (auto simp: ex_kc_def ex_symtab_def ex_sym_def fresh_symbol_def BOOL_TRISTATE_UNKNOWN_def
      is_leaf_sym_def select_form_def ex_choice_def fresh_choice_def const_symbol_def)

lemma ex_valid: "valid_user ex_kc ex_user"
  by (auto simp: valid_user_def ex_user_def init_user_def ex_obj fresh_symbol_def)

lemma attr_total_witness: "\<exists>v. pure ex_kc ex_user 37 (QTri (nsym ''C'')) = Inr v"
  by (rule attr_total [OF ex_ranked ex_sane ex_valid])
    (simp_all add: ex_rank_def modules_def)

lemma get_total_witness:
  "\<exists>v st'. get ex_kc 37 (QTri (nsym ''C'')) (init_state\<lparr>usr := ex_user\<rparr>) = (Inr v, st')"
proof -
  have "coherent ex_kc ex_user (init_state\<lparr>usr := ex_user\<rparr>)"
    by (auto simp: coherent_def init_state_def attr_unfold)
  then have "\<exists>v st'. get ex_kc 37 (QTri (nsym ''C'')) (init_state\<lparr>usr := ex_user\<rparr>) = (Inr v, st') \<and>
      attr ex_kc ex_user (QTri (nsym ''C'')) v \<and> coherent ex_kc ex_user st'"
    by (intro get_total [OF ex_ranked ex_sane ex_valid])
      (simp_all add: ex_rank_def modules_def)
  then show ?thesis by blast
qed

end
