(* ===== verification/Support.thy ===== *)
theory Support
  imports Cache
begin

text \<open>
  Why cached values may be trusted after an invalidation. The essential body of a
  property is its body without the text of the unmet-dependencies warning, whose reads do
  not influence the value. A state is supported when every cached value is what the
  essential body gives on the other cached values: each value was computed from values
  that are still cached. Reading attributes keeps a state supported, and in a supported
  state a cached value is the value the attribute has.
\<close>

section \<open>Essential bodies\<close>

definition e_tri_with_selects :: "kconfig \<Rightarrow> user_state \<Rightarrow> sref \<Rightarrow> tri \<Rightarrow> tri prog" where
  "e_tri_with_selects kc u s val =
     bindp (expr_value kc u (rev_dep (sym_obj kc s))) (\<lambda>dep_val.
       if dep_val \<noteq> TN then Ret (max dep_val val) else Ret val)"

definition e_sym_tri :: "kconfig \<Rightarrow> user_state \<Rightarrow> sref \<Rightarrow> tri prog" where
  "e_sym_tri kc u s =
     (let o_s = sym_obj kc s
      in if orig_type o_s \<notin> BOOL_TRISTATE then Ret TN
         else
           bindp (rd_vis (Sym s)) (\<lambda>vis.
             case choice o_s of
                None \<Rightarrow>
                  bindp (case (if vis \<noteq> TN then user_value u s else None) of
                           Some (VTri t) \<Rightarrow> Ret (min t vis)
                         | Some (VStr _) \<Rightarrow> Raise TypeError
                         | None \<Rightarrow> tri_from_defaults kc u s) (\<lambda>val.
                  bindp (e_tri_with_selects kc u s val) (\<lambda>val. tri_promote kc u s val))
              | Some c \<Rightarrow>
                  if vis = TY then
                    bindp (rd_sel c) (\<lambda>sel. Ret (if sel = Some s then TY else TN))
                  else if vis \<noteq> TN \<and> user_value u s \<notin> {None, Some (VTri TN), Some (VStr [])}
                  then Ret TM
                  else Ret TN))"

definition ebody :: "kconfig \<Rightarrow> user_state \<Rightarrow> query \<Rightarrow> val prog" where
  "ebody kc u q =
     (case q of
        QTri s \<Rightarrow> bindp (e_sym_tri kc u s) (\<lambda>v. Ret (VT v))
      | _ \<Rightarrow> attr_body kc u q)"

lemma interp_tri_with_selects:
  "interp rd (tri_with_selects kc u s v) = Inr w \<Longrightarrow> interp rd (e_tri_with_selects kc u s v) = Inr w"
  by (auto simp: tri_with_selects_def e_tri_with_selects_def interp_bindp split: sum.splits if_splits)

lemma interp_bindp_Inr:
  "interp rd (bindp p f) = Inr b \<longleftrightarrow> (\<exists>a. interp rd p = Inr a \<and> interp rd (f a) = Inr b)"
  by (auto simp: interp_bindp split: sum.splits)

lemma interp_sym_tri: "interp rd (sym_tri kc u s) = Inr t \<Longrightarrow> interp rd (e_sym_tri kc u s) = Inr t"
proof (cases "orig_type (sym_obj kc s) \<in> BOOL_TRISTATE")
  case True
  assume "interp rd (sym_tri kc u s) = Inr t"
  then obtain vis where vis: "interp rd (rd_vis (Sym s)) = Inr vis"
    and r: "interp rd (case choice (sym_obj kc s) of
                None \<Rightarrow>
                  bindp (case (if vis \<noteq> TN then user_value u s else None) of
                           Some (VTri t) \<Rightarrow> Ret (min t vis)
                         | Some (VStr _) \<Rightarrow> Raise TypeError
                         | None \<Rightarrow> tri_from_defaults kc u s) (\<lambda>val.
                  bindp (tri_with_selects kc u s val) (\<lambda>val. tri_promote kc u s val))
              | Some c \<Rightarrow>
                  if vis = TY then
                    bindp (rd_sel c) (\<lambda>sel. Ret (if sel = Some s then TY else TN))
                  else if vis \<noteq> TN \<and> user_value u s \<notin> {None, Some (VTri TN), Some (VStr [])}
                  then Ret TM
                  else Ret TN) = Inr t"
    using True unfolding sym_tri_def by (auto simp: interp_bindp_Inr simp del: bindp_assoc)
  show ?thesis
  proof (cases "choice (sym_obj kc s)")
    case None
    from r [unfolded None option.case interp_bindp_Inr] obtain a b
      where b: "interp rd (case if vis \<noteq> TN then user_value u s else None of
            None \<Rightarrow> tri_from_defaults kc u s | Some (VTri t) \<Rightarrow> Ret (min t vis)
            | Some (VStr xa) \<Rightarrow> Raise TypeError) = Inr a"
        "interp rd (tri_with_selects kc u s a) = Inr b" "interp rd (tri_promote kc u s b) = Inr t"
      by blast
    then show ?thesis
      using True vis None interp_tri_with_selects [OF b(2)]
      by (simp add: e_sym_tri_def Let_def interp_bindp)
  qed (use True vis r in \<open>simp add: e_sym_tri_def interp_bindp_Inr\<close>)
qed (auto simp: sym_tri_def e_sym_tri_def Let_def split: if_splits)

lemma interp_ebody: "interp rd (attr_body kc u q) = Inr v \<Longrightarrow> interp rd (ebody kc u q) = Inr v"
  by (cases q) (auto simp: ebody_def attr_body_def interp_bindp_Inr dest: interp_sym_tri)

section \<open>Supported states\<close>

definition cache_reader :: "(query \<Rightarrow> val option) \<Rightarrow> query \<Rightarrow> exn + val" where
  "cache_reader ca q = (case ca q of Some v \<Rightarrow> Inr v | None \<Rightarrow> Inl RecursionError)"

lemma cache_reader_Inr [simp]: "cache_reader ca q = Inr v \<longleftrightarrow> ca q = Some v"
  by (simp add: cache_reader_def split: option.splits)

definition supported :: "kconfig \<Rightarrow> user_state \<Rightarrow> (query \<Rightarrow> val option) \<Rightarrow> bool" where
  "supported kc u ca \<longleftrightarrow>
     (\<forall>q v. preset q = Some v \<longrightarrow> ca q = Some v) \<and>
     (\<forall>q v. ca q = Some v \<longrightarrow> preset q = None \<longrightarrow> interp (cache_reader ca) (ebody kc u q) = Inr v)"

lemma supported_init: "supported kc u preset"
  by (simp add: supported_def)

lemma supported_store:
  assumes "supported kc u ca" "ca q = None" "interp (cache_reader ca) (ebody kc u q) = Inr v"
  shows "supported kc u (ca(q \<mapsto> v))"
proof -
  have mono: "interp (cache_reader (ca(q \<mapsto> v))) p = Inr w" if "interp (cache_reader ca) p = Inr w" for p and w :: val
    by (rule interp_mono [OF that]) (use assms(2) in auto)
  have "preset q = None" using assms(1,2) by (cases "preset q") (auto simp: supported_def)
  then show ?thesis using assms(1,3) mono unfolding supported_def by auto
qed

text \<open>Two readers that agree where both answer.\<close>

lemma interp_agree:
  assumes "\<And>q v w. rd q = Inr v \<Longrightarrow> rd' q = Inr w \<Longrightarrow> v = w"
  shows "interp rd p = Inr a \<Longrightarrow> interp rd' p = Inr b \<Longrightarrow> a = b"
  by (induction p) (auto split: sum.splits dest: assms)

lemma supported_value:
  assumes "supported kc u ca" "pure kc u n q = Inr w" "ca q = Some v"
  shows "v = w"
  using assms(2,3)
proof (induction n arbitrary: q v w)
  case 0
  then show ?case using assms(1) by (cases "preset q") (auto simp: supported_def)
next
  case (Suc n)
  show ?case
  proof (cases "preset q")
    case None
    then have "interp (pure kc u n) (ebody kc u q) = Inr w"
      using Suc.prems(1) by (simp add: interp_ebody)
    moreover have "interp (cache_reader ca) (ebody kc u q) = Inr v"
      using assms(1) None Suc.prems(2) by (simp add: supported_def)
    ultimately show ?thesis
      using interp_agree [of "cache_reader ca" "pure kc u n"] Suc.IH by force
  qed (use Suc.prems assms(1) in \<open>auto simp: supported_def\<close>)
qed

text \<open>So a supported state is coherent, if every cached attribute has a value at all.\<close>

lemma supported_coherent:
  assumes "supported kc (usr st) (cache st)"
    and "\<And>q v. cache st q = Some v \<Longrightarrow> preset q = None \<Longrightarrow> \<exists>w. attr kc (usr st) q w"
  shows "coherent kc (usr st) st"
  unfolding coherent_def
proof (intro conjI allI impI)
  fix q v assume c: "cache st q = Some v"
  show "attr kc (usr st) q v"
  proof (cases "preset q")
    case None
    then obtain w n where "pure kc (usr st) n q = Inr w" using assms(2) [OF c] unfolding attr_def by blast
    with supported_value [OF assms(1) this c] show ?thesis unfolding attr_def by blast
  next
    case (Some w)
    with assms(1) c show ?thesis by (simp add: supported_def attr_unfold)
  qed
qed (use assms(1) in \<open>auto simp: supported_def\<close>)

section \<open>Reading keeps a state supported\<close>

text \<open>
  A caching reader: it keeps the invariant and every cached value, and what it answers is
  cached afterwards. After a run of a program, the program has the same result on the
  cached values.
\<close>

locale caching_reader =
  fixes rd :: "query \<Rightarrow> kstate \<Rightarrow> (exn + val) \<times> kstate"
    and inv :: "kstate \<Rightarrow> bool"
  assumes inv_rd: "inv st \<Longrightarrow> rd q st = (r, st') \<Longrightarrow> inv st'"
    and grows: "inv st \<Longrightarrow> rd q st = (r, st') \<Longrightarrow> cache st \<subseteq>\<^sub>m cache st'"
    and answers: "inv st \<Longrightarrow> rd q st = (Inr v, st') \<Longrightarrow> cache st' q = Some v"
    and inv_setw: "inv st \<Longrightarrow> inv (st\<lparr>write_to_conf := f\<rparr>)"
    and inv_warn: "inv st \<Longrightarrow> inv (add_warning m l st)"
begin

lemma run_grows: "inv st \<Longrightarrow> run rd p st = (r, st') \<Longrightarrow> inv st' \<and> cache st \<subseteq>\<^sub>m cache st'"
proof (induction p arbitrary: st)
  case (ReadQ q k)
  obtain r1 st1 where r1: "rd q st = (r1, st1)" by fastforce
  show ?case
  proof (cases r1)
    case (Inl e)
    with r1 ReadQ.prems show ?thesis using inv_rd grows by auto
  next
    case (Inr v)
    then have "run rd (k v) st1 = (r, st')" using ReadQ.prems(2) r1 by simp
    from ReadQ.IH [OF _ inv_rd [OF ReadQ.prems(1) r1] this] grows [OF ReadQ.prems(1) r1]
    show ?thesis by (auto intro: map_le_trans)
  qed
next
  case (SetW s b p)
  from SetW.IH [OF inv_setw [OF SetW.prems(1)]] SetW.prems(2) show ?case by simp
next
  case (Warn m p)
  from Warn.IH [OF inv_warn [OF Warn.prems(1)]] Warn.prems(2) show ?case by simp
qed auto

lemma run_cached:
  "inv st \<Longrightarrow> run rd p st = (Inr a, st') \<Longrightarrow> interp (cache_reader (cache st')) p = Inr a"
proof (induction p arbitrary: st)
  case (ReadQ q k)
  obtain v st1 where r: "rd q st = (Inr v, st1)" "run rd (k v) st1 = (Inr a, st')"
    using ReadQ.prems(2) by (auto split: prod.splits sum.splits)
  have i: "inv st1" by (rule inv_rd [OF ReadQ.prems(1) r(1)])
  have "cache st' q = Some v"
    using answers [OF ReadQ.prems(1) r(1)] run_grows [OF i r(2)] by (auto simp: map_le_def dom_def)
  then have "cache_reader (cache st') q = Inr v" by simp
  then show ?case using ReadQ.IH [OF _ i r(2)] by (simp del: cache_reader_Inr)
qed (auto dest: inv_setw inv_warn)

end

definition good :: "kconfig \<Rightarrow> user_state \<Rightarrow> kstate \<Rightarrow> bool" where
  "good kc u st \<longleftrightarrow> usr st = u \<and> supported kc u (cache st)"

lemma get_caching_reader: "caching_reader (get kc n) (good kc u)"
proof (induction n)
  case 0
  show ?case by unfold_locales (auto simp: good_def split: option.splits)
next
  case (Suc n)
  have step: "good kc u st' \<and> cache st \<subseteq>\<^sub>m cache st' \<and> (\<forall>v. r = Inr v \<longrightarrow> cache st' q = Some v)"
    if g: "good kc u st" and e: "get kc (Suc n) q st = (r, st')" for st q r st'
  proof (cases "cache st q")
    case None
    have u: "usr st = u" using g by (simp add: good_def)
    obtain r1 st1 where r1: "run (get kc n) (attr_body kc u q) st = (r1, st1)" by fastforce
    have g1: "good kc u st1" "cache st \<subseteq>\<^sub>m cache st1" using caching_reader.run_grows [OF Suc.IH g r1] by auto
    show ?thesis
    proof (cases r1)
      case (Inr v)
      then have st': "r = Inr v" "st' = st1\<lparr>cache := (cache st1)(q \<mapsto> v)\<rparr>"
        using e None r1 u by auto
      have i: "interp (cache_reader (cache st1)) (ebody kc u q) = Inr v"
        by (rule interp_ebody, rule caching_reader.run_cached [OF Suc.IH g r1 [unfolded Inr]])
      have "preset q = None" using None g by (cases "preset q") (auto simp: good_def supported_def)
      then have same: "w = v" if "cache st1 q = Some w" for w
        using g1(1) that i by (auto simp: good_def supported_def)
      have "supported kc u ((cache st1)(q \<mapsto> v))"
      proof (cases "cache st1 q")
        case None
        then show ?thesis using supported_store i g1(1) by (auto simp: good_def)
      next
        case (Some w)
        then have "(cache st1)(q \<mapsto> v) = cache st1" using same by (auto simp: fun_upd_idem)
        then show ?thesis using g1(1) by (simp add: good_def)
      qed
      then show ?thesis using st' g1 None by (auto simp: good_def map_le_def)
    qed (use e None r1 u g1 in auto)
  qed (use g e in auto)
  show ?case
  proof
    fix st q r v st'
    assume g: "good kc u st"
    { assume "get kc (Suc n) q st = (r, st')" then show "good kc u st'" by (rule step [OF g, THEN conjunct1]) }
    { assume "get kc (Suc n) q st = (r, st')" then show "cache st \<subseteq>\<^sub>m cache st'" using step [OF g] by blast }
    { assume "get kc (Suc n) q st = (Inr v, st')" then show "cache st' q = Some v" using step [OF g] by blast }
  qed (simp_all add: good_def)
qed

interpretation caching: caching_reader "get kc n" "good kc u" for kc n u
  by (rule get_caching_reader)

end
