(* ===== verification/User_Values.thy ===== *)
theory User_Values
  imports Totality
begin

text \<open>
  User values: \<^verbatim>\<open>Symbol.set_value\<close>, \<^verbatim>\<open>Choice.set_value\<close>, the two \<^verbatim>\<open>unset_value\<close>,
  \<^verbatim>\<open>Kconfig.unset_values\<close>, and the invalidation of cached values they trigger. The
  recursion of \<^verbatim>\<open>_rec_invalidate\<close> has a bound on its depth as an argument (the recursion
  limit of the interpreter); exceeding it is a \<open>RecursionError\<close>.
\<close>

section \<open>Invalidation\<close>

text \<open>The cached attributes of an item.\<close>

fun query_item :: "query \<Rightarrow> sc" where
  "query_item (QVis x) = x"
| "query_item (QTri s) = Sym s"
| "query_item (QStr s) = Sym s"
| "query_item (QSel c) = Cho c"
| "query_item (QAss x) = x"

definition drop_cache :: "sc set \<Rightarrow> kstate \<Rightarrow> kstate" where
  "drop_cache xs st = st\<lparr>cache := (\<lambda>q. if query_item q \<in> xs then None else cache st q)\<rparr>"

text \<open>\<^verbatim>\<open>Symbol._invalidate\<close> and \<^verbatim>\<open>Choice._invalidate\<close>: they reset the cached fields of the item.\<close>

fun invalidate :: "sc \<Rightarrow> kstate \<Rightarrow> kstate" where
  "invalidate (Sym s) st =
     st\<lparr>cache := (cache st)(QStr s := None, QTri s := None, QVis (Sym s) := None,
                             QAss (Sym s) := None)\<rparr>"
| "invalidate (Cho c) st =
     st\<lparr>cache := (cache st)(QVis (Cho c) := None, QAss (Cho c) := None, QSel c := None)\<rparr>"

definition invalidate_all :: "kconfig \<Rightarrow> kstate \<Rightarrow> kstate" where
  "invalidate_all kc st =
     fold (\<lambda>c. invalidate (Cho c)) (unique_choices kc)
       (fold (\<lambda>s. invalidate (Sym s)) (unique_defined_syms kc) st)"

definition cached_vis :: "kstate \<Rightarrow> sc \<Rightarrow> bool" where
  "cached_vis st x \<longleftrightarrow> cache st (QVis x) \<noteq> None"

text \<open>The loop over the dependents stops at the first error.\<close>

primrec try_each :: "('a \<Rightarrow> 's \<Rightarrow> exn + 's) \<Rightarrow> 'a list \<Rightarrow> 's \<Rightarrow> exn + 's" where
  "try_each f [] st = Inr st"
| "try_each f (x # xs) st = (case f x st of Inl e \<Rightarrow> Inl e | Inr st' \<Rightarrow> try_each f xs st')"

lemma try_each_cong [fundef_cong]:
  "xs = ys \<Longrightarrow> st = st' \<Longrightarrow> (\<And>x s. x \<in> set ys \<Longrightarrow> f x s = g x s) \<Longrightarrow>
   try_each f xs st = try_each g ys st'"
proof (induction xs arbitrary: ys st st')
  case (Cons a xs)
  then show ?case by (auto split: sum.splits)
qed auto

text \<open>\<^verbatim>\<open>Symbol._rec_invalidate\<close> and \<^verbatim>\<open>Choice._rec_invalidate\<close>.\<close>

primrec rec_invalidate :: "kconfig \<Rightarrow> nat \<Rightarrow> sc \<Rightarrow> kstate \<Rightarrow> exn + kstate" where
  "rec_invalidate kc 0 x st = Inl RecursionError"
| "rec_invalidate kc (Suc n) x st =
     (if x = Sym modules then Inr (invalidate_all kc st)
      else try_each (\<lambda>y st. if cached_vis st y then rec_invalidate kc n y st else Inr st)
             (sc_dependents kc x) (invalidate x st))"

definition has_prompt :: "kconfig \<Rightarrow> sref \<Rightarrow> bool" where
  "has_prompt kc s \<longleftrightarrow> list_ex (\<lambda>n. nd_prompt (nodetab kc n) \<noteq> None) (nodes (sym_obj kc s))"

definition rec_invalidate_if_has_prompt :: "kconfig \<Rightarrow> nat \<Rightarrow> sref \<Rightarrow> kstate \<Rightarrow> exn + kstate" where
  "rec_invalidate_if_has_prompt kc n s st =
     (if has_prompt kc s then rec_invalidate kc n (Sym s) st
      else if warn_assign_no_prompt st
      then Inr (add_warning (name_and_loc kc (Sym s) @
                  '' has no prompt, meaning user values have no effect on it'') None st)
      else Inr st)"

section \<open>Setting and unsetting values\<close>

text \<open>A value as the caller passes it, after \<^verbatim>\<open>STR_TO_TRI\<close> was applied for n, m and y.\<close>

definition normalize_uval :: "uval \<Rightarrow> uval" where
  "normalize_uval v =
     (case v of VStr w \<Rightarrow> (case STR_TO_TRI w of Some t \<Rightarrow> VTri t | None \<Rightarrow> v) | VTri t \<Rightarrow> v)"

text \<open>The test of \<^verbatim>\<open>Symbol.set_value\<close> on the form of a value.\<close>

definition value_ok :: "ktype \<Rightarrow> uval \<Rightarrow> bool" where
  "value_ok ty v =
     (ty = BOOL \<and> v \<in> {VTri TY, VTri TN} \<or>
      ty = TRISTATE \<and> (case v of VTri _ \<Rightarrow> True | VStr _ \<Rightarrow> False) \<or>
      (case v of
         VTri _ \<Rightarrow> False
       | VStr w \<Rightarrow>
           ty = STRING \<or> ty = INT_T \<and> is_base_n w 10 \<or>
           ty = HEX \<and> is_base_n w 16 \<and> (case py_int w 16 of Some i \<Rightarrow> i \<ge> 0 | None \<Rightarrow> False)))"

definition show_uval :: "uval \<Rightarrow> string" where
  "show_uval v = (case v of VTri t \<Rightarrow> TRI_TO_STR t | VStr w \<Rightarrow> [CHR 0x27] @ w @ [CHR 0x27])"

definition invalid_value_msg :: "kconfig \<Rightarrow> sc \<Rightarrow> ktype \<Rightarrow> uval \<Rightarrow> string" where
  "invalid_value_msg kc x ty v =
     ''the value '' @ show_uval v @ '' is invalid for '' @ name_and_loc kc x @
     '', which has type '' @ TYPE_TO_STR ty @ '' -- assignment ignored''"

definition put_user :: "sref \<Rightarrow> uval option \<Rightarrow> kstate \<Rightarrow> kstate" where
  "put_user s v st = st\<lparr>usr := (usr st)\<lparr>user_value := (user_value (usr st))(s := v)\<rparr>\<rparr>"

definition put_was_set :: "sref \<Rightarrow> kstate \<Rightarrow> kstate" where
  "put_was_set s st = st\<lparr>was_set := (was_set st)(s := True)\<rparr>"

definition put_selection :: "nat \<Rightarrow> sref option \<Rightarrow> kstate \<Rightarrow> kstate" where
  "put_selection c so st =
     st\<lparr>usr := (usr st)\<lparr>user_selection := (user_selection (usr st))(c := so)\<rparr>\<rparr>"

definition put_mode :: "nat \<Rightarrow> tri option \<Rightarrow> kstate \<Rightarrow> kstate" where
  "put_mode c t st =
     st\<lparr>usr := (usr st)\<lparr>c_user_value := (c_user_value (usr st))(c := t)\<rparr>\<rparr>"

definition put_c_was_set :: "nat \<Rightarrow> kstate \<Rightarrow> kstate" where
  "put_c_was_set c st = st\<lparr>c_was_set := (c_was_set st)(c := True)\<rparr>"

text \<open>\<^verbatim>\<open>Symbol.set_value\<close>: the returned bool and the new state.\<close>

definition sym_set_value ::
  "kconfig \<Rightarrow> nat \<Rightarrow> sref \<Rightarrow> uval \<Rightarrow> kstate \<Rightarrow> exn + bool \<times> kstate" where
  "sym_set_value kc n s v0 st =
     (let o_s = sym_obj kc s;
          v = (if orig_type o_s \<in> BOOL_TRISTATE then normalize_uval v0 else v0)
      in if Some v = user_value (usr st) s \<and> choice o_s = None
         then Inr (True, put_was_set s st)
         else if \<not> value_ok (orig_type o_s) v
         then Inr (False, add_warning (invalid_value_msg kc (Sym s) (orig_type o_s) v) None st)
         else (let st1 = put_was_set s (put_user s (Some v) st)
               in map_sum id (Pair True)
                    (case choice o_s of
                       Some c \<Rightarrow>
                         if v = VTri TY
                         then rec_invalidate kc n (Cho c) (put_c_was_set c (put_selection c (Some s) st1))
                         else rec_invalidate_if_has_prompt kc n s st1
                     | None \<Rightarrow> rec_invalidate_if_has_prompt kc n s st1)))"

definition sym_unset_value :: "kconfig \<Rightarrow> nat \<Rightarrow> sref \<Rightarrow> kstate \<Rightarrow> exn + kstate" where
  "sym_unset_value kc n s st =
     (if user_value (usr st) s \<noteq> None
      then rec_invalidate_if_has_prompt kc n s (put_user s None st)
      else Inr st)"

text \<open>\<^verbatim>\<open>Choice.set_value\<close>; only n, m and y can be the user value of a choice.\<close>

definition choice_set_value ::
  "kconfig \<Rightarrow> nat \<Rightarrow> nat \<Rightarrow> uval \<Rightarrow> kstate \<Rightarrow> exn + bool \<times> kstate" where
  "choice_set_value kc n c v0 st =
     (let ty = c_orig_type (choicetab kc c); v = normalize_uval v0
      in if Some v = map_option VTri (c_user_value (usr st) c)
         then Inr (True, put_c_was_set c st)
         else case v of
             VTri t \<Rightarrow>
               if ty = BOOL \<and> t \<in> {TY, TN} \<or> ty = TRISTATE
               then map_sum id (Pair True)
                      (rec_invalidate kc n (Cho c) (put_c_was_set c (put_mode c (Some t) st)))
               else Inr (False, add_warning (invalid_value_msg kc (Cho c) ty v) None st)
           | VStr _ \<Rightarrow> Inr (False, add_warning (invalid_value_msg kc (Cho c) ty v) None st))"

definition choice_unset_value :: "kconfig \<Rightarrow> nat \<Rightarrow> nat \<Rightarrow> kstate \<Rightarrow> exn + kstate" where
  "choice_unset_value kc n c st =
     (if c_user_value (usr st) c \<noteq> None \<or> user_selection (usr st) c \<noteq> None
      then rec_invalidate kc n (Cho c) (put_selection c None (put_mode c None st))
      else Inr st)"

text \<open>\<^verbatim>\<open>Kconfig.unset_values\<close>; the flag is set to true on the way out, whatever it was.\<close>

definition unset_values :: "kconfig \<Rightarrow> nat \<Rightarrow> kstate \<Rightarrow> exn + kstate" where
  "unset_values kc n st =
     (case try_each (sym_unset_value kc n) (unique_defined_syms kc)
             (st\<lparr>warn_assign_no_prompt := False\<rparr>) of
        Inl e \<Rightarrow> Inl e
      | Inr st1 \<Rightarrow>
          (case try_each (choice_unset_value kc n) (unique_choices kc) st1 of
             Inl e \<Rightarrow> Inl e
           | Inr st2 \<Rightarrow> Inr (st2\<lparr>warn_assign_no_prompt := True\<rparr>)))"

end
