(* ===== verification/Invalidation.thy ===== *)
theory Invalidation
  imports User_Values Support
begin

text \<open>
  The invalidation of cached values is a depth-first search over the dependents that stops
  at items without a cached visibility. It clears a set of items closed under dependents
  with cached values, and needs no more depth than there are items with cached values.
\<close>

section \<open>What invalidation clears\<close>

definition all_items :: "kconfig \<Rightarrow> sc set" where
  "all_items kc = Sym ` set (unique_defined_syms kc) \<union> Cho ` set (unique_choices kc)"

lemma finite_all_items [simp]: "finite (all_items kc)"
  by (simp add: all_items_def)

lemma drop_cache_empty [simp]: "drop_cache {} st = st"
  by (simp add: drop_cache_def)

lemma drop_cache_drop [simp]: "drop_cache X (drop_cache Y st) = drop_cache (X \<union> Y) st"
  by (auto simp: drop_cache_def fun_eq_iff)

lemma drop_cache_fields [simp]:
  "usr (drop_cache X st) = usr st" "was_set (drop_cache X st) = was_set st"
  "warnings (drop_cache X st) = warnings st"
  by (simp_all add: drop_cache_def)

lemma cached_vis_drop [simp]: "cached_vis (drop_cache X st) y \<longleftrightarrow> y \<notin> X \<and> cached_vis st y"
  by (simp add: cached_vis_def drop_cache_def)

lemma query_item_Sym:
  "query_item q = Sym s \<longleftrightarrow> q = QStr s \<or> q = QTri s \<or> q = QVis (Sym s) \<or> q = QAss (Sym s)"
  by (cases q) auto

lemma query_item_Cho:
  "query_item q = Cho c \<longleftrightarrow> q = QVis (Cho c) \<or> q = QAss (Cho c) \<or> q = QSel c"
  by (cases q) auto

lemma invalidate_eq: "invalidate x st = drop_cache {x} st"
  by (cases x) (auto simp: drop_cache_def query_item_Sym query_item_Cho fun_eq_iff)

lemma fold_invalidate: "fold (\<lambda>a. invalidate (f a)) xs st = drop_cache (f ` set xs) st"
proof (induction xs arbitrary: st)
  case (Cons a xs)
  have "f ` set xs \<union> {f a} = f ` set (a # xs)" by auto
  with Cons show ?case by (simp add: invalidate_eq)
qed simp

lemma invalidate_all_eq: "invalidate_all kc st = drop_cache (all_items kc) st"
  by (simp add: invalidate_all_def fold_invalidate all_items_def Un_commute)

section \<open>The search\<close>

text \<open>\<open>clear_ok kc st Y z\<close>: what is cached and depends on \<open>z\<close> is in \<open>Y\<close>; and if \<open>z\<close> is
  \<^verbatim>\<open>MODULES\<close>, everything is.\<close>

definition clear_ok :: "kconfig \<Rightarrow> kstate \<Rightarrow> sc set \<Rightarrow> sc \<Rightarrow> bool" where
  "clear_ok kc st Y z \<longleftrightarrow>
     (\<forall>y \<in> set (sc_dependents kc z). cached_vis st y \<longrightarrow> y \<in> Y) \<and>
     (z = Sym modules \<longrightarrow> all_items kc \<subseteq> Y)"

lemma clear_ok_mono: "clear_ok kc st Y z \<Longrightarrow> Y \<subseteq> Z \<Longrightarrow> clear_ok kc st Z z"
  by (auto simp: clear_ok_def)

text \<open>The dependents of an item are symbols and choices of the configuration.\<close>

definition deps_inside :: "kconfig \<Rightarrow> bool" where
  "deps_inside kc \<longleftrightarrow> (\<forall>x. set (sc_dependents kc x) \<subseteq> all_items kc)"

lemma deps_insideD: "deps_inside kc \<Longrightarrow> y \<in> set (sc_dependents kc x) \<Longrightarrow> y \<in> all_items kc"
  by (auto simp: deps_inside_def)

lemma clear_ok_all: "deps_inside kc \<Longrightarrow> all_items kc \<subseteq> Y \<Longrightarrow> clear_ok kc st Y z"
  by (auto simp: clear_ok_def dest: deps_insideD)

text \<open>One step of the search extends the cleared set \<open>X\<close> to \<open>Y\<close>.\<close>

definition clears :: "kconfig \<Rightarrow> kstate \<Rightarrow> sc set \<Rightarrow> sc set \<Rightarrow> kstate \<Rightarrow> bool" where
  "clears kc st X Y st' \<longleftrightarrow>
     st' = drop_cache Y st \<and> X \<subseteq> Y \<and> (\<forall>z \<in> Y - X. z \<in> all_items kc \<and> clear_ok kc st Y z)"

lemma clears_refl: "clears kc st X X (drop_cache X st)"
  by (simp add: clears_def)

lemma clears_trans:
  "clears kc st X Y st' \<Longrightarrow> clears kc st Y Z st'' \<Longrightarrow> clears kc st X Z st''"
  unfolding clears_def using clear_ok_mono by blast

lemma try_each_clears:
  assumes step: "\<And>y X s'. y \<in> set ys \<Longrightarrow> f y (drop_cache X st) = Inr s' \<Longrightarrow>
      \<exists>Y. clears kc st X Y s' \<and> (cached_vis st y \<longrightarrow> y \<in> Y)"
  shows "try_each f ys (drop_cache X st) = Inr st' \<Longrightarrow>
     \<exists>Y. clears kc st X Y st' \<and> (\<forall>y \<in> set ys. cached_vis st y \<longrightarrow> y \<in> Y)"
  using step
proof (induction ys arbitrary: X)
  case Nil
  then show ?case using clears_refl by auto
next
  case (Cons y ys)
  obtain s1 where s1: "f y (drop_cache X st) = Inr s1" "try_each f ys s1 = Inr st'"
    using Cons.prems(1) by (auto split: sum.splits)
  obtain Y where Y: "clears kc st X Y s1" "cached_vis st y \<longrightarrow> y \<in> Y"
    using Cons.prems(2) [OF _ s1(1)] by auto
  have "s1 = drop_cache Y st" using Y(1) by (simp add: clears_def)
  with s1(2) Cons.IH [of Y] Cons.prems(2) obtain Z
    where Z: "clears kc st Y Z st'" "\<forall>y \<in> set ys. cached_vis st y \<longrightarrow> y \<in> Z" by auto
  have "clears kc st X Z st'" "Y \<subseteq> Z" using clears_trans [OF Y(1) Z(1)] Z(1) by (auto simp: clears_def)
  then show ?case using Y(2) Z(2) by auto
qed

lemma rec_invalidate_clears:
  assumes d: "deps_inside kc"
  shows "x \<in> all_items kc \<Longrightarrow> rec_invalidate kc n x (drop_cache X st) = Inr st' \<Longrightarrow>
    \<exists>Y. clears kc st X Y st' \<and> x \<in> Y"
proof (induction n arbitrary: x X st')
  case (Suc n)
  show ?case
  proof (cases "x = Sym modules")
    case True
    then have "st' = drop_cache (all_items kc \<union> X) st" using Suc.prems by (simp add: invalidate_all_eq)
    then have "clears kc st X (all_items kc \<union> X) st'"
      using clear_ok_all [OF d] by (auto simp: clears_def)
    then show ?thesis using Suc.prems(1) by blast
  next
    case False
    let ?f = "\<lambda>y st. if cached_vis st y then rec_invalidate kc n y st else Inr st"
    have "try_each ?f (sc_dependents kc x) (drop_cache (insert x X) st) = Inr st'"
      using Suc.prems(2) False by (simp add: invalidate_eq)
    from try_each_clears [OF _ this, of kc] obtain Y
      where Y: "clears kc st (insert x X) Y st'"
        "\<forall>y \<in> set (sc_dependents kc x). cached_vis st y \<longrightarrow> y \<in> Y"
    proof (rule exE, goal_cases)
      case (1 y X' s')
      show ?case
      proof (cases "cached_vis (drop_cache X' st) y")
        case True
        have "y \<in> all_items kc" by (rule deps_insideD [OF d 1(2)])
        then show ?thesis using Suc.IH [of y X' s'] 1(3) True by auto
      next
        case False
        then have "s' = drop_cache X' st" using 1(3) by (auto split: if_splits)
        then show ?thesis using clears_refl False by auto
      qed
    qed blast+
    have "clear_ok kc st Y x" using Y(2) False by (simp add: clear_ok_def)
    then have "clears kc st X Y st'" using Y(1) Suc.prems(1) unfolding clears_def by blast
    then show ?thesis using Y(1) by (auto simp: clears_def)
  qed
qed simp

text \<open>
  The depth: every level of the recursion but the first clears an item whose visibility
  was cached.
\<close>

definition live :: "kconfig \<Rightarrow> kstate \<Rightarrow> sc set" where
  "live kc st = {y \<in> all_items kc. cached_vis st y}"

lemma finite_live [simp]: "finite (live kc st)"
  by (simp add: live_def)

lemma try_each_total:
  assumes "\<And>y s. y \<in> set ys \<Longrightarrow> P s \<Longrightarrow> \<exists>s'. f y s = Inr s' \<and> P s'"
  shows "P s \<Longrightarrow> \<exists>s'. try_each f ys s = Inr s' \<and> P s'"
  using assms
proof (induction ys arbitrary: s)
  case (Cons y ys)
  then obtain s1 where "f y s = Inr s1" "P s1" by fastforce
  then show ?case using Cons.IH [of s1] Cons.prems(2) by simp
qed simp

lemma rec_invalidate_total:
  assumes d: "deps_inside kc"
  shows "x \<in> all_items kc \<Longrightarrow> card (live kc st - {x}) < n \<Longrightarrow> \<exists>st'. rec_invalidate kc n x st = Inr st'"
proof (induction n arbitrary: x st)
  case (Suc n)
  show ?case
  proof (cases "x = Sym modules")
    case False
    let ?f = "\<lambda>y st. if cached_vis st y then rec_invalidate kc n y st else Inr st"
    define P where "P s \<longleftrightarrow> (\<exists>X. s = drop_cache X st \<and> x \<in> X)" for s
    have "\<exists>s'. ?f y s = Inr s' \<and> P s'" if y: "y \<in> set (sc_dependents kc x)" and s: "P s" for y s
    proof (cases "cached_vis s y")
      case True
      obtain X where X: "s = drop_cache X st" "x \<in> X" using s by (auto simp: P_def)
      have ya: "y \<in> all_items kc" by (rule deps_insideD [OF d y])
      then have "y \<in> live kc s" using True by (simp add: live_def)
      then have "card (live kc s - {y}) < card (live kc s)" by (intro card_Diff1_less finite_live)
      also have "card (live kc s) \<le> card (live kc st - {x})"
        by (rule card_mono) (use X in \<open>auto simp: live_def\<close>)
      finally obtain s' where s': "rec_invalidate kc n y s = Inr s'"
        using Suc.IH [OF ya, of s] Suc.prems(2) by auto
      from rec_invalidate_clears [OF d ya s' [unfolded X(1)]] X obtain Y
        where "s' = drop_cache Y st" "X \<subseteq> Y" by (auto simp: clears_def)
      then show ?thesis using s' X True by (auto simp: P_def)
    qed (use s in simp)
    moreover have "P (invalidate x st)" by (auto simp: P_def invalidate_eq)
    ultimately have "\<exists>s'. try_each ?f (sc_dependents kc x) (invalidate x st) = Inr s' \<and> P s'"
      by (intro try_each_total) auto
    then show ?thesis using False by auto
  qed simp
qed simp

end
