(* ===== verification/Tracking.thy ===== *)
theory Tracking
  imports Support User_Values Invalidation
begin

text \<open>
  What the value of an attribute may depend on. If \<^verbatim>\<open>_dependents\<close> registers every item
  with the items its properties mention, the essential body of an attribute reads only
  the item itself, items it is registered with, constants and \<^verbatim>\<open>MODULES\<close>; and besides it
  looks at the user values of its own item and of the choices it reads.
\<close>

section \<open>Registered dependencies\<close>

definition constant_item :: "sc \<Rightarrow> bool" where
  "constant_item y = (case y of Sym s \<Rightarrow> is_constant s | Cho c \<Rightarrow> False)"

text \<open>\<open>x\<close> is among the dependents of whatever \<open>e\<close> mentions.\<close>

definition tracked :: "kconfig \<Rightarrow> sc \<Rightarrow> expr \<Rightarrow> bool" where
  "tracked kc x e \<longleftrightarrow> (\<forall>y \<in> expr_items e. constant_item y \<or> x \<in> set (sc_dependents kc y))"

definition prompts_tracked :: "kconfig \<Rightarrow> sc \<Rightarrow> bool" where
  "prompts_tracked kc x \<longleftrightarrow>
     (\<forall>n \<in> set (sc_nodes kc x). case nd_prompt (nodetab kc n) of
        None \<Rightarrow> True | Some p \<Rightarrow> tracked kc x (snd p))"

definition sym_tracked :: "kconfig \<Rightarrow> sref \<Rightarrow> bool" where
  "sym_tracked kc s \<longleftrightarrow>
     (let o_s = sym_obj kc s; x = Sym s
      in prompts_tracked kc x \<and>
         (\<forall>d \<in> set (defaults o_s). tracked kc x (fst d) \<and> tracked kc x (snd d)) \<and>
         tracked kc x (rev_dep o_s) \<and> tracked kc x (weak_rev_dep o_s) \<and>
         (\<forall>(lo, hi, c) \<in> set (ranges o_s).
            tracked kc x (Leaf (Sym lo)) \<and> tracked kc x (Leaf (Sym hi)) \<and> tracked kc x c) \<and>
         tracked kc x (direct_dep o_s) \<and>
         (\<forall>c. choice o_s = Some c \<longrightarrow> tracked kc x (Leaf (Cho c))))"

definition choice_tracked :: "kconfig \<Rightarrow> nat \<Rightarrow> bool" where
  "choice_tracked kc c \<longleftrightarrow>
     (let o_c = choicetab kc c
      in prompts_tracked kc (Cho c) \<and>
         (\<forall>d \<in> set (c_defaults o_c). tracked kc (Cho c) (snd d) \<and>
            (\<forall>s. fst d = Leaf (Sym s) \<longrightarrow> s \<in> set (c_syms o_c))) \<and>
         (\<forall>s \<in> set (c_syms o_c). tracked kc (Cho c) (Leaf (Sym s))))"

text \<open>
  The whole configuration: items that are not defined have no type, location or
  choice.
\<close>

definition undefined_sym :: "kconfig \<Rightarrow> sref \<Rightarrow> bool" where
  "undefined_sym kc s \<longleftrightarrow>
     nodes (sym_obj kc s) = [] \<and> choice (sym_obj kc s) = None \<and>
     (orig_type (sym_obj kc s) = UNKNOWN \<or> is_nmy s)"

definition undefined_choice :: "kconfig \<Rightarrow> nat \<Rightarrow> bool" where
  "undefined_choice kc c \<longleftrightarrow>
     (let o_c = choicetab kc c
      in c_nodes o_c = [] \<and> c_syms o_c = [] \<and> c_defaults o_c = [] \<and> c_orig_type o_c = UNKNOWN)"

definition wf_deps :: "kconfig \<Rightarrow> bool" where
  "wf_deps kc \<longleftrightarrow>
     deps_inside kc \<and>
     (\<forall>s. if Sym s \<in> all_items kc then \<not> is_constant s \<and> sym_tracked kc s else undefined_sym kc s) \<and>
     (\<forall>c. if Cho c \<in> all_items kc then choice_tracked kc c else undefined_choice kc c) \<and>
     (\<forall>s c. choice (sym_obj kc s) = Some c \<longrightarrow> Cho c \<in> all_items kc \<and> s \<in> set (c_syms (choicetab kc c)))"

text \<open>The selection of the user is a symbol of the choice.\<close>

definition wf_user :: "kconfig \<Rightarrow> user_state \<Rightarrow> bool" where
  "wf_user kc u \<longleftrightarrow>
     (\<forall>c s. user_selection u c = Some s \<longrightarrow> s \<in> set (c_syms (choicetab kc c)))"

section \<open>The reads of an essential body\<close>

text \<open>The attributes that may be read for an attribute of item \<open>x\<close>.\<close>

definition may_read :: "kconfig \<Rightarrow> sc \<Rightarrow> query \<Rightarrow> bool" where
  "may_read kc x q \<longleftrightarrow>
     query_item q = x \<or> constant_item (query_item q) \<or> q = QTri modules \<or>
     x \<in> set (sc_dependents kc (query_item q))"

lemma may_read_own [simp]: "query_item q = x \<Longrightarrow> may_read kc x q"
  by (simp add: may_read_def)

lemma may_read_modules [simp]: "may_read kc x (QTri modules)"
  by (simp add: may_read_def)

lemma may_read_tracked:
  "tracked kc x e \<Longrightarrow> y \<in> expr_items e \<Longrightarrow> query_item q = y \<Longrightarrow> may_read kc x q"
  by (auto simp: tracked_def may_read_def)

lemma reads_choice_type [intro]: "reads_below (may_read kc x) (choice_type kc c)"
  by (auto simp: choice_type_def intro!: reads_below_bindp)

lemma reads_choice_tri [intro]:
  "may_read kc x (QVis (Cho c)) \<Longrightarrow> reads_below (may_read kc x) (choice_tri kc u c)"
  by (auto simp: choice_tri_def Let_def intro!: reads_below_bindp)

lemma reads_choice_str [intro]:
  "may_read kc x (QVis (Cho c)) \<Longrightarrow> reads_below (may_read kc x) (choice_str kc u c)"
  by (auto simp: choice_str_def intro!: reads_below_bindp)

lemma reads_rel_compare:
  "(\<And>q. query_item q = Sym a \<Longrightarrow> P q) \<Longrightarrow> (\<And>q. query_item q = Sym b \<Longrightarrow> P q) \<Longrightarrow>
   reads_below P (rel_compare kc a b)"
  unfolding rel_compare_def str_compare_def sym_to_num_def
  by (auto split: option.splits intro!: reads_below_bindp)

lemma reads_expr_value:
  "tracked kc x e \<Longrightarrow> reads_below (may_read kc x) (expr_value kc u e)"
proof (induction e)
  case (Leaf y)
  then show ?case
    using may_read_tracked [OF Leaf] by (auto split: sc.splits)
next
  case (REL r a b)
  then show ?case
    using may_read_tracked [OF REL] by (auto intro!: reads_below_bindp reads_rel_compare)
qed (auto simp: tracked_def intro!: reads_below_bindp)

lemma reads_expr_str_value:
  "tracked kc x e \<Longrightarrow> reads_below (may_read kc x) (expr_str_value kc u e)"
  by (induction kc u e rule: expr_str_value.induct)
    (auto intro!: reads_choice_str may_read_tracked)

lemma reads_first_cond:
  "\<forall>y \<in> set ys. tracked kc x (cond y) \<and> (\<forall>v. reads_below (may_read kc x) (f (Some (y, v)))) \<Longrightarrow>
   reads_below (may_read kc x) (f None) \<Longrightarrow>
   reads_below (may_read kc x) (bindp (first_cond kc u cond ys) f)"
proof (induction ys)
  case (Cons y ys)
  have "reads_below (may_read kc x)
      (bindp (expr_value kc u (cond y)) (\<lambda>v.
         bindp (if v \<noteq> TN then Ret (Some (y, v)) else first_cond kc u cond ys) f))"
    by (rule reads_below_bindp [OF reads_expr_value]) (use Cons in \<open>auto\<close>)
  then show ?case by simp
qed simp

lemma reads_prompt_vis:
  "\<forall>n \<in> set ns. case nd_prompt (nodetab kc n) of None \<Rightarrow> True | Some p \<Rightarrow> tracked kc x (snd p) \<Longrightarrow>
   reads_below (may_read kc x) (prompt_vis kc u ns vis)"
  by (induction ns arbitrary: vis)
    (auto split: option.splits intro!: reads_below_bindp reads_expr_value)

lemma sym_tracked_const: "is_nmy s \<Longrightarrow> sym_tracked kc s"
  by (simp add: sym_obj_def const_symbol_def fresh_symbol_def sym_tracked_def Let_def
      prompts_tracked_def sc_nodes_def tracked_def constant_item_def)

lemma wf_sym:
  assumes "wf_deps kc"
  shows "sym_tracked kc s \<or>
    (nodes (sym_obj kc s) = [] \<and> choice (sym_obj kc s) = None \<and> orig_type (sym_obj kc s) = UNKNOWN)"
proof (cases "Sym s \<in> all_items kc")
  case True
  then show ?thesis using assms unfolding wf_deps_def by meson
next
  case False
  then have "undefined_sym kc s" using assms unfolding wf_deps_def by meson
  then show ?thesis using sym_tracked_const by (auto simp: undefined_sym_def)
qed

lemma wf_choice:
  assumes "wf_deps kc" shows "choice_tracked kc c"
proof (cases "Cho c \<in> all_items kc")
  case True
  then show ?thesis using assms unfolding wf_deps_def by meson
next
  case False
  then have "undefined_choice kc c" using assms unfolding wf_deps_def by meson
  then show ?thesis
    by (simp add: undefined_choice_def choice_tracked_def prompts_tracked_def sc_nodes_def Let_def)
qed

lemma wf_choice_of:
  assumes "wf_deps kc" "choice (sym_obj kc s) = Some c"
  shows "Sym s \<in> all_items kc" "Sym s \<in> set (sc_dependents kc (Cho c))"
    "Cho c \<in> set (sc_dependents kc (Sym s))" "Cho c \<in> all_items kc"
    "may_read kc (Sym s) (QVis (Cho c))" "may_read kc (Sym s) (QSel c)"
proof -
  show a: "Sym s \<in> all_items kc"
    using assms by (auto simp: wf_deps_def undefined_sym_def split: if_splits)
  then have "sym_tracked kc s" "\<not> is_constant s" using assms by (auto simp: wf_deps_def)
  then show d: "Sym s \<in> set (sc_dependents kc (Cho c))"
    using assms(2) by (auto simp: sym_tracked_def Let_def tracked_def constant_item_def)
  show ca: "Cho c \<in> all_items kc" using assms unfolding wf_deps_def by blast
  then have "choice_tracked kc c" using assms by (auto simp: wf_deps_def)
  moreover have "s \<in> set (c_syms (choicetab kc c))" using assms unfolding wf_deps_def by blast
  ultimately show "Cho c \<in> set (sc_dependents kc (Sym s))"
    using \<open>\<not> is_constant s\<close> by (auto simp: choice_tracked_def Let_def tracked_def constant_item_def)
  show "may_read kc (Sym s) (QVis (Cho c))" "may_read kc (Sym s) (QSel c)"
    using d by (simp_all add: may_read_def)
qed

lemma reads_sym_type:
  assumes "wf_deps kc" shows "reads_below (may_read kc (Sym s)) (sym_type kc u s)"
  unfolding sym_type_def modules_type_def
  by (auto split: option.splits intro!: reads_below_bindp reads_choice_tri wf_choice_of [OF assms])

lemma reads_promote_vis:
  assumes "wf_deps kc" shows "reads_below (may_read kc x) (promote_vis kc u x vis)"
  unfolding promote_vis_def using reads_sym_type [OF assms]
  by (cases x) (auto intro!: reads_below_bindp)

lemma wf_prompts_tracked: "wf_deps kc \<Longrightarrow> prompts_tracked kc x"
proof (cases x)
  case (Sym s)
  assume "wf_deps kc"
  from wf_sym [OF this, of s] show ?thesis
    by (auto simp: Sym sym_tracked_def Let_def prompts_tracked_def sc_nodes_def)
next
  case (Cho c)
  assume "wf_deps kc"
  from wf_choice [OF this, of c] show ?thesis by (simp add: Cho choice_tracked_def Let_def)
qed

lemma reads_visibility:
  assumes "wf_deps kc" shows "reads_below (may_read kc x) (visibility kc u x)"
proof -
  have "reads_below (may_read kc x) (prompt_vis kc u (sc_nodes kc x) TN)"
    using wf_prompts_tracked [OF assms] by (intro reads_prompt_vis) (simp add: prompts_tracked_def)
  then show ?thesis
    unfolding visibility_def
    by (rule reads_below_bindp)
      (use reads_promote_vis [OF assms] wf_choice_of(5) [OF assms] in
        \<open>auto split: sc.splits option.splits intro!: reads_below_bindp reads_choice_tri\<close>)
qed

text \<open>A typed symbol has its properties registered.\<close>

lemma wf_typed: "wf_deps kc \<Longrightarrow> orig_type (sym_obj kc s) \<noteq> UNKNOWN \<Longrightarrow> sym_tracked kc s"
  using wf_sym by blast

lemma reads_e_sym_tri:
  assumes w: "wf_deps kc" shows "reads_below (may_read kc (Sym s)) (e_sym_tri kc u s)"
proof (cases "orig_type (sym_obj kc s) \<in> BOOL_TRISTATE")
  case True
  then have t: "sym_tracked kc s"
    using wf_typed [OF w, of s] by (cases "orig_type (sym_obj kc s) = UNKNOWN") auto
  have d: "reads_below (may_read kc (Sym s)) (tri_from_defaults kc u s)"
    unfolding tri_from_defaults_def
    by (intro reads_first_cond)
      (use t in \<open>auto simp: sym_tracked_def Let_def intro!: reads_below_bindp reads_expr_value\<close>)
  have "reads_below (may_read kc (Sym s)) (e_tri_with_selects kc u s v)"
    "reads_below (may_read kc (Sym s)) (tri_promote kc u s v)" for v
    using t reads_sym_type [OF w, of s u] unfolding e_tri_with_selects_def tri_promote_def
    by (auto simp: sym_tracked_def Let_def intro!: reads_below_bindp reads_expr_value)
  then show ?thesis
    unfolding e_sym_tri_def Let_def using True d wf_choice_of(6) [OF w, of s]
    by (auto split: option.splits uval.splits intro!: reads_below_bindp)
qed (simp add: e_sym_tri_def)

lemma reads_sym_assignable:
  assumes w: "wf_deps kc" shows "reads_below (may_read kc (Sym s)) (sym_assignable kc u s)"
proof (cases "orig_type (sym_obj kc s) \<in> BOOL_TRISTATE")
  case True
  then have t: "sym_tracked kc s"
    using wf_typed [OF w, of s] by (cases "orig_type (sym_obj kc s) = UNKNOWN") auto
  then show ?thesis
    using True reads_sym_type [OF w, of s u] unfolding sym_assignable_def bool_or_implied_def Let_def
    by (auto simp: sym_tracked_def Let_def intro!: reads_below_bindp reads_expr_value)
qed (simp add: sym_assignable_def)

lemma reads_clamp_default: "reads_below P (clamp_default kc s b r d v)"
  by (auto simp: clamp_default_def Let_def split: option.splits)

lemma reads_sym_str:
  assumes w: "wf_deps kc" shows "reads_below (may_read kc (Sym s)) (sym_str kc u s)"
proof (cases "orig_type (sym_obj kc s) = UNKNOWN")
  case False
  then have t: "sym_tracked kc s" using wf_typed [OF w] by blast
  then have d: "\<forall>d \<in> set (defaults (sym_obj kc s)). tracked kc (Sym s) (fst d) \<and> tracked kc (Sym s) (snd d)"
    and r: "\<forall>(lo, hi, c) \<in> set (ranges (sym_obj kc s)). tracked kc (Sym s) (Leaf (Sym lo)) \<and>
      tracked kc (Sym s) (Leaf (Sym hi)) \<and> tracked kc (Sym s) c"
    by (auto simp: sym_tracked_def Let_def)
  have n: "reads_below (may_read kc (Sym s)) (num_from_defaults kc u s b rng)" for b rng
    unfolding num_from_defaults_def
    by (intro reads_first_cond)
      (use d in \<open>auto intro!: reads_below_bindp reads_expr_str_value reads_clamp_default\<close>)
  have a: "reads_below (may_read kc (Sym s)) (active_range kc u s b)" for b
    unfolding active_range_def
    by (intro reads_first_cond)
      (use r in \<open>auto intro!: reads_below_bindp may_read_tracked dest!: bspec\<close>)
  have i: "reads_below (may_read kc (Sym s)) (num_in_range kc u s vis b rng)" for vis b rng
    unfolding num_in_range_def using n by (auto split: option.splits uval.splits)
  have "reads_below (may_read kc (Sym s)) (bindp (first_cond kc u snd (defaults (sym_obj kc s))) (\<lambda>d.
      case d of None \<Rightarrow> Ret []
      | Some (e, _) \<Rightarrow> bindp (expr_str_value kc u (fst e)) (\<lambda>v. SetW s True (Ret v))))"
    by (intro reads_first_cond) (use d in \<open>auto intro!: reads_below_bindp reads_expr_str_value\<close>)
  then have "reads_below (may_read kc (Sym s)) (string_str kc u s vis)" for vis
    by (auto simp: string_str_def split: option.splits uval.splits)
  then show ?thesis
    unfolding sym_str_def num_str_def Let_def using a i
    by (auto split: option.splits intro!: reads_below_bindp)
qed (simp add: sym_str_def)

lemma reads_selection:
  assumes w: "wf_deps kc" and u: "wf_user kc u"
  shows "reads_below (may_read kc (Cho c)) (selection kc u c)"
proof -
  have t: "choice_tracked kc c" by (rule wf_choice [OF w])
  have v: "may_read kc (Cho c) (QVis (Sym s))" if "s \<in> set (c_syms (choicetab kc c))" for s
    using t that by (auto simp: choice_tracked_def Let_def intro!: may_read_tracked)
  have "set ss \<subseteq> set (c_syms (choicetab kc c)) \<Longrightarrow> reads_below (may_read kc (Cho c)) (first_visible ss)" for ss
    by (induction ss) (auto intro!: reads_below_bindp v)
  then have f: "reads_below (may_read kc (Cho c)) (first_visible (c_syms (choicetab kc c)))" by blast
  have "set ds \<subseteq> set (c_defaults (choicetab kc c)) \<Longrightarrow>
    reads_below (may_read kc (Cho c))
      (default_selection kc u ds (first_visible (c_syms (choicetab kc c))))" for ds
    by (induction ds)
      (use f t in \<open>auto simp: choice_tracked_def Let_def intro!: reads_below_bindp reads_expr_value v
        split: expr.splits sc.splits\<close>)
  then show ?thesis
    unfolding selection_def selection_from_defaults_def using u v
    by (auto simp: wf_user_def split: option.splits intro!: reads_below_bindp reads_choice_tri)
qed

lemma reads_choice_assignable: "reads_below (may_read kc (Cho c)) (choice_assignable kc u c)"
  by (auto simp: choice_assignable_def intro!: reads_below_bindp)

lemma reads_ebody:
  assumes "wf_deps kc" "wf_user kc u"
  shows "reads_below (may_read kc (query_item q)) (ebody kc u q)"
  using reads_visibility [OF assms(1)] reads_e_sym_tri [OF assms(1)] reads_sym_str [OF assms(1)]
    reads_selection [OF assms] reads_sym_assignable [OF assms(1)] reads_choice_assignable
  by (cases q) (auto simp: ebody_def attr_body_def split: sc.splits intro!: reads_below_bindp)

end
