(* ===== verification/Invalidation_Correct.thy ===== *)
theory Invalidation_Correct
  imports Tracking
begin

text \<open>
  Assigning values leaves no stale value behind: the values that survive an invalidation
  are those the properties have under the new user values. With this, caching is
  transparent in every state that assignments and reads can reach.
\<close>

section \<open>Two programs that agree on the values they may read\<close>

primrec same :: "(query \<Rightarrow> val \<Rightarrow> bool) \<Rightarrow> 'a prog \<Rightarrow> 'a prog \<Rightarrow> bool" where
  "same P (Ret a) p' \<longleftrightarrow> p' = Ret a"
| "same P (Raise e) p' \<longleftrightarrow> p' = Raise e"
| "same P (ReadQ q k) p' \<longleftrightarrow> (\<exists>k'. p' = ReadQ q k' \<and> (\<forall>v. P q v \<longrightarrow> same P (k v) (k' v)))"
| "same P (SetW s b p) p' \<longleftrightarrow> (\<exists>p1. p' = SetW s b p1 \<and> same P p p1)"
| "same P (Warn m p) p' \<longleftrightarrow> (\<exists>m1 p1. p' = Warn m1 p1 \<and> same P p p1)"

lemma same_refl [simp]: "same P p p"
  by (induction p) auto

lemma same_bindp [intro]:
  "same P p p' \<Longrightarrow> (\<And>a. same P (f a) (f' a)) \<Longrightarrow> same P (bindp p f) (bindp p' f')"
  by (induction p arbitrary: p') auto

lemma same_rd_vis:
  "(\<And>v. P (QVis x) v \<Longrightarrow> same P (f (un_tri v)) (f' (un_tri v))) \<Longrightarrow>
   same P (bindp (rd_vis x) f) (bindp (rd_vis x) f')"
  by (simp add: rd_vis_def)

lemma interp_same:
  "same P p p' \<Longrightarrow> interp rd p = Inr a \<Longrightarrow> (\<And>q v. rd q = Inr v \<Longrightarrow> P q v) \<Longrightarrow> interp rd p' = Inr a"
proof (induction p arbitrary: p')
  case (ReadQ q k)
  obtain v where v: "rd q = Inr v" "interp rd (k v) = Inr a"
    using ReadQ.prems(2) by (auto split: sum.splits)
  obtain k' where k': "p' = ReadQ q k'" "same P (k v) (k' v)"
    using ReadQ.prems(1) ReadQ.prems(3) [OF v(1)] by auto
  with ReadQ.IH [OF _ k'(2) v(2) ReadQ.prems(3)] v(1) show ?case by simp
qed auto

section \<open>Property bodies under two sets of user values\<close>

text \<open>
  \<open>apart kc u u' q v\<close>: reading \<open>v\<close> for \<open>q\<close>, the bodies under \<open>u\<close> and \<open>u'\<close> can
  not part: a choice that is read has the same mode in both, and a symbol without a prompt
  is not visible.
\<close>

definition together :: "kconfig \<Rightarrow> user_state \<Rightarrow> user_state \<Rightarrow> query \<Rightarrow> val \<Rightarrow> bool" where
  "together kc u u' q v =
     (case q of
        QVis (Cho c) \<Rightarrow> c_user_value u c = c_user_value u' c
      | QVis (Sym s) \<Rightarrow> \<not> has_prompt kc s \<longrightarrow> v = VT TN
      | _ \<Rightarrow> True)"

text \<open>The user values of an item that matter are the same.\<close>

definition same_own :: "kconfig \<Rightarrow> user_state \<Rightarrow> user_state \<Rightarrow> sc \<Rightarrow> bool" where
  "same_own kc u u' x =
     (case x of
        Sym s \<Rightarrow> user_value u s = user_value u' s \<or> \<not> has_prompt kc s
      | Cho c \<Rightarrow> c_user_value u c = c_user_value u' c \<and> user_selection u c = user_selection u' c)"

lemma same_choice_tri [intro]:
  "same (together kc u u') (choice_tri kc u c) (choice_tri kc u' c)"
  unfolding choice_tri_def Let_def
  by (rule same_rd_vis) (simp add: together_def cong: if_cong)

lemma same_choice_str [intro]:
  "same (together kc u u') (choice_str kc u c) (choice_str kc u' c)"
  unfolding choice_str_def by auto

lemma same_expr_value [intro]:
  "same (together kc u u') (expr_value kc u e) (expr_value kc u' e)"
  by (induction e) (auto split: sc.splits intro!: same_bindp)

lemma same_expr_str_value [intro]:
  "same (together kc u u') (expr_str_value kc u e) (expr_str_value kc u' e)"
  by (induction kc u e rule: expr_str_value.induct) auto

lemma same_first_cond [intro]:
  "same (together kc u u') (first_cond kc u cond xs) (first_cond kc u' cond xs)"
  by (induction xs) (auto intro!: same_bindp)

lemma same_prompt_vis [intro]:
  "same (together kc u u') (prompt_vis kc u ns v) (prompt_vis kc u' ns v)"
  by (induction ns arbitrary: v) (auto split: option.splits intro!: same_bindp)

lemma same_sym_type [intro]: "same (together kc u u') (sym_type kc u s) (sym_type kc u' s)"
  by (auto simp: sym_type_def split: option.splits intro!: same_bindp)

lemma same_sc_type [intro]: "same (together kc u u') (sc_type kc u x) (sc_type kc u' x)"
  by (cases x) auto

lemma same_promote_vis [intro]:
  "same (together kc u u') (promote_vis kc u x v) (promote_vis kc u' x v)"
  by (auto simp: promote_vis_def intro!: same_bindp)

lemmas same_intros = same_bindp same_choice_tri same_choice_str same_expr_value
  same_expr_str_value same_first_cond same_prompt_vis same_sym_type same_promote_vis

lemma same_visibility [intro]: "same (together kc u u') (visibility kc u x) (visibility kc u' x)"
  unfolding visibility_def by (auto split: sc.splits option.splits intro!: same_intros)

lemma same_default_selection:
  "same (together kc u u') (default_selection kc u ds p) (default_selection kc u' ds p)"
  by (induction ds) (auto split: expr.splits sc.splits intro!: same_intros)

lemma same_selection:
  assumes "same_own kc u u' (Cho c)"
  shows "same (together kc u u') (selection kc u c) (selection kc u' c)"
  using assms unfolding selection_def selection_from_defaults_def
  by (auto simp: same_own_def split: option.splits intro!: same_intros same_default_selection)

lemma same_choice_assignable:
  "same (together kc u u') (choice_assignable kc u c) (choice_assignable kc u' c)"
  by (auto simp: choice_assignable_def)

lemma same_sym_assignable:
  "same (together kc u u') (sym_assignable kc u s) (sym_assignable kc u' s)"
  by (auto simp: sym_assignable_def bool_or_implied_def Let_def intro!: same_intros)

text \<open>A read visibility and the user value behind it.\<close>

lemma same_user:
  assumes "same_own kc u u' (Sym s)" "together kc u u' (QVis (Sym s)) v"
  shows "(if un_tri v \<noteq> TN then user_value u s else None) =
         (if un_tri v \<noteq> TN then user_value u' s else None)"
  using assms by (auto simp: same_own_def together_def)

lemma same_tri_from_defaults:
  "same (together kc u u') (tri_from_defaults kc u s) (tri_from_defaults kc u' s)"
  unfolding tri_from_defaults_def
  by (intro same_bindp same_first_cond) (auto simp: Let_def split: option.splits intro!: same_intros)

lemma same_num_from_defaults:
  "same (together kc u u') (num_from_defaults kc u s b r) (num_from_defaults kc u' s b r)"
  unfolding num_from_defaults_def
  by (intro same_bindp same_first_cond) (auto split: option.splits intro!: same_intros)

lemma same_e_sym_tri:
  assumes "same_own kc u u' (Sym s)"
  shows "same (together kc u u') (e_sym_tri kc u s) (e_sym_tri kc u' s)"
proof (cases "orig_type (sym_obj kc s) \<in> BOOL_TRISTATE")
  case True
  have m: "un_tri v \<noteq> TN \<and> user_value u s \<notin> X \<longleftrightarrow> un_tri v \<noteq> TN \<and> user_value u' s \<notin> X"
    if "together kc u u' (QVis (Sym s)) v" for v X
    using same_user [OF assms that] by (auto split: if_splits)
  have w: "same (together kc u u') (e_tri_with_selects kc u s v) (e_tri_with_selects kc u' s v)"
    "same (together kc u u') (tri_promote kc u s v) (tri_promote kc u' s v)" for v
    by (auto simp: e_tri_with_selects_def tri_promote_def intro!: same_intros)
  have d: "same (together kc u u')
      (case a of Some (VTri t) \<Rightarrow> Ret (min t w) | Some (VStr _) \<Rightarrow> Raise TypeError
       | None \<Rightarrow> tri_from_defaults kc u s)
      (case a of Some (VTri t) \<Rightarrow> Ret (min t w) | Some (VStr _) \<Rightarrow> Raise TypeError
       | None \<Rightarrow> tri_from_defaults kc u' s)" for a w
    by (auto split: option.splits uval.splits intro: same_tri_from_defaults)
  show ?thesis
  proof (cases "choice (sym_obj kc s)")
    case None
    let ?f = "\<lambda>u a w. bindp (case a of Some (VTri t) \<Rightarrow> Ret (min t w)
        | Some (VStr _) \<Rightarrow> Raise TypeError | None \<Rightarrow> tri_from_defaults kc u s)
        (\<lambda>v. bindp (e_tri_with_selects kc u s v) (\<lambda>v. tri_promote kc u s v))"
    have "same (together kc u u')
       (?f u (if un_tri v \<noteq> TN then user_value u s else None) (un_tri v))
       (?f u' (if un_tri v \<noteq> TN then user_value u' s else None) (un_tri v))"
      if t: "together kc u u' (QVis (Sym s)) v" for v
      unfolding same_user [OF assms t] by (intro same_bindp d w)
    then show ?thesis
      unfolding e_sym_tri_def Let_def None option.case
      using True by (simp only: simp_thms not_not if_False) (intro same_rd_vis, blast)
  next
    case (Some c)
    show ?thesis
      unfolding e_sym_tri_def Let_def Some option.case
      using True by (simp only: simp_thms not_not if_False, intro same_rd_vis) (simp only: m same_refl)
  qed
qed (simp add: e_sym_tri_def)

lemma same_sym_str:
  assumes "same_own kc u u' (Sym s)"
  shows "same (together kc u u') (sym_str kc u s) (sym_str kc u' s)"
proof -
  have a: "same (together kc u u') (active_range kc u s b) (active_range kc u' s b)" for b
    unfolding active_range_def by (intro same_bindp same_first_cond) auto
  have n: "same (together kc u u') (num_str kc u s (un_tri v) b) (num_str kc u' s (un_tri v) b)"
    if "together kc u u' (QVis (Sym s)) v" for v b
    unfolding num_str_def num_in_range_def same_user [OF assms that]
    by (intro same_bindp a) (auto split: option.splits uval.splits intro: same_num_from_defaults)
  have t: "same (together kc u u') (string_str kc u s (un_tri v)) (string_str kc u' s (un_tri v))"
    if "together kc u u' (QVis (Sym s)) v" for v
    unfolding string_str_def same_user [OF assms that]
    by (auto split: option.splits uval.splits intro!: same_intros)
  show ?thesis
    unfolding sym_str_def Let_def
    by (auto intro!: same_rd_vis same_bindp n t split: option.splits)
qed

lemma same_ebody:
  assumes "same_own kc u u' (query_item q)"
  shows "same (together kc u u') (ebody kc u q) (ebody kc u' q)"
  using assms same_e_sym_tri same_sym_str same_selection same_choice_assignable same_sym_assignable
  by (cases q) (auto simp: ebody_def attr_body_def split: sc.splits intro!: same_intros)

section \<open>What survives an invalidation\<close>

text \<open>
  The comment in \<^verbatim>\<open>_rec_invalidate\<close>: the visibility of an item is cached as a side
  effect of computing any other value of it, unless that value is a constant.
\<close>

lemma vis_cached_first:
  assumes s: "supported kc u ca" and c: "ca q = Some v" and p: "preset q = None"
    and n: "\<And>s. query_item q = Sym s \<Longrightarrow> \<not> is_nmy s"
  shows "ca (QVis (query_item q)) \<noteq> None \<or> (\<exists>w. \<forall>u'. ebody kc u' q = Ret w)"
proof -
  have i: "interp (cache_reader ca) (ebody kc u q) = Inr v" if "ca q = Some v" "preset q = None" for q v
    using s that by (simp add: supported_def)
  have r: "ca (QVis x) \<noteq> None" if "interp (cache_reader ca) (bindp (rd_vis x) f) = Inr w" for x w and f :: "tri \<Rightarrow> 'b prog"
    using that by (auto simp: interp_bindp interp_rd cache_reader_def split: option.splits)
  have t: "ca (QVis (Sym s)) \<noteq> None"
    if "ca (QTri s) = Some w" "\<not> is_nmy s" "orig_type (sym_obj kc s) \<in> BOOL_TRISTATE" for s w
    using i [OF that(1) preset_QTri [OF that(2)]] that(3)
    by (auto simp: ebody_def e_sym_tri_def Let_def dest: r)
  show ?thesis
  proof (cases q)
    case (QVis x)
    then show ?thesis using c by simp
  next
    case (QTri s)
    show ?thesis
    proof (cases "orig_type (sym_obj kc s) \<in> BOOL_TRISTATE")
      case True
      with t c n QTri show ?thesis by simp
    qed (simp add: QTri ebody_def e_sym_tri_def)
  next
    case (QStr s)
    have j: "interp (cache_reader ca) (bindp (sym_str kc u s) (\<lambda>v. Ret (VS v))) = Inr v"
      using i [OF c p] by (simp add: QStr ebody_def attr_body_def)
    show ?thesis
    proof (cases "orig_type (sym_obj kc s) \<in> BOOL_TRISTATE_UNKNOWN")
      case False
      then have "ca (QVis (Sym s)) \<noteq> None"
        using j unfolding sym_str_def Let_def
        by (cases "orig_type (sym_obj kc s)") (auto simp: BOOL_TRISTATE_UNKNOWN_def dest: r)
      then show ?thesis by (simp add: QStr)
    next
      case True
      show ?thesis
      proof (cases "orig_type (sym_obj kc s) = UNKNOWN")
        case True
        then show ?thesis by (simp add: QStr ebody_def attr_body_def sym_str_def Let_def)
      next
        case False
        with True have b: "orig_type (sym_obj kc s) \<in> BOOL_TRISTATE"
          by (auto simp: BOOL_TRISTATE_UNKNOWN_def)
        then obtain w where "ca (QTri s) = Some w"
          using j unfolding sym_str_def Let_def
          by (auto simp: interp_bindp interp_rd cache_reader_def split: option.splits)
        then show ?thesis using t b n by (simp add: QStr)
      qed
    qed
  next
    case (QSel c)
    have "ca (QVis (Cho c)) \<noteq> None"
      using i [OF c p] unfolding QSel ebody_def attr_body_def selection_def choice_tri_def Let_def
      by (auto dest: r)
    then show ?thesis by (simp add: QSel)
  next
    case (QAss x)
    show ?thesis
    proof (cases x)
      case (Sym s)
      have j: "interp (cache_reader ca) (bindp (sym_assignable kc u s) (\<lambda>v. Ret (VAss v))) = Inr v"
        using i [OF c p] by (simp add: QAss Sym ebody_def attr_body_def)
      show ?thesis
      proof (cases "orig_type (sym_obj kc s) \<in> BOOL_TRISTATE")
        case True
        then have "ca (QVis (Sym s)) \<noteq> None"
          using j unfolding sym_assignable_def Let_def by (auto dest: r)
        then show ?thesis by (simp add: QAss Sym)
      qed (simp add: QAss Sym ebody_def attr_body_def sym_assignable_def)
    next
      case (Cho c)
      have "ca (QVis (Cho c)) \<noteq> None"
        using i [OF c p] unfolding QAss Cho ebody_def attr_body_def choice_assignable_def
        by (auto dest: r)
      then show ?thesis by (simp add: QAss Cho)
    qed
  qed
qed

lemma interp_restrict:
  "reads_below R p \<Longrightarrow> interp rd p = Inr a \<Longrightarrow> (\<And>q v. R q \<Longrightarrow> rd q = Inr v \<Longrightarrow> rd' q = Inr v) \<Longrightarrow>
   interp rd' p = Inr a"
  by (induction p) (auto split: sum.splits)

text \<open>Without a prompt there is no visibility.\<close>

lemma prompt_vis_none:
  "\<forall>n \<in> set ns. nd_prompt (nodetab kc n) = None \<Longrightarrow> prompt_vis kc u ns v = Ret v"
  by (induction ns) auto

lemma promptless_vis:
  assumes "\<not> has_prompt kc s" "interp rd (visibility kc u (Sym s)) = Inr t"
  shows "t = TN"
proof -
  have "prompt_vis kc u (sc_nodes kc (Sym s)) TN = Ret TN"
    using assms(1) by (intro prompt_vis_none)
      (simp add: has_prompt_def sc_nodes_def list_ex_iff del: not_None_eq)
  then show ?thesis
    using assms(2) unfolding visibility_def
    by (auto simp: promote_vis_def interp_bindp split: option.splits if_splits sum.splits)
qed

lemma promptless_cached:
  assumes "supported kc u ca" "\<not> has_prompt kc s" "ca (QVis (Sym s)) = Some v"
  shows "v = VT TN"
proof -
  have "interp (cache_reader ca) (ebody kc u (QVis (Sym s))) = Inr v"
    using assms(1,3) by (simp add: supported_def)
  then show ?thesis
    using promptless_vis [OF assms(2)]
    by (auto simp: ebody_def attr_body_def interp_bindp split: sum.splits)
qed

text \<open>The values of an item that is not defined stay.\<close>

lemma undefined_stays:
  assumes w: "wf_deps kc" and x: "query_item q \<notin> all_items kc" and s: "supported kc u ca"
    and c: "ca q = Some v" and p: "preset q = None"
    and keep: "\<And>q'. query_item q' = query_item q \<Longrightarrow> ca' q' = ca q'"
    and pre: "\<And>q' v'. preset q' = Some v' \<Longrightarrow> ca' q' = Some v' \<and> ca q' = Some v'"
  shows "interp (cache_reader ca') (ebody kc u' q) = Inr v"
proof -
  have i: "interp (cache_reader ca) (ebody kc u q) = Inr v" if "ca q = Some v" "preset q = None" for q v
    using s that by (simp add: supported_def)
  show ?thesis
  proof (cases "query_item q")
    case (Sym t)
    then have u: "undefined_sym kc t" using w x unfolding wf_deps_def by metis
    then have pv: "visibility kc u'' (Sym t) = Ret TN" for u''
      by (simp add: visibility_def sc_nodes_def undefined_sym_def promote_vis_def)
    have vt: "w = VT TN" if "ca (QVis (Sym t)) = Some w" for w
      using i [OF that] by (simp add: ebody_def attr_body_def pv)
    have b: "orig_type (sym_obj kc t) = UNKNOWN \<or> orig_type (sym_obj kc t) = TRISTATE \<and> is_nmy t"
      using u is_nmy_type by (auto simp: undefined_sym_def)
    have k: "interp (cache_reader ca) (ebody kc u q) = Inr v" by (rule i [OF c p])
    from Sym consider "q = QVis (Sym t)" | "q = QTri t" | "q = QStr t" | "q = QAss (Sym t)"
      unfolding query_item_Sym by blast
    then show ?thesis
    proof cases
      case 1
      with k show ?thesis by (simp add: ebody_def attr_body_def pv)
    next
      case 2
      then have "\<not> is_nmy t" using p by (auto simp: is_nmy_def)
      with 2 k b show ?thesis by (simp add: ebody_def e_sym_tri_def)
    next
      case 3
      show ?thesis
      proof (cases "is_nmy t")
        case True
        then obtain v1 where "preset (QTri t) = Some v1" by (auto simp: is_nmy_def)
        with pre have "ca' (QTri t) = Some v1" "ca (QTri t) = Some v1" by auto
        with k 3 b show ?thesis
          by (auto simp: ebody_def attr_body_def sym_str_def Let_def interp_bindp interp_rd cache_reader_def)
      qed (use k 3 b in \<open>auto simp: ebody_def attr_body_def sym_str_def Let_def\<close>)
    next
      case 4
      have "ca' (QVis (Sym t)) = ca (QVis (Sym t))" using keep 4 by simp
      with k 4 b vt show ?thesis
        by (auto simp: ebody_def attr_body_def sym_assignable_def Let_def interp_bindp interp_rd
            cache_reader_def split: option.splits)
    qed
  next
    case (Cho d)
    then have u: "undefined_choice kc d" using w x unfolding wf_deps_def by metis
    then have pv: "visibility kc u'' (Cho d) = Ret TN" for u''
      by (simp add: visibility_def sc_nodes_def undefined_choice_def promote_vis_def Let_def)
    have vt: "w = VT TN" if "ca (QVis (Cho d)) = Some w" for w
      using i [OF that] by (simp add: ebody_def attr_body_def pv)
    have k: "interp (cache_reader ca) (ebody kc u q) = Inr v" by (rule i [OF c p])
    have e: "ca' (QVis (Cho d)) = ca (QVis (Cho d))" using keep Cho by simp
    from Cho consider "q = QVis (Cho d)" | "q = QSel d" | "q = QAss (Cho d)"
      unfolding query_item_Cho by blast
    then show ?thesis
    proof cases
      case 1
      with k show ?thesis by (simp add: ebody_def attr_body_def pv)
    qed (use k e vt in \<open>auto simp: ebody_def attr_body_def selection_def choice_tri_def
        choice_assignable_def Let_def interp_bindp interp_rd cache_reader_def split: option.splits\<close>)
  qed
qed

section \<open>The main lemma\<close>

text \<open>
  After clearing a closed set of items, the remaining values are supported under any user
  values that differ from the old ones only at cleared items (or at items whose values
  are not cached or cannot be influenced by the user).
\<close>

lemma supported_after:
  assumes w: "wf_deps kc" and u: "wf_user kc u" and s: "supported kc u (cache st)"
    and Y: "Y \<subseteq> all_items kc" "\<And>z. z \<in> Y \<Longrightarrow> clear_ok kc st Y z"
    and own: "\<And>x. x \<notin> Y \<Longrightarrow> cached_vis st x \<Longrightarrow> same_own kc u u' x"
  shows "supported kc u' (cache (drop_cache Y st))"
proof -
  let ?ca = "cache st" and ?ca' = "cache (drop_cache Y st)"
  have const: "y \<notin> Y" if "constant_item y" for y
    using that Y(1) w by (cases y) (auto simp: constant_item_def wf_deps_def split: if_splits)
  have keep: "?ca' q = ?ca q" if "query_item q \<notin> Y" for q
    using that by (simp add: drop_cache_def)
  have sub: "?ca' q = Some v \<Longrightarrow> ?ca q = Some v \<and> query_item q \<notin> Y" for q v
    by (auto simp: drop_cache_def split: if_splits)
  have pre: "?ca' q = Some v \<and> ?ca q = Some v" if "preset q = Some v" for q v
  proof -
    have "constant_item (query_item q)"
      using that by (auto simp: preset_def constant_item_def split: if_splits)
    then show ?thesis using s that keep const by (simp add: supported_def)
  qed
  have tog: "together kc u u' q v" if q: "?ca' q = Some v" for q v
  proof (cases q)
    case (QVis y)
    have k: "y \<notin> Y" "cached_vis st y" using sub [OF q] QVis by (auto simp: cached_vis_def)
    show ?thesis
    proof (cases y)
      case (Sym t)
      then show ?thesis
        using promptless_cached [OF s] sub [OF q] QVis by (auto simp: together_def)
    next
      case (Cho c)
      then show ?thesis using own [OF k] QVis by (simp add: together_def same_own_def)
    qed
  qed (simp_all add: together_def)
  have "interp (cache_reader ?ca') (ebody kc u' q) = Inr v"
    if q: "?ca' q = Some v" and p: "preset q = None" for q v
  proof (cases "query_item q \<in> all_items kc")
    case False
    show ?thesis
      by (rule undefined_stays [OF w False s _ p]) (use sub [OF q] keep pre in auto)
  next
    case True
    let ?x = "query_item q"
    have xY: "?x \<notin> Y" and cq: "?ca q = Some v" using sub [OF q] by auto
    have nc: "\<not> is_nmy t" if "?x = Sym t" for t
    proof -
      have "\<not> is_constant t" using True w that unfolding wf_deps_def by metis
      then show ?thesis by (auto simp: is_nmy_def)
    qed
    consider "cached_vis st ?x" | w0 where "\<forall>u. ebody kc u q = Ret w0"
      using vis_cached_first [OF s cq p nc] by (auto simp: cached_vis_def)
    then show ?thesis
    proof cases
      case 1
      have i: "interp (cache_reader ?ca) (ebody kc u q) = Inr v"
        using s cq p by (simp add: supported_def)
      have "query_item q' \<notin> Y" if "may_read kc ?x q'" for q'
      proof
        assume y: "query_item q' \<in> Y"
        then have ok: "clear_ok kc st Y (query_item q')" by (rule Y(2))
        have "?x \<in> Y"
          using that y ok const 1 True xY by (auto simp: may_read_def clear_ok_def)
        with xY show False by blast
      qed
      then have r: "interp (cache_reader ?ca') (ebody kc u q) = Inr v"
        using interp_restrict [OF reads_ebody [OF w u] i] keep by simp
      show ?thesis
        by (rule interp_same [OF same_ebody [OF own [OF xY 1]] r]) (simp add: tog)
    next
      case 2
      have "interp (cache_reader ?ca) (ebody kc u q) = Inr v"
        using s cq p by (simp add: supported_def)
      with 2 show ?thesis by simp
    qed
  qed
  with pre show ?thesis unfolding supported_def by blast
qed

section \<open>The operations\<close>

lemma usr_rec_invalidate:
  assumes "deps_inside kc" "x \<in> all_items kc" "rec_invalidate kc n x st = Inr st'"
  shows "usr st' = usr st"
  using rec_invalidate_clears [OF assms(1,2), of n "{}" st st'] assms(3) by (auto simp: clears_def)

lemma wf_deps_inside: "wf_deps kc \<Longrightarrow> deps_inside kc"
  by (simp add: wf_deps_def)

lemma rec_invalidate_supported:
  assumes w: "wf_deps kc" and u: "wf_user kc u" and s: "supported kc u (cache st)"
    and r: "rec_invalidate kc n x st = Inr st'" and x: "x \<in> all_items kc"
    and own: "\<And>y. y \<noteq> x \<Longrightarrow> y \<notin> set (sc_dependents kc x) \<Longrightarrow> same_own kc u (usr st) y"
  shows "usr st' = usr st" "supported kc (usr st) (cache st')"
proof -
  obtain Y where Y: "clears kc st {} Y st'" "x \<in> Y"
    using rec_invalidate_clears [OF wf_deps_inside [OF w] x, of n "{}" st st'] r by auto
  then have st': "st' = drop_cache Y st" and ok: "\<And>z. z \<in> Y \<Longrightarrow> z \<in> all_items kc \<and> clear_ok kc st Y z"
    by (auto simp: clears_def)
  show "usr st' = usr st" by (simp add: st')
  have "same_own kc u (usr st) y" if "y \<notin> Y" "cached_vis st y" for y
    using that own [of y] ok [OF Y(2)] Y(2) by (auto simp: clear_ok_def)
  then show "supported kc (usr st) (cache st')"
    unfolding st' using ok by (intro supported_after [OF w u s]) auto
qed

text \<open>What a state satisfies between operations.\<close>

definition consistent :: "kconfig \<Rightarrow> kstate \<Rightarrow> bool" where
  "consistent kc st \<longleftrightarrow>
     wf_user kc (usr st) \<and> valid_user kc (usr st) \<and> supported kc (usr st) (cache st)"

lemma value_ok_valid: "value_ok ty v \<Longrightarrow> valid_uval ty v"
  by (auto simp: value_ok_def split: uval.splits)

lemma has_prompt_defined: "wf_deps kc \<Longrightarrow> has_prompt kc s \<Longrightarrow> Sym s \<in> all_items kc"
  unfolding wf_deps_def has_prompt_def undefined_sym_def
  by (metis list_ex_iff list.set(1) empty_iff)

lemma if_has_prompt_supported:
  assumes w: "wf_deps kc" and u: "wf_user kc u" and s: "supported kc u (cache st)"
    and r: "rec_invalidate_if_has_prompt kc n t st = Inr st'"
    and own: "\<And>y. y \<noteq> Sym t \<Longrightarrow> same_own kc u (usr st) y"
  shows "usr st' = usr st \<and> supported kc (usr st) (cache st')"
proof (cases "has_prompt kc t")
  case True
  then have "rec_invalidate kc n (Sym t) st = Inr st'"
    using r by (simp add: rec_invalidate_if_has_prompt_def)
  from rec_invalidate_supported [OF w u s this has_prompt_defined [OF w True] own] show ?thesis by blast
next
  case False
  have "same_own kc u (usr st) (Sym t)" using False by (simp add: same_own_def)
  then have "supported kc (usr st) (cache (drop_cache {} st))"
    using own by (intro supported_after [OF w u s]) (metis | simp)+
  moreover have "usr st' = usr st" "cache st' = cache st"
    using r False by (auto simp: rec_invalidate_if_has_prompt_def split: if_splits)
  ultimately show ?thesis by simp
qed

lemma same_own_upd [simp]:
  "y \<noteq> Sym s \<Longrightarrow> same_own kc u (u\<lparr>user_value := (user_value u)(s := v)\<rparr>) y"
  by (auto simp: same_own_def split: sc.splits)

lemma sym_set_value_consistent:
  assumes w: "wf_deps kc" and c: "consistent kc st" and r: "sym_set_value kc n s v0 st = Inr (b, st')"
  shows "consistent kc st'"
proof -
  let ?v = "if orig_type (sym_obj kc s) \<in> BOOL_TRISTATE then normalize_uval v0 else v0"
  let ?st1 = "put_was_set s (put_user s (Some ?v) st)"
  have c': "wf_user kc (usr st)" "valid_user kc (usr st)" "supported kc (usr st) (cache st)"
    using c by (auto simp: consistent_def)
  have s1: "supported kc (usr st) (cache ?st1)" using c'(3) by (simp add: put_was_set_def put_user_def)
  consider "usr st' = usr st" "cache st' = cache st"
    | "value_ok (orig_type (sym_obj kc s)) ?v" "\<not> (\<exists>c. choice (sym_obj kc s) = Some c \<and> ?v = VTri TY)"
      "rec_invalidate_if_has_prompt kc n s ?st1 = Inr st'"
    | d where "value_ok (orig_type (sym_obj kc s)) ?v" "choice (sym_obj kc s) = Some d"
      "rec_invalidate kc n (Cho d) (put_c_was_set d (put_selection d (Some s) ?st1)) = Inr st'"
    using r unfolding sym_set_value_def Let_def map_sum_def
    by (cases "choice (sym_obj kc s)")
      (auto simp: put_was_set_def split: if_splits sum.splits)
  then show ?thesis
  proof cases
    case 1
    with c show ?thesis by (simp add: consistent_def)
  next
    case 2
    have "usr st' = usr ?st1 \<and> supported kc (usr ?st1) (cache st')"
      by (rule if_has_prompt_supported [OF w c'(1) s1 2(3)]) (simp add: put_was_set_def put_user_def)
    then show ?thesis
      using c' value_ok_valid [OF 2(1)]
      by (auto simp: consistent_def put_was_set_def put_user_def wf_user_def valid_user_def)
  next
    case 3
    let ?st2 = "put_c_was_set d (put_selection d (Some s) ?st1)"
    have ch: "Cho d \<in> all_items kc" "Sym s \<in> set (sc_dependents kc (Cho d))"
      by (rule wf_choice_of [OF w 3(2)])+
    have "supported kc (usr st) (cache ?st2)"
      using s1 by (simp add: put_c_was_set_def put_selection_def)
    moreover have "same_own kc (usr st) (usr ?st2) y"
      if "y \<noteq> Cho d" "y \<notin> set (sc_dependents kc (Cho d))" for y
      using that ch(2)
      by (cases y) (auto simp: same_own_def put_c_was_set_def put_selection_def put_was_set_def put_user_def)
    ultimately have "usr st' = usr ?st2" "supported kc (usr ?st2) (cache st')"
      using rec_invalidate_supported [OF w c'(1) _ 3(3) ch(1)] by blast+
    moreover have "s \<in> set (c_syms (choicetab kc d))" using w 3(2) unfolding wf_deps_def by blast
    ultimately show ?thesis
      using c' value_ok_valid [OF 3(1)]
      by (auto simp: consistent_def put_c_was_set_def put_selection_def put_was_set_def put_user_def
          wf_user_def valid_user_def)
  qed
qed

lemma sym_unset_value_consistent:
  assumes w: "wf_deps kc" and c: "consistent kc st" and r: "sym_unset_value kc n s st = Inr st'"
  shows "consistent kc st'"
proof (cases "user_value (usr st) s = None")
  case False
  have c': "wf_user kc (usr st)" "valid_user kc (usr st)" "supported kc (usr st) (cache (put_user s None st))"
    using c by (auto simp: consistent_def put_user_def)
  have "rec_invalidate_if_has_prompt kc n s (put_user s None st) = Inr st'"
    using r False by (simp add: sym_unset_value_def)
  from if_has_prompt_supported [OF w c'(1,3) this]
  have "usr st' = usr (put_user s None st)" "supported kc (usr (put_user s None st)) (cache st')"
    by (simp_all add: put_user_def)
  then show ?thesis using c' by (auto simp: consistent_def put_user_def wf_user_def valid_user_def)
qed (use r c in \<open>simp add: sym_unset_value_def\<close>)

lemma choice_set_value_consistent:
  assumes w: "wf_deps kc" and c: "consistent kc st" and r: "choice_set_value kc n d v0 st = Inr (b, st')"
  shows "consistent kc st'"
proof -
  have c': "wf_user kc (usr st)" "valid_user kc (usr st)" "supported kc (usr st) (cache st)"
    using c by (auto simp: consistent_def)
  consider "usr st' = usr st" "cache st' = cache st"
    | t where "c_orig_type (choicetab kc d) \<noteq> UNKNOWN"
      "rec_invalidate kc n (Cho d) (put_c_was_set d (put_mode d (Some t) st)) = Inr st'"
    using r unfolding choice_set_value_def Let_def map_sum_def
    by (auto simp: put_c_was_set_def split: if_splits sum.splits uval.splits)
  then show ?thesis
  proof cases
    case 1
    with c show ?thesis by (simp add: consistent_def)
  next
    case 2
    let ?st2 = "put_c_was_set d (put_mode d (Some t) st)"
    have d: "Cho d \<in> all_items kc"
      using w 2(1) unfolding wf_deps_def undefined_choice_def Let_def by metis
    have "supported kc (usr st) (cache ?st2)"
      using c'(3) by (simp add: put_c_was_set_def put_mode_def)
    moreover have "same_own kc (usr st) (usr ?st2) y" if "y \<noteq> Cho d" for y
      using that by (cases y) (auto simp: same_own_def put_c_was_set_def put_mode_def)
    ultimately have "usr st' = usr ?st2" "supported kc (usr ?st2) (cache st')"
      using rec_invalidate_supported [OF w c'(1) _ 2(2) d] by blast+
    then show ?thesis
      using c' by (auto simp: consistent_def put_c_was_set_def put_mode_def wf_user_def valid_user_def)
  qed
qed

lemma choice_unset_value_consistent:
  assumes w: "wf_deps kc" and c: "consistent kc st" and d: "Cho d \<in> all_items kc"
    and r: "choice_unset_value kc n d st = Inr st'"
  shows "consistent kc st'"
proof (cases "c_user_value (usr st) d \<noteq> None \<or> user_selection (usr st) d \<noteq> None")
  case True
  let ?st2 = "put_selection d None (put_mode d None st)"
  have c': "wf_user kc (usr st)" "valid_user kc (usr st)" "supported kc (usr st) (cache ?st2)"
    using c by (auto simp: consistent_def put_selection_def put_mode_def)
  have r': "rec_invalidate kc n (Cho d) ?st2 = Inr st'" using r True by (simp add: choice_unset_value_def)
  have "same_own kc (usr st) (usr ?st2) y" if "y \<noteq> Cho d" for y
    using that by (cases y) (auto simp: same_own_def put_selection_def put_mode_def)
  then have "usr st' = usr ?st2" "supported kc (usr ?st2) (cache st')"
    using rec_invalidate_supported [OF w c'(1,3) r' d] by blast+
  then show ?thesis
    using c' by (auto simp: consistent_def put_selection_def put_mode_def wf_user_def valid_user_def)
qed (use r c in \<open>simp add: choice_unset_value_def\<close>)

section \<open>Operations preserve consistency\<close>

lemma try_each_invariant:
  assumes "\<And>x s s'. x \<in> set xs \<Longrightarrow> I s \<Longrightarrow> f x s = Inr s' \<Longrightarrow> I s'"
  shows "I s \<Longrightarrow> try_each f xs s = Inr s' \<Longrightarrow> I s'"
  using assms
proof (induction xs arbitrary: s)
  case (Cons x xs)
  then obtain s1 where "f x s = Inr s1" "try_each f xs s1 = Inr s'" by (auto split: sum.splits)
  with Cons show ?case by (meson list.set_intros)
qed auto

lemma consistent_flag [simp]: "consistent kc (st\<lparr>warn_assign_no_prompt := b\<rparr>) = consistent kc st"
  by (simp add: consistent_def)

lemma unique_choice_item: "c \<in> set (unique_choices kc) \<Longrightarrow> Cho c \<in> all_items kc"
  by (simp add: all_items_def)

lemma unset_values_consistent:
  assumes w: "wf_deps kc" and c: "consistent kc st" and r: "unset_values kc n st = Inr st'"
  shows "consistent kc st'"
proof -
  obtain st1 st2 where a: "try_each (sym_unset_value kc n) (unique_defined_syms kc)
      (st\<lparr>warn_assign_no_prompt := False\<rparr>) = Inr st1"
    and b: "try_each (choice_unset_value kc n) (unique_choices kc) st1 = Inr st2"
    and st': "st' = st2\<lparr>warn_assign_no_prompt := True\<rparr>"
    using r by (auto simp: unset_values_def split: sum.splits)
  have "consistent kc st1"
    using try_each_invariant [OF _ _ a, of "consistent kc"] sym_unset_value_consistent [OF w] c by auto
  then have "consistent kc st2"
    by (rule try_each_invariant [OF _ _ b, rotated])
      (erule choice_unset_value_consistent [OF w _ unique_choice_item], assumption+)
  with st' show ?thesis by simp
qed

lemma consistent_init: "consistent kc init_state"
  using supported_init
  by (simp add: consistent_def init_state_def init_user_def wf_user_def valid_user_def)

lemma ranked_user: "ranked kc init_user rk crk \<Longrightarrow> wf_user kc u \<Longrightarrow> ranked kc u rk crk"
  unfolding ranked_def choice_ranked_def wf_user_def Let_def by blast

lemma consistent_coherent:
  assumes c: "consistent kc st" and r: "ranked kc init_user rk crk" and s: "sane kc"
  shows "coherent kc (usr st) st"
proof (rule supported_coherent)
  show "supported kc (usr st) (cache st)" using c by (simp add: consistent_def)
next
  fix q v
  have "ranked kc (usr st) rk crk" "valid_user kc (usr st)"
    using c ranked_user [OF r] by (auto simp: consistent_def)
  then show "\<exists>w. attr kc (usr st) q w"
    unfolding attr_def using attr_total_any [OF _ s, of "usr st" rk crk q] by blast
qed

section \<open>Assignments return\<close>

lemma live_card: "card (live kc st - {x}) \<le> card (all_items kc)"
  by (rule card_mono) (auto simp: live_def)

lemma if_has_prompt_total:
  assumes "wf_deps kc" "card (all_items kc) < n"
  shows "\<exists>st'. rec_invalidate_if_has_prompt kc n s st = Inr st'"
proof (cases "has_prompt kc s")
  case True
  have "\<exists>st'. rec_invalidate kc n (Sym s) st = Inr st'"
    by (rule rec_invalidate_total [OF wf_deps_inside [OF assms(1)] has_prompt_defined [OF assms(1) True]])
      (rule le_less_trans [OF live_card assms(2)])
  with True show ?thesis by (simp add: rec_invalidate_if_has_prompt_def)
qed (simp add: rec_invalidate_if_has_prompt_def)

lemma valid_value_ok:
  assumes "valid_uval ty v" shows "value_ok ty v"
proof (cases v)
  case (VTri t)
  then show ?thesis using assms by (cases t) (auto simp: value_ok_def)
next
  case (VStr w)
  then show ?thesis using assms by (auto simp: value_ok_def is_base_n_def split: option.splits)
qed

lemma sym_set_value_total:
  assumes "wf_deps kc" "card (all_items kc) < n" "valid_user kc (usr st)"
  shows "\<exists>st'. sym_set_value kc n s v st =
    Inr (value_ok (orig_type (sym_obj kc s))
           (if orig_type (sym_obj kc s) \<in> BOOL_TRISTATE then normalize_uval v else v), st')"
proof -
  define V where "V = (if orig_type (sym_obj kc s) \<in> BOOL_TRISTATE then normalize_uval v else v)"
  note set_V = sym_set_value_def [of kc n s v st, unfolded Let_def, folded V_def]
  have p: "\<exists>st'. rec_invalidate_if_has_prompt kc n s st1 = Inr st'" for st1
    by (rule if_has_prompt_total [OF assms(1,2)])
  have c: "\<exists>st'. rec_invalidate kc n (Cho c) st1 = Inr st'" if "choice (sym_obj kc s) = Some c" for c st1
    by (rule rec_invalidate_total [OF wf_deps_inside [OF assms(1)] wf_choice_of(4) [OF assms(1) that]])
      (rule le_less_trans [OF live_card assms(2)])
  have "Some V = user_value (usr st) s \<Longrightarrow> value_ok (orig_type (sym_obj kc s)) V"
    using valid_user_uval [OF assms(3)] valid_value_ok by metis
  moreover have "\<exists>st'. sym_set_value kc n s v st = Inr (True, st')"
    if "value_ok (orig_type (sym_obj kc s)) V" "Some V \<noteq> user_value (usr st) s \<or> choice (sym_obj kc s) \<noteq> None"
  proof -
    let ?st1 = "put_was_set s (put_user s (Some V) st)"
    obtain st2 where st2: "rec_invalidate_if_has_prompt kc n s ?st1 = Inr st2" using p by blast
    show ?thesis
    proof (cases "choice (sym_obj kc s)")
      case None
      with that st2 show ?thesis unfolding set_V by simp
    next
      case (Some d)
      then obtain st3 where "rec_invalidate kc n (Cho d) (put_c_was_set d (put_selection d (Some s) ?st1)) = Inr st3"
        using c by blast
      with that st2 Some show ?thesis unfolding set_V by (cases "V = VTri TY") simp_all
    qed
  qed
  moreover have "\<exists>st'. sym_set_value kc n s v st = Inr (value_ok (orig_type (sym_obj kc s)) V, st')"
    if "Some V = user_value (usr st) s \<and> choice (sym_obj kc s) = None \<or> \<not> value_ok (orig_type (sym_obj kc s)) V"
    using that calculation(1) unfolding set_V by (elim disjE) (auto simp del: not_None_eq)
  ultimately show ?thesis unfolding V_def [symmetric] by metis
qed

text \<open>
  C23. Assigning a value returns: the recursion of the invalidation is no deeper than there
  are symbols and choices, even when they depend on each other in a loop. The returned
  bool says whether the form of the value fits the type of the symbol.
\<close>

theorem set_value_returns:
  assumes "wf_deps kc" "card (all_items kc) < n" "valid_user kc (usr st)"
  shows "\<exists>st'. sym_set_value kc n s v st =
    Inr (value_ok (orig_type (sym_obj kc s))
           (if orig_type (sym_obj kc s) \<in> BOOL_TRISTATE then normalize_uval v else v), st')"
  by (rule sym_set_value_total [OF assms])

end
