(* ===== verification/Build_Dep.thy ===== *)
theory Build_Dep
  imports Invalidation_Correct
begin

text \<open>
  The dependency sets of symbols and choices: \<^verbatim>\<open>_depend_on\<close>, \<^verbatim>\<open>Kconfig._build_dep\<close> and
  \<^verbatim>\<open>Kconfig._add_choice_deps\<close>; and that what they build is what the invalidation of
  cached values needs. The sets of the source are lists without duplicates here.
\<close>

section \<open>Building the dependency sets\<close>

definition add_to :: "sc \<Rightarrow> sc list \<Rightarrow> sc list" where
  "add_to x xs = (if x \<in> set xs then xs else xs @ [x])"

text \<open>\<^verbatim>\<open>y._dependents.add(x)\<close>.\<close>

fun add_dependent :: "sc \<Rightarrow> sc \<Rightarrow> kconfig \<Rightarrow> kconfig" where
  "add_dependent x (Sym s) kc =
     kc\<lparr>symtab := (symtab kc)(s \<mapsto>
          (sym_obj kc s)\<lparr>dependents := add_to x (dependents (sym_obj kc s))\<rparr>)\<rparr>"
| "add_dependent x (Cho c) kc =
     kc\<lparr>choicetab := (choicetab kc)(c :=
          (choicetab kc c)\<lparr>c_dependents := add_to x (c_dependents (choicetab kc c))\<rparr>)\<rparr>"

primrec depend_on :: "sc \<Rightarrow> expr \<Rightarrow> kconfig \<Rightarrow> kconfig" where
  "depend_on x (Leaf y) kc = (if constant_item y then kc else add_dependent x y kc)"
| "depend_on x (AND a b) kc = depend_on x b (depend_on x a kc)"
| "depend_on x (OR a b) kc = depend_on x b (depend_on x a kc)"
| "depend_on x (NOT a) kc = depend_on x a kc"
| "depend_on x (REL r a b) kc =
     (let kc1 = (if is_constant a then kc else add_dependent x (Sym a) kc)
      in if is_constant b then kc1 else add_dependent x (Sym b) kc1)"

text \<open>The expressions \<^verbatim>\<open>_build_dep\<close> walks through for a symbol and for a choice, in order.\<close>

definition prompt_conds :: "kconfig \<Rightarrow> nat list \<Rightarrow> expr list" where
  "prompt_conds kc ns =
     concat (map (\<lambda>n. case nd_prompt (nodetab kc n) of None \<Rightarrow> [] | Some p \<Rightarrow> [snd p]) ns)"

definition sym_exprs :: "kconfig \<Rightarrow> sref \<Rightarrow> expr list" where
  "sym_exprs kc s =
     (let o_s = sym_obj kc s
      in prompt_conds kc (nodes o_s) @
         concat (map (\<lambda>(value, cond). [value, cond]) (defaults o_s)) @
         [rev_dep o_s, weak_rev_dep o_s] @
         concat (map (\<lambda>(low, high, cond). [Leaf (Sym low), Leaf (Sym high), cond]) (ranges o_s)) @
         [direct_dep o_s])"

definition choice_exprs :: "kconfig \<Rightarrow> nat \<Rightarrow> expr list" where
  "choice_exprs kc c =
     prompt_conds kc (c_nodes (choicetab kc c)) @ map snd (c_defaults (choicetab kc c))"

definition build_dep :: "kconfig \<Rightarrow> kconfig" where
  "build_dep kc =
     (let kc1 = fold (\<lambda>s kc. fold (depend_on (Sym s)) (sym_exprs kc s) kc) (unique_defined_syms kc) kc
      in fold (\<lambda>c kc. fold (depend_on (Cho c)) (choice_exprs kc c) kc) (unique_choices kc1) kc1)"

definition add_choice_deps :: "kconfig \<Rightarrow> kconfig" where
  "add_choice_deps kc =
     fold (\<lambda>c kc. fold (\<lambda>s. add_dependent (Cho c) (Sym s)) (c_syms (choicetab kc c)) kc)
       (unique_choices kc) kc"

section \<open>They only add dependents\<close>

definition more_deps :: "kconfig \<Rightarrow> sc list \<Rightarrow> sc list \<Rightarrow> bool" where
  "more_deps kc d d' \<longleftrightarrow> set d \<subseteq> set d' \<and> set d' \<subseteq> set d \<union> all_items kc"

definition extends :: "kconfig \<Rightarrow> kconfig \<Rightarrow> bool" where
  "extends kc kc' \<longleftrightarrow>
     (\<forall>s. \<exists>d. sym_obj kc' s = (sym_obj kc s)\<lparr>dependents := d\<rparr> \<and> more_deps kc (dependents (sym_obj kc s)) d) \<and>
     (\<forall>c. \<exists>d. choicetab kc' c = (choicetab kc c)\<lparr>c_dependents := d\<rparr> \<and>
        more_deps kc (c_dependents (choicetab kc c)) d) \<and>
     nodetab kc' = nodetab kc \<and> unique_defined_syms kc' = unique_defined_syms kc \<and>
     unique_choices kc' = unique_choices kc"

lemma extends_refl [simp]: "extends kc kc"
proof -
  have "\<exists>d. sym_obj kc s = (sym_obj kc s)\<lparr>dependents := d\<rparr> \<and> more_deps kc (dependents (sym_obj kc s)) d" for s
    by (rule exI [of _ "dependents (sym_obj kc s)"]) (simp add: more_deps_def)
  moreover have "\<exists>d. choicetab kc c = (choicetab kc c)\<lparr>c_dependents := d\<rparr> \<and>
      more_deps kc (c_dependents (choicetab kc c)) d" for c
    by (rule exI [of _ "c_dependents (choicetab kc c)"]) (simp add: more_deps_def)
  ultimately show ?thesis by (simp add: extends_def)
qed

lemma extends_sym:
  assumes "extends kc kc'"
  shows "sym_obj kc' s = (sym_obj kc s)\<lparr>dependents := dependents (sym_obj kc' s)\<rparr>"
    "more_deps kc (dependents (sym_obj kc s)) (dependents (sym_obj kc' s))"
proof -
  obtain d where "sym_obj kc' s = (sym_obj kc s)\<lparr>dependents := d\<rparr>" "more_deps kc (dependents (sym_obj kc s)) d"
    using assms unfolding extends_def by meson
  then show "sym_obj kc' s = (sym_obj kc s)\<lparr>dependents := dependents (sym_obj kc' s)\<rparr>"
    "more_deps kc (dependents (sym_obj kc s)) (dependents (sym_obj kc' s))" by simp_all
qed

lemma extends_choice:
  assumes "extends kc kc'"
  shows "choicetab kc' c = (choicetab kc c)\<lparr>c_dependents := c_dependents (choicetab kc' c)\<rparr>"
    "more_deps kc (c_dependents (choicetab kc c)) (c_dependents (choicetab kc' c))"
proof -
  obtain d where "choicetab kc' c = (choicetab kc c)\<lparr>c_dependents := d\<rparr>"
    "more_deps kc (c_dependents (choicetab kc c)) d"
    using assms unfolding extends_def by meson
  then show "choicetab kc' c = (choicetab kc c)\<lparr>c_dependents := c_dependents (choicetab kc' c)\<rparr>"
    "more_deps kc (c_dependents (choicetab kc c)) (c_dependents (choicetab kc' c))" by simp_all
qed

text \<open>The fields the source reads elsewhere are unchanged.\<close>

lemma extends_fields:
  assumes "extends kc kc'"
  shows "all_items kc' = all_items kc" "nodetab kc' = nodetab kc"
    "unique_defined_syms kc' = unique_defined_syms kc" "unique_choices kc' = unique_choices kc"
    "orig_type (sym_obj kc' s) = orig_type (sym_obj kc s)" "nodes (sym_obj kc' s) = nodes (sym_obj kc s)"
    "choice (sym_obj kc' s) = choice (sym_obj kc s)" "defaults (sym_obj kc' s) = defaults (sym_obj kc s)"
    "ranges (sym_obj kc' s) = ranges (sym_obj kc s)" "direct_dep (sym_obj kc' s) = direct_dep (sym_obj kc s)"
    "rev_dep (sym_obj kc' s) = rev_dep (sym_obj kc s)"
    "weak_rev_dep (sym_obj kc' s) = weak_rev_dep (sym_obj kc s)"
    "c_nodes (choicetab kc' c) = c_nodes (choicetab kc c)" "c_syms (choicetab kc' c) = c_syms (choicetab kc c)"
    "c_defaults (choicetab kc' c) = c_defaults (choicetab kc c)"
    "c_orig_type (choicetab kc' c) = c_orig_type (choicetab kc c)"
proof -
  show "nodetab kc' = nodetab kc" "unique_defined_syms kc' = unique_defined_syms kc"
    "unique_choices kc' = unique_choices kc"
    using assms by (simp_all add: extends_def)
  then show "all_items kc' = all_items kc" by (simp add: all_items_def)
  show "orig_type (sym_obj kc' s) = orig_type (sym_obj kc s)" "nodes (sym_obj kc' s) = nodes (sym_obj kc s)"
    "choice (sym_obj kc' s) = choice (sym_obj kc s)" "defaults (sym_obj kc' s) = defaults (sym_obj kc s)"
    "ranges (sym_obj kc' s) = ranges (sym_obj kc s)" "direct_dep (sym_obj kc' s) = direct_dep (sym_obj kc s)"
    "rev_dep (sym_obj kc' s) = rev_dep (sym_obj kc s)"
    "weak_rev_dep (sym_obj kc' s) = weak_rev_dep (sym_obj kc s)"
    by (subst extends_sym(1) [OF assms]; simp)+
  show "c_nodes (choicetab kc' c) = c_nodes (choicetab kc c)" "c_syms (choicetab kc' c) = c_syms (choicetab kc c)"
    "c_defaults (choicetab kc' c) = c_defaults (choicetab kc c)"
    "c_orig_type (choicetab kc' c) = c_orig_type (choicetab kc c)"
    by (subst extends_choice(1) [OF assms]; simp)+
qed

lemma extends_deps:
  assumes "extends kc kc'"
  shows "set (sc_dependents kc x) \<subseteq> set (sc_dependents kc' x)"
    "set (sc_dependents kc' x) \<subseteq> set (sc_dependents kc x) \<union> all_items kc"
  using extends_sym(2) [OF assms] extends_choice(2) [OF assms]
  by (cases x; auto simp: sc_dependents_def more_deps_def)+

lemma extends_trans:
  assumes "extends a b" "extends b c" shows "extends a c"
proof -
  have i: "all_items b = all_items a" by (rule extends_fields(1) [OF assms(1)])
  have "\<exists>d. sym_obj c s = (sym_obj a s)\<lparr>dependents := d\<rparr> \<and> more_deps a (dependents (sym_obj a s)) d" for s
  proof (rule exI, rule conjI)
    show "sym_obj c s = (sym_obj a s)\<lparr>dependents := dependents (sym_obj c s)\<rparr>"
      by (subst extends_sym(1) [OF assms(2)], subst extends_sym(1) [OF assms(1)]) simp
    show "more_deps a (dependents (sym_obj a s)) (dependents (sym_obj c s))"
      using extends_sym(2) [OF assms(1), of s] extends_sym(2) [OF assms(2), of s] i
      by (auto simp: more_deps_def)
  qed
  moreover have "\<exists>d. choicetab c x = (choicetab a x)\<lparr>c_dependents := d\<rparr> \<and>
      more_deps a (c_dependents (choicetab a x)) d" for x
  proof (rule exI, rule conjI)
    show "choicetab c x = (choicetab a x)\<lparr>c_dependents := c_dependents (choicetab c x)\<rparr>"
      by (subst extends_choice(1) [OF assms(2)], subst extends_choice(1) [OF assms(1)]) simp
    show "more_deps a (c_dependents (choicetab a x)) (c_dependents (choicetab c x))"
      using extends_choice(2) [OF assms(1), of x] extends_choice(2) [OF assms(2), of x] i
      by (auto simp: more_deps_def)
  qed
  ultimately show ?thesis using assms by (simp add: extends_def)
qed

lemma tracked_extends: "extends kc kc' \<Longrightarrow> tracked kc x e \<Longrightarrow> tracked kc' x e"
  unfolding tracked_def using extends_deps(1) by blast

lemma set_add_to [simp]: "set (add_to x xs) = insert x (set xs)"
  by (auto simp: add_to_def)

lemma add_dependent_extends:
  assumes "x \<in> all_items kc" "\<And>s. y = Sym s \<Longrightarrow> \<not> is_nmy s"
  shows "extends kc (add_dependent x y kc) \<and> x \<in> set (sc_dependents (add_dependent x y kc) y)"
proof (cases y)
  case (Sym s)
  let ?kc' = "add_dependent x (Sym s) kc"
  have o: "sym_obj ?kc' t = (sym_obj kc t)\<lparr>dependents :=
      (if t = s then add_to x (dependents (sym_obj kc s)) else dependents (sym_obj kc t))\<rparr>" for t
    using assms(2) [OF Sym] by (simp add: sym_obj_def)
  have "extends kc ?kc'"
    unfolding extends_def
  proof (intro conjI allI)
    fix t show "\<exists>d. sym_obj ?kc' t = (sym_obj kc t)\<lparr>dependents := d\<rparr> \<and>
        more_deps kc (dependents (sym_obj kc t)) d"
      by (rule exI, rule conjI, rule o) (use assms(1) in \<open>auto simp: more_deps_def\<close>)
  next
    fix c show "\<exists>d. choicetab ?kc' c = (choicetab kc c)\<lparr>c_dependents := d\<rparr> \<and>
        more_deps kc (c_dependents (choicetab kc c)) d"
      by (rule exI [of _ "c_dependents (choicetab kc c)"]) (simp add: more_deps_def)
  qed simp_all
  then show ?thesis using o [of s] by (simp add: Sym sc_dependents_def)
next
  case (Cho c)
  let ?kc' = "add_dependent x (Cho c) kc"
  have o: "choicetab ?kc' d = (choicetab kc d)\<lparr>c_dependents :=
      (if d = c then add_to x (c_dependents (choicetab kc c)) else c_dependents (choicetab kc d))\<rparr>" for d
    by simp
  have "extends kc ?kc'"
    unfolding extends_def
  proof (intro conjI allI)
    fix d show "\<exists>ds. choicetab ?kc' d = (choicetab kc d)\<lparr>c_dependents := ds\<rparr> \<and>
        more_deps kc (c_dependents (choicetab kc d)) ds"
      by (rule exI, rule conjI, rule o) (use assms(1) in \<open>auto simp: more_deps_def\<close>)
  next
    fix t show "\<exists>ds. sym_obj ?kc' t = (sym_obj kc t)\<lparr>dependents := ds\<rparr> \<and>
        more_deps kc (dependents (sym_obj kc t)) ds"
      by (rule exI [of _ "dependents (sym_obj kc t)"]) (simp add: more_deps_def sym_obj_def)
  qed simp_all
  then show ?thesis by (simp add: Cho sc_dependents_def)
qed

declare add_dependent.simps [simp del]

lemma not_constant_not_nmy: "\<not> is_constant s \<Longrightarrow> \<not> is_nmy s"
  by (auto simp: is_nmy_def)

lemma depend_on_extends:
  "x \<in> all_items kc \<Longrightarrow> extends kc (depend_on x e kc) \<and> tracked (depend_on x e kc) x e"
proof (induction e arbitrary: kc)
  case (Leaf y)
  show ?case
  proof (cases "constant_item y")
    case False
    then have "\<not> is_nmy s" if "y = Sym s" for s
      using that not_constant_not_nmy by (simp add: constant_item_def)
    from add_dependent_extends [OF Leaf this] show ?thesis using False by (simp add: tracked_def)
  qed (simp add: tracked_def)
next
  case (REL r a b)
  define kc1 where "kc1 = (if is_constant a then kc else add_dependent x (Sym a) kc)"
  define kc2 where "kc2 = (if is_constant b then kc1 else add_dependent x (Sym b) kc1)"
  have 1: "extends kc kc1" "tracked kc1 x (Leaf (Sym a))"
    using add_dependent_extends [OF REL, of "Sym a"] not_constant_not_nmy
    by (auto simp: kc1_def tracked_def constant_item_def)
  have x: "x \<in> all_items kc1" using REL extends_fields(1) [OF 1(1)] by simp
  have 2: "extends kc1 kc2" "tracked kc2 x (Leaf (Sym b))"
    using add_dependent_extends [OF x, of "Sym b"] not_constant_not_nmy
    by (auto simp: kc2_def tracked_def constant_item_def)
  have "depend_on x (REL r a b) kc = kc2" by (simp add: kc1_def kc2_def Let_def)
  then show ?case
    using extends_trans [OF 1(1) 2(1)] 2(2) tracked_extends [OF 2(1) 1(2)]
    by (auto simp: tracked_def)
next
  case (AND a b)
  have 1: "extends kc (depend_on x a kc)" "tracked (depend_on x a kc) x a" using AND by auto
  then have "x \<in> all_items (depend_on x a kc)" using AND.prems extends_fields(1) by blast
  with AND.IH(2) have 2: "extends (depend_on x a kc) (depend_on x (AND a b) kc)"
    "tracked (depend_on x (AND a b) kc) x b" by auto
  with extends_trans [OF 1(1) 2(1)] tracked_extends [OF 2(1) 1(2)] show ?case by (auto simp: tracked_def)
next
  case (OR a b)
  have 1: "extends kc (depend_on x a kc)" "tracked (depend_on x a kc) x a" using OR by auto
  then have "x \<in> all_items (depend_on x a kc)" using OR.prems extends_fields(1) by blast
  with OR.IH(2) have 2: "extends (depend_on x a kc) (depend_on x (OR a b) kc)"
    "tracked (depend_on x (OR a b) kc) x b" by auto
  with extends_trans [OF 1(1) 2(1)] tracked_extends [OF 2(1) 1(2)] show ?case by (auto simp: tracked_def)
next
  case (NOT a)
  then show ?case by (auto simp: tracked_def)
qed

text \<open>Folds of steps that extend, establish a monotone fact each.\<close>

lemma fold_extends:
  assumes "\<And>a k. a \<in> set xs \<Longrightarrow> extends kc k \<Longrightarrow> extends k (f a k) \<and> P a (f a k)"
    and "\<And>a k k'. P a k \<Longrightarrow> extends k k' \<Longrightarrow> P a k'"
  shows "extends kc k \<Longrightarrow> extends kc (fold f xs k) \<and> extends k (fold f xs k) \<and> (\<forall>a \<in> set xs. P a (fold f xs k))"
  using assms(1)
proof (induction xs arbitrary: k)
  case (Cons a xs)
  have a: "extends k (f a k)" "P a (f a k)" using Cons.prems by auto
  have e: "extends kc (f a k)" by (rule extends_trans [OF Cons.prems(1) a(1)])
  have IH: "extends kc (fold f xs (f a k))" "extends (f a k) (fold f xs (f a k))"
    "\<forall>a' \<in> set xs. P a' (fold f xs (f a k))"
    using Cons.IH [OF e] Cons.prems(2) by auto
  then show ?case using assms(2) [OF a(2) IH(2)] extends_trans [OF a(1) IH(2)] by simp
qed simp

lemma fold_depend_on:
  assumes "x \<in> all_items kc"
  shows "extends kc (fold (depend_on x) es kc) \<and> (\<forall>e \<in> set es. tracked (fold (depend_on x) es kc) x e)"
proof -
  have "extends kc k \<Longrightarrow> extends k (depend_on x e k) \<and> tracked (depend_on x e k) x e" for e k
    using depend_on_extends [of x k e] extends_fields(1) [of kc k] assms by simp
  from fold_extends [of es kc "depend_on x" "\<lambda>e k. tracked k x e", OF this tracked_extends]
  show ?thesis by auto
qed

lemma prompt_conds_mem:
  assumes "n \<in> set ns" "nd_prompt (nodetab kc n) = Some p"
  shows "snd p \<in> set (prompt_conds kc ns)"
  unfolding prompt_conds_def set_concat set_map
  by (rule UN_I [OF imageI [OF assms(1)]]) (simp add: assms(2))

lemma sym_exprs_sub:
  "set (prompt_conds kc (nodes (sym_obj kc s))) \<subseteq> set (sym_exprs kc s)"
  "{rev_dep (sym_obj kc s), weak_rev_dep (sym_obj kc s), direct_dep (sym_obj kc s)} \<subseteq> set (sym_exprs kc s)"
  "(\<Union>(v, c) \<in> set (defaults (sym_obj kc s)). {v, c}) \<subseteq> set (sym_exprs kc s)"
  "(\<Union>(lo, hi, c) \<in> set (ranges (sym_obj kc s)). {Leaf (Sym lo), Leaf (Sym hi), c}) \<subseteq> set (sym_exprs kc s)"
  by (auto simp: sym_exprs_def Let_def)

lemma sym_exprs_mem:
  "n \<in> set (nodes (sym_obj kc s)) \<Longrightarrow> nd_prompt (nodetab kc n) = Some p \<Longrightarrow> snd p \<in> set (sym_exprs kc s)"
  "(v, c) \<in> set (defaults (sym_obj kc s)) \<Longrightarrow> v \<in> set (sym_exprs kc s) \<and> c \<in> set (sym_exprs kc s)"
  "(lo, hi, c) \<in> set (ranges (sym_obj kc s)) \<Longrightarrow>
     {Leaf (Sym lo), Leaf (Sym hi), c} \<subseteq> set (sym_exprs kc s)"
  using prompt_conds_mem [of n "nodes (sym_obj kc s)" kc p] sym_exprs_sub [of kc s] by blast+

lemma choice_exprs_mem:
  "n \<in> set (c_nodes (choicetab kc c)) \<Longrightarrow> nd_prompt (nodetab kc n) = Some p \<Longrightarrow> snd p \<in> set (choice_exprs kc c)"
  "d \<in> set (c_defaults (choicetab kc c)) \<Longrightarrow> snd d \<in> set (choice_exprs kc c)"
  using prompt_conds_mem [of n "c_nodes (choicetab kc c)" kc p] by (auto simp: choice_exprs_def)

lemma sym_exprs_extends: "extends kc k \<Longrightarrow> sym_exprs k s = sym_exprs kc s"
  using extends_fields [of kc k] by (simp add: sym_exprs_def prompt_conds_def Let_def)

lemma choice_exprs_extends: "extends kc k \<Longrightarrow> choice_exprs k c = choice_exprs kc c"
  using extends_fields [of kc k] by (simp add: choice_exprs_def prompt_conds_def)

lemma build_dep_extends:
  "extends kc (build_dep kc) \<and>
   (\<forall>s \<in> set (unique_defined_syms kc). \<forall>e \<in> set (sym_exprs kc s). tracked (build_dep kc) (Sym s) e) \<and>
   (\<forall>c \<in> set (unique_choices kc). \<forall>e \<in> set (choice_exprs kc c). tracked (build_dep kc) (Cho c) e)"
proof -
  let ?f = "\<lambda>s k. fold (depend_on (Sym s)) (sym_exprs k s) k"
  let ?g = "\<lambda>c k. fold (depend_on (Cho c)) (choice_exprs k c) k"
  let ?P = "\<lambda>s k. \<forall>e \<in> set (sym_exprs kc s). tracked k (Sym s) e"
  let ?Q = "\<lambda>c k. \<forall>e \<in> set (choice_exprs kc c). tracked k (Cho c) e"
  define kc1 where "kc1 = fold ?f (unique_defined_syms kc) kc"
  have "extends kc k \<Longrightarrow> extends k (?f s k) \<and> ?P s (?f s k)"
    if "s \<in> set (unique_defined_syms kc)" for s k
    using that fold_depend_on [of "Sym s" k "sym_exprs k s"] extends_fields(1) [of kc k]
      sym_exprs_extends [of kc k s]
    by (auto simp: all_items_def)
  from fold_extends [of "unique_defined_syms kc" kc ?f ?P, OF this]
  have 1: "extends kc kc1" "\<forall>s \<in> set (unique_defined_syms kc). ?P s kc1"
    using tracked_extends by (auto simp: kc1_def)
  have g: "extends k (?g c k) \<and> ?Q c (?g c k)" if "c \<in> set (unique_choices kc1)" "extends kc k" for c k
  proof -
    have "Cho c \<in> all_items k"
      using that extends_fields(1,4) [OF that(2)] extends_fields(4) [OF 1(1)] by (simp add: all_items_def)
    from fold_depend_on [OF this, of "choice_exprs k c"] choice_exprs_extends [OF that(2)]
    show ?thesis by simp
  qed
  have b: "build_dep kc = fold ?g (unique_choices kc1) kc1"
    by (simp add: build_dep_def kc1_def Let_def)
  from fold_extends [of "unique_choices kc1" kc ?g ?Q, OF g _ 1(1)]
  have "extends kc (build_dep kc)" "extends kc1 (build_dep kc)"
    "\<forall>c \<in> set (unique_choices kc1). ?Q c (build_dep kc)"
    using tracked_extends unfolding b by auto
  then show ?thesis using 1 tracked_extends extends_fields(4) [OF 1(1)] by metis
qed

lemma add_choice_deps_extends:
  assumes n: "\<forall>c \<in> set (unique_choices kc). \<forall>s \<in> set (c_syms (choicetab kc c)). \<not> is_nmy s"
  shows "extends kc (add_choice_deps kc) \<and>
   (\<forall>c \<in> set (unique_choices kc). \<forall>s \<in> set (c_syms (choicetab kc c)).
      Cho c \<in> set (sc_dependents (add_choice_deps kc) (Sym s)))"
proof -
  let ?h = "\<lambda>c k. fold (\<lambda>s. add_dependent (Cho c) (Sym s)) (c_syms (choicetab k c)) k"
  let ?P = "\<lambda>c k. \<forall>s \<in> set (c_syms (choicetab kc c)). Cho c \<in> set (sc_dependents k (Sym s))"
  have "extends k (?h c k) \<and> ?P c (?h c k)" if c: "c \<in> set (unique_choices kc)" and e: "extends kc k" for c k
  proof -
    have "extends k' (add_dependent (Cho c) (Sym s) k') \<and>
        Cho c \<in> set (sc_dependents (add_dependent (Cho c) (Sym s) k') (Sym s))"
      if "s \<in> set (c_syms (choicetab kc c))" "extends k k'" for s k'
    proof (rule add_dependent_extends)
      show "Cho c \<in> all_items k'"
        using c extends_fields(1) [OF e] extends_fields(1) [OF that(2)] by (simp add: all_items_def)
      show "\<And>t. Sym s = Sym t \<Longrightarrow> \<not> is_nmy t" using n c that(1) by blast
    qed
    from fold_extends [of "c_syms (choicetab kc c)" k "\<lambda>s. add_dependent (Cho c) (Sym s)"
        "\<lambda>s k. Cho c \<in> set (sc_dependents k (Sym s))", OF this _ extends_refl]
    show ?thesis unfolding extends_fields(14) [OF e] using extends_deps(1) by blast
  qed
  from fold_extends [of "unique_choices kc" kc ?h ?P, OF this _ extends_refl] show ?thesis
    using extends_deps(1) unfolding add_choice_deps_def by blast
qed

section \<open>They are what invalidation needs\<close>

text \<open>
  The configuration after parsing and finalisation, before the dependencies are built: no
  dependents yet; no constant is defined; what is not defined is empty; a choice has its
  default selections among its symbols (otherwise \<^verbatim>\<open>_check_choice_sanity\<close> warns); and the
  dependencies of a choice symbol mention its choice.
\<close>

definition before_deps :: "kconfig \<Rightarrow> bool" where
  "before_deps kc \<longleftrightarrow>
     (\<forall>x. sc_dependents kc x = []) \<and>
     (\<forall>s. if s \<in> set (unique_defined_syms kc) then \<not> is_constant s else undefined_sym kc s) \<and>
     (\<forall>c. if c \<in> set (unique_choices kc)
          then (\<forall>d \<in> set (c_defaults (choicetab kc c)). \<forall>s. fst d = Leaf (Sym s) \<longrightarrow>
                  s \<in> set (c_syms (choicetab kc c))) \<and>
               (\<forall>s \<in> set (c_syms (choicetab kc c)). \<not> is_constant s)
          else undefined_choice kc c) \<and>
     (\<forall>s c. choice (sym_obj kc s) = Some c \<longrightarrow>
        c \<in> set (unique_choices kc) \<and> s \<in> set (c_syms (choicetab kc c)) \<and>
        Cho c \<in> expr_items (direct_dep (sym_obj kc s)))"

lemma build_dep_wf:
  assumes "before_deps kc"
  shows "wf_deps (add_choice_deps (build_dep kc))"
proof -
  let ?b = "build_dep kc" and ?k = "add_choice_deps (build_dep kc)"
  note b = build_dep_extends [of kc]
  have eb: "extends kc ?b" using b by blast
  have "\<forall>c \<in> set (unique_choices ?b). \<forall>s \<in> set (c_syms (choicetab ?b c)). \<not> is_nmy s"
    using assms not_constant_not_nmy extends_fields(4,14) [OF eb] unfolding before_deps_def by metis
  note a = add_choice_deps_extends [OF this]
  have ek: "extends kc ?k" using extends_trans [OF eb] a by blast
  note f = extends_fields [OF ek]
  have tr: "tracked ?k x e" if "tracked ?b x e" for x e using tracked_extends a that by blast
  have "sym_tracked ?k s" if s: "s \<in> set (unique_defined_syms kc)" for s
  proof -
    have t: "\<forall>e \<in> set (sym_exprs kc s). tracked ?k (Sym s) e" using b s tr by blast
    then have d: "tracked ?k (Sym s) (direct_dep (sym_obj kc s))"
      using sym_exprs_sub(2) [of kc s] by blast
    have "tracked ?k (Sym s) (Leaf (Cho c))" if "choice (sym_obj kc s) = Some c" for c
    proof -
      have "Cho c \<in> expr_items (direct_dep (sym_obj kc s))"
        using assms that unfolding before_deps_def by blast
      with d show ?thesis unfolding tracked_def by simp
    qed
    then show ?thesis
      using t sym_exprs_mem(1) [of _ kc s] sym_exprs_mem(2) [of _ _ kc s] sym_exprs_mem(3) [of _ _ _ kc s] sym_exprs_sub(2) [of kc s]
      unfolding sym_tracked_def prompts_tracked_def sc_nodes_def Let_def f
      by (auto split: option.splits)
  qed
  moreover have "choice_tracked ?k c" if c: "c \<in> set (unique_choices kc)" for c
  proof -
    have t: "\<forall>e \<in> set (choice_exprs kc c). tracked ?k (Cho c) e" using b c tr by blast
    moreover have "\<forall>s \<in> set (c_syms (choicetab kc c)). tracked ?k (Cho c) (Leaf (Sym s))"
      using a c extends_fields(4,14) [OF eb] by (auto simp: tracked_def)
    ultimately show ?thesis
      using assms c choice_exprs_mem(1) [of _ kc c] choice_exprs_mem(2) [of _ kc c]
      unfolding choice_tracked_def prompts_tracked_def sc_nodes_def Let_def f before_deps_def
      by (auto split: option.splits)
  qed
  moreover have "deps_inside ?k"
    using assms extends_deps(2) [OF ek] by (auto simp: deps_inside_def f(1) before_deps_def)
  moreover have "undefined_sym kc s \<Longrightarrow> undefined_sym ?k s" "undefined_choice kc c \<Longrightarrow> undefined_choice ?k c" for s c
    by (simp_all add: undefined_sym_def undefined_choice_def f Let_def)
  ultimately show ?thesis
    using assms unfolding wf_deps_def before_deps_def
    by (auto simp: f all_items_def split: if_splits)
qed

text \<open>
  C18. The dependency sets that \<^verbatim>\<open>_build_dep\<close> and \<^verbatim>\<open>_add_choice_deps\<close> build register every
  item with every item its value can depend on, \<^verbatim>\<open>MODULES\<close> apart: what the invalidation of cached
  values relies on. This holds for configurations (\<open>before_deps\<close>) in which nothing has dependents
  yet, the default selections of each choice are among its symbols, and the direct dependency of
  each choice symbol mentions its choice: the last is what the code takes for granted and does
  not itself ensure.
\<close>

theorem build_dep_complete:
  assumes "before_deps kc"
  shows "wf_deps (add_choice_deps (build_dep kc))"
  by (rule build_dep_wf [OF assms])

end
