(* ===== verification/Dot_Lines.thy ===== *)
theory Dot_Lines
  imports Expr
begin

text \<open>
  The lines of a \<^verbatim>\<open>.config\<close> file: the regular expressions \<^verbatim>\<open>_set_match\<close>,
  \<^verbatim>\<open>_unset_match\<close> and \<^verbatim>\<open>_conf_string_match\<close> as functions, and the formats in which
  values are written. The prefix (\<^verbatim>\<open>CONFIG_\<close>) stands for itself: a prefix with special
  characters, which the source would read as a regular expression, is not modelled.
\<close>

section \<open>Reading lines\<close>

text \<open>\<^verbatim>\<open>PREFIX([^=]+)=(.*)\<close>\<close>

definition set_match :: "string \<Rightarrow> string \<Rightarrow> (string \<times> string) option" where
  "set_match pre line =
     (if startswith line pre then
        (let rest = drop (length pre) line;
             name = takeWhile (\<lambda>c. c \<noteq> CHR ''='') rest
         in case drop (length name) rest of
              [] \<Rightarrow> None
            | _ # val \<Rightarrow> if name = [] then None else Some (name, takeWhile (\<lambda>c. c \<noteq> newline) val))
      else None)"

text \<open>\<^verbatim>\<open># PREFIX([^ ]+) is not set\<close>\<close>

definition unset_match :: "string \<Rightarrow> string \<Rightarrow> string option" where
  "unset_match pre line =
     (if startswith line (''# '' @ pre) then
        (let rest = drop (length pre + 2) line;
             name = takeWhile (\<lambda>c. c \<noteq> CHR '' '') rest
         in if name \<noteq> [] \<and> startswith (drop (length name) rest) '' is not set'' then Some name else None)
      else None)"

text \<open>A quoted string: everything up to the first quote that no backslash escapes.\<close>

fun quoted_body :: "string \<Rightarrow> string option" where
  "quoted_body [] = None"
| "quoted_body (c # cs) =
     (if c = CHR 0x22 then Some []
      else if c = CHR 0x5C then
        (case cs of
           [] \<Rightarrow> None
         | d # ds \<Rightarrow> if d = newline then None else map_option (\<lambda>b. c # d # b) (quoted_body ds))
      else map_option (Cons c) (quoted_body cs))"

definition conf_string_match :: "string \<Rightarrow> string option" where
  "conf_string_match s =
     (case s of [] \<Rightarrow> None | c # cs \<Rightarrow> if c = CHR 0x22 then quoted_body cs else None)"

section \<open>Writing lines\<close>

text \<open>The formats of \<^verbatim>\<open>Symbol.config_string\<close>, without the newline at the end.\<close>

definition set_line :: "string \<Rightarrow> string \<Rightarrow> string \<Rightarrow> string" where
  "set_line pre name val = pre @ name @ ''='' @ val"

definition unset_line :: "string \<Rightarrow> string \<Rightarrow> string" where
  "unset_line pre name = ''# '' @ pre @ name @ '' is not set''"

definition quoted :: "string \<Rightarrow> string" where
  "quoted v = CHR 0x22 # escape v @ [CHR 0x22]"

section \<open>Round trips\<close>

lemma takeWhile_stop:
  "\<forall>c \<in> set xs. P c \<Longrightarrow> \<not> P y \<Longrightarrow> takeWhile P (xs @ y # ys) = xs"
  by (induction xs) auto

lemma set_match_set_line:
  assumes "name \<noteq> []" "CHR ''='' \<notin> set name" "newline \<notin> set val"
  shows "set_match pre (set_line pre name val) = Some (name, val)"
proof -
  have n: "takeWhile (\<lambda>c. c \<noteq> CHR ''='') (name @ CHR ''='' # val) = name"
    using assms(2) by (intro takeWhile_stop) auto
  have v: "takeWhile (\<lambda>c. c \<noteq> newline) val = val"
    using assms(3) by (intro takeWhile_eq_all_conv [THEN iffD2]) auto
  show ?thesis using assms(1) by (simp add: set_match_def set_line_def n v)
qed

lemma unset_match_unset_line:
  assumes "name \<noteq> []" "CHR '' '' \<notin> set name"
  shows "unset_match pre (unset_line pre name) = Some name"
proof -
  have d: "drop (length pre + 2) (''# '' @ pre @ name @ '' is not set'') = name @ '' is not set''" by simp
  have s: "startswith (''# '' @ pre @ name @ '' is not set'') (''# '' @ pre)"
    using startswith_append [of "''# '' @ pre" "name @ '' is not set''"] by simp
  have n: "takeWhile (\<lambda>c. c \<noteq> CHR '' '') (name @ '' is not set'') = name"
    using takeWhile_stop [of name "\<lambda>c. c \<noteq> CHR '' ''" "CHR '' ''" "''is not set''"] assms(2)
    by (auto simp del: takeWhile_append takeWhile_append1 takeWhile_append2)
  show ?thesis
    unfolding unset_match_def unset_line_def Let_def d n using assms(1) s by simp
qed

lemma unset_line_not_set:
  assumes "pre \<noteq> []" "hd pre \<noteq> CHR ''#''" shows "set_match pre (unset_line pre name) = None"
  using assms by (cases pre) (auto simp: set_match_def unset_line_def startswith_def)

lemma quoted_body_escape: "newline \<notin> set v \<Longrightarrow> quoted_body (escape v @ CHR 0x22 # rest) = Some (escape v)"
  by (induction v) (auto simp: escape_Cons newline_def)

lemma conf_string_match_quoted: "newline \<notin> set v \<Longrightarrow> conf_string_match (quoted v) = Some (escape v)"
  using quoted_body_escape [of v "[]"] by (simp add: conf_string_match_def quoted_def)

lemma newline_escape [simp]: "newline \<in> set (escape v) \<longleftrightarrow> newline \<in> set v"
  by (induction v) (auto simp: escape_Cons newline_def)

lemma newline_quoted [simp]: "newline \<in> set (quoted v) \<longleftrightarrow> newline \<in> set v"
  by (simp add: quoted_def newline_def del: newline_escape) (simp add: newline_escape [unfolded newline_def])

text \<open>
  A string value survives being written to a \<^verbatim>\<open>.config\<close> file and read back: the line that
  is written for it parses to the name of the symbol, and the quoted value unescapes to the
  value -- as long as it has no newline, which the escaping does not cover.
\<close>

lemma string_line_roundtrip:
  assumes "name \<noteq> []" "CHR ''='' \<notin> set name" "newline \<notin> set v"
  shows "\<exists>q. set_match pre (set_line pre name (quoted v)) = Some (name, q) \<and>
     map_option unescape (conf_string_match q) = Some v"
  using set_match_set_line [OF assms(1,2)] conf_string_match_quoted [OF assms(3)] assms(3)
  by (simp add: unescape_escape)

end
