(* ===== verification/Load_Config.thy ===== *)
theory Load_Config
  imports Invalidation_Correct Dot_Lines
begin

text \<open>
  Loading a \<^verbatim>\<open>.config\<close> file: \<^verbatim>\<open>Kconfig._load_config\<close> with its helpers
  \<^verbatim>\<open>_undef_assign\<close> and \<^verbatim>\<open>_assigned_twice\<close>, and around it \<^verbatim>\<open>load_config\<close>,
  \<^verbatim>\<open>defconfig_filename\<close> and \<^verbatim>\<open>load_allconfig\<close>. The files and the environment variables
  are a parameter; an iteration over a file gives its lines.
\<close>

section \<open>The environment\<close>

record env =
  files :: "string \<Rightarrow> string list option"
  srctree :: string
  kconfig_config :: "string option"
  kconfig_allconfig :: "string option"

text \<open>\<^verbatim>\<open>_open_config\<close>: the name under which the file was opened, and its lines.\<close>

definition open_config :: "env \<Rightarrow> string \<Rightarrow> exn + string \<times> string list" where
  "open_config ev fname =
     (case files ev fname of
        Some ls \<Rightarrow> Inr (fname, ls)
      | None \<Rightarrow>
          (case files ev (path_join (srctree ev) fname) of
             Some ls \<Rightarrow> Inr (path_join (srctree ev) fname, ls)
           | None \<Rightarrow> Inl (EnvironmentError fname)))"

definition standard_config_filename :: "env \<Rightarrow> string" where
  "standard_config_filename ev = (case kconfig_config ev of Some f \<Rightarrow> f | None \<Rightarrow> ''.config'')"

section \<open>Helpers\<close>

definition undef_assign :: "string \<Rightarrow> string \<Rightarrow> (string \<times> nat) \<Rightarrow> kstate \<Rightarrow> kstate" where
  "undef_assign name val loc st =
     (let st1 = st\<lparr>missing_syms := missing_syms st @ [(name, val)]\<rparr>
      in if warn_assign_undef st1
         then add_warning (''attempt to assign the value '' @ [CHR 0x27] @ val @ [CHR 0x27] @
                '' to the undefined symbol '' @ name) (Some loc) st1
         else st1)"

text \<open>
  The old value as \<^verbatim>\<open>_assigned_twice\<close> prints it; None is the \<^verbatim>\<open>KeyError\<close> of
  \<^verbatim>\<open>TRI_TO_STR[sym.user_value]\<close>.
\<close>

definition old_value_str :: "ktype \<Rightarrow> uval option \<Rightarrow> string option" where
  "old_value_str ty v =
     (if ty \<in> BOOL_TRISTATE then (case v of Some (VTri t) \<Rightarrow> Some (TRI_TO_STR t) | _ \<Rightarrow> None)
      else (case v of
              Some (VStr w) \<Rightarrow> Some w
            | Some (VTri t) \<Rightarrow> Some (py_str (int_of_tri t))
            | None \<Rightarrow> Some ''None''))"

definition assigned_twice ::
  "kconfig \<Rightarrow> sref \<Rightarrow> string \<Rightarrow> (string \<times> nat) \<Rightarrow> kstate \<Rightarrow> exn + kstate" where
  "assigned_twice kc s new_val loc st =
     (let ty = orig_type (sym_obj kc s); v = user_value (usr st) s
      in case old_value_str ty v of
           None \<Rightarrow> Inl KeyError
         | Some old \<Rightarrow>
             (let msg = name_and_loc kc (Sym s) @ '' set more than once. Old value '' @ [CHR 0x22] @ old @
                        [CHR 0x22] @ '', new value '' @ [CHR 0x22] @ new_val @ [CHR 0x22] @ ''.''
              in if (if ty \<in> BOOL_TRISTATE then old = new_val else v = Some (VStr new_val))
                 then Inr (if warn_assign_redun st then add_warning msg (Some loc) st else st)
                 else Inr (if warn_assign_override st then add_warning msg (Some loc) st else st)))"

text \<open>The mode of a choice follows from the values assigned to its symbols.\<close>

definition infer_mode ::
  "kconfig \<Rightarrow> nat \<Rightarrow> nat \<Rightarrow> string \<Rightarrow> (string \<times> nat) \<Rightarrow> kstate \<Rightarrow> exn + kstate" where
  "infer_mode kc n c val loc st =
     (let st1 = (case c_user_value (usr st) c of
                   None \<Rightarrow> st
                 | Some prev \<Rightarrow>
                     if TRI_TO_STR prev \<noteq> val
                     then add_warning ''both m and y assigned to symbols within the same choice'' (Some loc) st
                     else st)
      in map_sum id snd (choice_set_value kc n c (VStr val) st1))"

text \<open>``Done parsing the assignment. Set the value.''\<close>

definition assign_value ::
  "kconfig \<Rightarrow> nat \<Rightarrow> sref \<Rightarrow> string \<Rightarrow> (string \<times> nat) \<Rightarrow> kstate \<Rightarrow> exn + kstate" where
  "assign_value kc n s val loc st =
     (case (if was_set st s then assigned_twice kc s val loc st else Inr st) of
        Inl e \<Rightarrow> Inl e
      | Inr st1 \<Rightarrow> map_sum id snd (sym_set_value kc n s (VStr val) st1))"

section \<open>One line\<close>

text \<open>The first character of the value is all that counts for a bool or tristate symbol.\<close>

definition bool_val_ok :: "ktype \<Rightarrow> string \<Rightarrow> bool" where
  "bool_val_ok ty val \<longleftrightarrow>
     ty = BOOL \<and> (startswith val ''y'' \<or> startswith val ''n'') \<or>
     ty = TRISTATE \<and> (startswith val ''y'' \<or> startswith val ''m'' \<or> startswith val ''n'')"

definition load_set ::
  "kconfig \<Rightarrow> nat \<Rightarrow> sref \<Rightarrow> string \<Rightarrow> (string \<times> nat) \<Rightarrow> kstate \<Rightarrow> exn + kstate" where
  "load_set kc n s val loc st =
     (let o_s = sym_obj kc s
      in if orig_type o_s \<in> BOOL_TRISTATE then
           (if \<not> bool_val_ok (orig_type o_s) val
            then Inr (add_warning ([CHR 0x27] @ val @ [CHR 0x27] @ '' is not a valid value for the '' @
                   TYPE_TO_STR (orig_type o_s) @ '' symbol '' @ name_and_loc kc (Sym s) @
                   ''. Assignment ignored.'') (Some loc) st)
            else (let val' = take 1 val
                  in case (case choice o_s of
                             Some c \<Rightarrow> if val' \<noteq> ''n'' then infer_mode kc n c val' loc st else Inr st
                           | None \<Rightarrow> Inr st) of
                       Inl e \<Rightarrow> Inl e
                     | Inr st1 \<Rightarrow> assign_value kc n s val' loc st1))
         else if orig_type o_s = STRING then
           (case conf_string_match val of
              None \<Rightarrow>
                Inr (add_warning (''malformed string literal in assignment to '' @
                       name_and_loc kc (Sym s) @ ''. Assignment ignored.'') (Some loc) st)
            | Some body \<Rightarrow> assign_value kc n s (unescape body) loc st)
         else assign_value kc n s val loc st)"

definition load_line ::
  "kconfig \<Rightarrow> nat \<Rightarrow> string \<Rightarrow> nat \<times> string \<Rightarrow> kstate \<Rightarrow> exn + kstate" where
  "load_line kc n fname numbered st =
     (let line = rstrip (snd numbered); loc = (fname, fst numbered)
      in case set_match (config_prefix kc) line of
           Some (name, val) \<Rightarrow>
             if nodes (sym_obj kc (SRef False name)) = [] then Inr (undef_assign name val loc st)
             else load_set kc n (SRef False name) val loc st
         | None \<Rightarrow>
             (case unset_match (config_prefix kc) line of
                None \<Rightarrow>
                  if line \<noteq> [] \<and> \<not> startswith (lstrip line) ''#''
                  then Inr (add_warning (''ignoring malformed line '' @ [CHR 0x27] @ line @ [CHR 0x27])
                              (Some loc) st)
                  else Inr st
              | Some name \<Rightarrow>
                  if nodes (sym_obj kc (SRef False name)) = [] then Inr (undef_assign name ''n'' loc st)
                  else if orig_type (sym_obj kc (SRef False name)) \<notin> BOOL_TRISTATE then Inr st
                  else assign_value kc n (SRef False name) ''n'' loc st))"

section \<open>A whole file\<close>

definition clear_was_set :: "kconfig \<Rightarrow> kstate \<Rightarrow> kstate" where
  "clear_was_set kc st =
     st\<lparr>missing_syms := [],
        was_set := (\<lambda>s. s \<notin> set (unique_defined_syms kc) \<and> was_set st s),
        c_was_set := (\<lambda>c. c \<notin> set (unique_choices kc) \<and> c_was_set st c)\<rparr>"

definition unset_rest :: "kconfig \<Rightarrow> nat \<Rightarrow> kstate \<Rightarrow> exn + kstate" where
  "unset_rest kc n st =
     (case try_each (\<lambda>s st. if \<not> was_set st s then sym_unset_value kc n s st else Inr st)
             (unique_defined_syms kc) st of
        Inl e \<Rightarrow> Inl e
      | Inr st1 \<Rightarrow>
          try_each (\<lambda>c st. if \<not> c_was_set st c then choice_unset_value kc n c st else Inr st)
            (unique_choices kc) st1)"

definition load_file :: "kconfig \<Rightarrow> nat \<Rightarrow> string \<Rightarrow> string list \<Rightarrow> bool \<Rightarrow> kstate \<Rightarrow> exn + kstate" where
  "load_file kc n fname ls replace st =
     (case try_each (load_line kc n fname) (zip [1..<Suc (length ls)] ls)
             (if replace then clear_was_set kc st else st) of
        Inl e \<Rightarrow> Inl e
      | Inr st1 \<Rightarrow> if replace then unset_rest kc n st1 else Inr st1)"

text \<open>
  \<^verbatim>\<open>load_config\<close> with the name of a file. The flag for promptless symbols is set back to
  true on every way out; after an exception the state is not modelled.
\<close>

definition load_named :: "env \<Rightarrow> kconfig \<Rightarrow> nat \<Rightarrow> string \<Rightarrow> bool \<Rightarrow> kstate \<Rightarrow> exn + kstate" where
  "load_named ev kc n fname replace st =
     (case open_config ev fname of
        Inl e \<Rightarrow> Inl e
      | Inr (_, ls) \<Rightarrow>
          map_sum id (\<lambda>st'. st'\<lparr>warn_assign_no_prompt := True\<rparr>)
            (load_file kc n fname ls replace (st\<lparr>warn_assign_no_prompt := False\<rparr>)))"

text \<open>\<^verbatim>\<open>Kconfig.defconfig_filename\<close>: the first default that can be opened.\<close>

primrec first_openable :: "env \<Rightarrow> kconfig \<Rightarrow> user_state \<Rightarrow> (expr \<times> expr) list \<Rightarrow> string option prog" where
  "first_openable ev kc u [] = Ret None"
| "first_openable ev kc u (d # ds) =
     bindp (expr_value kc u (snd d)) (\<lambda>v.
       if v = TN then first_openable ev kc u ds
       else bindp (expr_str_value kc u (fst d)) (\<lambda>fname.
              case open_config ev fname of
                Inr (opened, _) \<Rightarrow> Ret (Some opened)
              | Inl _ \<Rightarrow> first_openable ev kc u ds))"

definition defconfig_filename :: "env \<Rightarrow> kconfig \<Rightarrow> user_state \<Rightarrow> string option prog" where
  "defconfig_filename ev kc u =
     (case defconfig_list kc of
        None \<Rightarrow> Ret None
      | Some s \<Rightarrow> first_openable ev kc u (defaults (sym_obj kc s)))"

text \<open>The message \<^verbatim>\<open>load_config\<close> returns; \<^verbatim>\<open>exists\<close> is true of the files of the environment.\<close>

definition single_quoted :: "string \<Rightarrow> string" where
  "single_quoted s = [CHR 0x27] @ s @ [CHR 0x27]"

definition load_config ::
  "env \<Rightarrow> kconfig \<Rightarrow> nat \<Rightarrow> string option \<Rightarrow> bool \<Rightarrow> kstate \<Rightarrow> exn + string \<times> kstate" where
  "load_config ev kc n fname_opt replace st =
     (let loaded = (\<lambda>fname msg st. map_sum id (\<lambda>st'. ((if replace then ''Loaded'' else ''Merged'') @ msg, st'))
                      (load_named ev kc n fname replace st));
          plain = (\<lambda>fname. '' configuration '' @ single_quoted fname)
      in case fname_opt of
           Some fname \<Rightarrow> loaded fname (plain fname) st
         | None \<Rightarrow>
             (let std = standard_config_filename ev
              in if files ev std = None \<and> files ev (path_join (srctree ev) std) = None then
                   (case run (get kc n) (defconfig_filename ev kc (usr st)) st of
                      (Inl e, _) \<Rightarrow> Inl e
                    | (Inr None, st1) \<Rightarrow>
                        Inr (''Using default symbol values (no '' @ single_quoted std @ '')'', st1)
                    | (Inr (Some d), st1) \<Rightarrow>
                        loaded d ('' default configuration '' @ single_quoted d @ '' (no '' @
                          single_quoted std @ '')'') st1)
                 else loaded std (plain std) st))"

text \<open>
  \<^verbatim>\<open>load_allconfig\<close>; exiting the process because no file could be opened is the
  \<open>EnvironmentError\<close>. The messages it prints are not modelled.
\<close>

definition load_allconfig :: "env \<Rightarrow> kconfig \<Rightarrow> nat \<Rightarrow> string \<Rightarrow> kstate \<Rightarrow> exn + kstate" where
  "load_allconfig ev kc n fname st =
     (case kconfig_allconfig ev of
        None \<Rightarrow> Inr st
      | Some allconfig \<Rightarrow>
          (let st1 = st\<lparr>warn_assign_override := False, warn_assign_redun := False\<rparr>;
               load = (\<lambda>f. map_sum id snd (load_config ev kc n (Some f) False st1));
               r = (if allconfig = [] \<or> allconfig = ''1''
                    then (case load fname of
                            Inl (EnvironmentError _) \<Rightarrow> load ''all.config''
                          | r \<Rightarrow> r)
                    else load allconfig)
           in map_sum id (\<lambda>st'. st'\<lparr>warn_assign_override := warn_assign_override st,
                                  warn_assign_redun := warn_assign_redun st\<rparr>) r))"

end
