(* ===== verification/Load_Correct.thy ===== *)
theory Load_Correct
  imports Load_Config
begin

text \<open>
  What a configuration file says (\<^verbatim>\<open>line_assigns\<close>, \<^verbatim>\<open>file_values\<close>: the last valid
  assignment to a symbol counts), and that loading a file does that: afterwards the user
  values are those of the file, whatever they were before, and the cached values are still
  those of the user values.
\<close>

section \<open>The meaning of a file\<close>

definition set_assigns :: "ktype \<Rightarrow> string \<Rightarrow> uval option" where
  "set_assigns ty val =
     (if ty \<in> BOOL_TRISTATE then
        (if bool_val_ok ty val then map_option VTri (STR_TO_TRI (take 1 val)) else None)
      else if ty = STRING then map_option (\<lambda>b. VStr (unescape b)) (conf_string_match val)
      else if value_ok ty (VStr val) then Some (VStr val) else None)"

definition line_assigns :: "kconfig \<Rightarrow> string \<Rightarrow> (sref \<times> uval) option" where
  "line_assigns kc raw =
     (let line = rstrip raw
      in case set_match (config_prefix kc) line of
           Some (name, val) \<Rightarrow>
             (let s = SRef False name
              in if nodes (sym_obj kc s) = [] then None
                 else map_option (Pair s) (set_assigns (orig_type (sym_obj kc s)) val))
         | None \<Rightarrow>
             (case unset_match (config_prefix kc) line of
                Some name \<Rightarrow>
                  (let s = SRef False name; o_s = sym_obj kc s
                   in if nodes o_s \<noteq> [] \<and> orig_type o_s \<in> BOOL_TRISTATE then Some (s, VTri TN) else None)
              | None \<Rightarrow> None))"

definition add_line :: "kconfig \<Rightarrow> string \<Rightarrow> (sref \<Rightarrow> uval option) \<Rightarrow> sref \<Rightarrow> uval option" where
  "add_line kc raw m = (case line_assigns kc raw of None \<Rightarrow> m | Some (s, v) \<Rightarrow> m(s \<mapsto> v))"

definition file_values :: "kconfig \<Rightarrow> string list \<Rightarrow> sref \<Rightarrow> uval option" where
  "file_values kc ls = fold (add_line kc) ls (\<lambda>_. None)"

section \<open>What the operations leave alone\<close>

text \<open>The user values of symbols and the marks of what was set.\<close>

definition same_values :: "kstate \<Rightarrow> kstate \<Rightarrow> bool" where
  "same_values st st' \<longleftrightarrow>
     user_value (usr st') = user_value (usr st) \<and> was_set st' = was_set st"

lemma same_values_refl [simp]: "same_values st st"
  by (simp add: same_values_def)

lemma same_values_warning [simp]: "same_values st (add_warning m l st') = same_values st st'"
  by (simp add: same_values_def)

lemma rec_invalidate_same:
  assumes "deps_inside kc" "x \<in> all_items kc" "rec_invalidate kc n x st = Inr st'"
  shows "\<exists>Y. st' = drop_cache Y st"
  using rec_invalidate_clears [OF assms(1,2), of n "{}" st st'] assms(3) by (auto simp: clears_def)

lemma if_has_prompt_same:
  assumes w: "wf_deps kc" and r: "rec_invalidate_if_has_prompt kc n s st = Inr st'"
  shows "usr st' = usr st \<and> was_set st' = was_set st"
proof (cases "has_prompt kc s")
  case True
  then have "rec_invalidate kc n (Sym s) st = Inr st'"
    using r by (simp add: rec_invalidate_if_has_prompt_def)
  from rec_invalidate_same [OF wf_deps_inside [OF w] has_prompt_defined [OF w True] this]
  show ?thesis by auto
qed (use r in \<open>auto simp: rec_invalidate_if_has_prompt_def split: if_splits\<close>)

lemma choice_set_value_same:
  assumes w: "wf_deps kc" and c: "Cho c \<in> all_items kc"
    and r: "choice_set_value kc n c v st = Inr (b, st')"
  shows "same_values st st'"
proof -
  have "same_values st st'" if "rec_invalidate kc n (Cho c) (put_c_was_set c (put_mode c t st)) = Inr st'" for t
    using rec_invalidate_same [OF wf_deps_inside [OF w] c that]
    by (auto simp: same_values_def put_c_was_set_def put_mode_def)
  then show ?thesis
    using r unfolding choice_set_value_def Let_def map_sum_def
    by (auto simp: same_values_def put_c_was_set_def split: if_splits sum.splits uval.splits)
qed

lemma choice_set_value_total:
  assumes "wf_deps kc" "Cho c \<in> all_items kc" "card (all_items kc) < n"
  shows "\<exists>b st'. choice_set_value kc n c v st = Inr (b, st')"
proof -
  have "\<exists>st'. rec_invalidate kc n (Cho c) st1 = Inr st'" for st1
    by (rule rec_invalidate_total [OF wf_deps_inside [OF assms(1)] assms(2)])
      (rule le_less_trans [OF live_card assms(3)])
  then obtain g where "\<And>st1. rec_invalidate kc n (Cho c) st1 = Inr (g st1)" by metis
  then show ?thesis
    by (auto simp: choice_set_value_def Let_def split: uval.splits)
qed

text \<open>A successful assignment records the value; a rejected one changes neither.\<close>

lemma sym_set_value_values:
  assumes w: "wf_deps kc" and r: "sym_set_value kc n s v0 st = Inr (b, st')"
    and V: "V = (if orig_type (sym_obj kc s) \<in> BOOL_TRISTATE then normalize_uval v0 else v0)"
  shows "if b then user_value (usr st') = (user_value (usr st))(s \<mapsto> V) \<and> was_set st' = (was_set st)(s := True)
         else same_values st st'"
proof -
  note set_V = sym_set_value_def [of kc n s v0 st, unfolded Let_def, folded V]
  let ?st1 = "put_was_set s (put_user s (Some V) st)"
  consider "Some V = user_value (usr st) s" "b" "st' = put_was_set s st"
    | "\<not> b" "same_values st st'"
    | "b" "rec_invalidate_if_has_prompt kc n s ?st1 = Inr st'"
    | c where "choice (sym_obj kc s) = Some c" "b"
        "rec_invalidate kc n (Cho c) (put_c_was_set c (put_selection c (Some s) ?st1)) = Inr st'"
    using r unfolding set_V map_sum_def
    by (auto simp: put_c_was_set_def split: if_splits sum.splits option.splits)
  then show ?thesis
  proof cases
    case 1
    then show ?thesis by (auto simp: put_was_set_def fun_eq_iff)
  next
    case 3
    from if_has_prompt_same [OF w 3(2)] 3(1) show ?thesis by (simp add: put_was_set_def put_user_def)
  next
    case 4
    from rec_invalidate_same [OF wf_deps_inside [OF w] wf_choice_of(4) [OF w 4(1)] 4(3)] 4(2)
    show ?thesis by (auto simp: put_was_set_def put_user_def put_c_was_set_def put_selection_def)
  qed simp
qed

section \<open>One assignment\<close>

text \<open>
  \<open>recorded kc u0 w0 m st\<close>: the lines read so far assign \<open>m\<close>; before them the user values
  were \<open>u0\<close> and the symbols in \<open>w0\<close> were marked as set.
\<close>

definition recorded ::
  "kconfig \<Rightarrow> (sref \<Rightarrow> uval option) \<Rightarrow> (sref \<Rightarrow> bool) \<Rightarrow> (sref \<Rightarrow> uval option) \<Rightarrow> kstate \<Rightarrow> bool" where
  "recorded kc u0 w0 m st \<longleftrightarrow>
     consistent kc st \<and>
     (\<forall>s \<in> set (unique_defined_syms kc). user_value (usr st) s = (u0 ++ m) s \<and>
        (was_set st s \<longleftrightarrow> m s \<noteq> None \<or> w0 s))"

lemma recorded_same:
  "recorded kc u0 w0 m st \<Longrightarrow> same_values st st' \<Longrightarrow> consistent kc st' \<Longrightarrow> recorded kc u0 w0 m st'"
  by (simp add: recorded_def same_values_def)

lemma consistent_cong: "usr st' = usr st \<Longrightarrow> cache st' = cache st \<Longrightarrow> consistent kc st' = consistent kc st"
  by (simp add: consistent_def)

lemma consistent_warning [simp]: "consistent kc (add_warning msg l st) = consistent kc st"
  by (simp add: consistent_def)

lemma recorded_warning [simp]:
  "recorded kc u0 w0 m (add_warning msg l st) = recorded kc u0 w0 m st"
  by (simp add: recorded_def)

lemma old_value_total:
  assumes "valid_user kc (usr st)" "user_value (usr st) s \<noteq> None"
  shows "\<exists>w. old_value_str (orig_type (sym_obj kc s)) (user_value (usr st) s) = Some w"
proof -
  obtain v where v: "user_value (usr st) s = Some v" using assms(2) by blast
  from valid_user_uval [OF assms(1) v] v show ?thesis
    by (cases v) (auto simp: old_value_str_def in_BOOL_TRISTATE)
qed

lemma assigned_twice_total:
  assumes "valid_user kc (usr st)" "user_value (usr st) s \<noteq> None"
  shows "\<exists>st'. assigned_twice kc s new loc st = Inr st' \<and> usr st' = usr st \<and> cache st' = cache st \<and>
    was_set st' = was_set st"
proof -
  obtain w where "old_value_str (orig_type (sym_obj kc s)) (user_value (usr st) s) = Some w"
    using old_value_total [OF assms] by blast
  then show ?thesis by (auto simp: assigned_twice_def Let_def)
qed

text \<open>What loading relies on: enough depth, and a symbol marked as set has a user value.\<close>

definition may_load ::
  "kconfig \<Rightarrow> nat \<Rightarrow> (sref \<Rightarrow> uval option) \<Rightarrow> (sref \<Rightarrow> bool) \<Rightarrow> bool" where
  "may_load kc n u0 w0 \<longleftrightarrow>
     wf_deps kc \<and> card (all_items kc) < n \<and>
     (\<forall>s \<in> set (unique_defined_syms kc). w0 s \<longrightarrow> u0 s \<noteq> None)"

lemma assign_value_records:
  assumes L: "may_load kc n u0 w0" and r: "recorded kc u0 w0 m st"
    and s: "s \<in> set (unique_defined_syms kc)"
    and V: "V = (if orig_type (sym_obj kc s) \<in> BOOL_TRISTATE then normalize_uval (VStr val) else VStr val)"
  shows "\<exists>st'. assign_value kc n s val loc st = Inr st' \<and>
    recorded kc u0 w0 (if value_ok (orig_type (sym_obj kc s)) V then m(s \<mapsto> V) else m) st'"
proof -
  have w: "wf_deps kc" and n: "card (all_items kc) < n"
    and known: "\<And>s. s \<in> set (unique_defined_syms kc) \<Longrightarrow> w0 s \<Longrightarrow> u0 s \<noteq> None"
    using L by (auto simp: may_load_def)
  have vu: "valid_user kc (usr st)" using r by (simp add: recorded_def consistent_def)
  obtain st1 where a: "(if was_set st s then assigned_twice kc s val loc st else Inr st) = Inr st1"
    and st1: "usr st1 = usr st" "cache st1 = cache st" "was_set st1 = was_set st"
  proof (cases "was_set st s")
    case True
    then have "user_value (usr st) s \<noteq> None"
      using r s known by (fastforce simp: recorded_def map_add_def split: option.splits)
    then show ?thesis using assigned_twice_total [OF vu] True that by metis
  qed (use that in simp)
  have r1: "recorded kc u0 w0 m st1"
    using r st1 consistent_cong [OF st1(1,2)] by (simp add: recorded_def)
  have "valid_user kc (usr st1)" using vu st1 by simp
  from sym_set_value_total [OF w n this, of s "VStr val"]
  obtain st' where st': "sym_set_value kc n s (VStr val) st1 = Inr (value_ok (orig_type (sym_obj kc s)) V, st')"
    unfolding V by blast
  have c: "consistent kc st'"
    using sym_set_value_consistent [OF w _ st'] r1 by (simp add: recorded_def)
  have "recorded kc u0 w0 (if value_ok (orig_type (sym_obj kc s)) V then m(s \<mapsto> V) else m) st'"
    using sym_set_value_values [OF w st' V] r1 c recorded_same [OF r1 _ c]
    by (auto simp: recorded_def split: if_splits)
  then show ?thesis using a st' by (simp add: assign_value_def)
qed

lemma infer_mode_records:
  assumes L: "may_load kc n u0 w0" and r: "recorded kc u0 w0 m st" and c: "Cho c \<in> all_items kc"
  shows "\<exists>st'. infer_mode kc n c val loc st = Inr st' \<and> recorded kc u0 w0 m st'"
proof -
  have w: "wf_deps kc" and n: "card (all_items kc) < n" using L by (auto simp: may_load_def)
  define st1 where "st1 = (case c_user_value (usr st) c of
                   None \<Rightarrow> st
                 | Some prev \<Rightarrow>
                     if TRI_TO_STR prev \<noteq> val
                     then add_warning ''both m and y assigned to symbols within the same choice'' (Some loc) st
                     else st)"
  have r1: "recorded kc u0 w0 m st1" using r by (auto simp: st1_def split: option.splits)
  obtain b st' where st': "choice_set_value kc n c (VStr val) st1 = Inr (b, st')"
    using choice_set_value_total [OF w c n] by blast
  have "recorded kc u0 w0 m st'"
    by (rule recorded_same [OF r1 choice_set_value_same [OF w c st']])
      (use choice_set_value_consistent [OF w _ st'] r1 in \<open>simp add: recorded_def\<close>)
  then show ?thesis using st' by (simp add: infer_mode_def Let_def st1_def)
qed

section \<open>One line\<close>

lemma nodes_defined:
  assumes "wf_deps kc" "nodes (sym_obj kc s) \<noteq> []" shows "s \<in> set (unique_defined_syms kc)"
proof -
  have "Sym s \<in> all_items kc"
    using assms unfolding wf_deps_def undefined_sym_def by metis
  then show ?thesis by (auto simp: all_items_def)
qed

lemma undef_assign_records:
  "recorded kc u0 w0 m st \<Longrightarrow> recorded kc u0 w0 m (undef_assign name val loc st)"
  by (simp add: undef_assign_def Let_def recorded_def consistent_def)

lemma bool_val_tri:
  assumes "bool_val_ok ty val"
  shows "\<exists>t. STR_TO_TRI (take 1 val) = Some t \<and> normalize_uval (VStr (take 1 val)) = VTri t \<and>
    value_ok ty (VTri t)"
proof -
  obtain c cs where v: "val = c # cs" using assms by (cases val) (auto simp: bool_val_ok_def startswith_def)
  with assms show ?thesis
    by (auto simp: bool_val_ok_def startswith_Cons STR_TO_TRI_def normalize_uval_def value_ok_def)
qed

lemma load_set_records:
  assumes L: "may_load kc n u0 w0" and r: "recorded kc u0 w0 m st"
    and s: "s \<in> set (unique_defined_syms kc)"
  shows "\<exists>st'. load_set kc n s val loc st = Inr st' \<and>
    recorded kc u0 w0 (case set_assigns (orig_type (sym_obj kc s)) val of
        Some v \<Rightarrow> m(s \<mapsto> v) | None \<Rightarrow> m) st'"
proof -
  let ?ty = "orig_type (sym_obj kc s)"
  have w: "wf_deps kc" using L by (simp add: may_load_def)
  show ?thesis
  proof (cases "?ty \<in> BOOL_TRISTATE")
    case True
    show ?thesis
    proof (cases "bool_val_ok ?ty val")
      case ok: True
      obtain t where t: "STR_TO_TRI (take 1 val) = Some t"
        "normalize_uval (VStr (take 1 val)) = VTri t" "value_ok ?ty (VTri t)"
        using bool_val_tri [OF ok] by blast
      define pre where "pre = (case choice (sym_obj kc s) of
                             Some c \<Rightarrow> if take 1 val \<noteq> ''n'' then infer_mode kc n c (take 1 val) loc st else Inr st
                           | None \<Rightarrow> Inr st)"
      have "\<exists>st1. pre = Inr st1 \<and> recorded kc u0 w0 m st1"
        using infer_mode_records [OF L r wf_choice_of(4) [OF w]] r
        by (cases "choice (sym_obj kc s)") (auto simp: pre_def)
      then obtain st1 where st1: "pre = Inr st1" "recorded kc u0 w0 m st1" by blast
      then have "load_set kc n s val loc st = assign_value kc n s (take 1 val) loc st1"
        using True ok by (simp add: load_set_def Let_def pre_def del: One_nat_def)
      then show ?thesis
        using assign_value_records [OF L st1(2) s refl, of "take 1 val" loc] True ok t
        by (simp add: set_assigns_def del: One_nat_def)
    qed (use True r in \<open>simp add: load_set_def set_assigns_def Let_def\<close>)
  next
    case nb: False
    show ?thesis
    proof (cases "?ty = STRING")
      case True
      then have "value_ok ?ty (VStr b)" for b by (simp add: value_ok_def)
      then show ?thesis
        using assign_value_records [OF L r s refl, of _ loc] True nb r
        by (cases "conf_string_match val") (simp_all add: load_set_def set_assigns_def Let_def)
    next
      case False
      then show ?thesis
        using assign_value_records [OF L r s refl, of val loc] nb
        by (cases "value_ok ?ty (VStr val)") (simp_all add: load_set_def set_assigns_def Let_def)
    qed
  qed
qed

lemma load_line_records:
  assumes L: "may_load kc n u0 w0" and r: "recorded kc u0 w0 m st"
  shows "\<exists>st'. load_line kc n fname (i, raw) st = Inr st' \<and> recorded kc u0 w0 (add_line kc raw m) st'"
proof (cases "set_match (config_prefix kc) (rstrip raw)")
  case None
  show ?thesis
  proof (cases "unset_match (config_prefix kc) (rstrip raw)")
    case (Some name)
    let ?s = "SRef False name"
    have V: "value_ok ty (normalize_uval (VStr ''n''))" "normalize_uval (VStr ''n'') = VTri TN"
      if "ty \<in> BOOL_TRISTATE" for ty
      using that by (auto simp: normalize_uval_def STR_TO_TRI_def value_ok_def in_BOOL_TRISTATE)
    show ?thesis
      using None Some r undef_assign_records [OF r]
        assign_value_records [OF L r nodes_defined refl, of ?s "''n''" "(fname, i)"] L V
      by (cases "nodes (sym_obj kc ?s) = []"; cases "orig_type (sym_obj kc ?s) \<in> BOOL_TRISTATE")
        (simp_all add: load_line_def add_line_def line_assigns_def Let_def may_load_def)
  qed (use None r in \<open>simp add: load_line_def add_line_def line_assigns_def Let_def\<close>)
next
  case (Some nv)
  obtain name val where nv: "nv = (name, val)" by (cases nv)
  let ?s = "SRef False name"
  show ?thesis
  proof (cases "nodes (sym_obj kc ?s) = []")
    case True
    then show ?thesis
      using Some nv undef_assign_records [OF r]
      by (simp add: load_line_def add_line_def line_assigns_def Let_def)
  next
    case False
    have w: "wf_deps kc" using L by (simp add: may_load_def)
    from load_set_records [OF L r nodes_defined [OF w False], of val "(fname, i)"] Some nv False
    show ?thesis
      by (cases "set_assigns (orig_type (sym_obj kc ?s)) val")
        (simp_all add: load_line_def add_line_def line_assigns_def Let_def)
  qed
qed

section \<open>A whole file\<close>

lemma load_lines_record:
  assumes L: "may_load kc n u0 w0"
  shows "recorded kc u0 w0 m st \<Longrightarrow>
    \<exists>st'. try_each (load_line kc n fname) (zip ns ls) st = Inr st' \<and>
      (length ls = length ns \<longrightarrow> recorded kc u0 w0 (fold (add_line kc) ls m) st')"
proof (induction ns arbitrary: ls m st)
  case (Cons i ns)
  show ?case
  proof (cases ls)
    case (Cons raw ls')
    obtain st1 where st1: "load_line kc n fname (i, raw) st = Inr st1" "recorded kc u0 w0 (add_line kc raw m) st1"
      using load_line_records [OF L Cons.prems] by blast
    from Cons.IH [OF st1(2), of ls'] st1(1) Cons show ?thesis by simp
  qed simp
qed simp

lemma sym_unset_value_total:
  assumes "wf_deps kc" "card (all_items kc) < n"
  shows "\<exists>st'. sym_unset_value kc n s st = Inr st'"
  using if_has_prompt_total [OF assms] by (auto simp: sym_unset_value_def)

lemma sym_unset_value_values:
  assumes w: "wf_deps kc" and r: "sym_unset_value kc n s st = Inr st'"
  shows "user_value (usr st') = (user_value (usr st))(s := None) \<and> was_set st' = was_set st"
proof (cases "user_value (usr st) s = None")
  case False
  with r have "rec_invalidate_if_has_prompt kc n s (put_user s None st) = Inr st'"
    by (simp add: sym_unset_value_def)
  from if_has_prompt_same [OF w this] show ?thesis by (simp add: put_user_def)
qed (use r in \<open>auto simp: sym_unset_value_def\<close>)

lemma choice_unset_value_total:
  assumes "wf_deps kc" "Cho c \<in> all_items kc" "card (all_items kc) < n"
  shows "\<exists>st'. choice_unset_value kc n c st = Inr st'"
proof -
  have "\<exists>st'. rec_invalidate kc n (Cho c) st1 = Inr st'" for st1
    by (rule rec_invalidate_total [OF wf_deps_inside [OF assms(1)] assms(2)])
      (rule le_less_trans [OF live_card assms(3)])
  then show ?thesis by (simp add: choice_unset_value_def)
qed

lemma choice_unset_value_same:
  assumes "wf_deps kc" "Cho c \<in> all_items kc" "choice_unset_value kc n c st = Inr st'"
  shows "same_values st st'"
proof (cases "c_user_value (usr st) c \<noteq> None \<or> user_selection (usr st) c \<noteq> None")
  case True
  with assms(3) have "rec_invalidate kc n (Cho c) (put_selection c None (put_mode c None st)) = Inr st'"
    by (simp add: choice_unset_value_def)
  from rec_invalidate_same [OF wf_deps_inside [OF assms(1)] assms(2) this] show ?thesis
    by (auto simp: same_values_def put_selection_def put_mode_def)
qed (use assms(3) in \<open>simp add: choice_unset_value_def\<close>)

text \<open>Unsetting those of a list of symbols that are not marked.\<close>

definition unmark ::
  "(sref \<Rightarrow> bool) \<Rightarrow> sref list \<Rightarrow> (sref \<Rightarrow> uval option) \<Rightarrow> sref \<Rightarrow> uval option" where
  "unmark ws ss u s = (if s \<in> set ss \<and> \<not> ws s then None else u s)"

lemma unset_syms:
  assumes w: "wf_deps kc" and n: "card (all_items kc) < n"
  shows "consistent kc st \<Longrightarrow>
    \<exists>st'. try_each (\<lambda>s st. if \<not> was_set st s then sym_unset_value kc n s st else Inr st) ss st = Inr st' \<and>
      consistent kc st' \<and> was_set st' = was_set st \<and>
      user_value (usr st') = unmark (was_set st) ss (user_value (usr st))"
proof (induction ss arbitrary: st)
  case (Cons s ss)
  obtain st1 where st1: "(if \<not> was_set st s then sym_unset_value kc n s st else Inr st) = Inr st1"
    using sym_unset_value_total [OF w n] by (cases "was_set st s") auto
  then have v: "was_set st1 = was_set st" "consistent kc st1"
    "user_value (usr st1) = (if was_set st s then user_value (usr st) else (user_value (usr st))(s := None))"
    using sym_unset_value_values [OF w] sym_unset_value_consistent [OF w Cons.prems] Cons.prems
    by (auto split: if_splits)
  from Cons.IH [OF v(2)] v(1,3) st1 show ?case
    by (auto simp: unmark_def fun_eq_iff)
qed (simp add: unmark_def fun_eq_iff)

lemma unset_choices:
  assumes w: "wf_deps kc" and n: "card (all_items kc) < n" and cs: "set cs \<subseteq> set (unique_choices kc)"
    and c: "consistent kc st"
  shows "\<exists>st'. try_each (\<lambda>c st. if \<not> c_was_set st c then choice_unset_value kc n c st else Inr st) cs st = Inr st' \<and>
      consistent kc st' \<and> same_values st st'"
proof (rule try_each_total)
  fix c s assume a: "c \<in> set cs" "consistent kc s \<and> same_values st s"
  then have i: "Cho c \<in> all_items kc" using cs unique_choice_item by blast
  obtain s' where s': "choice_unset_value kc n c s = Inr s'"
    using choice_unset_value_total [OF w i n] by blast
  from choice_unset_value_same [OF w i s'] choice_unset_value_consistent [OF w _ i s'] a s'
  show "\<exists>s'. (if \<not> c_was_set s c then choice_unset_value kc n c s else Inr s) = Inr s' \<and>
      consistent kc s' \<and> same_values st s'"
    by (cases "c_was_set s c") (auto simp: same_values_def)
qed (use c in simp)

lemma unset_rest_total:
  assumes w: "wf_deps kc" and n: "card (all_items kc) < n" and c: "consistent kc st"
  shows "\<exists>st'. unset_rest kc n st = Inr st' \<and> consistent kc st' \<and>
    user_value (usr st') = unmark (was_set st) (unique_defined_syms kc) (user_value (usr st))"
proof -
  obtain st1 where 1: "try_each (\<lambda>s st. if \<not> was_set st s then sym_unset_value kc n s st else Inr st)
      (unique_defined_syms kc) st = Inr st1" "consistent kc st1"
    "user_value (usr st1) = unmark (was_set st) (unique_defined_syms kc) (user_value (usr st))"
    using unset_syms [OF w n c] by blast
  obtain st2 where "try_each (\<lambda>c st. if \<not> c_was_set st c then choice_unset_value kc n c st else Inr st)
      (unique_choices kc) st1 = Inr st2" "consistent kc st2" "same_values st1 st2"
    using unset_choices [OF w n order.refl 1(2)] by blast
  with 1 show ?thesis by (auto simp: unset_rest_def same_values_def)
qed

lemma load_file_merges:
  assumes "wf_deps kc" "card (all_items kc) < n" "consistent kc st"
    and "\<forall>s \<in> set (unique_defined_syms kc). was_set st s \<longrightarrow> user_value (usr st) s \<noteq> None"
  shows "\<exists>st'. load_file kc n fname ls False st = Inr st' \<and>
    recorded kc (user_value (usr st)) (was_set st) (file_values kc ls) st'"
proof -
  let ?u0 = "user_value (usr st)" and ?w0 = "was_set st"
  have L: "may_load kc n ?u0 ?w0" using assms by (simp add: may_load_def)
  have "recorded kc ?u0 ?w0 (\<lambda>_. None) st" using assms(3) by (simp add: recorded_def)
  from load_lines_record [OF L this, of fname "[1..<Suc (length ls)]" ls]
  show ?thesis by (auto simp: load_file_def file_values_def simp del: upt_Suc)
qed

lemma load_file_replaces:
  assumes "wf_deps kc" "card (all_items kc) < n" "consistent kc st"
  shows "\<exists>st'. load_file kc n fname ls True st = Inr st' \<and> consistent kc st' \<and>
    (\<forall>s \<in> set (unique_defined_syms kc). user_value (usr st') s = file_values kc ls s)"
proof -
  let ?st0 = "clear_was_set kc st"
  have c0: "consistent kc ?st0"
    using consistent_cong [of ?st0 st] assms(3) by (simp add: clear_was_set_def)
  have "\<forall>s \<in> set (unique_defined_syms kc). was_set ?st0 s \<longrightarrow> user_value (usr ?st0) s \<noteq> None"
    by (simp add: clear_was_set_def)
  from load_file_merges [OF assms(1,2) c0 this, of fname ls] obtain st1
    where st1: "load_file kc n fname ls False ?st0 = Inr st1"
      "recorded kc (user_value (usr st)) (was_set ?st0) (file_values kc ls) st1"
    by (auto simp: clear_was_set_def)
  then have c1: "consistent kc st1" by (simp add: recorded_def)
  obtain st' where st': "unset_rest kc n st1 = Inr st'" "consistent kc st'"
    "user_value (usr st') = unmark (was_set st1) (unique_defined_syms kc) (user_value (usr st1))"
    using unset_rest_total [OF assms(1,2)] c1 by blast
  have "user_value (usr st') s = file_values kc ls s" if "s \<in> set (unique_defined_syms kc)" for s
    using st1(2) that unfolding st'(3) recorded_def unmark_def
    by (auto simp: clear_was_set_def map_add_def split: option.splits)
  moreover have "load_file kc n fname ls True st = Inr st'"
    using st1(1) st'(1) by (auto simp: load_file_def split: sum.splits simp del: upt_Suc)
  ultimately show ?thesis using st'(2) by blast
qed

section \<open>Merging after an unset\<close>

lemma assign_value_key_error:
  assumes "orig_type (sym_obj kc s) \<in> BOOL_TRISTATE" "was_set st s" "user_value (usr st) s = None"
  shows "assign_value kc n s v loc st = Inl KeyError"
  using assms by (simp add: assign_value_def assigned_twice_def old_value_str_def)

lemma infer_mode_same:
  assumes w: "wf_deps kc" and n: "card (all_items kc) < n" and c: "Cho c \<in> all_items kc"
  shows "\<exists>st'. infer_mode kc n c v loc st = Inr st' \<and> same_values st st'"
proof -
  define st1 where "st1 = (case c_user_value (usr st) c of
                   None \<Rightarrow> st
                 | Some prev \<Rightarrow>
                     if TRI_TO_STR prev \<noteq> v
                     then add_warning ''both m and y assigned to symbols within the same choice'' (Some loc) st
                     else st)"
  have s1: "same_values st st1" by (simp add: st1_def split: option.splits)
  obtain b st' where st': "choice_set_value kc n c (VStr v) st1 = Inr (b, st')"
    using choice_set_value_total [OF w c n] by blast
  from choice_set_value_same [OF w c st'] s1 have "same_values st st'"
    by (simp add: same_values_def)
  then show ?thesis using st' by (simp add: infer_mode_def Let_def st1_def)
qed

lemma load_line_key_error:
  assumes w: "wf_deps kc" and n: "card (all_items kc) < n" and l: "line_assigns kc raw = Some (s, v)"
    and b: "orig_type (sym_obj kc s) \<in> BOOL_TRISTATE" and u: "was_set st s" "user_value (usr st) s = None"
  shows "load_line kc n fname (i, raw) st = Inl KeyError"
proof (cases "set_match (config_prefix kc) (rstrip raw)")
  case None
  then show ?thesis
    using l b assign_value_key_error [OF b u]
    by (auto simp: load_line_def line_assigns_def Let_def split: option.splits if_splits)
next
  case (Some nv)
  obtain name val where nv: "nv = (name, val)" by (cases nv)
  then have s: "s = SRef False name" "nodes (sym_obj kc s) \<noteq> []" "set_assigns (orig_type (sym_obj kc s)) val = Some v"
    using l Some by (auto simp: line_assigns_def Let_def split: if_splits)
  then have ok: "bool_val_ok (orig_type (sym_obj kc s)) val" using b by (simp add: set_assigns_def split: if_splits)
  define pre where "pre = (case choice (sym_obj kc s) of
                             Some c \<Rightarrow> if take 1 val \<noteq> ''n'' then infer_mode kc n c (take 1 val) (fname, i) st else Inr st
                           | None \<Rightarrow> Inr st)"
  have "\<exists>st1. pre = Inr st1 \<and> same_values st st1"
    using infer_mode_same [OF w n wf_choice_of(4) [OF w]]
    by (cases "choice (sym_obj kc s)") (auto simp: pre_def)
  then obtain st1 where st1: "pre = Inr st1" "same_values st st1" by blast
  then have "assign_value kc n s (take 1 val) (fname, i) st1 = Inl KeyError"
    using assign_value_key_error [OF b] u by (simp add: same_values_def)
  then have "load_set kc n s val (fname, i) st = Inl KeyError"
    using b ok st1(1) by (simp add: load_set_def Let_def pre_def del: One_nat_def)
  then show ?thesis using Some nv s(1,2) by (simp add: load_line_def Let_def)
qed

lemma load_file_key_error:
  assumes "wf_deps kc" "card (all_items kc) < n" "line_assigns kc raw = Some (s, v)"
    and "orig_type (sym_obj kc s) \<in> BOOL_TRISTATE" "was_set st s" "user_value (usr st) s = None"
  shows "load_file kc n fname (raw # ls) False st = Inl KeyError"
proof -
  have "zip [1..<Suc (length (raw # ls))] (raw # ls) = (1, raw) # zip [2..<Suc (Suc (length ls))] ls"
    by (simp add: upt_conv_Cons numeral_2_eq_2 del: upt_Suc)
  then show ?thesis
    using load_line_key_error [OF assms, of fname 1] by (simp add: load_file_def del: upt_Suc)
qed

end
