(* ===== verification/Menu_Walk.thy ===== *)
theory Menu_Walk
  imports Config
begin

text \<open>
  The iterative walk over the menu tree (\<^verbatim>\<open>node_iter\<close> and the loop of
  \<^verbatim>\<open>_config_contents\<close>): it follows the pointers \<^verbatim>\<open>list\<close>, \<^verbatim>\<open>next\<close> and \<^verbatim>\<open>parent\<close> of the
  nodes. Against it stands a tree as a datatype with its recursive traversal: on pointers
  that represent a tree the walk returns and is that traversal.
\<close>

section \<open>The walk\<close>

text \<open>
  Going up: the nodes passed on the way, and the next node. The number bounds the climb;
  None means it was not enough (on cyclic parents the source does not return).
\<close>

primrec climb :: "kconfig \<Rightarrow> nat \<Rightarrow> nat \<Rightarrow> (nat list \<times> nat option) option" where
  "climb kc 0 i = None"
| "climb kc (Suc f) i =
     (case parent (nodetab kc i) of
        None \<Rightarrow> Some ([], None)
      | Some p \<Rightarrow>
          (case nd_next (nodetab kc p) of
             Some x \<Rightarrow> Some ([p], Some x)
           | None \<Rightarrow> map_option (\<lambda>(ps, r). (p # ps, r)) (climb kc f p)))"

definition advance :: "kconfig \<Rightarrow> nat \<Rightarrow> nat \<Rightarrow> (nat list \<times> nat option) option" where
  "advance kc f i =
     (case nd_list (nodetab kc i) of
        Some l \<Rightarrow> Some ([], Some l)
      | None \<Rightarrow>
          (case nd_next (nodetab kc i) of
             Some x \<Rightarrow> Some ([], Some x)
           | None \<Rightarrow> climb kc f i))"

text \<open>What happens on a walk: it leaves a menu for its successor, or visits a node.\<close>

datatype walk_event = Leave nat | Visit nat

primrec walk :: "kconfig \<Rightarrow> nat \<Rightarrow> nat \<Rightarrow> walk_event list option" where
  "walk kc 0 i = None"
| "walk kc (Suc f) i =
     (case advance kc f i of
        None \<Rightarrow> None
      | Some (ps, None) \<Rightarrow> Some (map Leave ps)
      | Some (ps, Some x) \<Rightarrow> map_option (\<lambda>es. map Leave ps @ Visit x # es) (walk kc f x))"

fun visits :: "walk_event list \<Rightarrow> nat list" where
  "visits [] = []"
| "visits (Visit i # es) = i # visits es"
| "visits (Leave i # es) = visits es"

text \<open>\<^verbatim>\<open>unique_syms\<close>: only the first node of a symbol.\<close>

fun first_nodes :: "kconfig \<Rightarrow> sref set \<Rightarrow> nat list \<Rightarrow> nat list" where
  "first_nodes kc seen [] = []"
| "first_nodes kc seen (i # is) =
     (case item (nodetab kc i) of
        ISym s \<Rightarrow> if s \<in> seen then first_nodes kc seen is else i # first_nodes kc (insert s seen) is
      | _ \<Rightarrow> i # first_nodes kc seen is)"

definition node_iter :: "kconfig \<Rightarrow> nat \<Rightarrow> bool \<Rightarrow> nat list option" where
  "node_iter kc f unique_syms =
     map_option (\<lambda>es. if unique_syms then first_nodes kc {} (visits es) else visits es)
       (walk kc f (top_node kc))"

section \<open>Trees\<close>

datatype mtree = MNode nat "mtree list"

text \<open>\<open>repr kc p i ts\<close>: the list that starts with the pointer \<open>i\<close> is the trees \<open>ts\<close>, with
  parent \<open>p\<close>.\<close>

fun repr :: "kconfig \<Rightarrow> nat \<Rightarrow> nat option \<Rightarrow> mtree list \<Rightarrow> bool" where
  "repr kc p i [] \<longleftrightarrow> i = None"
| "repr kc p i (MNode j cs # ts) \<longleftrightarrow>
     i = Some j \<and> parent (nodetab kc j) = Some p \<and>
     repr kc j (nd_list (nodetab kc j)) cs \<and> repr kc p (nd_next (nodetab kc j)) ts"

text \<open>The traversal of a tree and of a list of trees.\<close>

fun tree_walk :: "mtree \<Rightarrow> walk_event list" where
  "tree_walk (MNode i cs) =
     Visit i # concat (map tree_walk cs) @ (if cs = [] then [] else [Leave i])"

fun preorder :: "mtree \<Rightarrow> nat list" where
  "preorder (MNode i cs) = i # concat (map preorder cs)"

definition represents :: "kconfig \<Rightarrow> mtree list \<Rightarrow> bool" where
  "represents kc ts \<longleftrightarrow>
     repr kc (top_node kc) (nd_list (nodetab kc (top_node kc))) ts \<and>
     parent (nodetab kc (top_node kc)) = None \<and> nd_next (nodetab kc (top_node kc)) = None"

fun tree_size :: "mtree \<Rightarrow> nat" where
  "tree_size (MNode i cs) = Suc (sum_list (map tree_size cs))"

section \<open>The walk of a tree\<close>

text \<open>
  The rest of a walk once the subtree of \<open>i\<close> is done: it goes on with the next node, or
  up. Both as relations without a bound.
\<close>

inductive after :: "kconfig \<Rightarrow> nat \<Rightarrow> walk_event list \<Rightarrow> bool"
  and onward :: "kconfig \<Rightarrow> nat \<Rightarrow> walk_event list \<Rightarrow> bool" for kc where
  next_node: "nd_next (nodetab kc i) = Some x \<Longrightarrow> onward kc x es \<Longrightarrow> after kc i (Visit x # es)"
| up: "nd_next (nodetab kc i) = None \<Longrightarrow> parent (nodetab kc i) = Some p \<Longrightarrow> after kc p es \<Longrightarrow>
    after kc i (Leave p # es)"
| stop: "nd_next (nodetab kc i) = None \<Longrightarrow> parent (nodetab kc i) = None \<Longrightarrow> after kc i []"
| down: "nd_list (nodetab kc i) = Some l \<Longrightarrow> onward kc l es \<Longrightarrow> onward kc i (Visit l # es)"
| leaf: "nd_list (nodetab kc i) = None \<Longrightarrow> after kc i es \<Longrightarrow> onward kc i es"

text \<open>The last tree of a list continues with the parent.\<close>

lemma repr_onward:
  "repr kc p (Some i) (MNode i cs # ts) \<Longrightarrow> after kc p es \<Longrightarrow>
     onward kc i (tl (tree_walk (MNode i cs)) @ concat (map tree_walk ts) @ Leave p # es)"
proof (induction "size_list size (MNode i cs # ts)" arbitrary: p i cs ts es rule: less_induct)
  case less
  have r: "repr kc i (nd_list (nodetab kc i)) cs" "repr kc p (nd_next (nodetab kc i)) ts"
    "parent (nodetab kc i) = Some p"
    using less.prems(1) by auto
  have a: "after kc i (concat (map tree_walk ts) @ Leave p # es)"
  proof (cases ts)
    case Nil
    then show ?thesis using r(2,3) less.prems(2) by (auto intro: up)
  next
    case (Cons t ts')
    obtain j ds where t: "t = MNode j ds" by (cases t)
    have n: "nd_next (nodetab kc i) = Some j" using r(2) Cons t by simp
    have "onward kc j (tl (tree_walk (MNode j ds)) @ concat (map tree_walk ts') @ Leave p # es)"
      by (rule less.hyps) (use r(2) n Cons t less.prems(2) in auto)
    then show ?thesis using next_node [OF n] Cons t by simp
  qed
  show ?case
  proof (cases cs)
    case Nil
    then show ?thesis using r(1) a by (auto intro: leaf)
  next
    case (Cons c cs')
    obtain j ds where c: "c = MNode j ds" by (cases c)
    have n: "nd_list (nodetab kc i) = Some j" using r(1) Cons c by simp
    have "onward kc j (tl (tree_walk (MNode j ds)) @ concat (map tree_walk cs') @ Leave i #
        concat (map tree_walk ts) @ Leave p # es)"
      by (rule less.hyps) (use r(1) n Cons c a in auto)
    then show ?thesis using down [OF n] Cons c by simp
  qed
qed

lemma represents_onward:
  assumes "represents kc ts"
  shows "onward kc (top_node kc)
    (concat (map tree_walk ts) @ (if ts = [] then [] else [Leave (top_node kc)]))"
proof -
  let ?t = "top_node kc"
  have r: "repr kc ?t (nd_list (nodetab kc ?t)) ts" and a: "after kc ?t []"
    using assms by (auto simp: represents_def intro: stop)
  show ?thesis
  proof (cases ts)
    case Nil
    then show ?thesis using r a by (auto intro: leaf)
  next
    case (Cons t ts')
    obtain j cs where t: "t = MNode j cs" by (cases t)
    have n: "nd_list (nodetab kc ?t) = Some j" using r Cons t by simp
    have "onward kc j (tl (tree_walk (MNode j cs)) @ concat (map tree_walk ts') @ [Leave ?t])"
      by (rule repr_onward [OF _ a]) (use r n Cons t in simp)
    then show ?thesis using down [OF n] Cons t by simp
  qed
qed

section \<open>Enough fuel\<close>

lemma climb_mono: "climb kc f i = Some r \<Longrightarrow> f \<le> g \<Longrightarrow> climb kc g i = Some r"
proof (induction f arbitrary: i g r)
  case (Suc f)
  then obtain g' where g: "g = Suc g'" "f \<le> g'" by (cases g) auto
  show ?case
  proof (cases "parent (nodetab kc i)")
    case (Some p)
    show ?thesis
    proof (cases "nd_next (nodetab kc p)")
      case None
      obtain r1 where "climb kc f p = Some r1" using Suc.prems(1) Some None by auto
      with Suc.IH [OF this g(2)] Suc.prems(1) Some None g(1) show ?thesis by simp
    qed (use Suc.prems(1) g(1) Some in simp)
  qed (use Suc.prems(1) g(1) in simp)
qed simp

lemma advance_mono: "advance kc f i = Some r \<Longrightarrow> f \<le> g \<Longrightarrow> advance kc g i = Some r"
  using climb_mono [of kc f i r g]
  by (cases "nd_list (nodetab kc i)"; cases "nd_next (nodetab kc i)") (simp_all add: advance_def)

lemma walk_mono: "walk kc f i = Some es \<Longrightarrow> f \<le> g \<Longrightarrow> walk kc g i = Some es"
proof (induction f arbitrary: i g es)
  case (Suc f)
  then obtain g' where g: "g = Suc g'" "f \<le> g'" by (cases g) auto
  obtain ps r where a: "advance kc f i = Some (ps, r)"
    using Suc.prems(1) by (auto split: option.splits)
  have "advance kc g' i = Some (ps, r)" by (rule advance_mono [OF a g(2)])
  then show ?case
  proof (cases r)
    case (Some x)
    obtain es1 where "walk kc f x = Some es1" using Suc.prems(1) a Some by auto
    with Suc.IH [OF this g(2)] Suc.prems(1) Some a \<open>advance kc g' i = Some (ps, r)\<close> g(1)
    show ?thesis by simp
  qed (use Suc.prems(1) a g(1) in simp)
qed simp

lemma walk_Suc: "walk kc f i = Some es \<Longrightarrow> walk kc (Suc f) i = Some es"
  by (erule walk_mono) simp

text \<open>What follows the subtree of \<open>i\<close>, with fuel.\<close>

definition finishes :: "kconfig \<Rightarrow> nat \<Rightarrow> nat \<Rightarrow> walk_event list \<Rightarrow> bool" where
  "finishes kc f i es \<longleftrightarrow>
     (case nd_next (nodetab kc i) of
        Some x \<Rightarrow> \<exists>es'. es = Visit x # es' \<and> walk kc f x = Some es'
      | None \<Rightarrow> \<exists>ps r. climb kc f i = Some (ps, r) \<and>
          (case r of
             None \<Rightarrow> es = map Leave ps
           | Some x \<Rightarrow> \<exists>es'. es = map Leave ps @ Visit x # es' \<and> walk kc f x = Some es'))"

lemma finishes_walk:
  assumes "nd_list (nodetab kc i) = None" "finishes kc f i es" shows "walk kc (Suc f) i = Some es"
  using assms by (auto simp: finishes_def advance_def split: option.splits)

declare walk.simps(2) [simp del]

lemma finishes_up:
  assumes "nd_next (nodetab kc i) = None" "parent (nodetab kc i) = Some p" "finishes kc f p es"
  shows "finishes kc (Suc f) i (Leave p # es)"
proof (cases "nd_next (nodetab kc p)")
  case None
  then obtain ps r where c: "climb kc f p = Some (ps, r)"
    and r: "case r of None \<Rightarrow> es = map Leave ps
      | Some x \<Rightarrow> \<exists>es'. es = map Leave ps @ Visit x # es' \<and> walk kc f x = Some es'"
    using assms(3) by (auto simp: finishes_def)
  have "climb kc (Suc f) i = Some (p # ps, r)" using assms(2) None c by simp
  with assms(1) r show ?thesis
    using walk_Suc by (auto simp: finishes_def split: option.splits)
next
  case (Some x)
  then obtain es' where "es = Visit x # es'" "walk kc f x = Some es'"
    using assms(3) by (auto simp: finishes_def)
  then show ?thesis
    using assms(1,2) Some walk_Suc by (auto simp: finishes_def)
qed

text \<open>The bound: one step for every event, and the last one.\<close>

lemma walk_complete:
  shows "after kc i es \<Longrightarrow> finishes kc (Suc (length es)) i es"
    and "onward kc j es' \<Longrightarrow> walk kc (Suc (Suc (length es'))) j = Some es'"
proof (induction rule: after_onward.inducts)
  case (next_node i x es)
  then show ?case by (simp add: finishes_def)
next
  case (up i p es)
  then show ?case using finishes_up by simp
next
  case (stop i)
  then show ?case by (simp add: finishes_def)
next
  case (down i l es)
  then show ?case by (simp add: advance_def walk.simps(2))
next
  case (leaf i es)
  then show ?case using finishes_walk by simp
qed

lemma visits_append [simp]: "visits (a @ b) = visits a @ visits b"
  by (induction a rule: visits.induct) auto

lemma visits_tree: "visits (tree_walk t) = preorder t"
proof (induction t rule: tree_walk.induct)
  case (1 i cs)
  then have "visits (concat (map tree_walk cs)) = concat (map preorder cs)"
    by (induction cs) auto
  then show ?case by simp
qed

lemma visits_trees: "visits (concat (map tree_walk ts)) = concat (map preorder ts)"
  by (induction ts) (auto simp: visits_tree)

lemma length_tree_walk: "length (tree_walk t) \<le> 2 * length (preorder t)"
proof (induction t rule: tree_walk.induct)
  case (1 i cs)
  then have "length (concat (map tree_walk cs)) \<le> 2 * length (concat (map preorder cs))"
  proof (induction cs)
    case (Cons c cs)
    have "length (tree_walk c) \<le> 2 * length (preorder c)" by (rule Cons.prems) simp
    moreover have "length (concat (map tree_walk cs)) \<le> 2 * length (concat (map preorder cs))"
      by (rule Cons.IH) (use Cons.prems in simp)
    ultimately show ?case by simp
  qed simp
  then show ?case by simp
qed

lemma length_tree_walks: "length (concat (map tree_walk ts)) \<le> 2 * length (concat (map preorder ts))"
proof (induction ts)
  case (Cons t ts)
  then show ?case using length_tree_walk [of t] by simp
qed simp

lemma walk_tree:
  assumes "represents kc ts" "2 * length (concat (map preorder ts)) + 3 \<le> f"
  shows "walk kc f (top_node kc) =
    Some (concat (map tree_walk ts) @ (if ts = [] then [] else [Leave (top_node kc)]))"
  by (rule walk_mono [OF walk_complete(2) [OF represents_onward [OF assms(1)]]])
    (use length_tree_walks [of ts] assms(2) in auto)

text \<open>
  C17. The iterative walk of \<^verbatim>\<open>node_iter\<close> over the pointers of a menu tree is the recursive
  preorder traversal of the tree, and it ends: a node comes before its children and these
  before the next node. With \<^verbatim>\<open>unique_syms\<close> only the first node of a symbol counts. Two steps
  for every node, and three more, suffice.
\<close>

theorem node_iter_preorder:
  assumes "represents kc ts" "2 * length (concat (map preorder ts)) + 3 \<le> f"
  shows "node_iter kc f False = Some (concat (map preorder ts)) \<and>
    node_iter kc f True = Some (first_nodes kc {} (concat (map preorder ts)))"
  using walk_tree [OF assms] by (auto simp: node_iter_def visits_trees)

end
