(* ===== verification/Write_Config.thy ===== *)
theory Write_Config
  imports Load_Config Menu_Walk
begin

text \<open>
  Writing configurations: \<^verbatim>\<open>Symbol.config_string\<close>, \<^verbatim>\<open>_config_contents\<close>,
  \<^verbatim>\<open>_min_config_contents\<close>, \<^verbatim>\<open>_autoconf_contents\<close>, and the methods that save them.
  Computing a value sets \<^verbatim>\<open>_write_to_conf\<close> as a side effect, so these functions run over
  the state.
\<close>

section \<open>Functions over the state\<close>

type_synonym 'a action = "kstate \<Rightarrow> (exn + 'a) \<times> kstate"

definition return :: "'a \<Rightarrow> 'a action" where
  "return a st = (Inr a, st)"

definition andthen :: "'a action \<Rightarrow> ('a \<Rightarrow> 'b action) \<Rightarrow> 'b action" where
  "andthen m f st = (case m st of (Inl e, st') \<Rightarrow> (Inl e, st') | (Inr a, st') \<Rightarrow> f a st')"

primrec collect :: "('a \<Rightarrow> string action) \<Rightarrow> 'a list \<Rightarrow> string action" where
  "collect f [] = return []"
| "collect f (x # xs) = andthen (f x) (\<lambda>a. andthen (collect f xs) (\<lambda>b. return (a @ b)))"

text \<open>An attribute program run under the current user values.\<close>

definition eval :: "kconfig \<Rightarrow> nat \<Rightarrow> (user_state \<Rightarrow> 'a prog) \<Rightarrow> 'a action" where
  "eval kc n p st = run (get kc n) (p (usr st)) st"

text \<open>\<^verbatim>\<open>sym.str_value\<close> followed by \<^verbatim>\<open>sym._write_to_conf\<close>.\<close>

definition value_and_flag :: "kconfig \<Rightarrow> nat \<Rightarrow> sref \<Rightarrow> (string \<times> bool) action" where
  "value_and_flag kc n s =
     andthen (eval kc n (\<lambda>_. rd_str s)) (\<lambda>v st. (Inr (v, write_to_conf st s), st))"

section \<open>Configuration strings\<close>

definition config_line :: "kconfig \<Rightarrow> sref \<Rightarrow> string \<Rightarrow> string" where
  "config_line kc s val =
     (if orig_type (sym_obj kc s) \<in> BOOL_TRISTATE then
        (if val \<noteq> ''n'' then set_line (config_prefix kc) (sym_name s) val
         else unset_line (config_prefix kc) (sym_name s))
      else if orig_type (sym_obj kc s) \<in> INT_HEX then set_line (config_prefix kc) (sym_name s) val
      else set_line (config_prefix kc) (sym_name s) (quoted val))"

definition config_string :: "kconfig \<Rightarrow> nat \<Rightarrow> sref \<Rightarrow> string action" where
  "config_string kc n s =
     andthen (value_and_flag kc n s) (\<lambda>(val, w).
       return (if \<not> w then [] else config_line kc s val @ [newline]))"

section \<open>The contents of the files\<close>

definition autoconf_line :: "kconfig \<Rightarrow> sref \<Rightarrow> string \<Rightarrow> string" where
  "autoconf_line kc s val =
     (let ty = orig_type (sym_obj kc s); def = ''#define '' @ config_prefix kc @ sym_name s
      in if ty \<in> BOOL_TRISTATE then
           (if val = ''y'' then def @ '' 1'' @ [newline]
            else if val = ''m'' then def @ ''_MODULE 1'' @ [newline]
            else [])
         else if ty = STRING then def @ '' '' @ quoted val @ [newline]
         else (let val' = (if ty = HEX \<and> \<not> (startswith val ''0x'' \<or> startswith val ''0X'')
                           then ''0x'' @ val else val)
               in def @ '' '' @ val' @ [newline]))"

definition autoconf_contents :: "kconfig \<Rightarrow> nat \<Rightarrow> string option \<Rightarrow> string action" where
  "autoconf_contents kc n header =
     andthen (collect (\<lambda>s. andthen (value_and_flag kc n s) (\<lambda>(val, w).
                return (if \<not> w then [] else autoconf_line kc s val))) (unique_defined_syms kc))
       (\<lambda>body. return ((case header of Some h \<Rightarrow> h | None \<Rightarrow> header_header kc) @ body))"

text \<open>
  \<^verbatim>\<open>_config_contents\<close> over the events of the walk. Its two variables: the symbols visited,
  and whether an ``end of'' comment was just written.
\<close>

definition prompt_text :: "kconfig \<Rightarrow> nat \<Rightarrow> string" where
  "prompt_text kc i = (case nd_prompt (nodetab kc i) of Some (t, _) \<Rightarrow> t | None \<Rightarrow> [])"

text \<open>\<^verbatim>\<open>expr_value(e1) and expr_value(e2)\<close>\<close>

definition both_hold :: "kconfig \<Rightarrow> nat \<Rightarrow> expr \<Rightarrow> expr \<Rightarrow> bool action" where
  "both_hold kc n e1 e2 =
     andthen (eval kc n (\<lambda>u. expr_value kc u e1)) (\<lambda>v.
       if v = TN then return False
       else andthen (eval kc n (\<lambda>u. expr_value kc u e2)) (\<lambda>w. return (w \<noteq> TN)))"

text \<open>Leaving a menu, and visiting a node that is not a symbol: whether a comment is written.\<close>

definition leave_comment :: "kconfig \<Rightarrow> nat \<Rightarrow> nat \<Rightarrow> bool action" where
  "leave_comment kc n i =
     (let nd = nodetab kc i
      in andthen (if item nd = IMenu then both_hold kc n (dep nd) (nd_visibility nd) else return False)
           (\<lambda>b. return (b \<and> i \<noteq> top_node kc)))"

definition visit_comment :: "kconfig \<Rightarrow> nat \<Rightarrow> nat \<Rightarrow> bool action" where
  "visit_comment kc n i =
     (let nd = nodetab kc i
      in if item nd = IMenu then both_hold kc n (dep nd) (nd_visibility nd)
         else andthen (eval kc n (\<lambda>u. expr_value kc u (dep nd))) (\<lambda>v.
                return (v \<noteq> TN \<and> item nd = IComment)))"

definition comment_text :: "kconfig \<Rightarrow> nat \<Rightarrow> string" where
  "comment_text kc i =
     [newline] @ ''#'' @ [newline] @ ''# '' @ prompt_text kc i @ [newline] @ ''#'' @ [newline]"

text \<open>One event: the text it adds, and the two variables after it.\<close>

definition config_event ::
  "kconfig \<Rightarrow> nat \<Rightarrow> walk_event \<Rightarrow> sref set \<times> bool \<Rightarrow> (string \<times> sref set \<times> bool) action" where
  "config_event kc n e = (\<lambda>(visited, after_end).
     case e of
       Leave i \<Rightarrow>
         andthen (leave_comment kc n i) (\<lambda>b.
           return (if b then (''# end of '' @ prompt_text kc i @ [newline], visited, True)
                   else ([], visited, after_end)))
     | Visit i \<Rightarrow>
         (case item (nodetab kc i) of
            ISym s \<Rightarrow>
              if s \<in> visited then return ([], visited, after_end)
              else andthen (config_string kc n s) (\<lambda>str.
                     return (if str = [] then ([], insert s visited, after_end)
                             else ((if after_end then [newline] else []) @ str, insert s visited, False)))
          | _ \<Rightarrow>
              andthen (visit_comment kc n i) (\<lambda>b.
                return (if b then (comment_text kc i, visited, False) else ([], visited, after_end)))))"

primrec config_events :: "kconfig \<Rightarrow> nat \<Rightarrow> walk_event list \<Rightarrow> sref set \<times> bool \<Rightarrow> string action" where
  "config_events kc n [] vars = return []"
| "config_events kc n (e # es) vars =
     andthen (config_event kc n e vars) (\<lambda>(txt, vars').
     andthen (config_events kc n es vars') (\<lambda>r. return (txt @ r)))"

text \<open>None: the walk over the menu tree needs more than \<open>f\<close> steps.\<close>

definition config_contents :: "kconfig \<Rightarrow> nat \<Rightarrow> nat \<Rightarrow> string option \<Rightarrow> string action option" where
  "config_contents kc n f header =
     map_option (\<lambda>es. andthen (config_events kc n es ({}, False)) (\<lambda>body.
         return ((case header of Some h \<Rightarrow> h | None \<Rightarrow> config_header kc) @ body)))
       (walk kc f (top_node kc))"

text \<open>\<^verbatim>\<open>_min_config_contents\<close>: the three tests that skip a symbol, in their order.\<close>

definition min_skip :: "kconfig \<Rightarrow> user_state \<Rightarrow> sref \<Rightarrow> bool prog" where
  "min_skip kc u s =
     (let o_s = sym_obj kc s
      in bindp (if choice o_s = None
                then bindp (rd_vis (Sym s)) (\<lambda>v. bindp (expr_value kc u (rev_dep o_s)) (\<lambda>r. Ret (v \<le> r)))
                else Ret False) (\<lambda>unchangeable.
         if unchangeable then Ret True
         else bindp (rd_str s) (\<lambda>val. bindp (str_default kc u s) (\<lambda>d.
           if val = d then Ret True
           else (case choice o_s of
                   None \<Rightarrow> Ret False
                 | Some c \<Rightarrow>
                     if is_optional (choicetab kc c) then Ret False
                     else bindp (selection_from_defaults kc u c) (\<lambda>sel.
                            if sel \<noteq> Some s \<or> orig_type o_s \<noteq> BOOL then Ret False
                            else bindp (rd_tri s) (\<lambda>t. Ret (t = TY))))))))"

definition min_config_contents :: "kconfig \<Rightarrow> nat \<Rightarrow> string option \<Rightarrow> string action" where
  "min_config_contents kc n header =
     andthen (collect (\<lambda>s. andthen (eval kc n (\<lambda>u. min_skip kc u s)) (\<lambda>skip.
                if skip then return [] else config_string kc n s)) (unique_defined_syms kc))
       (\<lambda>body. return ((case header of Some h \<Rightarrow> h | None \<Rightarrow> config_header kc) @ body))"

section \<open>Saving\<close>

text \<open>
  The file system is a map from names to contents; a file that is not there, or cannot be
  read, is None. Writing succeeds.
\<close>

type_synonym file_system = "string \<Rightarrow> string option"

definition contents_eq :: "file_system \<Rightarrow> string \<Rightarrow> string \<Rightarrow> bool" where
  "contents_eq fs fname contents =
     (case fs fname of None \<Rightarrow> False | Some old \<Rightarrow> take (length contents + 1) old = contents)"

definition write_if_changed :: "file_system \<Rightarrow> string \<Rightarrow> string \<Rightarrow> bool \<times> file_system" where
  "write_if_changed fs fname contents =
     (if contents_eq fs fname contents then (False, fs) else (True, fs(fname \<mapsto> contents)))"

text \<open>\<^verbatim>\<open>_save_old\<close>: the file is renamed, an error (no such file) is ignored.\<close>

definition save_old :: "file_system \<Rightarrow> string \<Rightarrow> file_system" where
  "save_old fs fname =
     (case fs fname of None \<Rightarrow> fs | Some c \<Rightarrow> (fs(fname @ ''.old'' \<mapsto> c))(fname := None))"

definition write_config ::
  "kconfig \<Rightarrow> nat \<Rightarrow> nat \<Rightarrow> file_system \<Rightarrow> string \<Rightarrow> string option \<Rightarrow> bool \<Rightarrow> (string \<times> file_system) action option" where
  "write_config kc n f fs fname header keep_old =
     map_option (\<lambda>a. andthen a (\<lambda>contents.
         return (if contents_eq fs fname contents
                 then (''No change to configuration in '' @ single_quoted fname, fs)
                 else (''Configuration saved to '' @ single_quoted fname,
                       (if keep_old then save_old fs fname else fs)(fname \<mapsto> contents)))))
       (config_contents kc n f header)"

definition write_min_config ::
  "kconfig \<Rightarrow> nat \<Rightarrow> file_system \<Rightarrow> string \<Rightarrow> string option \<Rightarrow> (string \<times> file_system) action" where
  "write_min_config kc n fs fname header =
     andthen (min_config_contents kc n header) (\<lambda>contents.
       let (changed, fs') = write_if_changed fs fname contents
       in return ((if changed then ''Minimal configuration saved to ''
                   else ''No change to minimal configuration in '') @ single_quoted fname, fs'))"

definition write_autoconf ::
  "kconfig \<Rightarrow> nat \<Rightarrow> file_system \<Rightarrow> string \<Rightarrow> string option \<Rightarrow> (string \<times> file_system) action" where
  "write_autoconf kc n fs fname header =
     andthen (autoconf_contents kc n header) (\<lambda>contents.
       let (changed, fs') = write_if_changed fs fname contents
       in return ((if changed then ''Kconfig header saved to '' else ''No change to Kconfig header in '') @
                  single_quoted fname, fs'))"

end
