(* ===== verification/Flags.thy ===== *)
theory Flags
  imports Write_Config
begin

text \<open>
  The flag \<^verbatim>\<open>_write_to_conf\<close>: only the computation of a symbol's own value writes it, so
  it stays as it is once the value is cached.
\<close>

section \<open>Who writes the flag\<close>

text \<open>\<open>sets_only S p\<close>: whatever the attributes are, \<open>p\<close> writes only flags of symbols in \<open>S\<close>.\<close>

primrec sets_only :: "sref set \<Rightarrow> 'a prog \<Rightarrow> bool" where
  "sets_only S (Ret a) = True"
| "sets_only S (Raise e) = True"
| "sets_only S (ReadQ q k) = (\<forall>v. sets_only S (k v))"
| "sets_only S (SetW s b p) = (s \<in> S \<and> sets_only S p)"
| "sets_only S (Warn m p) = sets_only S p"

lemma sets_only_bindp [intro!]:
  "sets_only S p \<Longrightarrow> (\<And>a. sets_only S (f a)) \<Longrightarrow> sets_only S (bindp p f)"
  by (induction p) auto

lemma sets_only_rd [simp]:
  "sets_only S (rd_vis x)" "sets_only S (rd_tri s)" "sets_only S (rd_str s)" "sets_only S (rd_sel c)"
  "sets_only S (rd_ass x)"
  by (simp_all add: rd_vis_def rd_tri_def rd_str_def rd_sel_def rd_ass_def)

lemma sets_choice [simp]:
  "sets_only S (choice_type kc c)" "sets_only S (choice_tri kc u c)" "sets_only S (choice_str kc u c)"
proof -
  show "sets_only S (choice_type kc c)" by (auto simp: choice_type_def)
  then show "sets_only S (choice_tri kc u c)" by (auto simp: choice_tri_def Let_def)
  then show "sets_only S (choice_str kc u c)" by (auto simp: choice_str_def)
qed

lemma sets_rel_compare [simp]: "sets_only S (rel_compare kc a b)"
  unfolding rel_compare_def str_compare_def sym_to_num_def by (auto split: option.splits)

lemma sets_expr_value [simp]: "sets_only S (expr_value kc u e)"
  by (induction e) (auto split: sc.splits)

lemma sets_expr_str_value [simp]: "sets_only S (expr_str_value kc u e)"
  by (induction kc u e rule: expr_str_value.induct) auto

lemma sets_first_cond [simp]: "sets_only S (first_cond kc u cond xs)"
  by (induction xs) auto

lemma sets_types [simp]: "sets_only S modules_type" "sets_only S (sym_type kc u s)" "sets_only S (sc_type kc u x)"
proof -
  show "sets_only S modules_type" by (auto simp: modules_type_def)
  then show t: "sets_only S (sym_type kc u s)" for s by (auto simp: sym_type_def Let_def split: option.splits)
  show "sets_only S (sc_type kc u x)" by (cases x) (auto simp: t)
qed

lemma sets_prompt_vis [simp]: "sets_only S (prompt_vis kc u ns v)"
  by (induction ns arbitrary: v) (auto split: option.splits)

lemma sets_visibility [simp]: "sets_only S (visibility kc u x)"
  by (auto simp: visibility_def promote_vis_def Let_def split: sc.splits option.splits)

lemma sets_first_visible [simp]: "sets_only S (first_visible ss)"
  by (induction ss) auto

lemma sets_default_selection: "sets_only S p \<Longrightarrow> sets_only S (default_selection kc u ds p)"
  by (induction ds) (auto split: expr.splits sc.splits)

lemma sets_selection [simp]: "sets_only S (selection kc u c)"
  by (auto simp: selection_def selection_from_defaults_def split: option.splits
      intro!: sets_default_selection)

lemma sets_assignable [simp]:
  "sets_only S (choice_assignable kc u c)" "sets_only S (sym_assignable kc u s)"
  by (auto simp: choice_assignable_def sym_assignable_def bool_or_implied_def Let_def split: option.splits)

lemma sets_warn_select [simp]: "sets_only S (warn_select_unsatisfied_deps kc u s)"
proof -
  have v: "sets_only S (sc_str_value kc u x)" for x by (cases x) auto
  have l: "sets_only S (select_line kc u e)" for e
    by (auto simp: select_line_def Let_def v split: expr.splits)
  have "sets_only S (select_lines kc u e es)" for e es by (induction es) (auto simp: l)
  then show ?thesis by (auto simp: warn_select_unsatisfied_deps_def Let_def v)
qed

lemma sets_sym_tri: "sets_only {s} (sym_tri kc u s)"
  by (auto simp: sym_tri_def tri_from_defaults_def tri_with_selects_def tri_promote_def Let_def
      split: option.splits uval.splits)

lemma sets_sym_str: "sets_only {s} (sym_str kc u s)"
  by (auto simp: sym_str_def num_str_def string_str_def active_range_def num_in_range_def
      num_from_defaults_def clamp_default_def Let_def split: option.splits uval.splits)

section \<open>Reading a cached state\<close>

lemma andthen_Inr:
  "andthen m f st = (Inr b, st') \<longleftrightarrow> (\<exists>a st1. m st = (Inr a, st1) \<and> f a st1 = (Inr b, st'))"
  by (auto simp: andthen_def split: prod.splits sum.splits)

lemma get_cached: "cache st q = Some v \<Longrightarrow> get kc n q st = (Inr v, st)"
  by (cases n) simp_all

text \<open>\<open>known st s w\<close>: the string value of \<open>s\<close> is cached and is \<open>w\<close>.\<close>

definition known :: "kstate \<Rightarrow> sref \<Rightarrow> string \<Rightarrow> bool" where
  "known st s w \<longleftrightarrow> cache st (QStr s) = Some (VS w)"

lemma value_and_flag_known: "known st s w \<Longrightarrow> value_and_flag kc n s st = (Inr (w, write_to_conf st s), st)"
  by (simp add: value_and_flag_def andthen_def eval_def rd_str_def known_def get_cached)

lemma config_string_known:
  "known st s w \<Longrightarrow> config_string kc n s st =
     (Inr (if write_to_conf st s then config_line kc s w @ [newline] else []), st)"
  by (simp add: config_string_def andthen_def value_and_flag_known return_def)

text \<open>A cached string is cached as a string, and the tristate value behind it as well.\<close>

lemma supported_str:
  assumes "supported kc u ca" "ca (QStr s) = Some v"
  shows "\<exists>w. v = VS w"
proof -
  have "interp (cache_reader ca) (ebody kc u (QStr s)) = Inr v"
    using assms by (simp add: supported_def)
  then show ?thesis by (auto simp: ebody_def attr_body_def interp_bindp_Inr)
qed

lemma supported_tri:
  assumes "supported kc u ca" "ca (QStr s) = Some (VS w)" "orig_type (sym_obj kc s) \<in> BOOL_TRISTATE"
  shows "\<exists>v. ca (QTri s) = Some v \<and> TRI_TO_STR (un_tri v) = w"
proof -
  have "interp (cache_reader ca) (ebody kc u (QStr s)) = Inr (VS w)"
    using assms by (simp add: supported_def)
  then show ?thesis
    using assms(3)
    by (auto simp: ebody_def attr_body_def sym_str_def Let_def interp_bindp_Inr rd_tri_def
        split: sum.splits)
qed

section \<open>The flag stays once the value is cached\<close>

definition settled :: "kstate \<Rightarrow> sref \<Rightarrow> bool" where
  "settled st s \<longleftrightarrow> cache st (QStr s) \<noteq> None"

lemma settled_mono: "settled st s \<Longrightarrow> cache st \<subseteq>\<^sub>m cache st' \<Longrightarrow> settled st' s"
  by (auto simp: settled_def map_le_def dom_def)

lemma run_keeps_flag:
  assumes get: "\<And>q st r st'. good kc u st \<Longrightarrow> settled st s \<Longrightarrow> get kc n q st = (r, st') \<Longrightarrow>
      write_to_conf st' s = write_to_conf st s"
  shows "good kc u st \<Longrightarrow> settled st s \<Longrightarrow> sets_only S p \<Longrightarrow> s \<notin> S \<Longrightarrow> run (get kc n) p st = (r, st') \<Longrightarrow>
    write_to_conf st' s = write_to_conf st s"
proof (induction p arbitrary: st)
  case (ReadQ q k)
  obtain r1 st1 where r1: "get kc n q st = (r1, st1)" by fastforce
  note g1 = caching.inv_rd [OF ReadQ.prems(1) r1] caching.grows [OF ReadQ.prems(1) r1]
  have f1: "write_to_conf st1 s = write_to_conf st s" by (rule get [OF ReadQ.prems(1,2) r1])
  show ?case
  proof (cases r1)
    case (Inl e)
    with r1 f1 ReadQ.prems(5) show ?thesis by auto
  next
    case (Inr v)
    then have "run (get kc n) (k v) st1 = (r, st')" using ReadQ.prems(5) r1 by simp
    from ReadQ.IH [OF _ g1(1) settled_mono [OF ReadQ.prems(2) g1(2)] _ ReadQ.prems(4) this] ReadQ.prems(3) f1
    show ?thesis by simp
  qed
next
  case (SetW t b p)
  let ?st1 = "st\<lparr>write_to_conf := (write_to_conf st)(t := b)\<rparr>"
  have "good kc u ?st1" "settled ?st1 s" using SetW.prems(1,2) by (simp_all add: good_def settled_def)
  from SetW.IH [OF this _ SetW.prems(4)] SetW.prems(3-5) show ?case by auto
next
  case (Warn m p)
  have "good kc u (add_warning m None st)" "settled (add_warning m None st) s"
    using Warn.prems(1,2) by (simp_all add: good_def settled_def)
  from Warn.IH [OF this _ Warn.prems(4)] Warn.prems(3,5) show ?case by simp
qed auto

text \<open>The bodies that write the flag of \<open>s\<close> are those of values that are cached.\<close>

lemma sets_other:
  assumes g: "good kc u st" and s: "settled st s" and q: "cache st q = None"
  shows "\<exists>S. s \<notin> S \<and> sets_only S (attr_body kc u q)"
proof (cases q)
  case (QTri t)
  show ?thesis
  proof (cases "t = s")
    case True
    have "orig_type (sym_obj kc s) \<notin> BOOL_TRISTATE"
    proof
      assume b: "orig_type (sym_obj kc s) \<in> BOOL_TRISTATE"
      have sup: "supported kc u (cache st)" using g by (simp add: good_def)
      obtain v where v: "cache st (QStr s) = Some v" using s unfolding settled_def by blast
      then obtain w where "cache st (QStr s) = Some (VS w)" using supported_str [OF sup] by blast
      from supported_tri [OF sup this b] show False using q QTri True by auto
    qed
    then have "sets_only {} (sym_tri kc u s)" by (simp add: sym_tri_def Let_def)
    then show ?thesis using QTri True by (intro exI [of _ "{}"]) (auto simp: attr_body_def)
  next
    case False
    then show ?thesis using QTri sets_sym_tri [of t kc u]
      by (intro exI [of _ "{t}"]) (auto simp: attr_body_def)
  qed
next
  case (QStr t)
  then have "t \<noteq> s" using s q by (auto simp: settled_def)
  then show ?thesis using QStr sets_sym_str [of t kc u]
    by (intro exI [of _ "{t}"]) (auto simp: attr_body_def)
qed (auto simp: attr_body_def split: sc.splits intro!: exI [of _ "{}"])

lemma get_keeps_flag:
  "good kc u st \<Longrightarrow> settled st s \<Longrightarrow> get kc n q st = (r, st') \<Longrightarrow>
   write_to_conf st' s = write_to_conf st s"
proof (induction n arbitrary: q st r st')
  case (Suc n)
  show ?case
  proof (cases "cache st q")
    case None
    have u: "usr st = u" using Suc.prems(1) by (simp add: good_def)
    obtain r1 st1 where r1: "run (get kc n) (attr_body kc u q) st = (r1, st1)" by fastforce
    obtain S where S: "s \<notin> S" "sets_only S (attr_body kc u q)"
      using sets_other [OF Suc.prems(1,2) None] by blast
    have "write_to_conf st1 s = write_to_conf st s"
      by (rule run_keeps_flag [OF Suc.IH Suc.prems(1,2) S(2,1) r1])
    then show ?thesis using Suc.prems(3) None r1 u by (auto split: sum.splits)
  qed (use Suc.prems(3) in auto)
qed (auto split: option.splits)

section \<open>Functions that only read values\<close>

text \<open>They keep the user values, and the cached values stay those of the user values.\<close>

definition grown :: "kconfig \<Rightarrow> user_state \<Rightarrow> kstate \<Rightarrow> kstate \<Rightarrow> bool" where
  "grown kc u st st' \<longleftrightarrow>
     good kc u st' \<and> cache st \<subseteq>\<^sub>m cache st' \<and>
     (\<forall>s. settled st s \<longrightarrow> write_to_conf st' s = write_to_conf st s)"

lemma grown_refl: "good kc u st \<Longrightarrow> grown kc u st st"
  by (simp add: grown_def)

lemma grown_trans: "grown kc u st st1 \<Longrightarrow> grown kc u st1 st2 \<Longrightarrow> grown kc u st st2"
  unfolding grown_def using settled_mono map_le_trans by metis

definition reading :: "kconfig \<Rightarrow> 'a action \<Rightarrow> bool" where
  "reading kc m \<longleftrightarrow>
     (\<forall>u st r st'. good kc u st \<longrightarrow> m st = (r, st') \<longrightarrow> grown kc u st st')"

lemma readingD: "reading kc m \<Longrightarrow> good kc u st \<Longrightarrow> m st = (r, st') \<Longrightarrow> grown kc u st st'"
  unfolding reading_def by blast

lemma reading_return [simp]: "reading kc (return a)"
  by (simp add: reading_def return_def grown_refl)

lemma reading_andthen [simp]:
  assumes "reading kc m" "\<And>a. reading kc (f a)" shows "reading kc (andthen m f)"
  unfolding reading_def
proof (intro allI impI)
  fix u st r st' assume g: "good kc u st" and e: "andthen m f st = (r, st')"
  obtain r1 st1 where m: "m st = (r1, st1)" by fastforce
  from readingD [OF assms(1) g m] have g1: "grown kc u st st1" .
  show "grown kc u st st'"
  proof (cases r1)
    case (Inl x)
    with e m g1 show ?thesis by (simp add: andthen_def)
  next
    case (Inr a)
    with e m have "f a st1 = (r, st')" by (simp add: andthen_def)
    have "good kc u st1" using g1 by (simp add: grown_def)
    from readingD [OF assms(2) this \<open>f a st1 = (r, st')\<close>] have "grown kc u st1 st'" .
    then show ?thesis by (rule grown_trans [OF g1])
  qed
qed

lemma reading_collect [simp]: "(\<And>x. reading kc (f x)) \<Longrightarrow> reading kc (collect f xs)"
  by (induction xs) simp_all

lemma reading_eval [simp]:
  assumes "\<And>u. sets_only {} (p u)" shows "reading kc (eval kc n p)"
  unfolding reading_def eval_def
proof (intro allI impI)
  fix u st r st' assume g: "good kc u st" and e: "run (get kc n) (p (usr st)) st = (r, st')"
  have "write_to_conf st' s = write_to_conf st s" if "settled st s" for s
    by (rule run_keeps_flag [OF get_keeps_flag g that assms _ e]) simp_all
  with caching.run_grows [OF g e] show "grown kc u st st'" by (simp add: grown_def)
qed

lemma reading_value_and_flag [simp]: "reading kc (value_and_flag kc n s)"
  unfolding value_and_flag_def
  by (intro reading_andthen reading_eval) (simp_all add: reading_def grown_refl)

lemma reading_config_string [simp]: "reading kc (config_string kc n s)"
  unfolding config_string_def by (intro reading_andthen) auto

lemma reading_both_hold [simp]: "reading kc (both_hold kc n e1 e2)"
  unfolding both_hold_def by (intro reading_andthen) (auto intro: reading_andthen)

lemma reading_config_event: "reading kc (config_event kc n e vars)"
proof -
  obtain visited ae where v: "vars = (visited, ae)" by (cases vars)
  show ?thesis
    unfolding v config_event_def leave_comment_def visit_comment_def Let_def
    by (auto split: walk_event.splits node_item.splits intro!: reading_andthen)
qed

lemma reading_config_events: "reading kc (config_events kc n es vars)"
  by (induction es arbitrary: vars)
    (auto split: prod.splits intro!: reading_andthen reading_config_event)

lemma reading_config_contents: "config_contents kc n f header = Some a \<Longrightarrow> reading kc a"
  by (auto simp: config_contents_def intro!: reading_andthen reading_config_events)

lemma reading_write_config: "write_config kc n f fs fname header keep_old = Some a \<Longrightarrow> reading kc a"
  by (auto simp: write_config_def dest: reading_config_contents)

lemma sets_min_skip [simp]: "sets_only S (min_skip kc u s)"
  by (auto simp: min_skip_def str_default_def selection_from_defaults_def Let_def
      split: option.splits intro!: sets_default_selection)

lemma reading_write_min_config: "reading kc (write_min_config kc n fs fname header)"
  unfolding write_min_config_def min_config_contents_def
  by (auto intro!: reading_andthen split: prod.splits)

lemma reading_write_autoconf: "reading kc (write_autoconf kc n fs fname header)"
  unfolding write_autoconf_def autoconf_contents_def
  by (auto intro!: reading_andthen split: prod.splits)

end
