(* ===== verification/Sync_Deps.thy ===== *)
theory Sync_Deps
  imports Write_Config
begin

text \<open>
  Incremental builds: \<^verbatim>\<open>Kconfig.sync_deps\<close> compares the value of every symbol with the one
  recorded in \<^verbatim>\<open>auto.conf\<close>, touches a file for each symbol that changed, and records the
  new values. What a build tool sees of a touched file is its time, so the state of the disk has,
  besides the contents, the files in the order in which they were opened for writing. Directories
  are not modelled.
\<close>

section \<open>The files\<close>

fun split_lines :: "string \<Rightarrow> string list" where
  "split_lines [] = []"
| "split_lines (c # cs) =
     (if c = newline then [c] # split_lines cs
      else case split_lines cs of [] \<Rightarrow> [[c]] | l # ls \<Rightarrow> (c # l) # ls)"

definition lower :: "string \<Rightarrow> string" where
  "lower s = map (\<lambda>c. let n = (of_char c :: nat) in if 65 \<le> n \<and> n \<le> 90 then char_of (n + 32) else c) s"

definition auto_conf :: "string \<Rightarrow> string" where
  "auto_conf path = path_join path ''auto.conf''"

definition dep_file :: "string \<Rightarrow> string \<Rightarrow> string" where
  "dep_file path name = path @ ''/'' @ replace_char CHR ''_'' ''/'' (lower name) @ ''.h''"

record disk =
  dk_files :: file_system
  dk_writes :: "string list"

text \<open>Opening for writing creates or truncates the file, and updates its time, even if it is empty.\<close>

definition touch_dep_file :: "string \<Rightarrow> string \<Rightarrow> disk \<Rightarrow> disk" where
  "touch_dep_file path name d =
     d\<lparr>dk_files := (dk_files d)(dep_file path name \<mapsto> []), dk_writes := dk_writes d @ [dep_file path name]\<rparr>"

text \<open>\<^verbatim>\<open>_write_if_changed\<close> leaves a file with the same contents alone.\<close>

definition update_file :: "string \<Rightarrow> string \<Rightarrow> disk \<Rightarrow> disk" where
  "update_file fname contents d =
     (let (changed, fs) = write_if_changed (dk_files d) fname contents
      in d\<lparr>dk_files := fs, dk_writes := dk_writes d @ (if changed then [fname] else [])\<rparr>)"

section \<open>Old values\<close>

text \<open>One line of \<^verbatim>\<open>auto.conf\<close>: what it records, or the name of a symbol that is gone.\<close>

definition old_val_line ::
  "kconfig \<Rightarrow> string \<Rightarrow> string \<Rightarrow> (sref \<Rightarrow> string option) \<times> disk \<Rightarrow>
     (sref \<Rightarrow> string option) \<times> disk" where
  "old_val_line kc path line acc =
     (case set_match (config_prefix kc) line of
        None \<Rightarrow> acc
      | Some (name, val) \<Rightarrow>
          (case symtab kc (SRef False name) of
             None \<Rightarrow> (fst acc, touch_dep_file path name (snd acc))
           | Some x \<Rightarrow>
               if orig_type x = STRING
               then (case conf_string_match val of
                       None \<Rightarrow> acc
                     | Some body \<Rightarrow> ((fst acc)(SRef False name \<mapsto> unescape body), snd acc))
               else ((fst acc)(SRef False name \<mapsto> val), snd acc)))"

definition load_old_vals :: "kconfig \<Rightarrow> string \<Rightarrow> disk \<Rightarrow> (sref \<Rightarrow> string option) \<times> disk" where
  "load_old_vals kc path d =
     (case dk_files d (auto_conf path) of
        None \<Rightarrow> (\<lambda>_. None, d)
      | Some contents \<Rightarrow> fold (old_val_line kc path) (split_lines contents) (\<lambda>_. None, d))"

definition old_vals_contents :: "kconfig \<Rightarrow> nat \<Rightarrow> string action" where
  "old_vals_contents kc n =
     collect (\<lambda>s.
         andthen (if orig_type (sym_obj kc s) \<in> BOOL_TRISTATE
                  then andthen (eval kc n (\<lambda>_. rd_tri s)) (\<lambda>t. return (t = TN)) else return False) (\<lambda>skip.
         if skip then return [] else config_string kc n s))
       (unique_defined_syms kc)"

section \<open>The comparison\<close>

text \<open>Whether a symbol is flagged: its old value, its new one and \<^verbatim>\<open>_write_to_conf\<close>.\<close>

definition sym_changed :: "ktype \<Rightarrow> string option \<Rightarrow> string \<Rightarrow> bool \<Rightarrow> bool" where
  "sym_changed ty old val w =
     (if w then \<not> (old = None \<and> ty \<in> BOOL_TRISTATE \<and> val = ''n'') \<and> Some val \<noteq> old
      else old \<noteq> None)"

primrec sync_loop ::
  "kconfig \<Rightarrow> nat \<Rightarrow> string \<Rightarrow> (sref \<Rightarrow> string option) \<Rightarrow> sref list \<Rightarrow> disk \<Rightarrow> disk action" where
  "sync_loop kc n path old [] d = return d"
| "sync_loop kc n path old (s # ss) d =
     andthen (value_and_flag kc n s) (\<lambda>(val, w).
       sync_loop kc n path old ss
         (if sym_changed (orig_type (sym_obj kc s)) (old s) val w
          then touch_dep_file path (sym_name s) d else d))"

definition sync_deps :: "kconfig \<Rightarrow> nat \<Rightarrow> string \<Rightarrow> disk \<Rightarrow> disk action" where
  "sync_deps kc n path d =
     (let (old, d1) = load_old_vals kc path d
      in andthen (sync_loop kc n path old (unique_defined_syms kc) d1) (\<lambda>d2.
         andthen (old_vals_contents kc n) (\<lambda>contents. return (update_file (auto_conf path) contents d2))))"

end
