(* ===== verification/Reachable.thy ===== *)
theory Reachable
  imports Load_Correct Flags Sync_Deps
begin

text \<open>
  The client's view of a configuration object: the states that reads, assignments, loading
  and writing of configurations reach, and what holds in all of them.
\<close>

section \<open>Loading preserves consistency\<close>

lemma reading_sync_loop: "reading kc (sync_loop kc n path old ss d)"
  by (induction ss arbitrary: d) (auto intro!: reading_andthen split: prod.splits)

lemma reading_sync_deps: "reading kc (sync_deps kc n path fs)"
  unfolding sync_deps_def old_vals_contents_def
  by (auto intro!: reading_andthen reading_sync_loop split: prod.splits)

lemma reading_consistent:
  "reading kc m \<Longrightarrow> consistent kc st \<Longrightarrow> m st = (r, st') \<Longrightarrow> consistent kc st'"
  using readingD [of kc m "usr st" st r st'] by (auto simp: consistent_def good_def grown_def)

text \<open>Whatever the depth of the recursion is: if the load returns.\<close>

lemma assigned_twice_frame:
  assumes "assigned_twice kc s v loc st = Inr st'" shows "usr st' = usr st \<and> cache st' = cache st"
proof (cases "old_value_str (orig_type (sym_obj kc s)) (user_value (usr st) s)")
  case (Some old)
  have "st' = st \<or> (\<exists>m. st' = add_warning m (Some loc) st)"
    using assms Some unfolding assigned_twice_def Let_def
    by (simp split: if_split_asm) blast+
  then show ?thesis by auto
qed (use assms in \<open>simp add: assigned_twice_def Let_def\<close>)

lemma assign_value_consistent:
  assumes "wf_deps kc" "consistent kc st" "assign_value kc n s v loc st = Inr st'"
  shows "consistent kc st'"
proof -
  obtain st1 where st1: "(if was_set st s then assigned_twice kc s v loc st else Inr st) = Inr st1"
    and r: "map_sum id snd (sym_set_value kc n s (VStr v) st1) = Inr st'"
    using assms(3) unfolding assign_value_def results by blast
  have "usr st1 = usr st \<and> cache st1 = cache st"
    using st1 assigned_twice_frame by (cases "was_set st s") auto
  then have "consistent kc st1" using consistent_cong assms(2) by blast
  with r show ?thesis using sym_set_value_consistent [OF assms(1)]
    by (cases "sym_set_value kc n s (VStr v) st1") auto
qed

lemma infer_mode_consistent:
  assumes "wf_deps kc" "consistent kc st" "infer_mode kc n c v loc st = Inr st'"
  shows "consistent kc st'"
proof -
  define st1 where "st1 = (case c_user_value (usr st) c of
                   None \<Rightarrow> st
                 | Some prev \<Rightarrow>
                     if TRI_TO_STR prev \<noteq> v
                     then add_warning ''both m and y assigned to symbols within the same choice'' (Some loc) st
                     else st)"
  have "consistent kc st1" using assms(2) by (simp add: st1_def split: option.splits)
  moreover obtain b where "choice_set_value kc n c (VStr v) st1 = Inr (b, st')"
    using assms(3) unfolding infer_mode_def Let_def st1_def [symmetric] results by auto
  ultimately show ?thesis using choice_set_value_consistent [OF assms(1)] by blast
qed

lemma load_set_consistent:
  assumes "wf_deps kc" "consistent kc st" "load_set kc n s v loc st = Inr st'"
  shows "consistent kc st'"
proof -
  have a: "consistent kc st'" if "assign_value kc n s w loc st1 = Inr st'" "consistent kc st1" for w st1
    by (rule assign_value_consistent [OF assms(1) that(2,1)])
  consider "consistent kc st'"
    | w st1 where "assign_value kc n s w loc st1 = Inr st'" "consistent kc st1"
  proof (cases "orig_type (sym_obj kc s) \<in> BOOL_TRISTATE")
    case True
    show ?thesis
    proof (cases "bool_val_ok (orig_type (sym_obj kc s)) v")
      case ok: True
      define pre where "pre = (case choice (sym_obj kc s) of
                             Some c \<Rightarrow> if take 1 v \<noteq> ''n'' then infer_mode kc n c (take 1 v) loc st else Inr st
                           | None \<Rightarrow> Inr st)"
      have "(case pre of Inl e \<Rightarrow> Inl e | Inr st1 \<Rightarrow> assign_value kc n s (take 1 v) loc st1) = Inr st'"
        using assms(3) True ok by (simp add: load_set_def Let_def pre_def del: One_nat_def)
      then obtain st1 where st1: "pre = Inr st1" "assign_value kc n s (take 1 v) loc st1 = Inr st'"
        by (auto split: sum.splits)
      have "consistent kc st1"
        using st1(1) assms(2) infer_mode_consistent [OF assms(1,2)]
        by (auto simp: pre_def split: option.splits if_splits)
      then show ?thesis using st1(2) that(2) by blast
    qed (use assms that(1) True in \<open>auto simp: load_set_def Let_def\<close>)
  next
    case nb: False
    show ?thesis
    proof (cases "orig_type (sym_obj kc s) = STRING \<and> conf_string_match v = None")
      case True
      then show ?thesis using nb assms(2,3) that(1) by (auto simp: load_set_def Let_def)
    next
      case False
      then have "\<exists>w. assign_value kc n s w loc st = Inr st'"
        using nb assms(3) by (auto simp: load_set_def Let_def split: if_split_asm option.splits)
      then show ?thesis using assms(2) that(2) by blast
    qed
  qed
  then show ?thesis using a by cases
qed

lemma load_line_consistent:
  assumes "wf_deps kc" "consistent kc st" "load_line kc n fname l st = Inr st'"
  shows "consistent kc st'"
proof -
  have u: "consistent kc (undef_assign name v loc st)" for name v loc
    using assms(2) by (simp add: undef_assign_def Let_def consistent_def)
  note cases = assms(3) [unfolded load_line_def Let_def]
  show ?thesis
  proof (cases "set_match (config_prefix kc) (rstrip (snd l))")
    case (Some nv)
    obtain name v where nv: "nv = (name, v)" by (cases nv)
    show ?thesis
      using cases Some nv u load_set_consistent [OF assms(1,2)]
      by (cases "nodes (sym_obj kc (SRef False name)) = []") auto
  next
    case None
    show ?thesis
    proof (cases "unset_match (config_prefix kc) (rstrip (snd l))")
      case (Some name)
      then show ?thesis
        using cases None u assms(2) assign_value_consistent [OF assms(1,2)]
        by (cases "nodes (sym_obj kc (SRef False name)) = []";
            cases "orig_type (sym_obj kc (SRef False name)) \<in> BOOL_TRISTATE") auto
    qed (use cases None assms(2) in \<open>auto split: if_split_asm\<close>)
  qed
qed

lemma unset_rest_consistent:
  assumes w: "wf_deps kc" and c: "consistent kc st" and r: "unset_rest kc n st = Inr st'"
  shows "consistent kc st'"
proof -
  obtain st1 where a: "try_each (\<lambda>s st. if \<not> was_set st s then sym_unset_value kc n s st else Inr st)
        (unique_defined_syms kc) st = Inr st1"
    and b: "try_each (\<lambda>c st. if \<not> c_was_set st c then choice_unset_value kc n c st else Inr st)
        (unique_choices kc) st1 = Inr st'"
    using r by (auto simp: unset_rest_def split: sum.splits)
  have "consistent kc st1"
    by (rule try_each_invariant [OF _ _ a, where I = "consistent kc"])
      (auto split: if_splits dest: sym_unset_value_consistent [OF w] intro: c)
  then show ?thesis
    by (rule try_each_invariant [OF _ _ b, where I = "consistent kc", rotated])
      (auto split: if_splits dest: choice_unset_value_consistent [OF w _ unique_choice_item])
qed

lemma load_file_consistent:
  assumes w: "wf_deps kc" and c: "consistent kc st" and r: "load_file kc n fname ls rep st = Inr st'"
  shows "consistent kc st'"
proof -
  let ?st0 = "if rep then clear_was_set kc st else st"
  obtain st1 where a: "try_each (load_line kc n fname) (zip [1..<Suc (length ls)] ls) ?st0 = Inr st1"
    and b: "(if rep then unset_rest kc n st1 else Inr st1) = Inr st'"
    using r unfolding load_file_def by (auto split: sum.splits simp del: upt_Suc)
  have "consistent kc ?st0" using c by (simp add: clear_was_set_def consistent_def)
  then have "consistent kc st1"
    by (rule try_each_invariant [OF _ _ a, rotated]) (rule load_line_consistent [OF w])
  with b show ?thesis using unset_rest_consistent [OF w] by (auto split: if_splits)
qed

lemma load_named_consistent:
  assumes w: "wf_deps kc" and c: "consistent kc st" and r: "load_named ev kc n fname rep st = Inr st'"
  shows "consistent kc st'"
proof -
  obtain f ls st1 where "open_config ev fname = Inr (f, ls)"
    "load_file kc n fname ls rep (st\<lparr>warn_assign_no_prompt := False\<rparr>) = Inr st1"
    "st' = st1\<lparr>warn_assign_no_prompt := True\<rparr>"
    using r by (auto simp: load_named_def map_sum_def split: sum.splits)
  with load_file_consistent [OF w _ this(2)] c show ?thesis by simp
qed

lemma load_config_consistent:
  assumes w: "wf_deps kc" and c: "consistent kc st" and r: "load_config ev kc n f rep st = Inr (msg, st')"
  shows "consistent kc st'"
proof -
  have named: "consistent kc s'"
    if "map_sum id (\<lambda>st'. (m, st')) (load_named ev kc n fn rep s) = Inr (msg, s')" "consistent kc s" for m fn s s'
    using that load_named_consistent [OF w that(2)] by (auto simp: map_sum_def split: sum.splits)
  have o: "sets_only S (first_openable ev kc u ds)" for S u ds
    by (induction ds) (auto split: sum.splits)
  have rd: "consistent kc s'" if "run (get kc n) (defconfig_filename ev kc (usr st)) st = (x, s')" for x s'
    by (rule reading_consistent [OF reading_eval c, of "\<lambda>_. defconfig_filename ev kc (usr st)" n])
      (use that in \<open>auto simp: eval_def defconfig_filename_def o split: option.splits\<close>)
  consider "consistent kc st'"
    | m fn s where "map_sum id (\<lambda>st'. (m, st')) (load_named ev kc n fn rep s) = Inr (msg, st')" "consistent kc s"
  proof (cases f)
    case (Some fn)
    with r c that(2) show ?thesis by (simp add: load_config_def Let_def)
  next
    case None
    let ?std = "standard_config_filename ev"
    obtain x st1 where x: "run (get kc n) (defconfig_filename ev kc (usr st)) st = (x, st1)" by fastforce
    show ?thesis
    proof (cases "files ev ?std = None \<and> files ev (path_join (srctree ev) ?std) = None")
      case True
      show ?thesis
      proof (cases x)
        case (Inr d)
        then show ?thesis
          using r None True x rd [OF x] that by (cases d) (auto simp: load_config_def Let_def)
      qed (use r None True x in \<open>auto simp: load_config_def Let_def\<close>)
    next
      case False
      with r None c that(2) show ?thesis by (auto simp: load_config_def Let_def)
    qed
  qed
  then show ?thesis using named by cases
qed

lemma load_allconfig_cases:
  assumes "load_allconfig ev kc n fname st = Inr st'" "kconfig_allconfig ev = Some allconfig"
    and "st1 = st\<lparr>warn_assign_override := False, warn_assign_redun := False\<rparr>"
  obtains f msg s where "load_config ev kc n (Some f) False st1 = Inr (msg, s)"
    "st' = s\<lparr>warn_assign_override := warn_assign_override st, warn_assign_redun := warn_assign_redun st\<rparr>"
proof -
  define ld where "ld f = map_sum id snd (load_config ev kc n (Some f) False st1)" for f
  define r where "r = (if allconfig = [] \<or> allconfig = ''1''
                    then (case ld fname of Inl (EnvironmentError _) \<Rightarrow> ld ''all.config'' | r \<Rightarrow> r)
                    else ld allconfig)"
  have "map_sum id (\<lambda>st'. st'\<lparr>warn_assign_override := warn_assign_override st,
      warn_assign_redun := warn_assign_redun st\<rparr>) r = Inr st'"
    using assms(1,2) unfolding load_allconfig_def Let_def r_def ld_def assms(3) by simp
  then obtain s where s: "r = Inr s" "st' = s\<lparr>warn_assign_override := warn_assign_override st,
      warn_assign_redun := warn_assign_redun st\<rparr>" unfolding results by blast
  have "\<exists>f. r = ld f" 
    unfolding r_def by (auto split: sum.split exn.split intro: sym)
  then obtain f where "ld f = Inr s" using s(1) by metis
  then obtain msg where "load_config ev kc n (Some f) False st1 = Inr (msg, s)"
    unfolding ld_def results by auto
  then show ?thesis using s(2) that by blast
qed

lemma load_allconfig_consistent:
  assumes w: "wf_deps kc" and c: "consistent kc st" and r: "load_allconfig ev kc n fname st = Inr st'"
  shows "consistent kc st'"
proof (cases "kconfig_allconfig ev")
  case (Some allconfig)
  from load_allconfig_cases [OF r Some refl] obtain f msg s where
    "load_config ev kc n (Some f) False (st\<lparr>warn_assign_override := False, warn_assign_redun := False\<rparr>) = Inr (msg, s)"
    and st': "st' = s\<lparr>warn_assign_override := warn_assign_override st, warn_assign_redun := warn_assign_redun st\<rparr>" .
  from load_config_consistent [OF w _ this(1)] have "consistent kc s" using c by (simp add: consistent_def)
  then show ?thesis by (simp add: st' consistent_def)
qed (use r c in \<open>simp add: load_allconfig_def\<close>)

section \<open>Reachable states\<close>

text \<open>
  What a client can do: read an attribute, set or unset values, load and write
  configurations. Each step is a run of the operation that ended without an exception (a
  function that only reads may also end in one: what it computed on the way stays cached).
\<close>

inductive step :: "kconfig \<Rightarrow> kstate \<Rightarrow> kstate \<Rightarrow> bool" for kc where
  read: "get kc n q st = (r, st') \<Longrightarrow> step kc st st'"
| set_sym: "sym_set_value kc n s v st = Inr (b, st') \<Longrightarrow> step kc st st'"
| unset_sym: "sym_unset_value kc n s st = Inr st' \<Longrightarrow> step kc st st'"
| set_choice: "choice_set_value kc n c v st = Inr (b, st') \<Longrightarrow> step kc st st'"
| unset_choice: "c \<in> set (unique_choices kc) \<Longrightarrow> choice_unset_value kc n c st = Inr st' \<Longrightarrow> step kc st st'"
| unset_all: "unset_values kc n st = Inr st' \<Longrightarrow> step kc st st'"
| load_one: "load_config ev kc n fname_opt replace st = Inr (msg, st') \<Longrightarrow> step kc st st'"
| load_all: "load_allconfig ev kc n fname st = Inr st' \<Longrightarrow> step kc st st'"
| save: "write_config kc n f fs fname header keep_old = Some a \<Longrightarrow> a st = (w, st') \<Longrightarrow> step kc st st'"
| save_min: "write_min_config kc n fs fname header st = (w, st') \<Longrightarrow> step kc st st'"
| save_header: "write_autoconf kc n fs fname header st = (w, st') \<Longrightarrow> step kc st st'"
| sync: "sync_deps kc n path fs st = (w', st') \<Longrightarrow> step kc st st'"

inductive_cases stepE: "step kc st st'"

inductive reachable :: "kconfig \<Rightarrow> kstate \<Rightarrow> bool" for kc where
  init: "reachable kc init_state"
| step: "reachable kc st \<Longrightarrow> step kc st st' \<Longrightarrow> reachable kc st'"

lemma step_consistent: "step kc st st' \<Longrightarrow> wf_deps kc \<Longrightarrow> consistent kc st \<Longrightarrow> consistent kc st'"
proof (erule stepE)
  fix n q r assume c: "consistent kc st" and g: "get kc n q st = (r, st')"
  have "good kc (usr st) st" using c by (simp add: consistent_def good_def)
  from caching.inv_rd [OF this g] c show "consistent kc st'" by (auto simp: consistent_def good_def)
qed (auto intro: sym_set_value_consistent sym_unset_value_consistent choice_set_value_consistent
    choice_unset_value_consistent [OF _ _ unique_choice_item] unset_values_consistent
    load_config_consistent load_allconfig_consistent
    reading_consistent [OF reading_write_config] reading_consistent [OF reading_write_min_config]
    reading_consistent [OF reading_write_autoconf] reading_consistent [OF reading_sync_deps])

lemma reachable_consistent: "reachable kc st \<Longrightarrow> wf_deps kc \<Longrightarrow> consistent kc st"
  by (induction rule: reachable.induct) (auto intro: consistent_init step_consistent)

section \<open>Caching\<close>

text \<open>
  C4. Caching is transparent where every dependency is registered: in such a configuration, in
  every state that reads and assignments can reach, an attribute read that returns gives the
  value the attribute has when it is computed from scratch under the current user values -- if
  computing it from scratch gives a value. The condition is \<open>wf_deps\<close>; a choice symbol whose only
  prompt is outside its choice is not registered with the choice and violates it.
\<close>

theorem caching_transparent:
  assumes "wf_deps kc" "reachable kc st" "get kc n q st = (Inr v, st')"
    and "pure kc (usr st) m q = Inr w"
  shows "v = w"
proof -
  have g: "good kc (usr st) st"
    using reachable_consistent [OF assms(2,1)] by (simp add: consistent_def good_def)
  have "cache st' q = Some v" by (rule caching.answers [OF g assms(3)])
  moreover have "supported kc (usr st) (cache st')"
    using caching.inv_rd [OF g assms(3)] by (simp add: good_def)
  ultimately show ?thesis using supported_value assms(4) by blast
qed

text \<open>
  C24. Only well-typed user values are ever stored, and only symbols of a choice become its
  selection, whatever values the callers pass.
\<close>

theorem user_values_valid:
  assumes "wf_deps kc" "reachable kc st"
  shows "valid_user kc (usr st) \<and> wf_user kc (usr st)"
  using reachable_consistent [OF assms(2,1)] by (simp add: consistent_def)

text \<open>
  C5. In a configuration without dependency loops, every attribute can be read in every
  reachable state: with fuel above its rank the read returns, without an exception, the
  value computed from scratch.
\<close>

theorem reachable_reads:
  assumes "wf_deps kc" "reachable kc st" "sane kc" "ranked kc init_user rk crk"
    and "qrank rk crk q < n"
  shows "\<exists>v st'. get kc n q st = (Inr v, st') \<and> pure kc (usr st) n q = Inr v"
proof -
  have c: "consistent kc st" by (rule reachable_consistent [OF assms(2,1)])
  then obtain w where w: "pure kc (usr st) n q = Inr w"
    using attr_total_any [OF ranked_user [OF assms(4)] assms(3) _ assms(5)] by (auto simp: consistent_def)
  with cached.rd_complete [OF consistent_coherent [OF c assms(4,3)] this] show ?thesis by blast
qed

section \<open>Loading\<close>

text \<open>
  C7. Loading a configuration file returns, whatever the file holds, and afterwards the user
  value of every symbol is the last valid value the file assigns to it, or none: nothing of
  the user values before the load is left, and the cache holds no value of before.
\<close>

theorem load_replace_values:
  assumes "wf_deps kc" "card (all_items kc) < n" "reachable kc st"
  shows "\<exists>st'. load_file kc n fname ls True st = Inr st' \<and> supported kc (usr st') (cache st') \<and>
    (\<forall>s \<in> set (unique_defined_syms kc). user_value (usr st') s = file_values kc ls s)"
  using load_file_replaces [OF assms(1,2) reachable_consistent [OF assms(3,1)], of fname ls]
  by (auto simp: consistent_def)

text \<open>
  C29. Merging a file (\<^verbatim>\<open>load_config\<close> with \<^verbatim>\<open>replace=False\<close>) overrides the user values the
  file assigns and keeps the others, if every symbol marked as set still has its value.
\<close>

theorem load_merge_values:
  assumes "wf_deps kc" "card (all_items kc) < n" "reachable kc st"
    and "\<forall>s \<in> set (unique_defined_syms kc). was_set st s \<longrightarrow> user_value (usr st) s \<noteq> None"
  shows "\<exists>st'. load_file kc n fname ls False st = Inr st' \<and> supported kc (usr st') (cache st') \<and>
    (\<forall>s \<in> set (unique_defined_syms kc).
       user_value (usr st') s = (user_value (usr st) ++ file_values kc ls) s)"
  using load_file_merges [OF assms(1,2) reachable_consistent [OF assms(3,1)] assms(4), of fname ls]
  by (auto simp: recorded_def consistent_def)

text \<open>
  C30. Merging a file into a configuration in which a bool or tristate symbol was set and
  then unset (\<^verbatim>\<open>unset_value\<close> leaves the mark of the assignment) ends in a \<^verbatim>\<open>KeyError\<close> when
  the file assigns the symbol: \<^verbatim>\<open>_assigned_twice\<close> looks up the name of the missing value.
\<close>

theorem merge_after_unset_fails:
  assumes "wf_deps kc" "card (all_items kc) < n" "line_assigns kc raw = Some (s, v)"
    and "orig_type (sym_obj kc s) \<in> BOOL_TRISTATE" "was_set st s" "user_value (usr st) s = None"
  shows "load_file kc n fname (raw # ls) False st = Inl KeyError"
  by (rule load_file_key_error [OF assms])

end
