(* ===== verification/Update_Examples.thy ===== *)
theory Update_Examples
  imports Value_Examples Build_Dep Reachable
begin

text \<open>The theorems on assignments and invalidation on the example configuration.\<close>

lemma ex_items: "Sym s \<in> all_items ex_kc \<longleftrightarrow>
    s \<in> {modules, nsym ''A'', nsym ''B'', nsym ''C'', nsym ''N'', nsym ''S'', nsym ''X'', nsym ''Y'', nsym ''D''}"
  "Cho c \<in> all_items ex_kc \<longleftrightarrow> c = 0"
  by (auto simp: all_items_def ex_kc_def)

lemma ex_tabs:
  "symtab ex_kc = ex_symtab" "nodetab ex_kc = ex_nodes"
  "choicetab ex_kc = (\<lambda>c. if c = 0 then ex_choice else fresh_choice)"
  by (simp_all add: ex_kc_def)

lemmas ex_dep_simps = ex_tabs ex_symtab_def ex_sym_def fresh_symbol_def prompts_tracked_def
  tracked_def constant_item_def ex_nodes_def ex_node_def ex_dep_A_def fresh_node_def
  modules_def is_nmy_def const_n_def const_m_def const_y_def const_symbol_def sc_nodes_def
  sc_dependents_def ex_choice_def fresh_choice_def sym_obj_def

lemma ex_sym_wf:
  "if Sym s \<in> all_items ex_kc then \<not> is_constant s \<and> sym_tracked ex_kc s else undefined_sym ex_kc s"
proof (induction s rule: ex_sym_cases)
  case (13 s)
  then have "sym_obj ex_kc s = fresh_symbol \<or> is_nmy s" "Sym s \<notin> all_items ex_kc"
    by (auto simp: sym_obj_def ex_tabs ex_items ex_symtab_def split: if_splits)
  then show ?case
    by (auto simp: undefined_sym_def fresh_symbol_def sym_obj_def const_symbol_def)
qed (simp_all add: ex_items, simp_all add: sym_tracked_def undefined_sym_def Let_def ex_dep_simps)

lemma ex_wf: "wf_deps ex_kc"
  unfolding wf_deps_def
proof (intro conjI allI impI)
  show "deps_inside ex_kc"
    unfolding deps_inside_def
  proof
    fix x show "set (sc_dependents ex_kc x) \<subseteq> all_items ex_kc"
    proof (cases x)
      case (Sym s)
      show ?thesis
        unfolding Sym
      proof (induction s rule: ex_sym_cases)
        case (13 s)
        then show ?case by (simp add: sc_dependents_def sym_obj_def ex_tabs const_symbol_def fresh_symbol_def)
      qed (simp_all add: ex_items ex_dep_simps)
    next
      case (Cho c)
      then show ?thesis by (simp add: ex_items ex_dep_simps)
    qed
  qed
next
  fix c show "if Cho c \<in> all_items ex_kc then choice_tracked ex_kc c else undefined_choice ex_kc c"
    by (cases "c = 0") (simp_all add: ex_items choice_tracked_def undefined_choice_def Let_def ex_dep_simps)
next
  fix s c assume "choice (sym_obj ex_kc s) = Some c"
  then have "s \<in> {nsym ''X'', nsym ''Y''} \<and> c = 0"
    by (auto simp: ex_dep_simps split: if_splits)
  then show "Cho c \<in> all_items ex_kc" "s \<in> set (c_syms (choicetab ex_kc c))"
    by (auto simp: ex_items ex_dep_simps)
qed (rule ex_sym_wf)

lemma ex_ranked_init: "ranked ex_kc init_user ex_rank ex_crank"
proof -
  have "choice_ranked ex_kc init_user ex_rank ex_crank c" for c
    by (cases "c = 0") (auto simp: choice_ranked_def Let_def ex_choice_def fresh_choice_def
        ex_rank_simps init_user_def)
  then show ?thesis using ex_sym_ranked by (simp add: ranked_def)
qed

text \<open>The state after reading \<open>B\<close> and then assigning y to \<^verbatim>\<open>MODULES\<close> and m to \<open>A\<close>.\<close>

definition ex_st :: kstate where
  "ex_st =
     (case sym_set_value ex_kc 20 modules (VStr ''y'') (snd (get ex_kc 8 (QTri (nsym ''B'')) init_state)) of
        Inl e \<Rightarrow> init_state
      | Inr (b, st) \<Rightarrow>
          (case sym_set_value ex_kc 20 (nsym ''A'') (VStr ''m'') st of
             Inl e \<Rightarrow> init_state
           | Inr (b, st') \<Rightarrow> st'))"

lemma ex_st_reachable: "reachable ex_kc ex_st"
proof -
  let ?st0 = "snd (get ex_kc 8 (QTri (nsym ''B'')) init_state)"
  have 0: "reachable ex_kc ?st0"
    by (rule reachable.step [OF reachable.init step.read]) (rule surjective_pairing)
  then have "reachable ex_kc st" if "sym_set_value ex_kc 20 s v ?st0 = Inr (b, st)" for s v b st
    by (rule reachable.step) (rule step.set_sym [OF that])
  then have "reachable ex_kc st'"
    if "sym_set_value ex_kc 20 s v ?st0 = Inr (b, st)" "sym_set_value ex_kc 20 s' v' st = Inr (b', st')"
    for s v b st s' v' b' st'
    using reachable.step step.set_sym that by blast
  then show ?thesis
    unfolding ex_st_def using reachable.init by (auto split: sum.splits)
qed

lemma ex_st_user: "user_value (usr ex_st) (nsym ''A'') = Some (VTri TM)"
  by code_simp

lemma ex_st_A: "fst (get ex_kc 8 (QTri (nsym ''A'')) ex_st) = Inr (VT TM)"
  by code_simp

lemma ex_st_A_pure: "pure ex_kc (usr ex_st) 8 (QTri (nsym ''A'')) = Inr (VT TM)"
  by code_simp

lemma caching_transparent_witness:
  "\<exists>v st'. get ex_kc 8 (QTri (nsym ''A'')) ex_st = (Inr v, st') \<and> v = VT TM"
proof -
  obtain st' where g: "get ex_kc 8 (QTri (nsym ''A'')) ex_st = (Inr (VT TM), st')"
    using ex_st_A by (metis eq_fst_iff)
  from caching_transparent [OF ex_wf ex_st_reachable g ex_st_A_pure] g show ?thesis by blast
qed

lemma user_values_valid_witness: "valid_user ex_kc (usr ex_st) \<and> wf_user ex_kc (usr ex_st)"
  by (rule user_values_valid [OF ex_wf ex_st_reachable])

lemma reachable_reads_witness:
  "\<exists>v st'. get ex_kc 37 (QTri (nsym ''C'')) ex_st = (Inr v, st') \<and>
     pure ex_kc (usr ex_st) 37 (QTri (nsym ''C'')) = Inr v"
  by (rule reachable_reads [OF ex_wf ex_st_reachable ex_sane ex_ranked_init])
    (simp add: ex_rank_def modules_def)

lemma set_value_returns_witness:
  "\<exists>st'. sym_set_value ex_kc 11 (nsym ''N'') (VStr ''0x7'') ex_st = Inr (False, st')"
proof -
  have "all_items ex_kc = Sym ` {modules, nsym ''A'', nsym ''B'', nsym ''C'', nsym ''N'', nsym ''S'',
      nsym ''X'', nsym ''Y'', nsym ''D''} \<union> {Cho 0}"
    by (auto simp: all_items_def ex_kc_def)
  then have "card (all_items ex_kc) = 10" by (simp add: card_insert_if image_iff modules_def)
  moreover have "valid_user ex_kc (usr ex_st)"
    using reachable_consistent [OF ex_st_reachable ex_wf] by (simp add: consistent_def)
  moreover have "value_ok INT_T (VStr ''0x7'') = False" by code_simp
  ultimately show ?thesis
    using set_value_returns [OF ex_wf, of 11 ex_st "nsym ''N''" "VStr ''0x7''"] by simp
qed

text \<open>The example without its dependency sets.\<close>

definition ex_bare :: kconfig where
  "ex_bare = ex_kc
     \<lparr>symtab := (\<lambda>s. map_option (\<lambda>x. x\<lparr>dependents := []\<rparr>) (ex_symtab s)),
      choicetab := (\<lambda>c. (choicetab ex_kc c)\<lparr>c_dependents := []\<rparr>)\<rparr>"

lemma ex_bare_sym: "sym_obj ex_bare s = (sym_obj ex_kc s)\<lparr>dependents := []\<rparr>"
  by (simp add: sym_obj_def ex_bare_def ex_tabs const_symbol_def fresh_symbol_def split: option.splits)

lemma ex_bare_tabs:
  "unique_defined_syms ex_bare = unique_defined_syms ex_kc" "unique_choices ex_bare = unique_choices ex_kc"
  "choicetab ex_bare c = (choicetab ex_kc c)\<lparr>c_dependents := []\<rparr>"
  by (simp_all add: ex_bare_def)

lemma build_dep_complete_witness: "wf_deps (add_choice_deps (build_dep ex_bare))"
proof (rule build_dep_complete, unfold before_deps_def, intro conjI allI impI)
  fix x show "sc_dependents ex_bare x = []"
    by (cases x) (simp add: sc_dependents_def ex_bare_sym, simp add: sc_dependents_def ex_bare_tabs)
next
  fix s show "if s \<in> set (unique_defined_syms ex_bare) then \<not> is_constant s else undefined_sym ex_bare s"
    using ex_sym_wf [of s] by (auto simp: all_items_def undefined_sym_def ex_bare_sym ex_bare_tabs split: if_splits)
next
  fix c show "if c \<in> set (unique_choices ex_bare)
    then (\<forall>d \<in> set (c_defaults (choicetab ex_bare c)). \<forall>s. fst d = Leaf (Sym s) \<longrightarrow>
            s \<in> set (c_syms (choicetab ex_bare c))) \<and>
         (\<forall>s \<in> set (c_syms (choicetab ex_bare c)). \<not> is_constant s)
    else undefined_choice ex_bare c"
    by (auto simp: ex_bare_tabs ex_kc_def ex_choice_def fresh_choice_def undefined_choice_def)
next
  fix s c assume "choice (sym_obj ex_bare s) = Some c"
  then have "choice (sym_obj ex_kc s) = Some c" by (simp add: ex_bare_sym)
  then have sc: "s \<in> {nsym ''X'', nsym ''Y''} \<and> c = 0"
    by (auto simp: ex_dep_simps split: if_splits)
  then have "Cho c \<in> expr_items (direct_dep (sym_obj ex_kc s))" by (auto simp: ex_dep_simps)
  then show "c \<in> set (unique_choices ex_bare)" "s \<in> set (c_syms (choicetab ex_bare c))"
    "Cho c \<in> expr_items (direct_dep (sym_obj ex_bare s))"
    using sc by (auto simp: ex_bare_sym ex_bare_tabs ex_tabs ex_choice_def) (simp_all add: ex_kc_def)
qed

end
