(* ===== verification/Sync_Correct.thy ===== *)
theory Sync_Correct
  imports Reachable
begin

text \<open>
  Incremental builds are correct: what \<^verbatim>\<open>_write_old_vals\<close> records is what
  \<^verbatim>\<open>_load_old_vals\<close> reads back, so that the next \<^verbatim>\<open>sync_deps\<close> writes exactly the files of the symbols
  of which the build sees another value, and none if there is no change.
\<close>

section \<open>Well-named configurations\<close>

text \<open>
  Names the lexer accepts: no white space, no \<^verbatim>\<open>=\<close>. Every defined symbol has its entry in
  the symbol table and a type.
\<close>

definition name_ok :: "string \<Rightarrow> bool" where
  "name_ok name \<longleftrightarrow>
     name \<noteq> [] \<and> CHR ''='' \<notin> set name \<and> (\<forall>c \<in> set name. \<not> py_space c)"

definition well_named :: "kconfig \<Rightarrow> bool" where
  "well_named kc \<longleftrightarrow>
     distinct (unique_defined_syms kc) \<and>
     config_prefix kc \<noteq> [] \<and> hd (config_prefix kc) \<noteq> CHR ''#'' \<and> newline \<notin> set (config_prefix kc) \<and>
     (\<forall>s \<in> set (unique_defined_syms kc). \<not> is_constant s \<and> name_ok (sym_name s) \<and>
        symtab kc s \<noteq> None \<and> orig_type (sym_obj kc s) \<noteq> UNKNOWN)"

lemma name_ok_newline: "name_ok name \<Longrightarrow> newline \<notin> set name"
  using py_space_newline by (auto simp: name_ok_def)

lemma well_named_sym:
  assumes "well_named kc" "s \<in> set (unique_defined_syms kc)"
  obtains name o_s where "s = SRef False name" "name_ok name" "symtab kc s = Some o_s"
    "sym_obj kc s = o_s" "orig_type o_s \<noteq> UNKNOWN"
proof -
  obtain c name where s: "s = SRef c name" by (cases s)
  have "\<not> is_constant s" "name_ok (sym_name s)" "symtab kc s \<noteq> None" "orig_type (sym_obj kc s) \<noteq> UNKNOWN"
    using assms by (auto simp: well_named_def)
  moreover from this s have "\<not> is_nmy s" by (auto simp: is_nmy_def const_n_def const_m_def const_y_def)
  ultimately show ?thesis using s by (auto simp: sym_obj_def intro!: that)
qed

section \<open>Lines\<close>

lemma split_lines_line:
  "newline \<notin> set l \<Longrightarrow> split_lines (l @ newline # rest) = (l @ [newline]) # split_lines rest"
  by (induction l) auto

lemma split_lines_concat:
  "\<forall>l \<in> set ls. newline \<notin> set l \<Longrightarrow>
   split_lines (concat (map (\<lambda>l. l @ [newline]) ls)) = map (\<lambda>l. l @ [newline]) ls"
  by (induction ls) (auto simp: split_lines_line)

lemma set_match_newline:
  assumes "name \<noteq> []" "CHR ''='' \<notin> set name" "newline \<notin> set val"
  shows "set_match pre (set_line pre name val @ [newline]) = Some (name, val)"
proof -
  have n: "takeWhile (\<lambda>c. c \<noteq> CHR ''='') (name @ CHR ''='' # val @ [newline]) = name"
    using assms(2) by (intro takeWhile_stop) auto
  have v: "takeWhile (\<lambda>c. c \<noteq> newline) (val @ [newline]) = val"
    using assms(3) by (intro takeWhile_stop) auto
  show ?thesis using assms(1) by (simp add: set_match_def set_line_def n v)
qed

text \<open>The line written for a symbol of which the value is not n.\<close>

definition written_value :: "ktype \<Rightarrow> string \<Rightarrow> string" where
  "written_value ty w = (if ty \<in> BOOL_TRISTATE \<or> ty \<in> INT_HEX then w else quoted w)"

lemma config_line_set:
  "\<not> (orig_type (sym_obj kc s) \<in> BOOL_TRISTATE \<and> w = ''n'') \<Longrightarrow>
   config_line kc s w = set_line (config_prefix kc) (sym_name s) (written_value (orig_type (sym_obj kc s)) w)"
  by (auto simp: config_line_def written_value_def)

lemma newline_set_line [simp]:
  "newline \<in> set (set_line pre name v) \<longleftrightarrow> newline \<in> set pre \<or> newline \<in> set name \<or> newline \<in> set v"
  by (auto simp: set_line_def newline_def)

lemma newline_written [simp]: "newline \<in> set (written_value ty w) \<longleftrightarrow> newline \<in> set w"
  by (simp add: written_value_def)

lemma old_val_line_written:
  assumes wn: "well_named kc" and s: "s \<in> set (unique_defined_syms kc)" and w: "newline \<notin> set w"
    and n: "\<not> (orig_type (sym_obj kc s) \<in> BOOL_TRISTATE \<and> w = ''n'')"
  shows "old_val_line kc path (config_line kc s w @ [newline]) acc = ((fst acc)(s \<mapsto> w), snd acc)"
proof -
  obtain name o_s where o_s: "s = SRef False name" "name_ok name" "symtab kc s = Some o_s"
    "sym_obj kc s = o_s" "orig_type o_s \<noteq> UNKNOWN"
    using well_named_sym [OF wn s] .
  have m: "set_match (config_prefix kc) (config_line kc s w @ [newline]) =
      Some (name, written_value (orig_type o_s) w)"
    unfolding config_line_set [OF n] using set_match_newline o_s w by (simp add: name_ok_def)
  show ?thesis
    using o_s m conf_string_match_quoted [OF w]
    by (cases "orig_type o_s") (auto simp: old_val_line_def written_value_def unescape_escape)
qed

section \<open>Runs in a state where the values are cached\<close>

definition str_of :: "kstate \<Rightarrow> sref \<Rightarrow> string" where
  "str_of st s = (case cache st (QStr s) of Some (VS w) \<Rightarrow> w | _ \<Rightarrow> [])"

definition all_settled :: "kconfig \<Rightarrow> kstate \<Rightarrow> bool" where
  "all_settled kc st \<longleftrightarrow> (\<forall>s \<in> set (unique_defined_syms kc). settled st s)"

lemma settled_known: "good kc u st \<Longrightarrow> settled st s \<Longrightarrow> known st s (str_of st s)"
  unfolding settled_def known_def str_of_def good_def using supported_str by fastforce

text \<open>
  What a build sees of a symbol: its value, unless it is not written at all, or the value n of a
  bool or tristate symbol.
\<close>

definition exported :: "kconfig \<Rightarrow> kstate \<Rightarrow> sref \<Rightarrow> string option" where
  "exported kc st s =
     (if \<not> write_to_conf st s \<or> orig_type (sym_obj kc s) \<in> BOOL_TRISTATE \<and> str_of st s = ''n''
      then None else Some (str_of st s))"

definition keeps :: "kconfig \<Rightarrow> kstate \<Rightarrow> sref \<Rightarrow> bool" where
  "keeps kc st s \<longleftrightarrow>
     write_to_conf st s \<and> \<not> (orig_type (sym_obj kc s) \<in> BOOL_TRISTATE \<and> str_of st s = ''n'')"

lemma exported_keeps: "exported kc st s = (if keeps kc st s then Some (str_of st s) else None)"
  by (simp add: exported_def keeps_def)

definition recorded_lines :: "kconfig \<Rightarrow> kstate \<Rightarrow> string list" where
  "recorded_lines kc st =
     map (\<lambda>s. config_line kc s (str_of st s)) (List.filter (keeps kc st) (unique_defined_syms kc))"

lemma andthen_run: "m st = (Inr a, st1) \<Longrightarrow> andthen m f st = f a st1"
  by (simp add: andthen_def)

lemma collect_run:
  "\<forall>x \<in> set xs. f x st = (Inr (g x), st) \<Longrightarrow> collect f xs st = (Inr (concat (map g xs)), st)"
  by (induction xs) (simp_all add: return_def andthen_def)

lemma eval_tri_known:
  assumes g: "good kc u st" and s: "settled st s" and b: "orig_type (sym_obj kc s) \<in> BOOL_TRISTATE"
  shows "\<exists>t. eval kc n (\<lambda>_. rd_tri s) st = (Inr t, st) \<and> TRI_TO_STR t = str_of st s"
proof -
  have sup: "supported kc u (cache st)" using g by (simp add: good_def)
  have "cache st (QStr s) = Some (VS (str_of st s))"
    using settled_known [OF g s] by (simp add: known_def)
  from supported_tri [OF sup this b] obtain v where
    v: "cache st (QTri s) = Some v" "TRI_TO_STR (un_tri v) = str_of st s" by blast
  then show ?thesis by (simp add: eval_def rd_tri_def get_cached)
qed

lemma old_vals_contents_settled:
  assumes g: "good kc u st" and a: "all_settled kc st"
  shows "old_vals_contents kc n st = (Inr (concat (map (\<lambda>l. l @ [newline]) (recorded_lines kc st))), st)"
proof -
  let ?g = "\<lambda>s. if keeps kc st s then config_line kc s (str_of st s) @ [newline] else []"
  have "andthen (if orig_type (sym_obj kc s) \<in> BOOL_TRISTATE
                  then andthen (eval kc n (\<lambda>_. rd_tri s)) (\<lambda>t. return (t = TN)) else return False)
      (\<lambda>skip. if skip then return [] else config_string kc n s) st = (Inr (?g s), st)"
    if s: "s \<in> set (unique_defined_syms kc)" for s
  proof -
    have s': "settled st s" using a s by (simp add: all_settled_def)
    note c = config_string_known [OF settled_known [OF g s'], of kc n]
    show ?thesis
    proof (cases "orig_type (sym_obj kc s) \<in> BOOL_TRISTATE")
      case True
      obtain t where t: "eval kc n (\<lambda>_. rd_tri s) st = (Inr t, st)" "TRI_TO_STR t = str_of st s"
        using eval_tri_known [OF g s' True] by blast
      then have "t = TN \<longleftrightarrow> str_of st s = ''n''" using TRI_TO_STR_inject [of t TN] by auto
      then show ?thesis using True t(1) c by (simp add: andthen_def return_def keeps_def)
    qed (use c in \<open>simp add: andthen_def return_def keeps_def\<close>)
  qed
  then have "old_vals_contents kc n st = (Inr (concat (map ?g (unique_defined_syms kc))), st)"
    unfolding old_vals_contents_def by (intro collect_run) blast
  moreover have "concat (map ?g ss) =
      concat (map (\<lambda>l. l @ [newline]) (map (\<lambda>s. config_line kc s (str_of st s)) (List.filter (keeps kc st) ss)))" for ss
    by (induction ss) auto
  ultimately show ?thesis by (simp add: recorded_lines_def)
qed

text \<open>The loop touches the files of the symbols that changed.\<close>

definition touched :: "kconfig \<Rightarrow> kstate \<Rightarrow> (sref \<Rightarrow> string option) \<Rightarrow> sref list" where
  "touched kc st old =
     List.filter (\<lambda>s. sym_changed (orig_type (sym_obj kc s)) (old s) (str_of st s) (write_to_conf st s))
       (unique_defined_syms kc)"

lemma sync_loop_settled:
  assumes g: "good kc u st"
  shows "\<forall>s \<in> set ss. settled st s \<Longrightarrow> sync_loop kc n path old ss d st =
    (Inr (fold (\<lambda>s. touch_dep_file path (sym_name s)) (List.filter (\<lambda>s. sym_changed
       (orig_type (sym_obj kc s)) (old s) (str_of st s) (write_to_conf st s)) ss) d), st)"
proof (induction ss arbitrary: d)
  case (Cons s ss)
  then have "value_and_flag kc n s st = (Inr (str_of st s, write_to_conf st s), st)"
    using value_and_flag_known [OF settled_known [OF g]] by simp
  with Cons show ?case by (simp add: andthen_def)
qed (simp add: return_def)

lemma value_and_flag_reads:
  assumes g: "good kc u st" and r: "value_and_flag kc n s st = (Inr (w, b), st')"
  shows "grown kc u st st' \<and> settled st' s \<and> w = str_of st' s \<and> b = write_to_conf st' s"
proof -
  obtain v st1 where v: "eval kc n (\<lambda>_. rd_str s) st = (Inr v, st1)"
    "st' = st1" "w = v" "b = write_to_conf st1 s"
    using r by (auto simp: value_and_flag_def andthen_Inr)
  then obtain x where x: "get kc n (QStr s) st = (Inr x, st1)" "v = un_str x"
    by (auto simp: eval_def rd_str_def split: prod.splits sum.splits)
  have c: "cache st1 (QStr s) = Some x" by (rule caching.answers [OF g x(1)])
  have "grown kc u st st'"
    by (rule readingD [OF reading_value_and_flag g r])
  then show ?thesis using v x c settled_known [of kc u st1 s]
    by (auto simp: settled_def known_def grown_def)
qed

text \<open>So a loop from any state has the effect of one in its final state.\<close>

lemma grown_str: "grown kc u st st' \<Longrightarrow> settled st s \<Longrightarrow> str_of st' s = str_of st s"
  by (auto simp: grown_def settled_def str_of_def map_le_def dom_def)

lemma grown_settled: "grown kc u st st' \<Longrightarrow> settled st s \<Longrightarrow> settled st' s"
  using settled_mono by (auto simp: grown_def)

lemma sync_loop_final:
  assumes "good kc u st" "sync_loop kc n path old ss d st = (Inr d', st')"
  shows "grown kc u st st' \<and> (\<forall>s \<in> set ss. settled st' s) \<and>
    sync_loop kc n path old ss d st' = (Inr d', st')"
  using assms
proof (induction ss arbitrary: st d)
  case Nil
  then show ?case by (simp add: return_def grown_refl)
next
  case (Cons s ss)
  let ?d = "\<lambda>val w. if sym_changed (orig_type (sym_obj kc s)) (old s) val w
          then touch_dep_file path (sym_name s) d else d"
  obtain val w st1 where v: "value_and_flag kc n s st = (Inr (val, w), st1)"
    and r: "sync_loop kc n path old ss (?d val w) st1 = (Inr d', st')"
    using Cons.prems(2) by (auto simp: andthen_Inr)
  note g1 = value_and_flag_reads [OF Cons.prems(1) v]
  then have "good kc u st1" by (simp add: grown_def)
  note IH = Cons.IH [OF this r]
  have g: "grown kc u st1 st'" "settled st1 s" using IH g1 by simp_all
  have s: "settled st' s" "str_of st' s = val" "write_to_conf st' s = w" "grown kc u st st'"
    using g1 grown_settled [OF g] grown_str [OF g] grown_trans [OF _ g(1)] g
    by (simp_all add: grown_def)
  have "good kc u st'" using g(1) by (simp add: grown_def)
  from value_and_flag_known [OF settled_known [OF this s(1)], of kc n] s
  have "value_and_flag kc n s st' = (Inr (val, w), st')" by simp
  then have "sync_loop kc n path old (s # ss) d st' = sync_loop kc n path old ss (?d val w) st'"
    by (simp add: andthen_def)
  with IH s show ?case by simp
qed

section \<open>The second run\<close>

lemma contents_eq_iff: "contents_eq fs fname contents \<longleftrightarrow> fs fname = Some contents"
proof (cases "fs fname")
  case (Some old)
  have "take (length contents + 1) old = contents \<longleftrightarrow> old = contents"
  proof
    assume a: "take (length contents + 1) old = contents"
    then have "length (take (length contents + 1) old) = length contents" by (simp only:)
    then have "length old \<le> length contents" by (simp add: min_def split: if_splits)
    with a show "old = contents" by simp
  qed simp
  with Some show ?thesis by (simp add: contents_eq_def)
qed (simp add: contents_eq_def)

lemma update_file_eq:
  "update_file f t d =
     (if dk_files d f = Some t then d
      else d\<lparr>dk_files := (dk_files d)(f \<mapsto> t), dk_writes := dk_writes d @ [f]\<rparr>)"
  by (simp add: update_file_def write_if_changed_def contents_eq_iff)

text \<open>Reading the recorded values back.\<close>

definition old_of :: "kconfig \<Rightarrow> kstate \<Rightarrow> sref \<Rightarrow> string option" where
  "old_of kc st s = (if s \<in> set (unique_defined_syms kc) then exported kc st s else None)"

lemma fold_old_val_lines:
  assumes wn: "well_named kc"
    and v: "\<forall>s \<in> set ss. s \<in> set (unique_defined_syms kc) \<and> keeps kc st s \<and> newline \<notin> set (str_of st s)"
  shows "fold (old_val_line kc path) (map (\<lambda>s. config_line kc s (str_of st s) @ [newline]) ss) (m, d) =
    (\<lambda>s. if s \<in> set ss then Some (str_of st s) else m s, d)"
  using v
proof (induction ss arbitrary: m)
  case (Cons s ss)
  have "old_val_line kc path (config_line kc s (str_of st s) @ [newline]) (m, d) = (m(s \<mapsto> str_of st s), d)"
    using old_val_line_written [OF wn, of s "str_of st s"] Cons.prems by (simp add: keeps_def)
  with Cons show ?case by (auto simp: fun_eq_iff)
qed (simp add: fun_eq_iff)

lemma recorded_lines_newline:
  assumes wn: "well_named kc" and v: "\<forall>s \<in> set (unique_defined_syms kc). newline \<notin> set (str_of st s)"
  shows "\<forall>l \<in> set (recorded_lines kc st). newline \<notin> set l"
proof
  fix l assume "l \<in> set (recorded_lines kc st)"
  then obtain s where s: "s \<in> set (unique_defined_syms kc)" "keeps kc st s" "l = config_line kc s (str_of st s)"
    by (auto simp: recorded_lines_def)
  have "newline \<notin> set (config_prefix kc)" "newline \<notin> set (sym_name s)"
    using wn s(1) name_ok_newline by (auto simp: well_named_def)
  with v s show "newline \<notin> set l" using config_line_set by (simp add: keeps_def)
qed

definition one_line_values :: "kconfig \<Rightarrow> kstate \<Rightarrow> bool" where
  "one_line_values kc st \<longleftrightarrow> (\<forall>s \<in> set (unique_defined_syms kc). newline \<notin> set (str_of st s))"

definition recorded_text :: "kconfig \<Rightarrow> kstate \<Rightarrow> string" where
  "recorded_text kc st = concat (map (\<lambda>l. l @ [newline]) (recorded_lines kc st))"

lemma load_old_vals_written:
  assumes wn: "well_named kc" and v: "one_line_values kc st"
    and f: "dk_files d (auto_conf path) = Some (recorded_text kc st)"
  shows "load_old_vals kc path d = (old_of kc st, d)"
proof -
  note v' = v [unfolded one_line_values_def]
  have "load_old_vals kc path d = fold (old_val_line kc path)
      (map (\<lambda>s. config_line kc s (str_of st s) @ [newline])
        (List.filter (keeps kc st) (unique_defined_syms kc))) (\<lambda>_. None, d)"
    unfolding load_old_vals_def f option.case recorded_text_def split_lines_concat [OF recorded_lines_newline [OF wn v']]
    by (simp add: recorded_lines_def comp_def)
  also have "\<dots> = (old_of kc st, d)"
    by (subst fold_old_val_lines [OF wn]) (use v' in \<open>auto simp: old_of_def exported_keeps fun_eq_iff\<close>)
  finally show ?thesis .
qed

lemma changed_exported:
  "s \<in> set (unique_defined_syms kc) \<Longrightarrow>
   sym_changed (orig_type (sym_obj kc s)) (old_of kc st1 s) (str_of st2 s) (write_to_conf st2 s) \<longleftrightarrow>
     exported kc st2 s \<noteq> exported kc st1 s"
  by (auto simp: sym_changed_def old_of_def exported_def)

text \<open>The text records what is exported, no more and no less.\<close>

lemma recorded_text_eq:
  assumes "well_named kc" "one_line_values kc st1" "one_line_values kc st2"
  shows "recorded_text kc st1 = recorded_text kc st2 \<longleftrightarrow>
    (\<forall>s \<in> set (unique_defined_syms kc). exported kc st1 s = exported kc st2 s)"
proof
  let ?d = "\<lambda>t. \<lparr>dk_files = [auto_conf [] \<mapsto> t], dk_writes = []\<rparr>"
  assume e: "recorded_text kc st1 = recorded_text kc st2"
  have "load_old_vals kc [] (?d (recorded_text kc st1)) = (old_of kc st1, ?d (recorded_text kc st1))"
    by (rule load_old_vals_written [OF assms(1,2)]) simp
  moreover have "load_old_vals kc [] (?d (recorded_text kc st2)) = (old_of kc st2, ?d (recorded_text kc st2))"
    by (rule load_old_vals_written [OF assms(1,3)]) simp
  ultimately have "old_of kc st1 = old_of kc st2" unfolding e by simp
  then show "\<forall>s \<in> set (unique_defined_syms kc). exported kc st1 s = exported kc st2 s"
    unfolding old_of_def by metis
next
  assume e: "\<forall>s \<in> set (unique_defined_syms kc). exported kc st1 s = exported kc st2 s"
  have "keeps kc st1 s = keeps kc st2 s \<and> (keeps kc st1 s \<longrightarrow> str_of st1 s = str_of st2 s)"
    if "s \<in> set (unique_defined_syms kc)" for s
    using e that by (auto simp: exported_keeps split: if_splits)
  then have "recorded_lines kc st1 = recorded_lines kc st2"
    unfolding recorded_lines_def by (auto intro!: map_cong filter_cong)
  then show "recorded_text kc st1 = recorded_text kc st2" by (simp add: recorded_text_def)
qed

lemma sync_deps_final:
  assumes g: "good kc u st" and r: "sync_deps kc n path d st = (Inr d1, st1)"
  shows "grown kc u st st1 \<and> all_settled kc st1 \<and>
    d1 = update_file (auto_conf path) (recorded_text kc st1)
      (fold (\<lambda>s. touch_dep_file path (sym_name s)) (touched kc st1 (fst (load_old_vals kc path d)))
        (snd (load_old_vals kc path d)))"
proof -
  obtain old d0 where o: "load_old_vals kc path d = (old, d0)" by fastforce
  obtain d2 st2 where l: "sync_loop kc n path old (unique_defined_syms kc) d0 st = (Inr d2, st2)"
    and c: "andthen (old_vals_contents kc n)
      (\<lambda>contents. return (update_file (auto_conf path) contents d2)) st2 = (Inr d1, st1)"
    using r o by (auto simp: sync_deps_def andthen_Inr)
  note f = sync_loop_final [OF g l]
  then have g2: "good kc u st2" and a: "all_settled kc st2" by (auto simp: grown_def all_settled_def)
  from old_vals_contents_settled [OF this, of n] c
  have 1: "st1 = st2" "d1 = update_file (auto_conf path) (recorded_text kc st2) d2"
    by (auto simp: andthen_def return_def recorded_text_def)
  have "d2 = fold (\<lambda>s. touch_dep_file path (sym_name s)) (touched kc st2 old) d0"
    using sync_loop_settled [OF g2, of "unique_defined_syms kc" n path old d0] f
    by (simp add: touched_def)
  with 1 f a o show ?thesis by simp
qed

lemma sync_deps_records:
  assumes "good kc u st" "sync_deps kc n path d st = (Inr d1, st1)"
  shows "dk_files d1 (auto_conf path) = Some (recorded_text kc st1)"
  using sync_deps_final [OF assms] by (auto simp: update_file_eq)

text \<open>Touching files.\<close>

lemma dep_file_not_auto_conf: "dep_file path name \<noteq> auto_conf path"
proof
  assume "dep_file path name = auto_conf path"
  then have "last (dep_file path name) = last (auto_conf path)" by simp
  then show False by (simp add: dep_file_def auto_conf_def path_join_def startswith_Cons split: if_splits)
qed

lemma fold_touch:
  "dk_writes (fold (\<lambda>s. touch_dep_file path (sym_name s)) ss d) = dk_writes d @ map (\<lambda>s. dep_file path (sym_name s)) ss"
  "dk_files (fold (\<lambda>s. touch_dep_file path (sym_name s)) ss d) f =
     (if f \<in> set (map (\<lambda>s. dep_file path (sym_name s)) ss) then Some [] else dk_files d f)"
  by (induction ss arbitrary: d) (auto simp: touch_dep_file_def)

text \<open>
  C8. Where every dependency is registered, running \<^verbatim>\<open>sync_deps\<close> a second time without a change of the configuration in between changes
  no value and no file, and opens none for writing, so that no file gets a new time: the values
  recorded in \<^verbatim>\<open>auto.conf\<close> read back as the current ones and no symbol counts as changed. The
  names must be ones that the lexer accepts, and no value may have a newline in it.
\<close>

theorem sync_deps_idempotent:
  assumes "wf_deps kc" "reachable kc st" "well_named kc"
    and "sync_deps kc n path d st = (Inr d1, st1)" "one_line_values kc st1"
  shows "sync_deps kc m path d1 st1 = (Inr d1, st1)"
proof -
  have g: "good kc (usr st) st"
    using reachable_consistent [OF assms(2,1)] by (simp add: consistent_def good_def)
  note f = sync_deps_final [OF g assms(4)] and t = sync_deps_records [OF g assms(4)]
  then have g1: "good kc (usr st) st1" and a: "all_settled kc st1" by (auto simp: grown_def)
  have o: "load_old_vals kc path d1 = (old_of kc st1, d1)"
    by (rule load_old_vals_written [OF assms(3,5) t])
  have "sync_loop kc m path (old_of kc st1) (unique_defined_syms kc) d1 st1 = (Inr d1, st1)"
    using sync_loop_settled [OF g1, of "unique_defined_syms kc" m path "old_of kc st1" d1] a changed_exported
    by (simp add: all_settled_def filter_False)
  moreover have "update_file (auto_conf path) (recorded_text kc st1) d1 = d1" using t by (simp add: update_file_eq)
  ultimately show ?thesis
    using o old_vals_contents_settled [OF g1 a, of m]
    by (simp add: sync_deps_def andthen_def return_def recorded_text_def)
qed

lemma steps_reachable: "(step kc)\<^sup>*\<^sup>* st st' \<Longrightarrow> reachable kc st \<Longrightarrow> reachable kc st'"
  by (induction rule: rtranclp_induct) (auto intro: reachable.step)

text \<open>The files of the symbols that a build sees with another value, and the record of the values.\<close>

definition export_changes :: "kconfig \<Rightarrow> kstate \<Rightarrow> kstate \<Rightarrow> sref list" where
  "export_changes kc st1 st2 =
     List.filter (\<lambda>s. exported kc st2 s \<noteq> exported kc st1 s) (unique_defined_syms kc)"

definition changed_files :: "kconfig \<Rightarrow> string \<Rightarrow> kstate \<Rightarrow> kstate \<Rightarrow> string list" where
  "changed_files kc path st1 st2 =
     map (\<lambda>s. dep_file path (sym_name s)) (export_changes kc st1 st2) @
     (if export_changes kc st1 st2 = [] then [] else [auto_conf path])"

text \<open>
  C31. What a build notices, where every dependency is registered: between two runs of \<^verbatim>\<open>sync_deps\<close> the client does anything to the
  values, and others anything to the files except \<^verbatim>\<open>auto.conf\<close>. The second run opens for writing
  the file of each symbol that the build now sees with another value, in the order of the
  symbols, then \<^verbatim>\<open>auto.conf\<close> if there was such a symbol, and nothing else; and only these files
  have other contents. The names must be ones that the lexer accepts, and no value may have a
  newline in it.
\<close>

theorem sync_deps_touches:
  assumes "wf_deps kc" "well_named kc" "reachable kc st" "sync_deps kc n path d st = (Inr d1, st1)"
    and "(step kc)\<^sup>*\<^sup>* st1 st'" "dk_files d' (auto_conf path) = dk_files d1 (auto_conf path)"
    and "sync_deps kc m path d' st' = (Inr d2, st2)" "one_line_values kc st1" "one_line_values kc st2"
  shows "dk_writes d2 = dk_writes d' @ changed_files kc path st1 st2 \<and>
    (\<forall>f. f \<notin> set (changed_files kc path st1 st2) \<longrightarrow> dk_files d2 f = dk_files d' f)"
proof -
  have g: "good kc (usr s) s" if "reachable kc s" for s
    using reachable_consistent [OF that assms(1)] by (simp add: consistent_def good_def)
  have "reachable kc st1" by (rule reachable.step [OF assms(3) step.sync [OF assms(4)]])
  then have "reachable kc st'" by (rule steps_reachable [OF assms(5)])
  note f = sync_deps_final [OF g [OF this] assms(7)]
  have t: "dk_files d' (auto_conf path) = Some (recorded_text kc st1)"
    using sync_deps_records [OF g [OF assms(3)] assms(4)] assms(6) by simp
  then have o: "load_old_vals kc path d' = (old_of kc st1, d')" by (rule load_old_vals_written [OF assms(2,8)])
  have c: "touched kc st2 (old_of kc st1) = export_changes kc st1 st2"
    unfolding touched_def export_changes_def by (rule filter_cong) (simp_all add: changed_exported)
  have "export_changes kc st1 st2 = [] \<longleftrightarrow> recorded_text kc st1 = recorded_text kc st2"
    unfolding recorded_text_eq [OF assms(2,8,9)] export_changes_def by (auto simp: filter_empty_conv)
  moreover have "d2 = update_file (auto_conf path) (recorded_text kc st2)
      (fold (\<lambda>s. touch_dep_file path (sym_name s)) (export_changes kc st1 st2) d')"
    using f o c by simp
  ultimately show ?thesis
    using t by (auto simp: changed_files_def update_file_eq fold_touch not_sym [OF dep_file_not_auto_conf])
qed

end
