(* ===== verification/Write_Load.thy ===== *)
theory Write_Load
  imports Sync_Correct
begin

text \<open>
  Writing a configuration and loading it: the line written for a symbol assigns it its
  value, the comments assign nothing, so that the user values after loading are the values
  that were written.
\<close>

section \<open>The line of a symbol\<close>

text \<open>
  The values of which the line reads back. The other int and hex values: with white space
  at the end, which the loader strips (\<^verbatim>\<open>int()\<close> ignores it), or none at all.
\<close>

definition writable :: "ktype \<Rightarrow> string \<Rightarrow> bool" where
  "writable ty w \<longleftrightarrow>
     newline \<notin> set w \<and>
     (case ty of
        BOOL \<Rightarrow> w = ''n'' \<or> w = ''y''
      | TRISTATE \<Rightarrow> w = ''n'' \<or> w = ''m'' \<or> w = ''y''
      | STRING \<Rightarrow> True
      | UNKNOWN \<Rightarrow> False
      | _ \<Rightarrow> w \<noteq> [] \<and> \<not> py_space (last w) \<and> value_ok ty (VStr w))"

definition uval_of :: "ktype \<Rightarrow> string \<Rightarrow> uval" where
  "uval_of ty w =
     (if ty \<in> BOOL_TRISTATE then (case STR_TO_TRI w of Some t \<Rightarrow> VTri t | None \<Rightarrow> VTri TN) else VStr w)"

lemma rstrip_last: "l \<noteq> [] \<Longrightarrow> \<not> py_space (last l) \<Longrightarrow> rstrip (l @ [newline]) = l"
  by (metis append_butlast_last_id py_space_newline rstrip_snoc rstrip_snoc_space)

lemma set_assigns_written:
  assumes "writable ty w" "\<not> (ty \<in> BOOL_TRISTATE \<and> w = ''n'')"
  shows "set_assigns ty (written_value ty w) = Some (uval_of ty w)"
  using assms conf_string_match_quoted [of w]
  by (cases ty) (auto simp: writable_def set_assigns_def written_value_def uval_of_def bool_val_ok_def
      startswith_Cons STR_TO_TRI_def unescape_escape)

lemma written_last:
  assumes "writable ty w" shows "written_value ty w \<noteq> [] \<and> \<not> py_space (last (written_value ty w))"
  using assms by (cases ty) (auto simp: writable_def written_value_def quoted_def py_space_def)

lemma config_line_assigns:
  assumes wn: "well_named kc" and s: "s \<in> set (unique_defined_syms kc)" "nodes (sym_obj kc s) \<noteq> []"
    and w: "writable (orig_type (sym_obj kc s)) w"
  shows "line_assigns kc (config_line kc s w @ [newline]) = Some (s, uval_of (orig_type (sym_obj kc s)) w)"
proof -
  let ?ty = "orig_type (sym_obj kc s)"
  obtain name where o_s: "s = SRef False name" "name_ok name"
    using well_named_sym [OF wn s(1)] by metis
  show ?thesis
  proof (cases "?ty \<in> BOOL_TRISTATE \<and> w = ''n''")
    case True
    then have l: "config_line kc s w = unset_line (config_prefix kc) name"
      using o_s by (simp add: config_line_def)
    have r: "rstrip (unset_line (config_prefix kc) name @ [newline]) = unset_line (config_prefix kc) name"
      by (rule rstrip_last) (simp_all add: unset_line_def py_space_def)
    have "CHR '' '' \<notin> set name" using o_s(2) by (auto simp: name_ok_def py_space_def)
    then have u: "unset_match (config_prefix kc) (unset_line (config_prefix kc) name) = Some name"
      using unset_match_unset_line o_s(2) by (simp add: name_ok_def)
    have n: "set_match (config_prefix kc) (unset_line (config_prefix kc) name) = None"
      using wn by (intro unset_line_not_set) (auto simp: well_named_def)
    have v: "uval_of ?ty w = VTri TN" using True by (simp add: uval_of_def STR_TO_TRI_def)
    show ?thesis
      unfolding line_assigns_def l r Let_def n u v using True s(2) o_s(1) by simp
  next
    case False
    have l: "config_line kc s w = set_line (config_prefix kc) name (written_value ?ty w)"
      using config_line_set [OF False] o_s by simp
    have r: "rstrip (set_line (config_prefix kc) name (written_value ?ty w) @ [newline]) =
        set_line (config_prefix kc) name (written_value ?ty w)"
      by (rule rstrip_last) (use written_last [OF w] in \<open>simp_all add: set_line_def\<close>)
    have "newline \<notin> set (written_value ?ty w)" using w by (auto simp: writable_def)
    from set_match_set_line [OF _ _ this, of name "config_prefix kc"] o_s(2)
    have m: "set_match (config_prefix kc) (set_line (config_prefix kc) name (written_value ?ty w)) =
        Some (name, written_value ?ty w)" by (simp add: name_ok_def)
    show ?thesis
      unfolding line_assigns_def l r Let_def m using set_assigns_written [OF w False] s(2) o_s(1) by simp
  qed
qed

section \<open>Comments\<close>

definition no_assign :: "kconfig \<Rightarrow> string list \<Rightarrow> bool" where
  "no_assign kc ls \<longleftrightarrow> (\<forall>l \<in> set ls. line_assigns kc l = None)"

text \<open>
  The prompts of menus and comments have no newline, and what is written for them does not
  look like a line of a symbol. Every symbol of the menu is defined.
\<close>

definition comments_ok :: "kconfig \<Rightarrow> bool" where
  "comments_ok kc \<longleftrightarrow>
     (\<forall>i. newline \<notin> set (prompt_text kc i) \<and>
        line_assigns kc (''# '' @ prompt_text kc i @ [newline]) = None \<and>
        line_assigns kc (''# end of '' @ prompt_text kc i @ [newline]) = None) \<and>
     line_assigns kc [newline] = None \<and> line_assigns kc (''#'' @ [newline]) = None \<and>
     (\<forall>i s. item (nodetab kc i) = ISym s \<longrightarrow>
        s \<in> set (unique_defined_syms kc) \<and> nodes (sym_obj kc s) \<noteq> [])"

definition text_of :: "string list \<Rightarrow> string" where
  "text_of ls = concat (map (\<lambda>l. l @ [newline]) ls)"

lemma text_of_simps [simp]:
  "text_of [] = []" "text_of (l # ls) = l @ newline # text_of ls" "text_of (xs @ ys) = text_of xs @ text_of ys"
  by (simp_all add: text_of_def)

text \<open>\<open>says kc out m\<close>: the text is made of lines, and its lines assign \<open>m\<close>.\<close>

definition says :: "kconfig \<Rightarrow> string \<Rightarrow> (sref \<Rightarrow> uval option) \<Rightarrow> bool" where
  "says kc out m \<longleftrightarrow>
     (\<exists>ls. out = text_of ls \<and> (\<forall>l \<in> set ls. newline \<notin> set l) \<and>
        (\<forall>m0. fold (add_line kc) (map (\<lambda>l. l @ [newline]) ls) m0 = m0 ++ m))"

lemma says_file:
  assumes "says kc out m" shows "file_values kc (split_lines out) = m"
  using assms unfolding says_def file_values_def text_of_def
  by (auto simp: split_lines_concat)

lemma says_Nil [simp]: "says kc [] Map.empty"
  unfolding says_def by (intro exI [of _ "[]"]) simp

lemma says_append:
  assumes "says kc t1 m1" "says kc t2 m2" shows "says kc (t1 @ t2) (m1 ++ m2)"
proof -
  obtain l1 l2 where "t1 = text_of l1" "t2 = text_of l2"
    "\<forall>l \<in> set l1. newline \<notin> set l" "\<forall>l \<in> set l2. newline \<notin> set l"
    "\<And>m0. fold (add_line kc) (map (\<lambda>l. l @ [newline]) l1) m0 = m0 ++ m1"
    "\<And>m0. fold (add_line kc) (map (\<lambda>l. l @ [newline]) l2) m0 = m0 ++ m2"
    using assms unfolding says_def by blast
  then show ?thesis unfolding says_def by (intro exI [of _ "l1 @ l2"]) (auto simp: map_add_assoc)
qed

lemma says_comment:
  "newline \<notin> set l \<Longrightarrow> line_assigns kc (l @ [newline]) = None \<Longrightarrow> says kc (l @ [newline]) Map.empty"
  unfolding says_def by (intro exI [of _ "[l]"]) (simp add: add_line_def)

lemma says_line:
  "newline \<notin> set l \<Longrightarrow> line_assigns kc (l @ [newline]) = Some (s, v) \<Longrightarrow> says kc (l @ [newline]) [s \<mapsto> v]"
  unfolding says_def by (intro exI [of _ "[l]"]) (simp add: add_line_def)

lemma says_end_comment:
  assumes "comments_ok kc"
  shows "says kc (''# end of '' @ prompt_text kc i @ [newline]) Map.empty"
  using assms says_comment [of "''# end of '' @ prompt_text kc i"]
  by (auto simp: comments_ok_def newline_def)

lemma says_newline: "comments_ok kc \<Longrightarrow> says kc [newline] Map.empty"
  using says_comment [of "[]"] by (simp add: comments_ok_def)

lemma says_comment_text:
  assumes "comments_ok kc" shows "says kc (comment_text kc i) Map.empty"
proof -
  have h: "says kc (''#'' @ [newline]) Map.empty"
    by (rule says_comment) (use assms in \<open>auto simp: comments_ok_def newline_def\<close>)
  have p: "says kc ((''# '' @ prompt_text kc i) @ [newline]) Map.empty"
    by (rule says_comment) (use assms in \<open>auto simp: comments_ok_def newline_def\<close>)
  show ?thesis
    using says_append [OF says_newline [OF assms] says_append [OF h says_append [OF p h]]]
    by (simp add: comment_text_def)
qed

section \<open>The events of the menu\<close>

text \<open>The symbols of the events, and the values written for them.\<close>

definition event_syms :: "kconfig \<Rightarrow> walk_event list \<Rightarrow> sref set" where
  "event_syms kc es = {s. \<exists>i. Visit i \<in> set es \<and> item (nodetab kc i) = ISym s}"

definition written :: "kconfig \<Rightarrow> kstate \<Rightarrow> sref set \<Rightarrow> sref \<Rightarrow> uval option" where
  "written kc st S s =
     (if s \<in> S \<and> write_to_conf st s then Some (uval_of (orig_type (sym_obj kc s)) (str_of st s)) else None)"

definition writables :: "kconfig \<Rightarrow> kstate \<Rightarrow> sref set \<Rightarrow> bool" where
  "writables kc st S \<longleftrightarrow>
     (\<forall>s \<in> S. write_to_conf st s \<longrightarrow> writable (orig_type (sym_obj kc s)) (str_of st s))"

lemma written_grown:
  "grown kc u st st' \<Longrightarrow> \<forall>s \<in> S. settled st s \<Longrightarrow> written kc st' S = written kc st S"
  using grown_str by (fastforce simp: written_def grown_def fun_eq_iff)

lemma writables_grown:
  "grown kc u st st' \<Longrightarrow> \<forall>s \<in> S. settled st s \<Longrightarrow> writables kc st' S = writables kc st S"
  using grown_str by (fastforce simp: writables_def grown_def)

lemma written_Un: "written kc st A ++ written kc st B = written kc st (A \<union> B)"
  by (auto simp: written_def map_add_def fun_eq_iff)

lemma writables_Un: "writables kc st (A \<union> B) \<longleftrightarrow> writables kc st A \<and> writables kc st B"
  by (auto simp: writables_def)

lemma written_empty [simp]: "written kc st {} = Map.empty"
  by (simp add: written_def fun_eq_iff)

lemma event_syms_Cons: "event_syms kc (e # es) = event_syms kc [e] \<union> event_syms kc es"
  by (auto simp: event_syms_def)

lemma newline_unset_line [simp]:
  "newline \<in> set (unset_line pre name) \<longleftrightarrow> newline \<in> set pre \<or> newline \<in> set name"
  by (auto simp: unset_line_def newline_def)

lemma config_string_says:
  assumes wn: "well_named kc" and s: "s \<in> set (unique_defined_syms kc)" "nodes (sym_obj kc s) \<noteq> []"
    and g: "good kc u st" and r: "config_string kc n s st = (Inr str, st')"
  shows "grown kc u st st' \<and> settled st' s \<and>
    (writables kc st' {s} \<longrightarrow> says kc str (written kc st' {s}))"
proof -
  obtain w b st1 where v: "value_and_flag kc n s st = (Inr (w, b), st1)" "st' = st1"
    "str = (if \<not> b then [] else config_line kc s w @ [newline])"
    using r by (auto simp: config_string_def andthen_Inr return_def)
  note f = value_and_flag_reads [OF g v(1)]
  have "says kc str (written kc st' {s})" if "writables kc st' {s}"
  proof (cases b)
    case True
    with that f v have wr: "writable (orig_type (sym_obj kc s)) w" by (simp add: writables_def)
    have "newline \<notin> set w" using wr by (simp add: writable_def)
    moreover have "newline \<notin> set (config_prefix kc)" "newline \<notin> set (sym_name s)"
      using wn s(1) name_ok_newline by (auto simp: well_named_def)
    ultimately have "newline \<notin> set (config_line kc s w)"
      by (simp add: config_line_def)
    from says_line [OF this config_line_assigns [OF wn s wr]] True f v
    have "says kc str [s \<mapsto> uval_of (orig_type (sym_obj kc s)) w]" by simp
    moreover have "written kc st' {s} = [s \<mapsto> uval_of (orig_type (sym_obj kc s)) w]"
      using True f v by (auto simp: written_def fun_eq_iff)
    ultimately show ?thesis by simp
  next
    case False
    then have "written kc st' {s} = Map.empty" using f v by (auto simp: written_def fun_eq_iff)
    then show ?thesis using False v by simp
  qed
  with f v show ?thesis by blast
qed

text \<open>A step of the loop, and the loop.\<close>

definition event_ok ::
  "kconfig \<Rightarrow> user_state \<Rightarrow> walk_event list \<Rightarrow> sref set \<Rightarrow> kstate \<Rightarrow> string \<Rightarrow> kstate \<Rightarrow> bool" where
  "event_ok kc u es visited st out st' \<longleftrightarrow>
     grown kc u st st' \<and> (\<forall>s \<in> visited \<union> event_syms kc es. settled st' s) \<and>
     (writables kc st' (event_syms kc es - visited) \<longrightarrow>
        says kc out (written kc st' (event_syms kc es - visited)))"

lemma event_ok_comment:
  assumes "reading kc m" "good kc u st" "m st = (Inr b, st')" "\<forall>s \<in> visited. settled st s"
    and "event_syms kc [e] = {}" "says kc out Map.empty"
  shows "event_ok kc u [e] visited st out st'"
  using readingD [OF assms(1-3)] grown_settled assms(4-6) by (auto simp: event_ok_def)

lemma reading_comments [simp]: "reading kc (leave_comment kc n i)" "reading kc (visit_comment kc n i)"
  by (auto simp: leave_comment_def visit_comment_def Let_def)

lemma config_event_ok:
  assumes wn: "well_named kc" and c: "comments_ok kc" and g: "good kc u st"
    and v: "\<forall>s \<in> visited. settled st s"
    and r: "config_event kc n e (visited, ae) st = (Inr (out, visited', ae'), st')"
  shows "event_ok kc u [e] visited st out st' \<and> visited' = visited \<union> event_syms kc [e]"
proof (cases e)
  case (Leave i)
  then obtain b where b: "leave_comment kc n i st = (Inr b, st')"
    "out = (if b then ''# end of '' @ prompt_text kc i @ [newline] else [])" "visited' = visited"
    using r by (auto simp: config_event_def andthen_Inr return_def split: if_splits)
  have "event_syms kc [e] = {}" using Leave by (simp add: event_syms_def)
  then show ?thesis
    using event_ok_comment [where m = "leave_comment kc n i", OF _ g b(1) v] says_end_comment [OF c] b(2,3) by simp
next
  case (Visit i)
  show ?thesis
  proof (cases "\<exists>s. item (nodetab kc i) = ISym s")
    case True
    then obtain s where ISym: "item (nodetab kc i) = ISym s" by blast
    have s: "s \<in> set (unique_defined_syms kc)" "nodes (sym_obj kc s) \<noteq> []"
      using c ISym by (auto simp: comments_ok_def)
    have e: "event_syms kc [e] = {s}" using Visit ISym by (auto simp: event_syms_def)
    show ?thesis
    proof (cases "s \<in> visited")
      case True
      then have "out = [] \<and> visited' = visited \<and> st' = st"
        using r Visit ISym by (simp add: config_event_def return_def)
      then show ?thesis
        using True v g grown_refl e by (auto simp: event_ok_def insert_absorb)
    next
      case False
      then obtain str where str: "config_string kc n s st = (Inr str, st')" "visited' = insert s visited"
        "out = [] \<and> str = [] \<or> out = str \<or> out = newline # str"
        using r Visit ISym by (auto simp: config_event_def andthen_Inr return_def split: if_splits)
      note f = config_string_says [OF wn s g str(1)]
      have "says kc out m" if "says kc str m" for m
        using str(3) that says_append [OF says_newline [OF c] that] by auto
      moreover have "{s} - visited = {s}" using False by blast
      ultimately show ?thesis
        using f str(2) e v grown_settled by (auto simp: event_ok_def)
    qed
  next
    case False
    then have "config_event kc n e (visited, ae) =
        andthen (visit_comment kc n i) (\<lambda>b.
          return (if b then (comment_text kc i, visited, False) else ([], visited, ae)))"
      using Visit by (cases "item (nodetab kc i)") (auto simp: config_event_def)
    with r have r': "andthen (visit_comment kc n i) (\<lambda>b.
          return (if b then (comment_text kc i, visited, False) else ([], visited, ae))) st =
        (Inr (out, visited', ae'), st')" by simp
    then obtain b where b: "visit_comment kc n i st = (Inr b, st')"
      "out = (if b then comment_text kc i else [])" "visited' = visited"
      using r' by (auto simp: andthen_Inr return_def split: if_splits)
    have "event_syms kc [e] = {}" using Visit False by (auto simp: event_syms_def)
    then show ?thesis
      using event_ok_comment [where m = "visit_comment kc n i", OF _ g b(1) v] says_comment_text [OF c] b(2,3)
      by simp
  qed
qed

lemma config_events_ok:
  assumes wn: "well_named kc" and c: "comments_ok kc"
  shows "good kc u st \<Longrightarrow> \<forall>s \<in> visited. settled st s \<Longrightarrow>
    config_events kc n es (visited, ae) st = (Inr out, st') \<Longrightarrow> event_ok kc u es visited st out st'"
proof (induction es arbitrary: visited ae st out)
  case Nil
  then show ?case by (auto simp: event_ok_def return_def event_syms_def grown_refl)
next
  case (Cons e es)
  obtain t1 visited1 ae1 st1 t2 where e: "config_event kc n e (visited, ae) st = (Inr (t1, visited1, ae1), st1)"
    and es: "config_events kc n es (visited1, ae1) st1 = (Inr t2, st')" and t: "out = t1 @ t2"
    using Cons.prems(3) by (auto simp: andthen_Inr return_def split: prod.splits)
  note ok1 = config_event_ok [OF wn c Cons.prems(1,2) e]
  then have g1: "grown kc u st st1" "good kc u st1"
    and v1: "visited1 = visited \<union> event_syms kc [e]" "\<forall>s \<in> visited1. settled st1 s"
    by (auto simp: event_ok_def grown_def)
  have ok2: "event_ok kc u es visited1 st1 t2 st'" by (rule Cons.IH [OF g1(2) v1(2) es])
  let ?A = "event_syms kc [e] - visited" and ?B = "event_syms kc es - visited1"
  have AB: "event_syms kc (e # es) - visited = ?A \<union> ?B"
    using v1(1) event_syms_Cons [of kc e es] by auto
  have A: "\<forall>s \<in> ?A. settled st1 s" using v1 by blast
  have g2: "grown kc u st1 st'" using ok2 by (simp add: event_ok_def)
  have "says kc out (written kc st' (?A \<union> ?B))" if "writables kc st' (?A \<union> ?B)"
  proof -
    have "says kc t1 (written kc st' ?A)"
      using ok1 that unfolding event_ok_def writables_Un writables_grown [OF g2 A] written_grown [OF g2 A] by blast
    moreover have "says kc t2 (written kc st' ?B)"
      using ok2 that unfolding event_ok_def writables_Un by blast
    ultimately show ?thesis using says_append t written_Un by metis
  qed
  moreover have "\<forall>s \<in> visited \<union> event_syms kc (e # es). settled st' s"
    using ok2 v1(1) event_syms_Cons [of kc e es] by (auto simp: event_ok_def)
  ultimately show ?case
    using grown_trans [OF g1(1) g2] AB by (simp add: event_ok_def)
qed

section \<open>Writing and loading\<close>

lemma config_contents_says:
  assumes wn: "well_named kc" and c: "comments_ok kc" and g: "good kc u st"
    and w: "walk kc f (top_node kc) = Some es"
    and a: "config_contents kc n f header = Some a" and r: "a st = (Inr out, st')"
    and h: "says kc (case header of Some h \<Rightarrow> h | None \<Rightarrow> config_header kc) Map.empty"
    and wr: "writables kc st' (event_syms kc es)"
  shows "grown kc u st st' \<and> says kc out (written kc st' (event_syms kc es))"
proof -
  obtain body where b: "config_events kc n es ({}, False) st = (Inr body, st')"
    "out = (case header of Some h \<Rightarrow> h | None \<Rightarrow> config_header kc) @ body"
    using a r w by (auto simp: config_contents_def andthen_Inr return_def)
  have "event_ok kc u es {} st body st'" by (rule config_events_ok [OF wn c g _ b(1)]) simp
  then show ?thesis
    using says_append [OF h, of body] wr b(2) by (auto simp: event_ok_def)
qed

text \<open>
  The line that is written for a symbol reads back as an assignment of the value to the
  symbol, for every type and with the escapes of strings.
\<close>

theorem config_line_roundtrip:
  assumes "well_named kc" "s \<in> set (unique_defined_syms kc)" "nodes (sym_obj kc s) \<noteq> []"
    and "writable (orig_type (sym_obj kc s)) w"
  shows "line_assigns kc (config_line kc s w @ [newline]) = Some (s, uval_of (orig_type (sym_obj kc s)) w)"
  by (rule config_line_assigns [OF assms])

text \<open>
  C6. Writing the configuration and loading the file again (into any reachable state, of
  any contents) gives every symbol that was written its value as user value, and takes the
  user value from every other one -- if the values are of a form that reads back, and no
  prompt looks like an assignment.
\<close>

theorem write_load_roundtrip:
  assumes "wf_deps kc" "well_named kc" "comments_ok kc" "card (all_items kc) < m"
    and "says kc (case header of Some h \<Rightarrow> h | None \<Rightarrow> config_header kc) Map.empty"
    and "reachable kc st" "walk kc f (top_node kc) = Some es"
    and "config_contents kc n f header = Some a" "a st = (Inr out, st1)"
    and "writables kc st1 (event_syms kc es)" "reachable kc st2"
  shows "\<exists>st3. load_file kc m fname (split_lines out) True st2 = Inr st3 \<and>
    (\<forall>s \<in> set (unique_defined_syms kc). user_value (usr st3) s =
       (if s \<in> event_syms kc es \<and> write_to_conf st1 s
        then Some (uval_of (orig_type (sym_obj kc s)) (str_of st1 s)) else None))"
proof -
  have "good kc (usr st) st"
    using reachable_consistent [OF assms(6,1)] by (simp add: consistent_def good_def)
  from config_contents_says [OF assms(2,3) this assms(7,8,9,5,10)]
  have "file_values kc (split_lines out) = written kc st1 (event_syms kc es)"
    using says_file by blast
  with load_file_replaces [OF assms(1,4) reachable_consistent [OF assms(11,1)], of fname "split_lines out"]
  show ?thesis by (auto simp: written_def)
qed

end
