(* ===== verification/Check_Dotconfig.thy ===== *)
theory Check_Dotconfig
  imports Sync_Correct
begin

text \<open>
  \<^verbatim>\<open>check-dotconfig.py\<close>: the options requested by Kconfig fragments against the values of
  the configuration that was built. A Python dictionary is an association list in the
  order of insertion; files are lists of lines. The parsing of the command line is not
  modelled, and what \<^verbatim>\<open>main\<close> prints is a list of lines.
\<close>

section \<open>Fragments\<close>

definition option_char :: "char \<Rightarrow> bool" where
  "option_char c \<longleftrightarrow>
     (let n = (of_char c :: nat) in (65 \<le> n \<and> n \<le> 90) \<or> (48 \<le> n \<and> n \<le> 57) \<or> n = 95)"

text \<open>The anchor \<^verbatim>\<open>$\<close> also matches before a newline at the end.\<close>

definition at_end :: "string \<Rightarrow> bool" where
  "at_end s \<longleftrightarrow> s = [] \<or> s = [newline]"

text \<open>The regular expression: an option with its value, None for ``is not set''.\<close>

definition match_line :: "string \<Rightarrow> (string \<times> string option) option" where
  "match_line line =
     (if startswith line ''CONFIG_'' then
        (let rest = drop 7 line; name = takeWhile option_char rest
         in case drop (length name) rest of
              e # v # end \<Rightarrow>
                if name \<noteq> [] \<and> e = CHR ''='' \<and> [v] \<in> {''m'', ''n'', ''y''} \<and> at_end end
                then Some (name, Some [v]) else None
            | _ \<Rightarrow> None)
      else if startswith line ''# CONFIG_'' then
        (let rest = drop 9 line; name = takeWhile option_char rest; after = drop (length name) rest
         in if name \<noteq> [] \<and> startswith after '' is not set'' \<and> at_end (drop 11 after)
            then Some (name, None) else None)
      else None)"

record option_value =
  opt_option :: string
  opt_value :: "string option"
  opt_file :: string
  opt_line :: nat

type_synonym options = "(string \<times> option_value) list"

text \<open>\<^verbatim>\<open>d.update({k: v})\<close>: a key that is there keeps its place.\<close>

fun dict_put :: "string \<Rightarrow> 'a \<Rightarrow> (string \<times> 'a) list \<Rightarrow> (string \<times> 'a) list" where
  "dict_put k v [] = [(k, v)]"
| "dict_put k v ((k', v') # d) = (if k = k' then (k, v) # d else (k', v') # dict_put k v d)"

definition dict_update :: "(string \<times> 'a) list \<Rightarrow> (string \<times> 'a) list \<Rightarrow> (string \<times> 'a) list" where
  "dict_update d e = fold (\<lambda>(k, v). dict_put k v) e d"

definition fragment_line :: "string \<Rightarrow> nat \<times> string \<Rightarrow> options \<Rightarrow> options" where
  "fragment_line fname numbered opts =
     (case match_line (snd numbered) of
        None \<Rightarrow> opts
      | Some (name, val) \<Rightarrow>
          dict_put name \<lparr>opt_option = name, opt_value = val, opt_file = fname, opt_line = fst numbered\<rparr> opts)"

definition shown_name :: "string option \<Rightarrow> string \<Rightarrow> string" where
  "shown_name strip_path_prefix fname =
     (case strip_path_prefix of
        Some p \<Rightarrow> if p \<noteq> [] \<and> startswith fname p then drop (length p) fname else fname
      | None \<Rightarrow> fname)"

definition parse_fragment ::
  "(string \<Rightarrow> string list option) \<Rightarrow> string \<Rightarrow> string option \<Rightarrow> exn + options" where
  "parse_fragment fs fname strip_path_prefix =
     (case fs fname of
        None \<Rightarrow> Inl (EnvironmentError fname)
      | Some ls \<Rightarrow>
          Inr (fold (fragment_line (shown_name strip_path_prefix fname)) (zip [1..<Suc (length ls)] ls) []))"

section \<open>The comparison\<close>

definition format_message :: "string \<Rightarrow> string \<Rightarrow> nat \<Rightarrow> bool \<Rightarrow> string" where
  "format_message message file line github_format =
     (if github_format then ''::warning file='' @ file @ '',line='' @ py_str (int line) @ ''::'' @ message
      else message @ '' (defined in '' @ file @ '':'' @ py_str (int line) @ '')'')"

definition show_value :: "string option \<Rightarrow> string" where
  "show_value v = (case v of None \<Rightarrow> ''None'' | Some w \<Rightarrow> w)"

text \<open>One option: the lines printed for it.\<close>

definition compare_option ::
  "kconfig \<Rightarrow> nat \<Rightarrow> bool \<Rightarrow> string \<times> option_value \<Rightarrow> string list action" where
  "compare_option kc n github opt =
     (let (name, spec) = opt; s = SRef False name;
          report = (\<lambda>msg. [format_message msg (opt_file spec) (opt_line spec) github])
      in if symtab kc s = None then return (report (name @ ''='' @ show_value (opt_value spec) @ '' not found''))
         else andthen (eval kc n (\<lambda>_. rd_str s)) (\<lambda>val.
                return (if Some val \<noteq> opt_value spec then
                          (if opt_value spec = None \<and> val = ''n'' then []
                           else report (name @ ''='' @ show_value (opt_value spec) @
                                  '' requested, actual = '' @ val))
                        else [])))"

primrec compare_configs :: "kconfig \<Rightarrow> nat \<Rightarrow> bool \<Rightarrow> options \<Rightarrow> string list action" where
  "compare_configs kc n github [] = return []"
| "compare_configs kc n github (opt # opts) =
     andthen (compare_option kc n github opt) (\<lambda>a.
     andthen (compare_configs kc n github opts) (\<lambda>b. return (a @ b)))"

text \<open>
  \<^verbatim>\<open>main\<close>: the fragments are merged in their order, the configuration file is loaded over
  the fresh configuration that the constructor made of \<^verbatim>\<open>--src-kconfig\<close>, and the values
  are compared.
\<close>

primrec merge_fragments ::
  "(string \<Rightarrow> string list option) \<Rightarrow> string option \<Rightarrow> string list \<Rightarrow> options \<Rightarrow> exn + options" where
  "merge_fragments fs strip_prefix [] opts = Inr opts"
| "merge_fragments fs strip_prefix (f # fsn) opts =
     (case parse_fragment fs f strip_prefix of
        Inl e \<Rightarrow> Inl e
      | Inr d \<Rightarrow> merge_fragments fs strip_prefix fsn (dict_update opts d))"

definition check_main ::
  "env \<Rightarrow> kconfig \<Rightarrow> nat \<Rightarrow> string list \<Rightarrow> string option \<Rightarrow> string \<Rightarrow> bool \<Rightarrow> kstate \<Rightarrow> exn + string list" where
  "check_main ev kc n fragments strip_prefix actual_config github st =
     (case merge_fragments (files ev) strip_prefix fragments [] of
        Inl e \<Rightarrow> Inl e
      | Inr expected \<Rightarrow>
          (case load_config ev kc n (Some actual_config) True st of
             Inl e \<Rightarrow> Inl e
           | Inr (msg, st1) \<Rightarrow> fst (compare_configs kc n github expected st1)))"

section \<open>Dictionaries\<close>

lemma map_of_dict_put [simp]: "map_of (dict_put k v d) = (map_of d)(k \<mapsto> v)"
  by (induction k v d rule: dict_put.induct) (auto simp: fun_eq_iff)

lemma dict_put_keys: "fst ` set (dict_put k v d) = insert k (fst ` set d)"
  by (induction k v d rule: dict_put.induct) auto

lemma dict_put_distinct: "distinct (map fst d) \<Longrightarrow> distinct (map fst (dict_put k v d))"
proof (induction k v d rule: dict_put.induct)
  case (2 k v k' v' d)
  then show ?case using dict_put_keys [of k v d] by (auto simp: image_iff)
qed simp

lemma map_of_dict_update: "distinct (map fst e) \<Longrightarrow> map_of (dict_update d e) = map_of d ++ map_of e"
proof (induction e arbitrary: d)
  case (Cons x e)
  obtain k v where x: "x = (k, v)" by (cases x)
  have "map_of d ++ (map_of e)(k \<mapsto> v) = (map_of d)(k \<mapsto> v) ++ map_of e"
  proof
    fix y
    have "map_of e k = None" using Cons.prems x by (simp add: map_of_eq_None_iff)
    then show "(map_of d ++ (map_of e)(k \<mapsto> v)) y = ((map_of d)(k \<mapsto> v) ++ map_of e) y"
      by (cases "y = k") (simp_all add: map_add_def split: option.split)
  qed
  moreover have "map_of (x # e) = (map_of e)(k \<mapsto> v)" using x by simp
  moreover have "map_of (dict_update d (x # e)) = map_of (dict_put k v d) ++ map_of e"
    using Cons x by (simp add: dict_update_def)
  ultimately show ?case by (simp only: map_of_dict_put)
qed (simp add: dict_update_def)

lemma dict_update_distinct: "distinct (map fst d) \<Longrightarrow> distinct (map fst (dict_update d e))"
  unfolding dict_update_def
  by (induction e arbitrary: d) (auto simp: dict_put_distinct)

section \<open>Merging fragments\<close>

text \<open>The requested value of an option: that of the last line about it.\<close>

definition request :: "string \<Rightarrow> (string \<Rightarrow> string option option) \<Rightarrow> string \<Rightarrow> string option option" where
  "request line m = (case match_line line of None \<Rightarrow> m | Some (name, v) \<Rightarrow> m(name \<mapsto> v))"

definition requests :: "string list \<Rightarrow> string \<Rightarrow> string option option" where
  "requests ls = fold request ls Map.empty"

definition requested :: "options \<Rightarrow> string \<Rightarrow> string option option" where
  "requested opts = map_option opt_value \<circ> map_of opts"

lemma requested_line: "requested (fragment_line f (i, l) opts) = request l (requested opts)"
  by (auto simp: fragment_line_def request_def requested_def fun_eq_iff split: option.splits)

lemma requested_lines:
  "length ns = length ls \<Longrightarrow>
   requested (fold (fragment_line f) (zip ns ls) opts) = fold request ls (requested opts)"
  by (induction ns ls arbitrary: opts rule: list_induct2) (auto simp: requested_line)

lemma fragment_distinct:
  "distinct (map fst opts) \<Longrightarrow> distinct (map fst (fold (fragment_line f) nls opts))"
  by (induction nls arbitrary: opts)
    (auto simp: fragment_line_def dict_put_distinct split: option.splits)

lemma request_add: "fold request ls m = m ++ fold request ls Map.empty"
proof (induction ls rule: rev_induct)
  case (snoc l ls)
  then show ?case by (auto simp: request_def map_add_def fun_eq_iff split: option.splits)
qed simp

lemma parse_fragment_requests:
  assumes "parse_fragment fs f strip_prefix = Inr d"
  shows "\<exists>ls. fs f = Some ls \<and> requested d = requests ls \<and> distinct (map fst d)"
proof -
  obtain ls where ls: "fs f = Some ls"
    "d = fold (fragment_line (shown_name strip_prefix f)) (zip [1..<Suc (length ls)] ls) []"
    using assms by (auto simp: parse_fragment_def split: option.splits simp del: upt_Suc)
  have "requested [] = Map.empty" by (simp add: requested_def fun_eq_iff)
  then show ?thesis
    unfolding ls(2) requests_def
    using ls(1) requested_lines [of "[1..<Suc (length ls)]" ls "shown_name strip_prefix f" "[]"] fragment_distinct
    by (simp del: upt_Suc)
qed

lemma requested_update:
  "distinct (map fst e) \<Longrightarrow> requested (dict_update d e) = requested d ++ requested e"
  by (auto simp: requested_def map_of_dict_update map_add_def fun_eq_iff split: option.splits)

lemma merge_fragments_requests:
  "merge_fragments fs strip_prefix frags opts = Inr d \<Longrightarrow>
   requested d = fold request (concat (map (\<lambda>f. case fs f of Some ls \<Rightarrow> ls | None \<Rightarrow> []) frags)) (requested opts)"
proof (induction frags arbitrary: opts)
  case (Cons f frags)
  obtain e where e: "parse_fragment fs f strip_prefix = Inr e"
    "merge_fragments fs strip_prefix frags (dict_update opts e) = Inr d"
    using Cons.prems by (auto simp: results)
  obtain ls where ls: "fs f = Some ls" "requested e = requests ls" "distinct (map fst e)"
    using parse_fragment_requests [OF e(1)] by blast
  have "requested (dict_update opts e) = fold request ls (requested opts)"
    using requested_update [OF ls(3)] ls(2) request_add [of ls "requested opts"] by (simp add: requests_def)
  with Cons.IH [OF e(2)] ls(1) show ?case by simp
qed simp

section \<open>Comparing\<close>

definition agrees :: "string option \<Rightarrow> string \<Rightarrow> bool" where
  "agrees v w \<longleftrightarrow> (case v of None \<Rightarrow> w = ''n'' | Some x \<Rightarrow> w = x)"

definition satisfied :: "kconfig \<Rightarrow> kstate \<Rightarrow> string \<times> option_value \<Rightarrow> bool" where
  "satisfied kc st opt \<longleftrightarrow>
     symtab kc (SRef False (fst opt)) \<noteq> None \<and> agrees (opt_value (snd opt)) (str_of st (SRef False (fst opt)))"

lemma eval_str_reads:
  assumes g: "good kc u st" and r: "eval kc n (\<lambda>_. rd_str s) st = (Inr w, st')"
  shows "grown kc u st st' \<and> settled st' s \<and> w = str_of st' s"
proof -
  have "value_and_flag kc n s st = (Inr (w, write_to_conf st' s), st')"
    using r by (simp add: value_and_flag_def andthen_def)
  from value_and_flag_reads [OF g this] show ?thesis by blast
qed

lemma compare_option_says:
  assumes g: "good kc u st" and r: "compare_option kc n github opt st = (Inr out, st')"
  shows "grown kc u st st' \<and> (symtab kc (SRef False (fst opt)) \<noteq> None \<longrightarrow> settled st' (SRef False (fst opt))) \<and>
    (out = [] \<longleftrightarrow> satisfied kc st' opt) \<and> length out \<le> 1"
proof -
  obtain name spec where opt: "opt = (name, spec)" by (cases opt)
  show ?thesis
  proof (cases "symtab kc (SRef False name) = None")
    case True
    then show ?thesis
      using r g by (auto simp: opt compare_option_def return_def satisfied_def grown_refl)
  next
    case False
    then obtain w where w: "eval kc n (\<lambda>_. rd_str (SRef False name)) st = (Inr w, st')"
      "out = (if Some w \<noteq> opt_value spec then
                (if opt_value spec = None \<and> w = ''n'' then []
                 else [format_message (name @ ''='' @ show_value (opt_value spec) @
                        '' requested, actual = '' @ w) (opt_file spec) (opt_line spec) github])
              else [])"
      using r by (auto simp: opt compare_option_def andthen_Inr return_def)
    from eval_str_reads [OF g w(1)] False w(2) show ?thesis
      by (auto simp: opt satisfied_def agrees_def split: option.splits)
  qed
qed

lemma satisfied_grown:
  "grown kc u st st' \<Longrightarrow> symtab kc (SRef False (fst opt)) \<noteq> None \<longrightarrow> settled st (SRef False (fst opt)) \<Longrightarrow>
   satisfied kc st' opt = satisfied kc st opt"
  using grown_str by (fastforce simp: satisfied_def)

lemma compare_configs_says:
  assumes "good kc u st" "compare_configs kc n github opts st = (Inr out, st')"
  shows "grown kc u st st' \<and> (out = [] \<longleftrightarrow> (\<forall>opt \<in> set opts. satisfied kc st' opt)) \<and>
    length out = length (List.filter (\<lambda>opt. \<not> satisfied kc st' opt) opts)"
  using assms
proof (induction opts arbitrary: st out)
  case Nil
  then show ?case by (auto simp: return_def grown_refl)
next
  case (Cons opt opts)
  obtain a st1 b where a: "compare_option kc n github opt st = (Inr a, st1)"
    and b: "compare_configs kc n github opts st1 = (Inr b, st')" and out: "out = a @ b"
    using Cons.prems(2) by (auto simp: andthen_Inr return_def)
  note f = compare_option_says [OF Cons.prems(1) a]
  then have "good kc u st1" by (simp add: grown_def)
  note IH = Cons.IH [OF this b]
  have s: "satisfied kc st' opt = satisfied kc st1 opt" by (rule satisfied_grown) (use IH f in auto)
  have l: "length a = (if satisfied kc st' opt then 0 else 1)" "a = [] \<longleftrightarrow> satisfied kc st' opt"
    using f s by (cases a; simp)+
  have "grown kc u st st'" using f IH grown_trans by blast
  with IH l out show ?case by simp
qed

text \<open>
  C33. What the fragments request: \<^verbatim>\<open>main\<close> merges them as if they were one file, and the
  last line about an option counts.
\<close>

theorem fragments_last_line:
  assumes "merge_fragments fs strip_prefix frags [] = Inr d"
  shows "requested d = requests (concat (map (\<lambda>f. case fs f of Some ls \<Rightarrow> ls | None \<Rightarrow> []) frags))"
  using merge_fragments_requests [OF assms] by (simp add: requests_def requested_def comp_def)

text \<open>
  C32. The check prints nothing exactly if every requested option exists and has the
  requested value (n, if it is requested as ``not set''), and otherwise one line for each
  option that has not.
\<close>

theorem compare_configs_correct:
  assumes "wf_deps kc" "reachable kc st" "compare_configs kc n github opts st = (Inr out, st')"
  shows "(out = [] \<longleftrightarrow> (\<forall>opt \<in> set opts. satisfied kc st' opt)) \<and>
    length out = length (List.filter (\<lambda>opt. \<not> satisfied kc st' opt) opts)"
proof -
  have "good kc (usr st) st"
    using reachable_consistent [OF assms(2,1)] by (simp add: consistent_def good_def)
  from compare_configs_says [OF this assms(3)] show ?thesis by blast
qed

end
