(* ===== verification/Dot_Examples.thy ===== *)
theory Dot_Examples
  imports Update_Examples Write_Load Check_Dotconfig
begin

text \<open>Configuration files on the example, and on the example with its menu tree.\<close>

section \<open>Loading\<close>

lemma ex_card: "card (all_items ex_kc) = 10"
proof -
  have "all_items ex_kc = Sym ` {modules, nsym ''A'', nsym ''B'', nsym ''C'', nsym ''N'', nsym ''S'',
      nsym ''X'', nsym ''Y'', nsym ''D''} \<union> {Cho 0}"
    by (auto simp: all_items_def ex_kc_def)
  then show ?thesis by (simp add: card_insert_if image_iff modules_def)
qed

definition ex_file :: "string list" where
  "ex_file =
     [''# a comment'' @ [newline], ''CONFIG_A=y'' @ [newline], ''# CONFIG_A is not set'' @ [newline],
      ''CONFIG_S='' @ [CHR 0x22] @ ''text'' @ [CHR 0x22, newline], ''CONFIG_N=7 '' @ [newline],
      ''CONFIG_X=y'' @ [newline], ''CONFIG_GONE=y'' @ [newline], ''CONFIG_B=maybe'']"

lemma ex_file_values:
  "map (file_values ex_kc ex_file) [nsym ''A'', nsym ''B'', nsym ''S'', nsym ''N'', nsym ''X'', nsym ''GONE''] =
     [Some (VTri TN), None, Some (VStr ''text''), Some (VStr ''7''), Some (VTri TY), None]"
  by code_simp

lemma load_replace_values_witness:
  "\<exists>st'. load_file ex_kc 11 ''dot'' ex_file True ex_st = Inr st' \<and>
     user_value (usr st') (nsym ''A'') = Some (VTri TN) \<and> user_value (usr st') modules = None"
proof -
  have "file_values ex_kc ex_file (nsym ''A'') = Some (VTri TN)" using ex_file_values by simp
  moreover have "file_values ex_kc ex_file modules = None" by code_simp
  moreover have "modules \<in> set (unique_defined_syms ex_kc)" "nsym ''A'' \<in> set (unique_defined_syms ex_kc)"
    by (simp_all add: ex_kc_def)
  ultimately show ?thesis
    using load_replace_values [OF ex_wf _ ex_st_reachable, of 11 "''dot''" ex_file] ex_card by auto
qed

lemma ex_st_marks:
  "\<forall>s \<in> set (unique_defined_syms ex_kc). was_set ex_st s \<longrightarrow> user_value (usr ex_st) s \<noteq> None"
  by code_simp

lemma load_merge_values_witness:
  "\<exists>st'. load_file ex_kc 11 ''dot'' ex_file False ex_st = Inr st' \<and>
     user_value (usr st') (nsym ''A'') = Some (VTri TN) \<and> user_value (usr st') modules = Some (VTri TY)"
proof -
  have v: "(user_value (usr ex_st) ++ file_values ex_kc ex_file) (nsym ''A'') = Some (VTri TN)"
    "(user_value (usr ex_st) ++ file_values ex_kc ex_file) modules = Some (VTri TY)"
    by code_simp+
  have "modules \<in> set (unique_defined_syms ex_kc)" "nsym ''A'' \<in> set (unique_defined_syms ex_kc)"
    by (simp_all add: ex_kc_def)
  moreover obtain st' where "load_file ex_kc 11 ''dot'' ex_file False ex_st = Inr st'"
    "\<forall>s \<in> set (unique_defined_syms ex_kc).
       user_value (usr st') s = (user_value (usr ex_st) ++ file_values ex_kc ex_file) s"
    using load_merge_values [OF ex_wf _ ex_st_reachable ex_st_marks, of 11 "''dot''" ex_file] ex_card
    by auto
  ultimately show ?thesis using v by metis
qed

text \<open>\<open>A\<close> was set to m; now it is unset.\<close>

definition ex_unset :: kstate where
  "ex_unset = (case sym_unset_value ex_kc 20 (nsym ''A'') ex_st of Inl e \<Rightarrow> ex_st | Inr st \<Rightarrow> st)"

lemma ex_unset_reachable: "reachable ex_kc ex_unset"
  unfolding ex_unset_def
  by (auto split: sum.splits intro: ex_st_reachable reachable.step [OF ex_st_reachable step.unset_sym])

lemma merge_after_unset_fails_witness:
  "reachable ex_kc ex_unset \<and>
   load_file ex_kc 11 ''dot'' [''CONFIG_A=y'' @ [newline]] False ex_unset = Inl KeyError"
proof -
  have "line_assigns ex_kc (''CONFIG_A=y'' @ [newline]) = Some (nsym ''A'', VTri TY)" by code_simp
  moreover have "orig_type (sym_obj ex_kc (nsym ''A'')) \<in> BOOL_TRISTATE" by code_simp
  moreover have "was_set ex_unset (nsym ''A'')" by code_simp
  moreover have "user_value (usr ex_unset) (nsym ''A'') = None" by code_simp
  ultimately show ?thesis
    using merge_after_unset_fails [OF ex_wf] ex_unset_reachable ex_card by simp
qed

section \<open>A configuration with a menu\<close>

text \<open>A menu with a bool \<open>P\<close> and a string \<open>T\<close>, and a comment after it.\<close>

definition demo_node :: "node_item \<Rightarrow> string \<Rightarrow> nat \<Rightarrow> nat option \<Rightarrow> menu_node" where
  "demo_node it txt p nxt = fresh_node
     \<lparr>item := it, nd_prompt := Some (txt, expr_y), parent := Some p, nd_next := nxt,
      filename := ''Kconfig'', linenr := 1\<rparr>"

definition demo_nodes :: "nat \<Rightarrow> menu_node" where
  "demo_nodes i =
     (if i = 0 then fresh_node\<lparr>item := IMenu, nd_prompt := Some (''Main menu'', expr_y), nd_list := Some 1\<rparr>
      else if i = 1 then (demo_node IMenu ''Options'' 0 (Some 4))\<lparr>nd_list := Some 2\<rparr>
      else if i = 2 then demo_node (ISym (nsym ''P'')) ''use P'' 1 (Some 3)
      else if i = 3 then demo_node (ISym (nsym ''T'')) ''name'' 1 None
      else if i = 4 then demo_node IComment ''the end'' 0 None
      else fresh_node)"

definition demo_symtab :: "sref \<Rightarrow> symbol option" where
  "demo_symtab s =
     (if s = nsym ''P'' then Some (ex_sym BOOL 2)
      else if s = nsym ''T'' then
        Some ((ex_sym STRING 3)\<lparr>defaults := [(Leaf (Sym (SRef True (''a'' @ [CHR 0x22] @ ''b''))), expr_y)]\<rparr>)
      else None)"

definition demo :: kconfig where
  "demo =
     \<lparr>symtab = demo_symtab, choicetab = (\<lambda>_. fresh_choice), nodetab = demo_nodes,
      unique_defined_syms = [nsym ''P'', nsym ''T''], unique_choices = [], defconfig_list = None,
      config_prefix = ''CONFIG_'', config_header = ''# demo'' @ [newline], header_header = [],
      top_node = 0\<rparr>"

lemma demo_tabs [simp]:
  "symtab demo = demo_symtab" "choicetab demo c = fresh_choice" "nodetab demo = demo_nodes"
  "unique_defined_syms demo = [nsym ''P'', nsym ''T'']" "unique_choices demo = []"
  "config_prefix demo = ''CONFIG_''" "top_node demo = 0" "config_header demo = ''# demo'' @ [newline]"
  by (simp_all add: demo_def)

lemma demo_items: "all_items demo = {Sym (nsym ''P''), Sym (nsym ''T'')}"
  by (auto simp: all_items_def)

lemma demo_objs:
  "sym_obj demo (nsym ''P'') = ex_sym BOOL 2"
  "sym_obj demo (nsym ''T'') =
     (ex_sym STRING 3)\<lparr>defaults := [(Leaf (Sym (SRef True (''a'' @ [CHR 0x22] @ ''b''))), expr_y)]\<rparr>"
  "s \<noteq> nsym ''P'' \<Longrightarrow> s \<noteq> nsym ''T'' \<Longrightarrow> sym_obj demo s = (if is_nmy s then const_symbol else fresh_symbol)"
  by (simp_all add: sym_obj_def is_nmy_def const_n_def const_m_def const_y_def demo_symtab_def)

lemma demo_sym_cases:
  "(s = nsym ''P'' \<Longrightarrow> Q) \<Longrightarrow> (s = nsym ''T'' \<Longrightarrow> Q) \<Longrightarrow>
   (sym_obj demo s = const_symbol \<and> is_nmy s \<or> sym_obj demo s = fresh_symbol \<Longrightarrow>
      s \<noteq> nsym ''P'' \<Longrightarrow> s \<noteq> nsym ''T'' \<Longrightarrow> Q) \<Longrightarrow> Q"
  using demo_objs(3) [of s] by (cases "is_nmy s") auto

lemmas demo_simps = demo_objs ex_sym_def fresh_symbol_def const_symbol_def fresh_choice_def
  demo_nodes_def demo_node_def fresh_node_def sc_dependents_def sc_nodes_def tracked_def constant_item_def
  prompts_tracked_def const_n_def const_m_def const_y_def

lemma demo_wf: "wf_deps demo"
  unfolding wf_deps_def
proof (intro conjI allI impI)
  have "sc_dependents demo x = []" for x
  proof (cases x)
    case (Sym s)
    then show ?thesis by (cases s rule: demo_sym_cases) (auto simp: demo_simps)
  qed (simp add: demo_simps)
  then show "deps_inside demo" by (simp add: deps_inside_def)
next
  fix s show "if Sym s \<in> all_items demo then \<not> is_constant s \<and> sym_tracked demo s else undefined_sym demo s"
    by (cases s rule: demo_sym_cases)
      (auto simp: demo_items sym_tracked_def undefined_sym_def Let_def demo_simps)
next
  fix c show "if Cho c \<in> all_items demo then choice_tracked demo c else undefined_choice demo c"
    by (simp add: demo_items undefined_choice_def fresh_choice_def)
next
  fix s c assume "choice (sym_obj demo s) = Some c"
  then have False by (cases s rule: demo_sym_cases) (auto simp: demo_simps)
  then show "Cho c \<in> all_items demo" "s \<in> set (c_syms (choicetab demo c))" by auto
qed

text \<open>The pointers represent the menu tree.\<close>

lemma demo_represents:
  "represents demo [MNode 1 [MNode 2 [], MNode 3 []], MNode 4 []]"
  by (simp add: represents_def demo_nodes_def demo_node_def fresh_node_def)

lemma node_iter_preorder_witness:
  "node_iter demo 11 True = Some [1, 2, 3, 4]"
proof -
  have "first_nodes demo {} [1, 2, 3, 4] = [1, 2, 3, 4]"
    by (simp add: demo_nodes_def demo_node_def fresh_node_def)
  then show ?thesis
    using node_iter_preorder [OF demo_represents, of 11] by simp
qed

section \<open>The record of the last build\<close>

lemma demo_well_named: "well_named demo"
  by code_simp

definition empty_disk :: disk where
  "empty_disk = \<lparr>dk_files = (\<lambda>_. None), dk_writes = []\<rparr>"

abbreviation demo_sync :: "(exn + disk) \<times> kstate" where
  "demo_sync \<equiv> sync_deps demo 9 ''dep'' empty_disk init_state"

lemma demo_sync_returns: "\<not> isl (fst demo_sync)"
  by code_simp

lemma demo_sync_one_line: "one_line_values demo (snd demo_sync)"
  by code_simp

lemma demo_sync_Inr: "demo_sync = (Inr (projr (fst demo_sync)), snd demo_sync)"
  using demo_sync_returns by (metis prod.collapse sum.collapse(2))

lemma sync_deps_idempotent_witness:
  "sync_deps demo 0 ''dep'' (projr (fst demo_sync)) (snd demo_sync) = (Inr (projr (fst demo_sync)), snd demo_sync)"
  by (rule sync_deps_idempotent [OF demo_wf reachable.init demo_well_named demo_sync_Inr demo_sync_one_line])

text \<open>A string is set between two runs: its file is touched, and the record updated.\<close>

definition after_set :: "(exn + bool \<times> kstate) \<Rightarrow> kstate \<Rightarrow> kstate" where
  "after_set r st = (case r of Inl e \<Rightarrow> st | Inr (b, st') \<Rightarrow> st')"

abbreviation demo_set :: "exn + bool \<times> kstate" where
  "demo_set \<equiv> sym_set_value demo 9 (nsym ''T'') (VStr ''new'') (snd demo_sync)"

abbreviation demo_second :: "(exn + disk) \<times> kstate" where
  "demo_second \<equiv> sync_deps demo 9 ''dep'' (projr (fst demo_sync)) (after_set demo_set (snd demo_sync))"

lemma demo_second_returns:
  "\<not> isl demo_set" "\<not> isl (fst demo_second)" "one_line_values demo (snd demo_second)"
  "changed_files demo ''dep'' (snd demo_sync) (snd demo_second) = [''dep/t.h'', ''dep/auto.conf'']"
  by code_simp+

lemma sync_deps_touches_witness:
  "dk_writes (projr (fst demo_second)) = dk_writes (projr (fst demo_sync)) @ [''dep/t.h'', ''dep/auto.conf'']"
proof -
  obtain b st where s: "demo_set = Inr (b, st)" using demo_second_returns(1) by (cases demo_set) auto
  then have "step demo (snd demo_sync) (after_set demo_set (snd demo_sync))"
    by (auto simp: after_set_def intro: step.set_sym)
  moreover have "demo_second = (Inr (projr (fst demo_second)), snd demo_second)"
    using demo_second_returns(2) by (metis prod.collapse sum.collapse(2))
  ultimately show ?thesis
    using sync_deps_touches [OF demo_wf demo_well_named reachable.init demo_sync_Inr _ refl _ demo_sync_one_line
        demo_second_returns(3)] demo_second_returns(4)
    by (metis r_into_rtranclp)
qed

section \<open>Writing and loading\<close>

lemma config_line_roundtrip_witness:
  "line_assigns demo (''CONFIG_T='' @ [CHR 0x22, CHR 0x5C, CHR 0x22, CHR 0x22, newline]) =
     Some (nsym ''T'', VStr [CHR 0x22])"
proof -
  have w: "writable (orig_type (sym_obj demo (nsym ''T''))) [CHR 0x22]" by code_simp
  have l: "config_line demo (nsym ''T'') [CHR 0x22] @ [newline] =
      ''CONFIG_T='' @ [CHR 0x22, CHR 0x5C, CHR 0x22, CHR 0x22, newline]" by code_simp
  have u: "uval_of (orig_type (sym_obj demo (nsym ''T''))) [CHR 0x22] = VStr [CHR 0x22]" by code_simp
  show ?thesis
    using config_line_roundtrip [OF demo_well_named _ _ w] unfolding l u by (simp add: demo_simps)
qed

lemma demo_line_none:
  "line_assigns demo [newline] = None" "line_assigns demo (''#'' @ [newline]) = None"
  "line_assigns demo (''# demo'' @ [newline]) = None"
  "\<forall>p \<in> set [[], ''Main menu'', ''Options'', ''use P'', ''name'', ''the end''].
     newline \<notin> set p \<and> line_assigns demo (''# '' @ p @ [newline]) = None \<and>
     line_assigns demo (''# end of '' @ p @ [newline]) = None"
  by code_simp+

lemma demo_prompts: "prompt_text demo i \<in> set [[], ''Main menu'', ''Options'', ''use P'', ''name'', ''the end'']"
  by (simp add: prompt_text_def demo_nodes_def demo_node_def fresh_node_def)

lemma demo_comments: "comments_ok demo"
  unfolding comments_ok_def
proof (intro conjI allI impI)
  fix i
  show "newline \<notin> set (prompt_text demo i)" "line_assigns demo (''# '' @ prompt_text demo i @ [newline]) = None"
    "line_assigns demo (''# end of '' @ prompt_text demo i @ [newline]) = None"
    using demo_line_none(4) demo_prompts by blast+
  fix s assume "item (nodetab demo i) = ISym s"
  then have "s = nsym ''P'' \<or> s = nsym ''T''"
    by (auto simp: demo_nodes_def demo_node_def fresh_node_def split: if_splits)
  then show "s \<in> set (unique_defined_syms demo)" "nodes (sym_obj demo s) \<noteq> []"
    by (auto simp: demo_simps)
qed (rule demo_line_none)+

lemma demo_header: "says demo (case None of Some h \<Rightarrow> h | None \<Rightarrow> config_header demo) Map.empty"
  using says_comment [of "''# demo''", OF _ demo_line_none(3)] by (simp add: newline_def)

definition demo_events :: "walk_event list" where
  "demo_events = [Visit 1, Visit 2, Visit 3, Leave 1, Visit 4, Leave 0]"

lemma demo_walk: "walk demo 9 (top_node demo) = Some demo_events"
  by code_simp

abbreviation demo_write :: "(exn + string) \<times> kstate" where
  "demo_write \<equiv> (case config_contents demo 9 9 None of Some a \<Rightarrow> a init_state | None \<Rightarrow> (Inl KeyError, init_state))"

lemma demo_write_out:
  "fst demo_write = Inr (text_of [''# demo'', [], ''#'', ''# Options'', ''#'', ''# CONFIG_P is not set'',
     ''CONFIG_T='' @ [CHR 0x22] @ ''a'' @ [CHR 0x5C, CHR 0x22] @ ''b'' @ [CHR 0x22],
     ''# end of Options'', [], ''#'', ''# the end'', ''#''])"
  by code_simp

lemma demo_flags:
  "map (write_to_conf (snd demo_write)) [nsym ''P'', nsym ''T''] = [True, True] \<and>
   map (str_of (snd demo_write)) [nsym ''P'', nsym ''T''] = [''n'', ''a'' @ [CHR 0x22] @ ''b'']"
  by code_simp

lemma demo_item: "item (demo_nodes i) = ISym s \<longleftrightarrow> i = 2 \<and> s = nsym ''P'' \<or> i = 3 \<and> s = nsym ''T''"
  by (auto simp: demo_nodes_def demo_node_def fresh_node_def)

lemma demo_event_syms: "event_syms demo demo_events = {nsym ''P'', nsym ''T''}"
  by (auto simp: event_syms_def demo_events_def demo_item)

lemma write_load_roundtrip_witness:
  "\<exists>out st3. fst demo_write = Inr out \<and> load_file demo 3 ''dot'' (split_lines out) True init_state = Inr st3 \<and>
     user_value (usr st3) (nsym ''P'') = Some (VTri TN) \<and>
     user_value (usr st3) (nsym ''T'') = Some (VStr (''a'' @ [CHR 0x22] @ ''b''))"
proof -
  obtain a where a: "config_contents demo 9 9 None = Some a"
    using demo_walk by (simp add: config_contents_def)
  then have w: "demo_write = a init_state" by simp
  obtain out where out: "fst demo_write = Inr out" using demo_write_out by blast
  then have r: "a init_state = (Inr out, snd demo_write)" using w by (metis prod.collapse)
  have wr: "writables demo (snd demo_write) (event_syms demo demo_events)"
  proof -
    have "writable BOOL ''n''" "writable STRING (''a'' @ [CHR 0x22] @ ''b'')" by code_simp+
    then show ?thesis using demo_flags by (simp add: writables_def demo_event_syms demo_simps)
  qed
  have c: "card (all_items demo) < 3" by (simp add: demo_items)
  from write_load_roundtrip [OF demo_wf demo_well_named demo_comments c demo_header reachable.init demo_walk a r wr
      reachable.init, of "''dot''"] out demo_flags
  show ?thesis
    by (auto simp: demo_event_syms demo_simps uval_of_def STR_TO_TRI_def)
qed

section \<open>The check of fragments\<close>

definition demo_files :: "string \<Rightarrow> string list option" where
  "demo_files f =
     (if f = ''one'' then Some [''CONFIG_P=y'' @ [newline], ''CONFIG_Q=m'' @ [newline]]
      else if f = ''two'' then Some [''text'' @ [newline], ''# CONFIG_P is not set'']
      else None)"

abbreviation demo_options :: options where
  "demo_options \<equiv> [(''P'', \<lparr>opt_option = ''P'', opt_value = None, opt_file = ''two'', opt_line = 2\<rparr>),
     (''Q'', \<lparr>opt_option = ''Q'', opt_value = Some ''m'', opt_file = ''one'', opt_line = 2\<rparr>)]"

lemma demo_merged: "merge_fragments demo_files None [''one'', ''two''] [] = Inr demo_options"
  by code_simp

lemma fragments_last_line_witness:
  "requested demo_options ''P'' = Some None \<and>
   requests (the (demo_files ''one'') @ the (demo_files ''two'')) ''P'' = Some None"
proof -
  have "requested demo_options ''P'' = Some None" by code_simp
  with fragments_last_line [OF demo_merged] show ?thesis by (simp add: demo_files_def)
qed

lemma demo_compared:
  "fst (compare_configs demo 9 True demo_options init_state) =
     Inr [''::warning file=one,line=2::Q=m not found'']"
  by code_simp

lemma compare_configs_correct_witness:
  "\<exists>st'. \<not> (\<forall>opt \<in> set demo_options. satisfied demo st' opt) \<and>
     length (List.filter (\<lambda>opt. \<not> satisfied demo st' opt) demo_options) = 1"
proof -
  obtain st' where "compare_configs demo 9 True demo_options init_state =
      (Inr [''::warning file=one,line=2::Q=m not found''], st')"
    using demo_compared by (metis prod.collapse)
  from compare_configs_correct [OF demo_wf reachable.init this]
  show ?thesis by (intro exI [of _ st']) simp
qed

end
