(* ===== verification/Node_Str.thy ===== *)
theory Node_Str
  imports Config
begin

text \<open>
  Symbols, choices and menu nodes in Kconfig syntax: \<^verbatim>\<open>MenuNode.custom_str\<close>, the
  \<^verbatim>\<open>orig_*\<close> properties and \<^verbatim>\<open>referenced\<close>. \<^verbatim>\<open>_strip_dep\<close> compares objects; it is modelled
  by equality of expressions, which is the same on the conditions the finalisation builds:
  these are the dependency itself, or end with it, and no expression is a part of itself.
\<close>

section \<open>Properties without the propagated dependency\<close>

definition strip_dep :: "menu_node \<Rightarrow> expr \<Rightarrow> expr" where
  "strip_dep nd e =
     (if dep nd = e then expr_y
      else case e of AND a b \<Rightarrow> if b = dep nd then a else e | _ \<Rightarrow> e)"

definition orig_prompt :: "menu_node \<Rightarrow> (string \<times> expr) option" where
  "orig_prompt nd = map_option (\<lambda>(t, c). (t, strip_dep nd c)) (nd_prompt nd)"

definition orig_defaults :: "menu_node \<Rightarrow> (expr \<times> expr) list" where
  "orig_defaults nd = map (\<lambda>(d, c). (d, strip_dep nd c)) (nd_defaults nd)"

definition orig_selects :: "menu_node \<Rightarrow> (sref \<times> expr) list" where
  "orig_selects nd = map (\<lambda>(s, c). (s, strip_dep nd c)) (nd_selects nd)"

definition orig_implies :: "menu_node \<Rightarrow> (sref \<times> expr) list" where
  "orig_implies nd = map (\<lambda>(s, c). (s, strip_dep nd c)) (nd_implies nd)"

definition orig_ranges :: "menu_node \<Rightarrow> (sref \<times> sref \<times> expr) list" where
  "orig_ranges nd = map (\<lambda>(l, h, c). (l, h, strip_dep nd c)) (nd_ranges nd)"

definition referenced :: "menu_node \<Rightarrow> sc set" where
  "referenced nd =
     expr_items (dep nd) \<union>
     (case nd_prompt nd of None \<Rightarrow> {} | Some p \<Rightarrow> expr_items (snd p)) \<union>
     (if item nd = IMenu then expr_items (nd_visibility nd) else {}) \<union>
     (\<Union>(v, c) \<in> set (nd_defaults nd). expr_items v \<union> expr_items c) \<union>
     (\<Union>(s, c) \<in> set (nd_selects nd). insert (Sym s) (expr_items c)) \<union>
     (\<Union>(s, c) \<in> set (nd_implies nd). insert (Sym s) (expr_items c)) \<union>
     (\<Union>(l, h, c) \<in> set (nd_ranges nd). {Sym l, Sym h} \<union> expr_items c)"

section \<open>Kconfig syntax\<close>

definition tab :: char where
  "tab = CHR 0x09"

definition menu_comment_node_str :: "(sc \<Rightarrow> string) \<Rightarrow> menu_node \<Rightarrow> string" where
  "menu_comment_node_str f nd =
     (if item nd = IMenu then ''menu'' else ''comment'') @ '' '' @ [CHR 0x22] @
     (case nd_prompt nd of Some (t, _) \<Rightarrow> t | None \<Rightarrow> []) @ [CHR 0x22] @
     (if dep nd \<noteq> expr_y then [newline, tab] @ ''depends on '' @ expr_str f (dep nd) else []) @
     (if item nd = IMenu \<and> nd_visibility nd \<noteq> expr_y
      then [newline, tab] @ ''visible if '' @ expr_str f (nd_visibility nd) else [])"

definition with_cond :: "(sc \<Rightarrow> string) \<Rightarrow> string \<Rightarrow> expr \<Rightarrow> string" where
  "with_cond f s cond = (if cond \<noteq> expr_y then s @ '' if '' @ expr_str f cond else s)"

text \<open>The first line, and the lines that are indented by a tab.\<close>

definition sc_orig_type :: "kconfig \<Rightarrow> sc \<Rightarrow> ktype" where
  "sc_orig_type kc x =
     (case x of Sym s \<Rightarrow> orig_type (sym_obj kc s) | Cho c \<Rightarrow> c_orig_type (choicetab kc c))"

definition node_head :: "kconfig \<Rightarrow> menu_node \<Rightarrow> sc \<Rightarrow> string" where
  "node_head kc nd x =
     (case x of
        Sym s \<Rightarrow> (if is_menuconfig nd then ''menuconfig '' else ''config '') @ sym_name s
      | Cho c \<Rightarrow> (case choice_name kc c of
                    Some n \<Rightarrow> if n = [] then ''choice'' else ''choice '' @ n
                  | None \<Rightarrow> ''choice''))"

definition type_and_prompt :: "kconfig \<Rightarrow> (sc \<Rightarrow> string) \<Rightarrow> menu_node \<Rightarrow> sc \<Rightarrow> string list" where
  "type_and_prompt kc f nd x =
     (let ty = sc_orig_type kc x
      in case orig_prompt nd of
           None \<Rightarrow> if ty \<noteq> UNKNOWN then [TYPE_TO_STR ty] else []
         | Some (t, cond) \<Rightarrow>
             [with_cond f ((if ty \<noteq> UNKNOWN then TYPE_TO_STR ty else ''prompt'') @ '' '' @
                [CHR 0x22] @ escape t @ [CHR 0x22]) cond])"

definition sym_options :: "kconfig \<Rightarrow> (sc \<Rightarrow> string) \<Rightarrow> menu_node \<Rightarrow> sref \<Rightarrow> string list" where
  "sym_options kc f nd s =
     (let o_s = sym_obj kc s
      in (if is_allnoconfig_y o_s then [''option allnoconfig_y''] else []) @
         (if defconfig_list kc = Some s then [''option defconfig_list''] else []) @
         (case env_var o_s of
            Some v \<Rightarrow> [''option env='' @ [CHR 0x22] @ v @ [CHR 0x22]] | None \<Rightarrow> []) @
         (if s = modules then [''option modules''] else []) @
         map (\<lambda>(l, h, c). with_cond f (''range '' @ f (Sym l) @ '' '' @ f (Sym h)) c) (orig_ranges nd))"

definition sym_choice_node_str :: "kconfig \<Rightarrow> (sc \<Rightarrow> string) \<Rightarrow> menu_node \<Rightarrow> sc \<Rightarrow> string" where
  "sym_choice_node_str kc f nd x =
     (let indented =
        type_and_prompt kc f nd x @
        (case x of Sym s \<Rightarrow> sym_options kc f nd s | Cho c \<Rightarrow> []) @
        map (\<lambda>(d, c). with_cond f (''default '' @ expr_str f d) c) (orig_defaults nd) @
        (case x of
           Sym s \<Rightarrow> []
         | Cho c \<Rightarrow> if is_optional (choicetab kc c) then [''optional''] else []) @
        (case x of
           Sym s \<Rightarrow>
             map (\<lambda>(t, c). with_cond f (''select '' @ f (Sym t)) c) (orig_selects nd) @
             map (\<lambda>(t, c). with_cond f (''imply '' @ f (Sym t)) c) (orig_implies nd)
         | Cho c \<Rightarrow> []) @
        (if dep nd \<noteq> expr_y then [''depends on '' @ expr_str f (dep nd)] else []) @
        (case nd_help nd of
           None \<Rightarrow> []
         | Some h \<Rightarrow> ''help'' # map (\<lambda>l. ''  '' @ l) (splitlines h))
      in join_with [newline] (node_head kc nd x # map (Cons tab) indented))"

definition node_custom_str :: "kconfig \<Rightarrow> (sc \<Rightarrow> string) \<Rightarrow> menu_node \<Rightarrow> string" where
  "node_custom_str kc f nd =
     (case item nd of
        ISym s \<Rightarrow> sym_choice_node_str kc f nd (Sym s)
      | ICho c \<Rightarrow> sym_choice_node_str kc f nd (Cho c)
      | _ \<Rightarrow> menu_comment_node_str f nd)"

text \<open>\<^verbatim>\<open>Symbol.__str__\<close> and \<^verbatim>\<open>Choice.__str__\<close>.\<close>

definition sc_custom_str :: "kconfig \<Rightarrow> (sc \<Rightarrow> string) \<Rightarrow> sc \<Rightarrow> string" where
  "sc_custom_str kc f x =
     join_with [newline, newline] (map (\<lambda>n. node_custom_str kc f (nodetab kc n)) (sc_nodes kc x))"

definition sc_str :: "kconfig \<Rightarrow> sc \<Rightarrow> string" where
  "sc_str kc x = sc_custom_str kc (standard_sc_expr_str (choice_name kc)) x"

section \<open>Facts\<close>

text \<open>The dependency that the finalisation adds to a condition is stripped again.\<close>

lemma expr_not_part: "AND a e \<noteq> e"
proof
  assume "AND a e = e"
  then have "size (AND a e) = size e" by simp
  then show False by simp
qed

lemma strip_dep_make_and: "c \<noteq> expr_n \<Longrightarrow> dep nd \<noteq> expr_n \<Longrightarrow> strip_dep nd (make_and c (dep nd)) =
  (if dep nd = expr_y then (case c of AND a b \<Rightarrow> if b = expr_y then a else c | _ \<Rightarrow> c) else c)"
  using expr_not_part [of c "dep nd"]
  by (auto simp: strip_dep_def make_and_def split: expr.splits)

end
