(* ===== verification/Dep_Loop.thy ===== *)
theory Dep_Loop
  imports Node_Str Build_Dep
begin

text \<open>
  The check for dependency loops (\<^verbatim>\<open>_check_dep_loop_sym\<close>, \<^verbatim>\<open>_check_dep_loop_choice\<close>,
  \<^verbatim>\<open>_found_dep_loop\<close>): a depth-first search over the dependency sets with the marks 0
  (not visited), 1 (on the call stack) and 2 (done). The recursion has a bound as an
  argument, and beyond it is a \<open>RecursionError\<close>.
\<close>

section \<open>The search\<close>

type_synonym marks = "sc \<Rightarrow> nat"

text \<open>
  The message of \<^verbatim>\<open>_found_dep_loop\<close>. For a symbol that is implied the source prints its
  selects (\<^verbatim>\<open>rev_dep\<close>), not its implies.
\<close>

definition loop_item_text :: "kconfig \<Rightarrow> bool \<Rightarrow> sc \<Rightarrow> string" where
  "loop_item_text kc is_first x =
     (if is_first then []
      else ''...depends on '' @
        (case x of
           Sym s \<Rightarrow> if choice (sym_obj kc s) \<noteq> None then ''the choice symbol '' else []
         | Cho c \<Rightarrow> [])) @
     name_and_loc kc x @ '', with definition...'' @ [newline, newline] @ sc_str kc x @ [newline, newline] @
     (case x of
        Sym s \<Rightarrow>
          (if rev_dep (sym_obj kc s) \<noteq> expr_n
           then ''(select-related dependencies: '' @ kc_expr_str kc (rev_dep (sym_obj kc s)) @ '')'' @
                [newline, newline]
           else []) @
          (if weak_rev_dep (sym_obj kc s) \<noteq> expr_n
           then ''(imply-related dependencies: '' @ kc_expr_str kc (rev_dep (sym_obj kc s)) @ '')'' @
                [newline, newline]
           else [])
      | Cho c \<Rightarrow> [])"

definition loop_message :: "kconfig \<Rightarrow> sc list \<Rightarrow> string" where
  "loop_message kc lp =
     [newline] @ ''Dependency loop'' @ [newline] @ ''==============='' @ [newline, newline] @
     concat (map (\<lambda>x. loop_item_text kc (x = hd lp) x) lp) @
     ''...depends again on '' @ name_and_loc kc (hd lp)"

text \<open>On the way back: the loop grows until it is closed.\<close>

definition found_dep_loop :: "kconfig \<Rightarrow> sc list \<Rightarrow> sc \<Rightarrow> exn + sc list" where
  "found_dep_loop kc lp cur =
     (if cur \<noteq> hd lp then Inr (lp @ [cur]) else Inl (KconfigError (loop_message kc lp)))"

text \<open>A call: of a symbol with \<^verbatim>\<open>ignore_choice\<close>, or of a choice with \<^verbatim>\<open>skip\<close>.\<close>

datatype call = VSym sref bool | VCho nat "sref option"

fun target :: "call \<Rightarrow> sc" where
  "target (VSym s b) = Sym s"
| "target (VCho c skip) = Cho c"

text \<open>The calls it makes, in order, while nothing is found.\<close>

definition dep_call :: "sc \<Rightarrow> call" where
  "dep_call x = (case x of Sym s \<Rightarrow> VSym s False | Cho c \<Rightarrow> VCho c None)"

fun calls :: "kconfig \<Rightarrow> call \<Rightarrow> call list" where
  "calls kc (VSym s ignore_choice) =
     map dep_call (dependents (sym_obj kc s)) @
     (case choice (sym_obj kc s) of
        Some c \<Rightarrow> if \<not> ignore_choice then [VCho c (Some s)] else []
      | None \<Rightarrow> [])"
| "calls kc (VCho c skip) =
     map (\<lambda>s. VSym s True) (List.filter (\<lambda>s. Some s \<noteq> skip) (c_syms (choicetab kc c)))"

text \<open>The first loop that a list of calls finds.\<close>

type_synonym search_result = "exn + sc list option \<times> marks"

primrec first_loop :: "(call \<Rightarrow> marks \<Rightarrow> search_result) \<Rightarrow> call list \<Rightarrow> marks \<Rightarrow> search_result" where
  "first_loop f [] vis = Inr (None, vis)"
| "first_loop f (v # vs) vis =
     (case f v vis of
        Inl e \<Rightarrow> Inl e
      | Inr (Some lp, vis') \<Rightarrow> Inr (Some lp, vis')
      | Inr (None, vis') \<Rightarrow> first_loop f vs vis')"

primrec check_dep_loop :: "kconfig \<Rightarrow> nat \<Rightarrow> call \<Rightarrow> marks \<Rightarrow> search_result" where
  "check_dep_loop kc 0 v vis = Inl RecursionError"
| "check_dep_loop kc (Suc n) v vis =
     (let x = target v
      in if vis x = 0 then
           (case first_loop (check_dep_loop kc n) (calls kc v) (vis(x := 1)) of
              Inl e \<Rightarrow> Inl e
            | Inr (Some lp, vis') \<Rightarrow> map_sum id (\<lambda>lp'. (Some lp', vis')) (found_dep_loop kc lp x)
            | Inr (None, vis') \<Rightarrow> Inr (None, vis'(x := 2)))
         else if vis x = 2 then Inr (None, vis)
         else Inr (Some [x], vis))"

text \<open>The loop of \<^verbatim>\<open>Kconfig._init\<close>; it does not look at what the calls return.\<close>

primrec check_all :: "kconfig \<Rightarrow> nat \<Rightarrow> sref list \<Rightarrow> marks \<Rightarrow> exn + marks" where
  "check_all kc n [] vis = Inr vis"
| "check_all kc n (s # ss) vis =
     (case check_dep_loop kc n (VSym s False) vis of
        Inl e \<Rightarrow> Inl e
      | Inr (_, vis') \<Rightarrow> check_all kc n ss vis')"

definition check_dep_loops :: "kconfig \<Rightarrow> nat \<Rightarrow> exn + marks" where
  "check_dep_loops kc n = check_all kc n (unique_defined_syms kc) (\<lambda>_. 0)"

section \<open>What a search that finds nothing has seen\<close>

text \<open>What is done has its dependents done, and above it.\<close>

definition done_below :: "kconfig \<Rightarrow> marks \<Rightarrow> bool" where
  "done_below kc vis \<longleftrightarrow>
     (\<exists>F. \<forall>s. vis (Sym s) = 2 \<longrightarrow>
        (\<forall>x \<in> set (dependents (sym_obj kc s)). vis x = 2 \<and> F x < (F (Sym s) :: nat)))"

definition on_stack :: "marks \<Rightarrow> sc \<Rightarrow> bool" where
  "on_stack vis x \<longleftrightarrow> vis x \<noteq> 0 \<and> vis x \<noteq> 2"

definition stack_same :: "marks \<Rightarrow> marks \<Rightarrow> bool" where
  "stack_same vis vis' \<longleftrightarrow> on_stack vis' = on_stack vis \<and> (\<forall>x. vis x = 2 \<longrightarrow> vis' x = 2)"

lemma stack_same_refl [simp]: "stack_same vis vis"
  by (simp add: stack_same_def)

lemma stack_same_trans: "stack_same a b \<Longrightarrow> stack_same b c \<Longrightarrow> stack_same a c"
  by (simp add: stack_same_def)

lemma target_dep_call [simp]: "target (dep_call x) = x"
  by (cases x) (simp_all add: dep_call_def)

lemma done_below_push:
  assumes "done_below kc vis" "vis x = 0" shows "done_below kc (vis(x := 1))"
proof -
  obtain F :: "sc \<Rightarrow> nat" where F: "\<And>s y. vis (Sym s) = 2 \<Longrightarrow> y \<in> set (dependents (sym_obj kc s)) \<Longrightarrow>
      vis y = 2 \<and> F y < F (Sym s)"
    using assms(1) unfolding done_below_def by blast
  have "(vis(x := 1)) y = 2 \<and> F y < F (Sym s)"
    if "(vis(x := 1)) (Sym s) = 2" "y \<in> set (dependents (sym_obj kc s))" for s y
  proof -
    have "vis (Sym s) = 2" using that(1) by (simp split: if_splits)
    from F [OF this that(2)] assms(2) show ?thesis by auto
  qed
  then show ?thesis unfolding done_below_def by blast
qed

lemma done_below_pop:
  assumes "done_below kc vis" "on_stack vis x"
    and "\<And>s. x = Sym s \<Longrightarrow> \<forall>y \<in> set (dependents (sym_obj kc s)). vis y = 2"
  shows "done_below kc (vis(x := 2))"
proof -
  obtain F :: "sc \<Rightarrow> nat" where F: "\<And>s y. vis (Sym s) = 2 \<Longrightarrow> y \<in> set (dependents (sym_obj kc s)) \<Longrightarrow>
      vis y = 2 \<and> F y < F (Sym s)"
    using assms(1) unfolding done_below_def by blast
  define D where "D = (case x of Sym s \<Rightarrow> dependents (sym_obj kc s) | Cho c \<Rightarrow> [])"
  let ?F = "F(x := Suc (sum_list (map F D)))"
  have "(vis(x := 2)) y = 2 \<and> ?F y < ?F (Sym s)"
    if s: "(vis(x := 2)) (Sym s) = 2" and y: "y \<in> set (dependents (sym_obj kc s))" for s y
  proof (cases "x = Sym s")
    case True
    then have d: "vis y = 2" "y \<noteq> x" using assms(2,3) y by (auto simp: on_stack_def)
    have "F y \<le> sum_list (map F D)"
      by (rule member_le_sum_list) (use y True in \<open>auto simp: D_def\<close>)
    then show ?thesis using d True by simp
  next
    case False
    then have "vis y = 2 \<and> F y < F (Sym s)" using F [OF _ y] s by simp
    then show ?thesis using False assms(2) by (auto simp: on_stack_def)
  qed
  then show ?thesis unfolding done_below_def by blast
qed

lemma first_loop_none:
  assumes f: "\<And>v vis vis'. v \<in> set vs \<Longrightarrow> I vis \<Longrightarrow> f v vis = Inr (None, vis') \<Longrightarrow>
      I vis' \<and> stack_same vis vis' \<and> vis' (target v) = 2"
  shows "I vis \<Longrightarrow> first_loop f vs vis = Inr (None, vis') \<Longrightarrow>
    I vis' \<and> stack_same vis vis' \<and> (\<forall>v \<in> set vs. vis' (target v) = 2)"
  using f
proof (induction vs arbitrary: vis)
  case (Cons v vs)
  obtain vis1 where v: "f v vis = Inr (None, vis1)" "first_loop f vs vis1 = Inr (None, vis')"
    using Cons.prems(2) by (auto split: sum.splits option.splits prod.splits)
  note f1 = Cons.prems(3) [OF _ Cons.prems(1) v(1)]
  then have "I vis'" "stack_same vis1 vis'" "\<forall>v \<in> set vs. vis' (target v) = 2"
    using Cons.IH [OF _ v(2)] Cons.prems(3) by auto
  with f1 show ?case using stack_same_trans by (auto simp: stack_same_def)
qed simp

text \<open>The cases of a call.\<close>

lemma check_dep_loop_cases:
  assumes "check_dep_loop kc (Suc n) v vis = Inr (res, vis')"
  obtains (old) "vis (target v) = 2" "res = None" "vis' = vis"
  | (stack) "on_stack vis (target v)" "res = Some [target v]" "vis' = vis"
  | (found) lp where "vis (target v) = 0" "res = Some (lp @ [target v])" "target v \<noteq> hd lp"
      "first_loop (check_dep_loop kc n) (calls kc v) (vis(target v := 1)) = Inr (Some lp, vis')"
  | (new) vis1 where "vis (target v) = 0" "res = None" "vis' = vis1(target v := 2)"
      "first_loop (check_dep_loop kc n) (calls kc v) (vis(target v := 1)) = Inr (None, vis1)"
proof -
  consider "vis (target v) = 2" | "on_stack vis (target v)" | "vis (target v) = 0"
    by (auto simp: on_stack_def)
  then show thesis
  proof cases
    case 3
    obtain r where r: "first_loop (check_dep_loop kc n) (calls kc v) (vis(target v := 1)) = r" by blast
    show thesis
    proof (cases r)
      case (Inr p)
      obtain o1 vis1 where p: "p = (o1, vis1)" by (cases p)
      show thesis
      proof (cases o1)
        case None
        show thesis by (rule new [of vis1]) (use assms 3 r Inr p None in simp_all)
      next
        case (Some lp)
        then have "map_sum id (\<lambda>lp'. (Some lp', vis1)) (found_dep_loop kc lp (target v)) = Inr (res, vis')"
          using assms 3 r Inr p by simp
        then have "target v \<noteq> hd lp" "res = Some (lp @ [target v])" "vis' = vis1"
          by (auto simp: found_dep_loop_def split: if_splits)
        then show thesis using found 3 r Inr p Some by blast
      qed
    qed (use assms 3 r in simp)
  next
    case 1
    then show thesis using old assms by simp
  next
    case 2
    then have "vis (target v) \<noteq> 0" "vis (target v) \<noteq> 2" by (simp_all add: on_stack_def)
    then show thesis using stack [OF 2] assms by simp
  qed
qed

lemma stack_push_pop:
  assumes "vis x = 0" "stack_same (vis(x := 1)) vis1"
  shows "stack_same vis (vis1(x := 2)) \<and> on_stack vis1 x"
proof -
  have o: "on_stack vis1 y \<longleftrightarrow> y = x \<or> on_stack vis y" for y
    using assms by (simp add: stack_same_def) (simp add: on_stack_def)
  have "on_stack (vis1(x := 2)) y = on_stack vis y" for y
    using o [of y] assms(1) by (cases "y = x") (simp_all add: on_stack_def)
  moreover have "(vis1(x := 2)) y = 2" if "vis y = 2" for y
    using assms that by (cases "y = x") (simp_all add: stack_same_def)
  ultimately show ?thesis using o by (auto simp: stack_same_def)
qed

lemma check_dep_loop_none:
  "done_below kc vis \<Longrightarrow> check_dep_loop kc n v vis = Inr (None, vis') \<Longrightarrow>
   done_below kc vis' \<and> stack_same vis vis' \<and> vis' (target v) = 2"
proof (induction n arbitrary: v vis vis')
  case (Suc n)
  let ?x = "target v"
  from Suc.prems(2) show ?case
  proof (cases rule: check_dep_loop_cases)
    case (new vis1)
    note g = first_loop_none [where I = "done_below kc" and f = "check_dep_loop kc n", OF Suc.IH
        done_below_push [OF Suc.prems(1) new(1)] new(4)]
    then have "stack_same (vis(?x := 1)) vis1" by blast
    from stack_push_pop [OF new(1) this] have x: "on_stack vis1 ?x" "stack_same vis vis'"
      by (simp_all add: new(3))
    have deps: "\<forall>y \<in> set (dependents (sym_obj kc s)). vis1 y = 2" if "?x = Sym s" for s
    proof
      fix y assume "y \<in> set (dependents (sym_obj kc s))"
      then have "dep_call y \<in> set (calls kc v)" using that by (cases v) auto
      with g have "vis1 (target (dep_call y)) = 2" by blast
      then show "vis1 y = 2" by simp
    qed
    have "done_below kc vis1" using g by blast
    then have "done_below kc vis'"
      unfolding new(3) by (rule done_below_pop [OF _ x(1) deps])
    moreover have "vis' ?x = 2" unfolding new(3) by simp
    ultimately show ?thesis using x(2) by blast
  qed (use Suc.prems(1) in simp_all)
qed simp

text \<open>A loop that is returned starts on the stack of the caller.\<close>

lemma check_dep_loop_stack:
  "check_dep_loop kc n v vis = Inr (res, vis') \<Longrightarrow>
   (case res of None \<Rightarrow> stack_same vis vis' \<and> vis' (target v) = 2 | Some lp \<Rightarrow> lp \<noteq> [] \<and> on_stack vis (hd lp))"
proof (induction n arbitrary: v vis res vis')
  case (Suc n)
  have none: "True \<and> stack_same vis vis' \<and> vis' (target v) = 2"
    if "check_dep_loop kc n v vis = Inr (None, vis')" for v vis vis'
    using Suc.IH [OF that] by simp
  have some: "lp \<noteq> [] \<and> on_stack vis (hd lp)"
    if "first_loop (check_dep_loop kc n) vs vis = Inr (Some lp, vis')" for vs vis lp vis'
    using that
  proof (induction vs arbitrary: vis)
    case (Cons v vs)
    obtain r vis1 where v: "check_dep_loop kc n v vis = Inr (r, vis1)"
      using Cons.prems by (cases "check_dep_loop kc n v vis") auto
    show ?case
    proof (cases r)
      case None
      with Cons.prems v have "first_loop (check_dep_loop kc n) vs vis1 = Inr (Some lp, vis')" by simp
      from Cons.IH [OF this] none [OF v [unfolded None]] show ?thesis by (simp add: stack_same_def)
    next
      case (Some lp1)
      with Cons.prems v Suc.IH [OF v] show ?thesis by simp
    qed
  qed simp
  from Suc.prems show ?case
  proof (cases rule: check_dep_loop_cases)
    case (found lp)
    from some [OF found(4)] found(1,3) have "lp \<noteq> [] \<and> on_stack vis (hd lp)"
      by (auto simp: on_stack_def split: if_splits)
    then show ?thesis by (simp add: found(2))
  next
    case (new vis1)
    have "stack_same (vis(target v := 1)) vis1"
      using first_loop_none [where I = "\<lambda>_. True" and f = "check_dep_loop kc n", OF none TrueI new(4)] by simp
    from stack_push_pop [OF new(1) this] show ?thesis by (simp add: new(2,3))
  qed simp_all
qed simp

lemma check_all_below:
  "done_below kc vis \<Longrightarrow> on_stack vis = (\<lambda>_. False) \<Longrightarrow> check_all kc n ss vis = Inr vis' \<Longrightarrow>
   done_below kc vis' \<and> (\<forall>x. vis x = 2 \<longrightarrow> vis' x = 2) \<and> (\<forall>s \<in> set ss. vis' (Sym s) = 2)"
proof (induction ss arbitrary: vis)
  case (Cons s ss)
  obtain r vis1 where v: "check_dep_loop kc n (VSym s False) vis = Inr (r, vis1)"
    and vs: "check_all kc n ss vis1 = Inr vis'"
    using Cons.prems(3) by (auto split: sum.splits)
  have "r = None"
    using check_dep_loop_stack [OF v] Cons.prems(2) by (cases r) auto
  note f = check_dep_loop_none [OF Cons.prems(1) v [unfolded this]]
  then have "on_stack vis1 = (\<lambda>_. False)" using Cons.prems(2) by (simp add: stack_same_def)
  from Cons.IH [OF _ this vs] f show ?case by (auto simp: stack_same_def)
qed simp

section \<open>Enough depth\<close>

text \<open>Every nested call marks another item.\<close>

definition fresh_items :: "kconfig \<Rightarrow> marks \<Rightarrow> sc set" where
  "fresh_items kc vis = {x \<in> all_items kc. vis x = 0}"

lemma finite_fresh [simp]: "finite (fresh_items kc vis)"
  by (simp add: fresh_items_def)

definition calls_inside :: "kconfig \<Rightarrow> bool" where
  "calls_inside kc \<longleftrightarrow> (\<forall>v. target v \<in> all_items kc \<longrightarrow> target ` set (calls kc v) \<subseteq> all_items kc)"

lemma check_dep_loop_depth:
  assumes c: "calls_inside kc"
  shows "target v \<in> all_items kc \<Longrightarrow> card (fresh_items kc vis) < n \<Longrightarrow>
    check_dep_loop kc n v vis \<noteq> Inl RecursionError \<and>
    (\<forall>r vis'. check_dep_loop kc n v vis = Inr (r, vis') \<longrightarrow> fresh_items kc vis' \<subseteq> fresh_items kc vis)"
proof (induction n arbitrary: v vis)
  case (Suc n)
  let ?x = "target v" and ?vis1 = "vis(target v := 1)"
  show ?case
  proof (cases "vis ?x = 0")
    case True
    have sub: "fresh_items kc ?vis1 = fresh_items kc vis - {?x}" by (auto simp: fresh_items_def)
    have "?x \<in> fresh_items kc vis" using True Suc.prems(1) by (simp add: fresh_items_def)
    then have card: "card (fresh_items kc ?vis1) < n"
      unfolding sub using Suc.prems(2) by (metis card_Diff1_less finite_fresh less_Suc_eq_le order_less_le_trans)
    have loop: "first_loop (check_dep_loop kc n) vs vis2 \<noteq> Inl RecursionError \<and>
        (\<forall>r vis'. first_loop (check_dep_loop kc n) vs vis2 = Inr (r, vis') \<longrightarrow> fresh_items kc vis' \<subseteq> fresh_items kc vis2)"
      if "target ` set vs \<subseteq> all_items kc" "card (fresh_items kc vis2) < n" for vs vis2
      using that
    proof (induction vs arbitrary: vis2)
      case (Cons w ws)
      have w: "check_dep_loop kc n w vis2 \<noteq> Inl RecursionError"
        "\<And>r vis'. check_dep_loop kc n w vis2 = Inr (r, vis') \<Longrightarrow> fresh_items kc vis' \<subseteq> fresh_items kc vis2"
        using Suc.IH [of w vis2] Cons.prems by auto
      show ?case
      proof (cases "check_dep_loop kc n w vis2")
        case (Inr p)
        obtain r vis3 where p: "p = (r, vis3)" by (cases p)
        have s: "fresh_items kc vis3 \<subseteq> fresh_items kc vis2" using w(2) Inr p by blast
        then have "card (fresh_items kc vis3) < n"
          using Cons.prems(2) by (meson card_mono finite_fresh le_less_trans)
        from Cons.IH [OF _ this] Cons.prems(1) s Inr p show ?thesis by (cases r) auto
      qed (use w(1) in auto)
    qed simp
    have l: "first_loop (check_dep_loop kc n) (calls kc v) ?vis1 \<noteq> Inl RecursionError"
      "\<And>r vis'. first_loop (check_dep_loop kc n) (calls kc v) ?vis1 = Inr (r, vis') \<Longrightarrow>
         fresh_items kc vis' \<subseteq> fresh_items kc ?vis1"
      using loop [OF _ card, of "calls kc v"] c Suc.prems(1) by (auto simp: calls_inside_def)
    show ?thesis
    proof (intro conjI allI impI)
      show "check_dep_loop kc (Suc n) v vis \<noteq> Inl RecursionError"
        using l(1) True
        by (auto simp: Let_def found_dep_loop_def split: sum.splits option.splits prod.splits)
      fix r vis' assume "check_dep_loop kc (Suc n) v vis = Inr (r, vis')"
      then show "fresh_items kc vis' \<subseteq> fresh_items kc vis"
      proof (cases rule: check_dep_loop_cases)
        case (found lp)
        with l(2) sub show ?thesis by blast
      next
        case (new vis1)
        have "fresh_items kc vis' \<subseteq> fresh_items kc vis1" by (auto simp: new(3) fresh_items_def)
        with l(2) [OF new(4)] sub show ?thesis by blast
      qed simp_all
    qed
  qed (auto simp: Let_def)
qed simp

end
