(* ===== verification/Sanity.thy ===== *)
theory Sanity
  imports Node_Str Menu_Walk Tracking
begin

text \<open>
  The checks after parsing: \<^verbatim>\<open>_check_sym_sanity\<close>, \<^verbatim>\<open>_check_choice_sanity\<close> and
  \<^verbatim>\<open>_check_undef_syms\<close>. They append warnings, and raise a \<^verbatim>\<open>KconfigError\<close> for defaults
  that are not symbols where a symbol is needed.
\<close>

section \<open>Symbols\<close>

text \<open>Whether a symbol can be the value of an int or hex symbol.\<close>

definition num_ok :: "kconfig \<Rightarrow> sref \<Rightarrow> ktype \<Rightarrow> bool" where
  "num_ok kc s ty =
     (if nodes (sym_obj kc s) = []
      then (case TYPE_TO_BASE ty of Some b \<Rightarrow> is_base_n (sym_name s) b | None \<Rightarrow> False)
      else orig_type (sym_obj kc s) = ty)"

text \<open>\<^verbatim>\<open>str.isupper()\<close> on ASCII text: there is an uppercase letter and no lowercase letter.\<close>

definition isupper :: "string \<Rightarrow> bool" where
  "isupper w \<longleftrightarrow>
     (\<exists>c \<in> set w. CHR ''A'' \<le> c \<and> c \<le> CHR ''Z'') \<and> \<not> (\<exists>c \<in> set w. CHR ''a'' \<le> c \<and> c \<le> CHR ''z'')"

text \<open>The loops over the selects and over the implies.\<close>

definition warn_targets :: "kconfig \<Rightarrow> string \<Rightarrow> sref \<Rightarrow> (sref \<times> expr) list \<Rightarrow> kstate \<Rightarrow> kstate" where
  "warn_targets kc verb s ts st =
     fold (\<lambda>(t, _) st.
         if orig_type (sym_obj kc t) \<notin> BOOL_TRISTATE_UNKNOWN
         then add_warning (name_and_loc kc (Sym s) @ '' '' @ verb @ '' the '' @
                TYPE_TO_STR (orig_type (sym_obj kc t)) @ '' symbol '' @ name_and_loc kc (Sym t) @
                '', which is not bool or tristate'') None st
         else st) ts st"

text \<open>A default of a string, int or hex symbol.\<close>

definition check_default :: "kconfig \<Rightarrow> sref \<Rightarrow> expr \<times> expr \<Rightarrow> kstate \<Rightarrow> exn + kstate" where
  "check_default kc s d st =
     (let ty = orig_type (sym_obj kc s)
      in case fst d of
           Leaf (Sym v) \<Rightarrow>
             Inr (if ty = STRING then
                    (if \<not> is_constant v \<and> nodes (sym_obj kc v) = [] \<and> \<not> isupper (sym_name v)
                     then add_warning (''style: quotes recommended around default value for string symbol '' @
                            name_and_loc kc (Sym s)) None st
                     else st)
                  else if \<not> num_ok kc v ty
                  then add_warning (''the '' @ TYPE_TO_STR ty @ '' symbol '' @ name_and_loc kc (Sym s) @
                         '' has a non-'' @ TYPE_TO_STR ty @ '' default '' @ name_and_loc kc (Sym v)) None st
                  else st)
         | _ \<Rightarrow>
             Inl (KconfigError (''the '' @ TYPE_TO_STR ty @ '' symbol '' @ name_and_loc kc (Sym s) @
                    '' has a malformed default '' @ kc_expr_str kc (fst d) @
                    '' -- expected a single symbol'')))"

definition check_ranges :: "kconfig \<Rightarrow> sref \<Rightarrow> kstate \<Rightarrow> kstate" where
  "check_ranges kc s st =
     (let o_s = sym_obj kc s; ty = orig_type o_s
      in if ranges o_s = [] then st
         else if ty \<notin> INT_HEX
         then add_warning (''the '' @ TYPE_TO_STR ty @ '' symbol '' @ name_and_loc kc (Sym s) @
                '' has ranges, but is not int or hex'') None st
         else fold (\<lambda>(low, high, _) st.
                if \<not> num_ok kc low ty \<or> \<not> num_ok kc high ty
                then add_warning (''the '' @ TYPE_TO_STR ty @ '' symbol '' @ name_and_loc kc (Sym s) @
                       '' has a non-'' @ TYPE_TO_STR ty @ '' range ['' @ name_and_loc kc (Sym low) @ '', '' @
                       name_and_loc kc (Sym high) @ '']'') None st
                else st) (ranges o_s) st)"

definition check_sym :: "kconfig \<Rightarrow> sref \<Rightarrow> kstate \<Rightarrow> exn + kstate" where
  "check_sym kc s st =
     (let o_s = sym_obj kc s; ty = orig_type o_s
      in map_sum id (check_ranges kc s)
           (if ty \<in> BOOL_TRISTATE
            then Inr (warn_targets kc ''implies'' s (implies o_s)
                        (warn_targets kc ''selects'' s (selects o_s) st))
            else if ty \<noteq> UNKNOWN
            then map_sum id (\<lambda>st. if selects o_s \<noteq> [] \<or> implies o_s \<noteq> []
                     then add_warning (''the '' @ TYPE_TO_STR ty @ '' symbol '' @ name_and_loc kc (Sym s) @
                            '' has selects or implies'') None st
                     else st)
                   (try_each (check_default kc s) (defaults o_s) st)
            else Inr (add_warning (name_and_loc kc (Sym s) @ '' defined without a type'') None st)))"

definition check_sym_sanity :: "kconfig \<Rightarrow> kstate \<Rightarrow> exn + kstate" where
  "check_sym_sanity kc st = try_each (check_sym kc) (unique_defined_syms kc) st"

section \<open>Choices\<close>

text \<open>\<^verbatim>\<open>warn_select_imply\<close>; the first operand of every select or imply is a symbol.\<close>

primrec select_imply_lines :: "kconfig \<Rightarrow> expr list \<Rightarrow> exn + string" where
  "select_imply_lines kc [] = Inr []"
| "select_imply_lines kc (si # sis) =
     (case hd (split_expr si T_AND) of
        Leaf x \<Rightarrow> map_sum id (\<lambda>ls. newline # '' - '' @ name_and_loc kc x @ ls) (select_imply_lines kc sis)
      | _ \<Rightarrow> Inl AttributeError)"

definition warn_select_imply :: "kconfig \<Rightarrow> sref \<Rightarrow> expr \<Rightarrow> string \<Rightarrow> kstate \<Rightarrow> exn + kstate" where
  "warn_select_imply kc s e expr_type st =
     map_sum id (\<lambda>ls.
         add_warning (''the choice symbol '' @ name_and_loc kc (Sym s) @ '' is '' @ expr_type @
           '' by the following symbols, but select/imply has no effect on choice symbols'' @ ls) None st)
       (select_imply_lines kc (split_expr e T_OR))"

definition check_choice_default :: "kconfig \<Rightarrow> nat \<Rightarrow> expr \<times> expr \<Rightarrow> kstate \<Rightarrow> exn + kstate" where
  "check_choice_default kc c d st =
     (case fst d of
        Leaf (Sym s) \<Rightarrow>
          Inr (if choice (sym_obj kc s) \<noteq> Some c
               then add_warning (''the default selection '' @ name_and_loc kc (Sym s) @ '' of '' @
                      name_and_loc kc (Cho c) @ '' is not contained in the choice'') None st
               else st)
      | _ \<Rightarrow> Inl (KconfigError (name_and_loc kc (Cho c) @ '' has a malformed default '' @
                 kc_expr_str kc (fst d))))"

definition check_choice_node :: "kconfig \<Rightarrow> nat \<Rightarrow> sref \<Rightarrow> nat \<Rightarrow> kstate \<Rightarrow> exn + kstate" where
  "check_choice_node kc c s i st =
     (let nd = nodetab kc i
      in case parent nd of
           None \<Rightarrow> Inl AttributeError
         | Some p \<Rightarrow>
             Inr (if item (nodetab kc p) = ICho c then
                    (if nd_prompt nd = None
                     then add_warning (''the choice symbol '' @ name_and_loc kc (Sym s) @ '' has no prompt'') None st
                     else st)
                  else if nd_prompt nd \<noteq> None
                  then add_warning (''the choice symbol '' @ name_and_loc kc (Sym s) @
                         '' is defined with a prompt outside the choice'') None st
                  else st))"

definition check_choice_sym :: "kconfig \<Rightarrow> nat \<Rightarrow> sref \<Rightarrow> kstate \<Rightarrow> exn + kstate" where
  "check_choice_sym kc c s st =
     (let o_s = sym_obj kc s;
          st1 = (if defaults o_s \<noteq> []
                 then add_warning (''default on the choice symbol '' @ name_and_loc kc (Sym s) @
                        '' will have no effect, as defaults do not affect choice symbols'') None st
                 else st)
      in case (if rev_dep o_s \<noteq> expr_n then warn_select_imply kc s (rev_dep o_s) ''selected'' st1 else Inr st1) of
           Inl e \<Rightarrow> Inl e
         | Inr st2 \<Rightarrow>
             (case (if weak_rev_dep o_s \<noteq> expr_n
                    then warn_select_imply kc s (weak_rev_dep o_s) ''implied'' st2 else Inr st2) of
                Inl e \<Rightarrow> Inl e
              | Inr st3 \<Rightarrow> try_each (check_choice_node kc c s) (nodes o_s) st3))"

definition check_choice :: "kconfig \<Rightarrow> nat \<Rightarrow> kstate \<Rightarrow> exn + kstate" where
  "check_choice kc c st =
     (let o_c = choicetab kc c;
          st1 = (if c_orig_type o_c \<notin> BOOL_TRISTATE
                 then add_warning (name_and_loc kc (Cho c) @ '' defined with type '' @
                        TYPE_TO_STR (c_orig_type o_c)) None st
                 else st);
          st2 = (if \<forall>i \<in> set (c_nodes o_c). nd_prompt (nodetab kc i) = None
                 then add_warning (name_and_loc kc (Cho c) @ '' defined without a prompt'') None st1
                 else st1)
      in case try_each (check_choice_default kc c) (c_defaults o_c) st2 of
           Inl e \<Rightarrow> Inl e
         | Inr st3 \<Rightarrow> try_each (check_choice_sym kc c) (c_syms o_c) st3)"

definition check_choice_sanity :: "kconfig \<Rightarrow> kstate \<Rightarrow> exn + kstate" where
  "check_choice_sanity kc st = try_each (check_choice kc) (unique_choices kc) st"

section \<open>Undefined symbols\<close>

definition is_num :: "string \<Rightarrow> bool" where
  "is_num w \<longleftrightarrow> py_int w 10 \<noteq> None \<or> (take 2 w \<in> {''0x'', ''0X''} \<and> py_int w 16 \<noteq> None)"

text \<open>
  \<open>names\<close> are the keys of \<^verbatim>\<open>syms\<close>, \<open>ns\<close> the nodes of \<^verbatim>\<open>node_iter()\<close>.
\<close>

definition undef_msg :: "kconfig \<Rightarrow> nat list \<Rightarrow> string \<Rightarrow> string" where
  "undef_msg kc ns name =
     ''undefined symbol '' @ name @ '':'' @
     concat (map (\<lambda>i. [newline, newline] @ ''- Referenced at '' @ node_loc (nodetab kc i) @ '':'' @
                [newline, newline] @
                node_custom_str kc (standard_sc_expr_str (choice_name kc)) (nodetab kc i))
       (List.filter (\<lambda>i. Sym (SRef False name) \<in> referenced (nodetab kc i)) ns))"

definition check_undef_syms :: "kconfig \<Rightarrow> string list \<Rightarrow> nat list \<Rightarrow> kstate \<Rightarrow> kstate" where
  "check_undef_syms kc names ns st =
     fold (\<lambda>name st.
         if nodes (sym_obj kc (SRef False name)) = [] \<and> \<not> is_num name \<and> name \<noteq> ''MODULES''
         then add_warning (undef_msg kc ns name) None st else st) names st"

section \<open>What passing means\<close>

lemma try_each_ok:
  assumes "\<And>x st. (\<exists>st'. f x st = Inr st') \<longleftrightarrow> ok x"
  shows "(\<exists>st'. try_each f xs st = Inr st') \<longleftrightarrow> (\<forall>x \<in> set xs. ok x)"
proof (induction xs arbitrary: st)
  case (Cons x xs)
  show ?case
  proof (cases "f x st")
    case (Inl e)
    then show ?thesis using assms [of x st] by auto
  next
    case (Inr st1)
    then show ?thesis using assms [of x st] Cons [of st1] by auto
  qed
qed simp

lemma map_sum_ok: "(\<exists>b. map_sum id f x = Inr b) \<longleftrightarrow> (\<exists>a. x = Inr a)"
  by (cases x) auto

lemma check_default_ok: "(\<exists>st'. check_default kc s d st = Inr st') \<longleftrightarrow> is_leaf_sym (fst d)"
  by (auto simp: check_default_def is_leaf_sym_def Let_def split: expr.split sc.split)

definition defaults_ok :: "kconfig \<Rightarrow> sref \<Rightarrow> bool" where
  "defaults_ok kc s \<longleftrightarrow>
     (orig_type (sym_obj kc s) \<notin> BOOL_TRISTATE_UNKNOWN \<longrightarrow>
        (\<forall>d \<in> set (defaults (sym_obj kc s)). is_leaf_sym (fst d)))"

lemma check_sym_ok: "(\<exists>st'. check_sym kc s st = Inr st') \<longleftrightarrow> defaults_ok kc s"
proof -
  note d = try_each_ok [of "check_default kc s" "\<lambda>d. is_leaf_sym (fst d)", OF check_default_ok]
  consider "orig_type (sym_obj kc s) \<in> BOOL_TRISTATE" | "orig_type (sym_obj kc s) = UNKNOWN"
    | "orig_type (sym_obj kc s) \<notin> BOOL_TRISTATE_UNKNOWN"
    by (auto simp: BOOL_TRISTATE_UNKNOWN_def BOOL_TRISTATE_def)
  then show ?thesis
  proof cases
    case 3
    then have "orig_type (sym_obj kc s) \<notin> BOOL_TRISTATE" "orig_type (sym_obj kc s) \<noteq> UNKNOWN"
      by (auto simp: BOOL_TRISTATE_UNKNOWN_def BOOL_TRISTATE_def)
    then show ?thesis using 3 by (simp add: check_sym_def Let_def map_sum_ok d defaults_ok_def)
  qed (auto simp: check_sym_def Let_def defaults_ok_def BOOL_TRISTATE_UNKNOWN_def BOOL_TRISTATE_def)
qed

lemma check_sym_sanity_ok:
  "(\<exists>st'. check_sym_sanity kc st = Inr st') \<longleftrightarrow> (\<forall>s \<in> set (unique_defined_syms kc). defaults_ok kc s)"
  unfolding check_sym_sanity_def by (rule try_each_ok [OF check_sym_ok])

text \<open>For choices, also the selects and implies of the symbols and the parents of their nodes count.\<close>

definition choice_sym_ok :: "kconfig \<Rightarrow> sref \<Rightarrow> bool" where
  "choice_sym_ok kc s \<longleftrightarrow>
     (\<forall>e \<in> {rev_dep (sym_obj kc s), weak_rev_dep (sym_obj kc s)}.
        e \<noteq> expr_n \<longrightarrow> (\<forall>si \<in> set (split_expr e T_OR). select_form si)) \<and>
     (\<forall>i \<in> set (nodes (sym_obj kc s)). parent (nodetab kc i) \<noteq> None)"

definition choice_ok :: "kconfig \<Rightarrow> nat \<Rightarrow> bool" where
  "choice_ok kc c \<longleftrightarrow>
     (\<forall>d \<in> set (c_defaults (choicetab kc c)). is_leaf_sym (fst d)) \<and>
     (\<forall>s \<in> set (c_syms (choicetab kc c)). choice_sym_ok kc s)"

lemma select_imply_lines_ok:
  "(\<exists>ls. select_imply_lines kc es = Inr ls) \<longleftrightarrow> (\<forall>si \<in> set es. select_form si)"
proof (induction es)
  case (Cons si es)
  then show ?case
    by (cases "hd (split_expr si T_AND)") (simp_all add: select_form_def map_sum_ok)
qed simp

lemma warn_select_imply_ok:
  "(\<exists>st'. warn_select_imply kc s e ty st = Inr st') \<longleftrightarrow> (\<forall>si \<in> set (split_expr e T_OR). select_form si)"
  by (simp add: warn_select_imply_def map_sum_ok select_imply_lines_ok)

lemma bind_ok:
  "(\<exists>b. (case x of Inl e \<Rightarrow> Inl e | Inr a \<Rightarrow> f a) = Inr b) \<longleftrightarrow> (\<exists>a. x = Inr a \<and> (\<exists>b. f a = Inr b))"
  by (cases x) auto

lemma if_Inr_ok: "(\<exists>b. (if P then x else Inr a) = Inr b) \<longleftrightarrow> (P \<longrightarrow> (\<exists>b. x = Inr b))"
  by simp

lemma check_choice_node_ok:
  "(\<exists>st'. check_choice_node kc c s i st = Inr st') \<longleftrightarrow> parent (nodetab kc i) \<noteq> None"
  by (auto simp: check_choice_node_def Let_def split: option.split)

lemma check_choice_sym_ok: "(\<exists>st'. check_choice_sym kc c s st = Inr st') \<longleftrightarrow> choice_sym_ok kc s"
proof -
  note n = try_each_ok [of "check_choice_node kc c s" "\<lambda>i. parent (nodetab kc i) \<noteq> None", OF check_choice_node_ok]
  have ex: "(\<exists>a. x = Inr a \<and> P) \<longleftrightarrow> (\<exists>a. x = Inr a) \<and> P" for x :: "exn + kstate" and P by blast
  show ?thesis
    unfolding check_choice_sym_def Let_def bind_ok n ex if_Inr_ok warn_select_imply_ok choice_sym_ok_def
    by blast
qed

lemma check_choice_default_ok:
  "(\<exists>st'. check_choice_default kc c d st = Inr st') \<longleftrightarrow> is_leaf_sym (fst d)"
  by (auto simp: check_choice_default_def is_leaf_sym_def split: expr.split sc.split)

lemma check_choice_sanity_ok:
  "(\<exists>st'. check_choice_sanity kc st = Inr st') \<longleftrightarrow> (\<forall>c \<in> set (unique_choices kc). choice_ok kc c)"
proof -
  have "(\<exists>st'. check_choice kc c st = Inr st') \<longleftrightarrow> choice_ok kc c" for c st
  proof -
    note d = try_each_ok [of "check_choice_default kc c" "\<lambda>d. is_leaf_sym (fst d)", OF check_choice_default_ok]
    note s = try_each_ok [of "check_choice_sym kc c" "choice_sym_ok kc", OF check_choice_sym_ok]
    have ex: "(\<exists>a. x = Inr a \<and> P) \<longleftrightarrow> (\<exists>a. x = Inr a) \<and> P" for x :: "exn + kstate" and P by blast
    show ?thesis unfolding check_choice_def Let_def bind_ok s ex d choice_ok_def ..
  qed
  then show ?thesis unfolding check_choice_sanity_def by (rule try_each_ok)
qed

text \<open>Reverse dependencies are disjunctions of conjunctions that start with a symbol.\<close>

definition selects_built :: "kconfig \<Rightarrow> bool" where
  "selects_built kc \<longleftrightarrow> (\<forall>s. \<forall>sel \<in> set (split_expr (rev_dep (sym_obj kc s)) T_OR). select_form sel)"

text \<open>
  C37. What the checks reject, and nothing else: the check of the symbols raises its error exactly
  if a defined string, int or hex symbol has a default that is not a single symbol. Whatever
  other problem there is is a warning.
\<close>

theorem sym_sanity_accepts:
  "(\<exists>st'. check_sym_sanity kc st = Inr st') \<longleftrightarrow>
   (\<forall>s \<in> set (unique_defined_syms kc). orig_type (sym_obj kc s) \<in> {STRING, INT_T, HEX} \<longrightarrow>
      (\<forall>(d, cond) \<in> set (defaults (sym_obj kc s)). \<exists>v. d = Leaf (Sym v)))"
proof -
  have "defaults_ok kc s \<longleftrightarrow> (orig_type (sym_obj kc s) \<in> {STRING, INT_T, HEX} \<longrightarrow>
      (\<forall>(d, cond) \<in> set (defaults (sym_obj kc s)). \<exists>v. d = Leaf (Sym v)))" for s
  proof -
    have "ty \<notin> BOOL_TRISTATE_UNKNOWN \<longleftrightarrow> ty \<in> {STRING, INT_T, HEX}" for ty
      by (cases ty) (simp_all add: BOOL_TRISTATE_UNKNOWN_def)
    moreover have "is_leaf_sym d \<longleftrightarrow> (\<exists>v. d = Leaf (Sym v))" for d
      by (auto simp: is_leaf_sym_def split: expr.split sc.split)
    ultimately show ?thesis by (simp add: defaults_ok_def split_def)
  qed
  then show ?thesis by (simp add: check_sym_sanity_ok)
qed

text \<open>After both checks the configuration has the form that the computation of values needs.\<close>

lemma passed_sane:
  assumes "check_sym_sanity kc st = Inr st1" "check_choice_sanity kc st1 = Inr st2"
    and "wf_deps kc" "selects_built kc"
  shows "sane kc"
proof -
  have s: "defaults_ok kc s" if "s \<in> set (unique_defined_syms kc)" for s
    using assms(1) check_sym_sanity_ok that by blast
  have c: "choice_ok kc c" if "c \<in> set (unique_choices kc)" for c
    using assms(2) check_choice_sanity_ok that by blast
  have "defaults_ok kc s" for s
  proof (cases "Sym s \<in> all_items kc")
    case True
    then show ?thesis using s by (auto simp: all_items_def)
  next
    case False
    then have "undefined_sym kc s" using assms(3) unfolding wf_deps_def by meson
    then have "orig_type (sym_obj kc s) \<in> BOOL_TRISTATE_UNKNOWN"
      using is_nmy_type by (auto simp: undefined_sym_def BOOL_TRISTATE_UNKNOWN_def)
    then show ?thesis by (simp add: defaults_ok_def)
  qed
  moreover have "\<forall>d \<in> set (c_defaults (choicetab kc c)). is_leaf_sym (fst d)" for c
  proof (cases "Cho c \<in> all_items kc")
    case True
    then show ?thesis using c by (auto simp: all_items_def choice_ok_def)
  next
    case False
    then have "undefined_choice kc c" using assms(3) unfolding wf_deps_def by meson
    then show ?thesis by (simp add: undefined_choice_def Let_def)
  qed
  ultimately show ?thesis
    using assms(4) by (simp add: sane_def defaults_ok_def selects_built_def)
qed

end
