(* ===== verification/Loop_Free.thy ===== *)
theory Loop_Free
  imports Dep_Loop Reachable Sanity
begin

text \<open>
  What the check for dependency loops is for: after it has passed, every value of the
  configuration can be computed. And what it misses.
\<close>

section \<open>Acyclic dependencies\<close>

lemma check_dep_loops_rank:
  assumes "check_dep_loops kc n = Inr vis"
  shows "\<exists>F. \<forall>s \<in> set (unique_defined_syms kc). \<forall>x \<in> set (dependents (sym_obj kc s)). F x < (F (Sym s) :: nat)"
proof -
  have "done_below kc (\<lambda>_. 0)" "on_stack (\<lambda>_. 0) = (\<lambda>_. False)"
    by (simp_all add: done_below_def on_stack_def fun_eq_iff)
  from check_all_below [OF this] assms
  have "done_below kc vis" "\<forall>s \<in> set (unique_defined_syms kc). vis (Sym s) = 2"
    by (auto simp: check_dep_loops_def)
  then show ?thesis unfolding done_below_def by blast
qed

text \<open>
  C34. When the check passes, no symbol depends on itself through dependencies of symbols: the
  relation from the defined symbols to what depends on them has no cycle.
\<close>

theorem dep_loop_check_acyclic:
  assumes "check_dep_loops kc n = Inr vis"
  shows "acyclic {(Sym s, x) | s x. s \<in> set (unique_defined_syms kc) \<and> x \<in> set (dependents (sym_obj kc s))}"
proof -
  obtain F :: "sc \<Rightarrow> nat" where F: "\<forall>s \<in> set (unique_defined_syms kc). \<forall>x \<in> set (dependents (sym_obj kc s)). F x < F (Sym s)"
    using check_dep_loops_rank [OF assms] by blast
  have "{(Sym s, x) | s x. s \<in> set (unique_defined_syms kc) \<and> x \<in> set (dependents (sym_obj kc s))}
      \<subseteq> (measure F)\<inverse>"
    using F by auto
  moreover have "acyclic ((measure F)\<inverse>)" by (simp add: wf_acyclic)
  ultimately show ?thesis by (rule acyclic_subset [rotated])
qed

text \<open>The items of the configuration are closed under what the search follows.\<close>

definition closed_items :: "kconfig \<Rightarrow> bool" where
  "closed_items kc \<longleftrightarrow>
     deps_inside kc \<and> (\<forall>s c. choice (sym_obj kc s) = Some c \<longrightarrow> Cho c \<in> all_items kc) \<and>
     (\<forall>c. Sym ` set (c_syms (choicetab kc c)) \<subseteq> all_items kc)"

lemma closed_calls: "closed_items kc \<Longrightarrow> calls_inside kc"
  unfolding calls_inside_def
proof (intro allI impI)
  fix v assume c: "closed_items kc"
  then have d: "x \<in> set (dependents (sym_obj kc s)) \<Longrightarrow> x \<in> all_items kc" for x s
    using deps_insideD [of kc x "Sym s"] by (simp add: closed_items_def sc_dependents_def)
  have "target w \<in> all_items kc" if w: "w \<in> set (calls kc v)" for w
  proof (cases v)
    case (VSym s b)
    then consider x where "x \<in> set (dependents (sym_obj kc s))" "w = dep_call x"
      | c where "choice (sym_obj kc s) = Some c" "w = VCho c (Some s)"
      using w unfolding VSym by (cases "choice (sym_obj kc s)") (auto split: if_splits)
    then show ?thesis using d c by cases (auto simp: closed_items_def)
  next
    case (VCho ch skip)
    then obtain s where "s \<in> set (c_syms (choicetab kc ch))" "w = VSym s True" using w by auto
    moreover have "Sym ` set (c_syms (choicetab kc ch)) \<subseteq> all_items kc"
      using c by (simp add: closed_items_def)
    ultimately show ?thesis by (simp add: image_subset_iff)
  qed
  then show "target ` set (calls kc v) \<subseteq> all_items kc" by blast
qed

lemma check_all_depth:
  assumes "calls_inside kc" "card (all_items kc) < n" "Sym ` set ss \<subseteq> all_items kc"
  shows "check_all kc n ss vis \<noteq> Inl RecursionError"
  using assms(3)
proof (induction ss arbitrary: vis)
  case (Cons s ss)
  have "fresh_items kc vis \<subseteq> all_items kc" by (auto simp: fresh_items_def)
  from card_mono [OF finite_all_items this] have "card (fresh_items kc vis) < n"
    using assms(2) by linarith
  with check_dep_loop_depth [OF assms(1), of "VSym s False" vis n] Cons show ?case
    by (auto split: sum.splits)
qed simp

text \<open>
  C35. The check returns: it finds a loop or it passes, with a recursion no deeper than there
  are symbols and choices.
\<close>

theorem dep_loop_check_returns:
  assumes "closed_items kc" "card (all_items kc) < n"
  shows "check_dep_loops kc n \<noteq> Inl RecursionError"
  unfolding check_dep_loops_def
  by (rule check_all_depth [OF closed_calls [OF assms(1)] assms(2)]) (auto simp: all_items_def)

section \<open>A passed check ranks the configuration\<close>

text \<open>
  Without choices: the dependents of the symbols give a ranking of the items. What the
  dependency sets leave out is the symbol \<^verbatim>\<open>MODULES\<close>, on which every tristate symbol
  depends; it must not depend on other symbols.
\<close>

definition choice_free :: "kconfig \<Rightarrow> bool" where
  "choice_free kc \<longleftrightarrow>
     unique_choices kc = [] \<and>
     (\<forall>s \<in> set (unique_defined_syms kc). \<forall>e \<in> set (sym_exprs kc s). \<forall>c. Cho c \<notin> expr_items e)"

definition modules_plain :: "kconfig \<Rightarrow> bool" where
  "modules_plain kc \<longleftrightarrow>
     orig_type (sym_obj kc modules) \<noteq> TRISTATE \<and>
     (\<forall>e \<in> set (sym_exprs kc modules). \<forall>y \<in> expr_items e. y \<notin> all_items kc)"

definition undefined_n :: "kconfig \<Rightarrow> bool" where
  "undefined_n kc \<longleftrightarrow> (\<forall>s. s \<notin> set (unique_defined_syms kc) \<longrightarrow> direct_dep (sym_obj kc s) = expr_n)"

definition dep_rank :: "kconfig \<Rightarrow> (sc \<Rightarrow> nat) \<Rightarrow> nat \<Rightarrow> sc \<Rightarrow> nat" where
  "dep_rank kc F K x =
     (case x of
        Sym s \<Rightarrow>
          if s \<notin> set (unique_defined_syms kc) then 0
          else if s = modules then 1
          else 2 + (K - F (Sym s))
      | Cho c \<Rightarrow> 0)"

lemma mention_below:
  assumes w: "wf_deps kc" and f: "choice_free kc" and m: "modules_plain kc"
    and F: "\<forall>s \<in> set (unique_defined_syms kc). \<forall>x \<in> set (dependents (sym_obj kc s)). F x < (F (Sym s) :: nat)"
    and K: "\<forall>s \<in> set (unique_defined_syms kc). F (Sym s) \<le> K"
    and s: "s \<in> set (unique_defined_syms kc)" and e: "e \<in> set (sym_exprs kc s)" "tracked kc (Sym s) e"
    and y: "y \<in> expr_items e"
  shows "dep_rank kc F K y < dep_rank kc F K (Sym s)"
proof -
  obtain t where t: "y = Sym t" using f s e(1) y by (cases y) (auto simp: choice_free_def)
  show ?thesis
  proof (cases "t \<in> set (unique_defined_syms kc)")
    case True
    have it: "Sym t \<in> all_items kc" using True by (simp add: all_items_def)
    then have sm: "s \<noteq> modules" using m e(1) y t by (auto simp: modules_plain_def)
    show ?thesis
    proof (cases "t = modules")
      case False
      have "\<not> is_constant t" using w it unfolding wf_deps_def by presburger
      then have "Sym s \<in> set (dependents (sym_obj kc t))"
        using e(2) y t by (auto simp: tracked_def constant_item_def sc_dependents_def)
      then have "F (Sym s) < F (Sym t)" "F (Sym t) \<le> K" using F K True by auto
      then show ?thesis using True s sm False t by (simp add: dep_rank_def)
    qed (use s sm t in \<open>simp add: dep_rank_def\<close>)
  qed (use s t in \<open>simp add: dep_rank_def\<close>)
qed

lemma defined_item: "choice_free kc \<Longrightarrow> x \<in> all_items kc \<longleftrightarrow> (\<exists>s \<in> set (unique_defined_syms kc). x = Sym s)"
  by (auto simp: all_items_def choice_free_def)

lemma prompt_conds_iff:
  "e \<in> set (prompt_conds kc ns) \<longleftrightarrow> (\<exists>m \<in> set ns. \<exists>t. Some (t, e) = nd_prompt (nodetab kc m))"
  unfolding prompt_conds_def by (induction ns) (auto split: option.splits)

lemma regroup: "(P \<or> D \<or> (e = r \<or> e = w \<or> False) \<or> R \<or> e = d \<or> False) \<longleftrightarrow> (P \<or> D \<or> e = r \<or> e = w \<or> e = d \<or> R)"
  by blast

lemma sym_exprs_iff:
  "e \<in> set (sym_exprs kc s) \<longleftrightarrow>
     e \<in> set (prompt_conds kc (nodes (sym_obj kc s))) \<or>
     (\<exists>v c. (v, c) \<in> set (defaults (sym_obj kc s)) \<and> (e = v \<or> e = c)) \<or>
     e = rev_dep (sym_obj kc s) \<or> e = weak_rev_dep (sym_obj kc s) \<or> e = direct_dep (sym_obj kc s) \<or>
     (\<exists>lo hi c. (lo, hi, c) \<in> set (ranges (sym_obj kc s)) \<and> (e = Leaf (Sym lo) \<or> e = Leaf (Sym hi) \<or> e = c))"
proof -
  have 1: "e \<in> set (concat (map (\<lambda>(value, cond). [value, cond]) ds)) \<longleftrightarrow> (\<exists>v c. (v, c) \<in> set ds \<and> (e = v \<or> e = c))" for ds
    by (induction ds) (simp_all, metis)
  have 2: "e \<in> set (concat (map (\<lambda>(low, high, cond). [Leaf (Sym low), Leaf (Sym high), cond]) rs)) \<longleftrightarrow>
      (\<exists>lo hi c. (lo, hi, c) \<in> set rs \<and> (e = Leaf (Sym lo) \<or> e = Leaf (Sym hi) \<or> e = c))" for rs
    by (induction rs) (simp_all, metis)
  show ?thesis unfolding sym_exprs_def Let_def set_append Un_iff 1 2 list.set insert_iff empty_iff
    by (rule regroup)
qed

lemma in_sym_exprs:
  "m \<in> set (nodes (sym_obj kc s)) \<Longrightarrow> nd_prompt (nodetab kc m) = Some p \<Longrightarrow> snd p \<in> set (sym_exprs kc s)"
  "d \<in> set (defaults (sym_obj kc s)) \<Longrightarrow> fst d \<in> set (sym_exprs kc s)"
  "d \<in> set (defaults (sym_obj kc s)) \<Longrightarrow> snd d \<in> set (sym_exprs kc s)"
  "rev_dep (sym_obj kc s) \<in> set (sym_exprs kc s)" "weak_rev_dep (sym_obj kc s) \<in> set (sym_exprs kc s)"
  "direct_dep (sym_obj kc s) \<in> set (sym_exprs kc s)"
  unfolding sym_exprs_iff prompt_conds_iff by (metis prod.collapse)+

lemma exprs_tracked:
  assumes "wf_deps kc" "s \<in> set (unique_defined_syms kc)" "e \<in> set (sym_exprs kc s)"
  shows "tracked kc (Sym s) e"
proof -
  have "Sym s \<in> all_items kc" using assms(2) by (simp add: all_items_def)
  then have t: "sym_tracked kc s" using assms(1) unfolding wf_deps_def by meson
  from assms(3) show ?thesis unfolding sym_exprs_iff
  proof (elim disjE exE conjE)
    assume "e \<in> set (prompt_conds kc (nodes (sym_obj kc s)))"
    then obtain m p where "m \<in> set (nodes (sym_obj kc s))" "nd_prompt (nodetab kc m) = Some (p, e)"
      unfolding prompt_conds_iff by metis
    then show ?thesis using t by (force simp: sym_tracked_def Let_def prompts_tracked_def sc_nodes_def)
  qed (use t in \<open>auto simp: sym_tracked_def Let_def\<close>)
qed

lemma dep_rank_ranked:
  assumes w: "wf_deps kc" and f: "choice_free kc" and m: "modules_plain kc" and n: "undefined_n kc"
    and F: "\<forall>s \<in> set (unique_defined_syms kc). \<forall>x \<in> set (dependents (sym_obj kc s)). F x < (F (Sym s) :: nat)"
    and K: "\<forall>s \<in> set (unique_defined_syms kc). F (Sym s) \<le> K"
    and u: "wf_user kc u"
  shows "ranked kc u (dep_rank kc F K) (\<lambda>_. 0)"
proof -
  let ?rk = "dep_rank kc F K"
  have below: "items_below ?rk (?rk (Sym s)) e" if "s \<in> set (unique_defined_syms kc)" "e \<in> set (sym_exprs kc s)" for s e
    using mention_below [OF w f m F K that exprs_tracked [OF w that]] by (simp add: items_below_def)
  have undef: "undefined_sym kc s" if "s \<notin> set (unique_defined_syms kc)" for s
    using w that defined_item [OF f] unfolding wf_deps_def by (metis sc.inject(1))
  have ncho: "choice (sym_obj kc s) = None" for s
    using w defined_item [OF f] unfolding wf_deps_def by (metis not_None_eq sc.distinct(1))
  have "sym_ranked kc ?rk (\<lambda>_. 0) s" if k: "\<not> is_nmy s" for s
  proof (cases "s \<in> set (unique_defined_syms kc)")
    case False
    then show ?thesis using undef [OF False] k
      by (simp add: undefined_sym_def sym_ranked_def prompts_below_def)
  next
    case True
    note b = below [OF True]
    have 1: "prompts_below kc ?rk (?rk (Sym s)) (nodes (sym_obj kc s))"
      unfolding prompts_below_def
    proof
      fix k assume "k \<in> set (nodes (sym_obj kc s))"
      then show "case nd_prompt (nodetab kc k) of None \<Rightarrow> True | Some p \<Rightarrow> items_below ?rk (?rk (Sym s)) (snd p)"
        using b in_sym_exprs(1) by (cases "nd_prompt (nodetab kc k)") simp_all
    qed
    have 2: "\<forall>d \<in> set (defaults (sym_obj kc s)).
        items_below ?rk (?rk (Sym s)) (fst d) \<and> items_below ?rk (?rk (Sym s)) (snd d)"
      using b in_sym_exprs(2,3) by blast
    have 3: "\<forall>(lo, hi, c) \<in> set (ranges (sym_obj kc s)).
        ?rk (Sym lo) < ?rk (Sym s) \<and> ?rk (Sym hi) < ?rk (Sym s) \<and> items_below ?rk (?rk (Sym s)) c"
    proof clarify
      fix lo hi c assume "(lo, hi, c) \<in> set (ranges (sym_obj kc s))"
      then have "{Leaf (Sym lo), Leaf (Sym hi), c} \<subseteq> set (sym_exprs kc s)"
        unfolding insert_subset sym_exprs_iff by blast
      then show "?rk (Sym lo) < ?rk (Sym s) \<and> ?rk (Sym hi) < ?rk (Sym s) \<and> items_below ?rk (?rk (Sym s)) c"
        using b by (auto simp: items_below_def)
    qed
    have 4: "items_below ?rk (?rk (Sym s)) (direct_dep (sym_obj kc s))"
      "items_below ?rk (?rk (Sym s)) (rev_dep (sym_obj kc s))"
      "items_below ?rk (?rk (Sym s)) (weak_rev_dep (sym_obj kc s))"
      using b in_sym_exprs(4-6) by blast+
    have 5: "items_below ?rk (?rk (Sym s)) (sc_direct_dep kc x)" if x: "x \<in> expr_items (rev_dep (sym_obj kc s))" for x
    proof -
      obtain r where r: "x = Sym r"
        using f True x by (cases x) (auto simp: choice_free_def in_sym_exprs)
      have "?rk x < ?rk (Sym s)" using 4(2) x by (simp add: items_below_def)
      show ?thesis
      proof (cases "r \<in> set (unique_defined_syms kc)")
        case True
        have "items_below ?rk (?rk x) (direct_dep (sym_obj kc r))"
          using below [OF True] by (simp add: r in_sym_exprs)
        then show ?thesis using \<open>?rk x < ?rk (Sym s)\<close> by (force simp: items_below_def r)
      next
        case False
        have c: "const_n \<notin> set (unique_defined_syms kc)"
          using w unfolding wf_deps_def using w defined_item [OF f] const_is_constant(1) unfolding wf_deps_def by metis
        show ?thesis using n False \<open>?rk x < ?rk (Sym s)\<close> c
          by (simp add: undefined_n_def r items_below_def dep_rank_def)
      qed
    qed
    have 6: "?rk (Sym modules) < ?rk (Sym s)" if "orig_type (sym_obj kc s) = TRISTATE"
      using that m True by (auto simp: modules_plain_def dep_rank_def)
    show ?thesis unfolding sym_ranked_def Let_def using 1 2 3 4 5 6 ncho by simp
  qed
  moreover have "choice_ranked kc u ?rk (\<lambda>_. 0) c" for c
  proof -
    have un: "undefined_choice kc c"
      using w defined_item [OF f, of "Cho c"] unfolding wf_deps_def by (metis sc.distinct(1))
    moreover have "user_selection u c = None"
    proof (cases "user_selection u c")
      case (Some t)
      then have "t \<in> set (c_syms (choicetab kc c))" using u unfolding wf_user_def by blast
      then show ?thesis using un by (simp add: undefined_choice_def Let_def)
    qed
    ultimately show ?thesis
      by (simp add: choice_ranked_def undefined_choice_def prompts_below_def dep_rank_def Let_def)
  qed
  ultimately show ?thesis by (simp add: ranked_def)
qed

text \<open>The rank for all user values, and a bound on it.\<close>

lemma checked_ranked:
  assumes "check_dep_loops kc n = Inr vis"
    and "wf_deps kc" "choice_free kc" "modules_plain kc" "undefined_n kc"
  shows "\<exists>rk m. (\<forall>u. wf_user kc u \<longrightarrow> ranked kc u rk (\<lambda>_. 0)) \<and> (\<forall>q. qrank rk (\<lambda>_. 0) q < m)"
proof -
  obtain F :: "sc \<Rightarrow> nat" where F: "\<forall>s \<in> set (unique_defined_syms kc). \<forall>x \<in> set (dependents (sym_obj kc s)). F x < F (Sym s)"
    using check_dep_loops_rank [OF assms(1)] by blast
  define K where "K = sum_list (map (\<lambda>s. F (Sym s)) (unique_defined_syms kc))"
  have K: "\<forall>s \<in> set (unique_defined_syms kc). F (Sym s) \<le> K"
    unfolding K_def by (auto intro!: member_le_sum_list)
  note r = dep_rank_ranked [OF assms(2-5) F K]
  have k: "dep_rank kc F K x \<le> K + 2" for x
    by (simp add: dep_rank_def split: sc.split)
  have q: "qrank (dep_rank kc F K) (\<lambda>_. 0) q < 8 * (K + 2) + 7" for q
  proof -
    have j: "8 * dep_rank kc F K x + j < 8 * (K + 2) + 7" if "j \<le> 6" for x j
      by (rule add_le_less_mono [OF mult_le_mono2 [OF k]]) (use that in simp)
    have s: "(8 * dep_rank kc F K x + 1 < 8 * (K + 2) + 7) \<and> (8 * dep_rank kc F K x + 4 < 8 * (K + 2) + 7) \<and>
        (8 * dep_rank kc F K x + 5 < 8 * (K + 2) + 7) \<and> (8 * dep_rank kc F K x + 6 < 8 * (K + 2) + 7)" for x
      by (intro conjI j) simp_all
    show ?thesis
      by (cases q; simp only: qrank.simps s; simp)
  qed
  show ?thesis using r q by blast
qed

text \<open>
  C19. In a configuration without choices that was built as the finalisation builds it and that
  passes the sanity checks and the check for dependency loops, and in which \<^verbatim>\<open>MODULES\<close> is not a
  tristate and depends on no symbol, every attribute of every symbol has a value: with a fixed
  bound on the nesting no read ends in an exception, whatever well-typed values the user has
  given. The check does not see that tristate symbols read \<^verbatim>\<open>MODULES\<close>.
\<close>

theorem checked_values_total:
  assumes "check_dep_loops kc n = Inr vis"
    and "check_sym_sanity kc st = Inr st1" "check_choice_sanity kc st1 = Inr st2"
    and "wf_deps kc" "choice_free kc" "modules_plain kc" "undefined_n kc" "selects_built kc"
  shows "\<exists>m. \<forall>u q. valid_user kc u \<longrightarrow> wf_user kc u \<longrightarrow> (\<exists>v. pure kc u m q = Inr v)"
proof -
  obtain rk m where r: "\<forall>u. wf_user kc u \<longrightarrow> ranked kc u rk (\<lambda>_. 0)" "\<forall>q. qrank rk (\<lambda>_. 0) q < m"
    using checked_ranked [OF assms(1,4-7)] by blast
  then show ?thesis using attr_total_any [OF _ passed_sane [OF assms(2,3,4,8)]] by blast
qed

end
