(* ===== verification/Check_Examples.thy ===== *)
theory Check_Examples
  imports Loop_Free Example
begin

text \<open>
  The check for dependency loops on a chain of dependencies, on a loop, and on a choice whose
  evaluation does not end although the check passes.
\<close>

section \<open>A chain\<close>

text \<open>A bool \<open>P\<close>, a bool \<open>Q\<close> that depends on \<open>P\<close> and selects \<open>R\<close>.\<close>

definition chain_node :: "sref \<Rightarrow> expr \<Rightarrow> menu_node" where
  "chain_node s e = fresh_node\<lparr>item := ISym s, nd_prompt := Some (''prompt'', e), dep := e,
     filename := ''Kconfig'', linenr := 1\<rparr>"

definition chain_symtab :: "sref \<Rightarrow> symbol option" where
  "chain_symtab s =
     (if s = nsym ''P'' then Some ((ex_sym BOOL 1)\<lparr>dependents := [Sym (nsym ''Q'')]\<rparr>)
      else if s = nsym ''Q'' then
        Some ((ex_sym BOOL 2)\<lparr>direct_dep := Leaf (Sym (nsym ''P'')), selects := [(nsym ''R'', expr_y)],
          dependents := [Sym (nsym ''R'')]\<rparr>)
      else if s = nsym ''R'' then Some ((ex_sym BOOL 3)\<lparr>rev_dep := Leaf (Sym (nsym ''Q''))\<rparr>)
      else None)"

definition chain_nodes :: "nat \<Rightarrow> menu_node" where
  "chain_nodes i =
     (if i = 1 then chain_node (nsym ''P'') expr_y
      else if i = 2 then chain_node (nsym ''Q'') (Leaf (Sym (nsym ''P'')))
      else if i = 3 then (chain_node (nsym ''R'') expr_y)\<lparr>nd_prompt := None\<rparr>
      else fresh_node)"

definition chain :: kconfig where
  "chain =
     \<lparr>symtab = chain_symtab, choicetab = (\<lambda>_. fresh_choice), nodetab = chain_nodes,
      unique_defined_syms = [nsym ''P'', nsym ''Q'', nsym ''R''], unique_choices = [], defconfig_list = None,
      config_prefix = ''CONFIG_'', config_header = [], header_header = [], top_node = 0\<rparr>"

lemma chain_tabs [simp]:
  "symtab chain = chain_symtab" "choicetab chain c = fresh_choice" "nodetab chain = chain_nodes"
  "unique_defined_syms chain = [nsym ''P'', nsym ''Q'', nsym ''R'']" "unique_choices chain = []"
  by (simp_all add: chain_def)

lemma chain_items: "all_items chain = {Sym (nsym ''P''), Sym (nsym ''Q''), Sym (nsym ''R'')}"
  by (auto simp: all_items_def)

lemma chain_objs:
  "sym_obj chain (nsym ''P'') = (ex_sym BOOL 1)\<lparr>dependents := [Sym (nsym ''Q'')]\<rparr>"
  "sym_obj chain (nsym ''Q'') =
     (ex_sym BOOL 2)\<lparr>direct_dep := Leaf (Sym (nsym ''P'')), selects := [(nsym ''R'', expr_y)],
          dependents := [Sym (nsym ''R'')]\<rparr>"
  "sym_obj chain (nsym ''R'') = (ex_sym BOOL 3)\<lparr>rev_dep := Leaf (Sym (nsym ''Q''))\<rparr>"
  "s \<noteq> nsym ''P'' \<Longrightarrow> s \<noteq> nsym ''Q'' \<Longrightarrow> s \<noteq> nsym ''R'' \<Longrightarrow>
     sym_obj chain s = (if is_nmy s then const_symbol else fresh_symbol)"
  by (simp_all add: sym_obj_def is_nmy_def const_n_def const_m_def const_y_def chain_symtab_def)

lemma chain_cases:
  "(s = nsym ''P'' \<Longrightarrow> Q) \<Longrightarrow> (s = nsym ''Q'' \<Longrightarrow> Q) \<Longrightarrow> (s = nsym ''R'' \<Longrightarrow> Q) \<Longrightarrow>
   (sym_obj chain s = const_symbol \<and> is_nmy s \<or> sym_obj chain s = fresh_symbol \<Longrightarrow>
      s \<noteq> nsym ''P'' \<Longrightarrow> s \<noteq> nsym ''Q'' \<Longrightarrow> s \<noteq> nsym ''R'' \<Longrightarrow> Q) \<Longrightarrow> Q"
  using chain_objs(4) [of s] by (cases "is_nmy s") auto

lemmas chain_simps = chain_objs(1-3) ex_sym_def fresh_symbol_def const_symbol_def fresh_choice_def
  chain_nodes_def chain_node_def fresh_node_def sc_dependents_def sc_nodes_def tracked_def constant_item_def
  prompts_tracked_def const_n_def const_m_def const_y_def

lemma chain_deps: "set (sc_dependents chain x) \<subseteq> all_items chain"
proof (cases x)
  case (Sym s)
  then show ?thesis by (cases s rule: chain_cases) (auto simp: chain_simps chain_items)
qed (simp add: chain_simps)

lemma chain_closed: "closed_items chain"
proof -
  have "choice (sym_obj chain s) = None" for s
    by (cases s rule: chain_cases) (auto simp: chain_simps)
  then show ?thesis using chain_deps by (simp add: closed_items_def deps_inside_def fresh_choice_def)
qed

lemma chain_wf: "wf_deps chain"
  unfolding wf_deps_def
proof (intro conjI allI impI)
  show "deps_inside chain" using chain_deps by (simp add: deps_inside_def)
next
  fix s show "if Sym s \<in> all_items chain then \<not> is_constant s \<and> sym_tracked chain s else undefined_sym chain s"
    by (cases s rule: chain_cases)
      (auto simp: chain_items sym_tracked_def undefined_sym_def Let_def chain_simps)
next
  fix c show "if Cho c \<in> all_items chain then choice_tracked chain c else undefined_choice chain c"
    by (simp add: chain_items undefined_choice_def fresh_choice_def)
next
  fix s c assume "choice (sym_obj chain s) = Some c"
  then have False by (cases s rule: chain_cases) (auto simp: chain_simps)
  then show "Cho c \<in> all_items chain" "s \<in> set (c_syms (choicetab chain c))" by auto
qed

lemma chain_passes: "\<exists>vis. check_dep_loops chain 4 = Inr vis"
proof -
  have "case check_dep_loops chain 4 of Inl e \<Rightarrow> False | Inr vis \<Rightarrow> True" by code_simp
  then show ?thesis by (auto split: sum.splits)
qed

lemma dep_loop_check_acyclic_witness:
  "acyclic {(Sym s, x) | s x. s \<in> set (unique_defined_syms chain) \<and> x \<in> set (dependents (sym_obj chain s))} \<and>
   Sym (nsym ''R'') \<in> set (dependents (sym_obj chain (nsym ''Q'')))"
proof
  obtain vis where "check_dep_loops chain 4 = Inr vis" using chain_passes by blast
  then show "acyclic {(Sym s, x) | s x. s \<in> set (unique_defined_syms chain) \<and> x \<in> set (dependents (sym_obj chain s))}"
    by (rule dep_loop_check_acyclic)
qed (simp add: chain_objs)

lemma dep_loop_check_returns_witness:
  "check_dep_loops chain 4 \<noteq> Inl RecursionError"
  by (rule dep_loop_check_returns [OF chain_closed]) (simp add: chain_items)

lemma checked_values_total_witness:
  "\<exists>m v. pure chain init_user m (QTri (nsym ''R'')) = Inr v"
proof -
  have "choice_free chain"
    by (auto simp: choice_free_def sym_exprs_def prompt_conds_def Let_def chain_simps)
  moreover have "modules_plain chain"
    by (simp add: modules_plain_def modules_def sym_obj_def is_nmy_def const_n_def const_m_def const_y_def
        chain_symtab_def fresh_symbol_def sym_exprs_def prompt_conds_def Let_def chain_items)
  moreover have "undefined_n chain"
    unfolding undefined_n_def
  proof (intro allI impI)
    fix s assume "s \<notin> set (unique_defined_syms chain)"
    then show "direct_dep (sym_obj chain s) = expr_n" by (cases s rule: chain_cases) (auto simp: chain_simps)
  qed
  moreover have "selects_built chain"
    unfolding selects_built_def
  proof
    fix s show "\<forall>sel \<in> set (split_expr (rev_dep (sym_obj chain s)) T_OR). select_form sel"
      by (cases s rule: chain_cases) (auto simp: chain_simps select_form_def)
  qed
  moreover obtain st1 where "check_sym_sanity chain init_state = Inr st1"
    using check_sym_sanity_ok [of chain init_state]
    by (auto simp: defaults_ok_def chain_simps BOOL_TRISTATE_UNKNOWN_def)
  moreover have "check_choice_sanity chain st1 = Inr st1" by (simp add: check_choice_sanity_def)
  moreover have "valid_user chain init_user" "wf_user chain init_user"
    by (simp_all add: valid_user_def wf_user_def init_user_def)
  ultimately show ?thesis using checked_values_total chain_passes chain_wf by blast
qed

lemma sym_sanity_accepts_witness:
  "\<exists>st'. check_sym_sanity chain init_state = Inr st'"
  unfolding sym_sanity_accepts by (auto simp: chain_simps)

section \<open>What the check misses\<close>

text \<open>
  A choice with \<open>A\<close>, \<open>Z\<close> and \<open>Y\<close>, in this order, where \<open>Z\<close> depends on \<open>Y\<close> and is the
  default. The selection asks for the visibility of \<open>Z\<close>, that for the value of \<open>Y\<close>, and that
  for the selection. The search enters the choice from \<open>A\<close> and marks \<open>Z\<close> and \<open>Y\<close> done
  without having gone from \<open>Z\<close> back to the choice.
\<close>

definition odd_syms :: "sref \<Rightarrow> symbol option" where
  "odd_syms s =
     (if s = nsym ''A'' then Some ((ex_sym BOOL 2)\<lparr>choice := Some 0, direct_dep := Leaf (Cho 0)\<rparr>)
      else if s = nsym ''Z'' then
        Some ((ex_sym BOOL 3)\<lparr>choice := Some 0, direct_dep := AND (Leaf (Sym (nsym ''Y''))) (Leaf (Cho 0))\<rparr>)
      else if s = nsym ''Y'' then Some ((ex_sym BOOL 4)\<lparr>choice := Some 0, direct_dep := Leaf (Cho 0)\<rparr>)
      else None)"

definition odd_nodes :: "nat \<Rightarrow> menu_node" where
  "odd_nodes i =
     (if i = 1 then fresh_node\<lparr>item := ICho 0, nd_prompt := Some (''pick'', expr_y), filename := ''Kconfig'', linenr := 1\<rparr>
      else if i = 2 then chain_node (nsym ''A'') (Leaf (Cho 0))
      else if i = 3 then chain_node (nsym ''Z'') (AND (Leaf (Sym (nsym ''Y''))) (Leaf (Cho 0)))
      else if i = 4 then chain_node (nsym ''Y'') (Leaf (Cho 0))
      else fresh_node)"

definition odd_choice :: choice_obj where
  "odd_choice = fresh_choice
     \<lparr>c_orig_type := BOOL, c_nodes := [1], c_syms := [nsym ''A'', nsym ''Z'', nsym ''Y''],
      c_defaults := [(Leaf (Sym (nsym ''Z'')), expr_y)], c_direct_dep := expr_y\<rparr>"

definition odd_kc :: kconfig where
  "odd_kc =
     \<lparr>symtab = odd_syms, choicetab = (\<lambda>c. if c = 0 then odd_choice else fresh_choice), nodetab = odd_nodes,
      unique_defined_syms = [nsym ''A'', nsym ''Z'', nsym ''Y''], unique_choices = [0], defconfig_list = None,
      config_prefix = ''CONFIG_'', config_header = [], header_header = [], top_node = 0\<rparr>"

lemma odd_passes: "\<exists>vis. check_dep_loops (build_dep odd_kc) 10 = Inr vis"
proof -
  have "case check_dep_loops (build_dep odd_kc) 10 of Inl e \<Rightarrow> False | Inr vis \<Rightarrow> True" by code_simp
  then show ?thesis by (auto split: sum.splits)
qed


definition odd_full :: kconfig where
  "odd_full = add_choice_deps (build_dep odd_kc)"

lemma odd_small:
  "\<forall>n \<in> {0, 1, 2, 3, 4, 5, 6, 7}. pure odd_full init_user n (QSel 0) = Inl RecursionError \<and>
     pure odd_full init_user n (QVis (Sym (nsym ''Z''))) = Inl RecursionError \<and>
     pure odd_full init_user n (QTri (nsym ''Y'')) = Inl RecursionError"
  by code_simp

lemma odd_vis:
  "pure odd_full init_user 6 (QVis (Sym (nsym ''Y''))) = Inr (VT TY)"
  "pure odd_full init_user 6 (QVis (Cho 0)) = Inr (VT TY)"
  by code_simp+


lemma odd_fields:
  "c_nodes (choicetab odd_full 0) = [1]" "c_orig_type (choicetab odd_full 0) = BOOL"
  "c_defaults (choicetab odd_full 0) = [(Leaf (Sym (nsym ''Z'')), expr_y)]"
  "is_optional (choicetab odd_full 0) = False"
  "nodes (sym_obj odd_full (nsym ''Z'')) = [3]" "orig_type (sym_obj odd_full (nsym ''Y'')) = BOOL"
  "choice (sym_obj odd_full (nsym ''Y'')) = Some 0"
  "nd_prompt (nodetab odd_full 3) = Some (''prompt'', AND (Leaf (Sym (nsym ''Y''))) (Leaf (Cho 0)))"
  "user_selection init_user 0 = None" "c_user_value init_user 0 = None"
  by code_simp+

lemma odd_step:
  assumes "rd (QVis (Cho 0)) = Inr (VT TY)" "rd (QTri const_y) = Inr (VT TY)"
    "rd (QVis (Sym (nsym ''Y''))) = Inr (VT TY)"
  shows "rd (QVis (Sym (nsym ''Z''))) = Inl e \<Longrightarrow> interp rd (attr_body odd_full init_user (QSel 0)) = Inl e"
    "rd (QTri (nsym ''Y'')) = Inl e \<Longrightarrow> interp rd (attr_body odd_full init_user (QVis (Sym (nsym ''Z'')))) = Inl e"
    "rd (QSel 0) = Inl e \<Longrightarrow> interp rd (attr_body odd_full init_user (QTri (nsym ''Y''))) = Inl e"
  using assms
  by (simp_all add: attr_body_def evals selection_def selection_from_defaults_def visibility_def sym_tri_def
      choice_tri_def choice_type_def Let_def odd_fields sc_nodes_def BOOL_TRISTATE_def)

lemma odd_recursion:
  "pure odd_full init_user n (QSel 0) = Inl RecursionError \<and>
   pure odd_full init_user n (QVis (Sym (nsym ''Z''))) = Inl RecursionError \<and>
   pure odd_full init_user n (QTri (nsym ''Y'')) = Inl RecursionError"
proof (induction n)
  case (Suc n)
  show ?case
  proof (cases "Suc n \<le> 7")
    case True
    then have "Suc n \<in> {0, 1, 2, 3, 4, 5, 6, 7}" by simp presburger
    then show ?thesis using odd_small by blast
  next
    case False
    then have n: "6 \<le> n" by simp
    have "pure odd_full init_user n (QTri const_y) = Inr (VT TY)"
      using n by (cases n) simp_all
    note step = odd_step [OF pure_mono [OF odd_vis(2) n] this pure_mono [OF odd_vis(1) n]]
    have "preset (QTri (nsym ''Y'')) = None" by code_simp
    then show ?thesis using step Suc.IH by simp
  qed
qed (use odd_small in blast)

text \<open>
  C36. The check passes on this configuration, and still its choice has no selection: computing
  it, right after parsing and with no user value, exceeds every bound on the recursion.
\<close>

theorem dep_loop_missed:
  "(\<exists>vis. check_dep_loops (build_dep odd_kc) 10 = Inr vis) \<and>
   (\<forall>n. pure (add_choice_deps (build_dep odd_kc)) init_user n (QSel 0) = Inl RecursionError)"
  using odd_passes odd_recursion by (simp add: odd_full_def)

end
