(* ===== verification/Preproc.thy ===== *)
theory Preproc
  imports Config
begin

text \<open>
  The preprocessor: variables, functions and the expansion of macros
  (\<^verbatim>\<open>_parse_assignment\<close>, \<^verbatim>\<open>_expand_whole\<close>, \<^verbatim>\<open>_expand_name\<close>, \<^verbatim>\<open>_expand_str\<close>,
  \<^verbatim>\<open>_expand_macro\<close>, \<^verbatim>\<open>_fn_val\<close> and the predefined functions). The source keeps a
  string \<^verbatim>\<open>s\<close> with a position \<^verbatim>\<open>i\<close> in it and replaces what is before the position; here
  the string is split at the position. A function that returns the new \<^verbatim>\<open>s\<close> and \<^verbatim>\<open>i\<close>
  returns here what it put before the position, and the rest.
\<close>

section \<open>The state of the parser\<close>

text \<open>A \<^verbatim>\<open>Variable\<close> has no value until one is assigned; reading it before is an
  \<^verbatim>\<open>AttributeError\<close>.\<close>

record variable =
  v_value :: "string option"
  is_recursive :: bool
  n_expansions :: nat

datatype tok = TKey token | TSym sref | TStr string

text \<open>
  The \<^verbatim>\<open>Kconfig\<close> object while it is being built: \<open>conf\<close> and \<open>out\<close> are the objects built so
  far and the state with the warnings. The open file is its remaining lines; the fields from
  \<open>file_stack\<close> on are the tables and counters of the parser. \<open>tokens\<close> is without the
  terminating None. The index \<^verbatim>\<open>_tokens_i\<close> is not a field: it is 1 whenever a line is looked
  at, and what reads tokens returns the rest.
\<close>

record pstate =
  conf :: kconfig
  out :: kstate
  syms_keys :: "string list"
  parsing_kconfigs :: bool
  variables :: "string \<Rightarrow> variable option"
  env_vars :: "string set"
  cur_file :: "string option"
  cur_line :: nat
  line_text :: string
  tokens :: "tok list"
  reuse_tokens :: bool
  file_lines :: "string list"
  file_stack :: "((string \<times> nat) list \<times> string list) list"
  include_path :: "(string \<times> nat) list"
  kconfig_filenames :: "string list"
  defined_syms :: "sref list"
  choices :: "nat list"
  named_choices :: "string \<Rightarrow> nat option"
  menus :: "nat list"
  comments :: "nat list"
  next_node :: nat
  next_choice :: nat

text \<open>
  What the process is given: environment variables, the release of the running kernel, the
  output and error output of a shell command, functions from the module \<^verbatim>\<open>KCONFIG_FUNCTIONS\<close>
  with their numbers of arguments, the lines of a file (None if it cannot be read), what
  \<^verbatim>\<open>iglob\<close> and \<^verbatim>\<open>realpath\<close> return.
\<close>

type_synonym py_fn = "string list \<Rightarrow> pstate \<Rightarrow> exn + string \<times> pstate"

record world =
  environ :: "string \<Rightarrow> string option"
  uname_release :: string
  shell :: "string \<Rightarrow> string \<times> string"
  user_functions :: "string \<Rightarrow> (py_fn \<times> nat \<times> nat option) option"
  read_file :: "string \<Rightarrow> string list option"
  iglob :: "string \<Rightarrow> string list"
  realpath :: "string \<Rightarrow> string"

section \<open>Errors and warnings with a location\<close>

definition quoted_by :: "string \<Rightarrow> string" where
  "quoted_by s = [CHR 0x27] @ s @ [CHR 0x27]"

definition parse_error :: "pstate \<Rightarrow> string \<Rightarrow> exn" where
  "parse_error ps msg =
     KconfigError
       ((case cur_file ps of None \<Rightarrow> [] | Some f \<Rightarrow> f @ '':'' @ py_str (int (cur_line ps)) @ '': '') @
        ''error: couldn'' @ [CHR 0x27] @ ''t parse '' @ quoted_by (strip (line_text ps)) @ '': '' @ msg)"

definition warn_here :: "string \<Rightarrow> pstate \<Rightarrow> pstate" where
  "warn_here msg ps =
     ps\<lparr>out := add_warning msg (map_option (\<lambda>f. (f, cur_line ps)) (cur_file ps)) (out ps)\<rparr>"

definition warn_plain :: "string \<Rightarrow> pstate \<Rightarrow> pstate" where
  "warn_plain msg ps = ps\<lparr>out := add_warning msg None (out ps)\<rparr>"

text \<open>\<^verbatim>\<open>"{}:{}: "\<close> with the file and line.\<close>

definition here_str :: "pstate \<Rightarrow> string" where
  "here_str ps = (case cur_file ps of None \<Rightarrow> ''None'' | Some f \<Rightarrow> f) @ '':'' @ py_str (int (cur_line ps)) @ '': ''"

section \<open>Predefined functions\<close>

definition filename_fn :: py_fn where
  "filename_fn args ps = (case cur_file ps of None \<Rightarrow> Inl TypeError | Some f \<Rightarrow> Inr (f, ps))"

definition lineno_fn :: py_fn where
  "lineno_fn args ps = Inr (py_str (int (cur_line ps)), ps)"

text \<open>\<^verbatim>\<open>info\<close> prints its argument; the standard output is not modelled.\<close>

definition info_fn :: py_fn where
  "info_fn args ps = Inr ([], ps)"

definition warning_if_fn :: py_fn where
  "warning_if_fn args ps = Inr ([], if args ! 1 = ''y'' then warn_here (args ! 2) ps else ps)"

definition error_if_fn :: py_fn where
  "error_if_fn args ps =
     (if args ! 1 = ''y'' then Inl (KconfigError (here_str ps @ args ! 2)) else Inr ([], ps))"

definition shell_fn :: "world \<Rightarrow> py_fn" where
  "shell_fn w args ps =
     (let (stdout, stderr) = shell w (args ! 1);
          ps1 = (if stderr \<noteq> []
                 then warn_here (quoted_by (args ! 1) @ '' wrote to stderr: '' @
                        join_with [newline] (splitlines stderr)) ps
                 else ps)
      in Inr (replace_char newline '' ''
                (rev (dropWhile (\<lambda>c. c = newline) (rev (join_with [newline] (splitlines stdout))))), ps1))"

definition preproc_functions :: "world \<Rightarrow> string \<Rightarrow> (py_fn \<times> nat \<times> nat option) option" where
  "preproc_functions w fn =
     (case user_functions w fn of
        Some f \<Rightarrow> Some f
      | None \<Rightarrow>
          if fn = ''info'' then Some (info_fn, 1, Some 1)
          else if fn = ''error-if'' then Some (error_if_fn, 2, Some 2)
          else if fn = ''filename'' then Some (filename_fn, 0, Some 0)
          else if fn = ''lineno'' then Some (lineno_fn, 0, Some 0)
          else if fn = ''shell'' then Some (shell_fn w, 1, Some 1)
          else if fn = ''warning-if'' then Some (warning_if_fn, 2, Some 2)
          else None)"

section \<open>Macros\<close>

text \<open>\<^verbatim>\<open>args[i]\<close>; None is the \<^verbatim>\<open>IndexError\<close>.\<close>

definition py_index :: "'a list \<Rightarrow> int \<Rightarrow> 'a option" where
  "py_index xs i =
     (if 0 \<le> i \<and> i < int (length xs) then Some (xs ! nat i)
      else if i < 0 \<and> - int (length xs) \<le> i then Some (xs ! nat (int (length xs) + i))
      else None)"

text \<open>The value of a macro: an argument, or the value of a variable or function.\<close>

definition macro_value ::
  "(string list \<Rightarrow> pstate \<Rightarrow> exn + string \<times> pstate) \<Rightarrow> string list \<Rightarrow> string list \<Rightarrow> pstate \<Rightarrow> exn + string \<times> pstate" where
  "macro_value fv args new_args ps =
     (case Option.bind (py_int (hd new_args) 10) (py_index args) of
        Some v \<Rightarrow> Inr (v, ps)
      | None \<Rightarrow> fv new_args ps)"

definition no_end_paren :: string where
  "no_end_paren = ''missing end parenthesis in macro expansion''"

text \<open>
  \<^verbatim>\<open>_expand_macro\<close>, from after the \<open>$(\<close>. \<open>cur\<close> is the text from \<^verbatim>\<open>arg_start\<close> to the position,
  \<open>k\<close> is at least the number of characters left. The source jumps to the next special
  character, here every character is looked at.
\<close>

primrec macro_loop ::
  "(string list \<Rightarrow> pstate \<Rightarrow> exn + string \<times> pstate) \<Rightarrow> string list \<Rightarrow> nat \<Rightarrow>
     string \<Rightarrow> string list \<Rightarrow> nat \<Rightarrow> string \<Rightarrow> pstate \<Rightarrow> exn + (string \<times> string) \<times> pstate" where
  "macro_loop fv args 0 cur new_args nesting suf ps = Inl (parse_error ps no_end_paren)"
| "macro_loop fv args (Suc k) cur new_args nesting suf ps =
     (case suf of
        [] \<Rightarrow> Inl (parse_error ps no_end_paren)
      | c # cs \<Rightarrow>
          if startswith suf ''$('' then
            (case macro_loop fv args k [] [] 0 (drop 2 suf) ps of
               Inl e \<Rightarrow> Inl e
             | Inr ((val, rest), ps') \<Rightarrow> macro_loop fv args k (cur @ val) new_args nesting rest ps')
          else if c = CHR ''('' then macro_loop fv args k (cur @ [c]) new_args (Suc nesting) cs ps
          else if c = CHR '')'' then
            (if nesting \<noteq> 0 then macro_loop fv args k (cur @ [c]) new_args (nesting - 1) cs ps
             else map_sum id (\<lambda>(val, ps'). ((val, cs), ps')) (macro_value fv args (new_args @ [cur]) ps))
          else if c = CHR '','' \<and> nesting = 0
          then macro_loop fv args k [] (new_args @ [cur]) nesting cs ps
          else macro_loop fv args k (cur @ [c]) new_args nesting cs ps)"

definition expand_macro ::
  "(string list \<Rightarrow> pstate \<Rightarrow> exn + string \<times> pstate) \<Rightarrow> string list \<Rightarrow> string \<Rightarrow> pstate \<Rightarrow>
     exn + (string \<times> string) \<times> pstate" where
  "expand_macro fv args suf ps = macro_loop fv args (length suf) [] [] 0 (drop 2 suf) ps"

text \<open>\<^verbatim>\<open>_expand_whole\<close>.\<close>

primrec whole_loop ::
  "(string list \<Rightarrow> pstate \<Rightarrow> exn + string \<times> pstate) \<Rightarrow> string list \<Rightarrow> nat \<Rightarrow> string \<Rightarrow> pstate \<Rightarrow>
     exn + string \<times> pstate" where
  "whole_loop fv args 0 suf ps = Inr (suf, ps)"
| "whole_loop fv args (Suc k) suf ps =
     (case suf of
        [] \<Rightarrow> Inr ([], ps)
      | c # cs \<Rightarrow>
          if startswith suf ''$('' then
            (case expand_macro fv args suf ps of
               Inl e \<Rightarrow> Inl e
             | Inr ((val, rest), ps') \<Rightarrow>
                 map_sum id (\<lambda>(t, ps''). (val @ t, ps'')) (whole_loop fv args k rest ps'))
          else map_sum id (\<lambda>(t, ps''). (c # t, ps'')) (whole_loop fv args k cs ps))"

text \<open>The values of variables and functions; \<open>expand\<close> expands the value of a variable.\<close>

definition count_expansion :: "string \<Rightarrow> (nat \<Rightarrow> nat) \<Rightarrow> pstate \<Rightarrow> pstate" where
  "count_expansion fn f ps =
     ps\<lparr>variables := (variables ps)(fn := map_option (\<lambda>v. v\<lparr>n_expansions := f (n_expansions v)\<rparr>) (variables ps fn))\<rparr>"

definition bad_arguments :: "pstate \<Rightarrow> string \<Rightarrow> nat \<Rightarrow> nat option \<Rightarrow> nat \<Rightarrow> exn" where
  "bad_arguments ps fn lo hi n =
     KconfigError
       (here_str ps @ ''bad number of arguments in call to '' @ fn @ '', expected '' @
        (case hi of
           None \<Rightarrow> py_str (int lo) @ '' or more''
         | Some h \<Rightarrow> if lo = h then py_str (int lo) else py_str (int lo) @ ''-'' @ py_str (int h)) @
        '', got '' @ py_str (int n))"

definition fn_val ::
  "world \<Rightarrow> (string \<Rightarrow> string list \<Rightarrow> pstate \<Rightarrow> exn + string \<times> pstate) \<Rightarrow> string list \<Rightarrow> pstate \<Rightarrow>
     exn + string \<times> pstate" where
  "fn_val w expand args ps =
     (let fn = hd args
      in case variables ps fn of
           Some v \<Rightarrow>
             if length args = 1 \<and> n_expansions v \<noteq> 0
             then Inl (parse_error ps (''Preprocessor variable '' @ fn @ '' recursively references itself''))
             else if length args \<noteq> 1 \<and> n_expansions v > 100
             then Inl (parse_error ps (''Preprocessor function '' @ fn @ '' seems stuck in infinite recursion''))
             else (case v_value v of
                     None \<Rightarrow> Inl AttributeError
                   | Some val \<Rightarrow>
                       map_sum id (\<lambda>(res, ps'). (res, count_expansion fn (\<lambda>n. n - 1) ps'))
                         (expand val args (count_expansion fn Suc ps)))
         | None \<Rightarrow>
             (case preproc_functions w fn of
                Some (f, lo, hi) \<Rightarrow>
                  if length args - 1 < lo \<or> (case hi of None \<Rightarrow> False | Some h \<Rightarrow> length args - 1 > h)
                  then Inl (bad_arguments ps fn lo hi (length args - 1))
                  else f args ps
              | None \<Rightarrow>
                  (case environ w fn of
                     Some val \<Rightarrow> Inr (val, ps\<lparr>env_vars := insert fn (env_vars ps)\<rparr>)
                   | None \<Rightarrow> Inr ([], ps))))"

text \<open>The number bounds the nesting of values in values, beyond it is a \<open>RecursionError\<close>.\<close>

primrec expand_whole :: "world \<Rightarrow> nat \<Rightarrow> string \<Rightarrow> string list \<Rightarrow> pstate \<Rightarrow> exn + string \<times> pstate" where
  "expand_whole w 0 s args ps = Inl RecursionError"
| "expand_whole w (Suc d) s args ps = whole_loop (fn_val w (expand_whole w d)) args (length s) s ps"

text \<open>A macro in the text of a line, outside the values of variables.\<close>

definition line_macro :: "world \<Rightarrow> nat \<Rightarrow> string \<Rightarrow> pstate \<Rightarrow> exn + (string \<times> string) \<times> pstate" where
  "line_macro w d suf ps = expand_macro (fn_val w (expand_whole w d)) [] suf ps"

text \<open>\<^verbatim>\<open>Variable.expanded_value_w_args\<close>; without arguments it is \<^verbatim>\<open>expanded_value\<close>.\<close>

definition expanded_value_w_args :: "world \<Rightarrow> nat \<Rightarrow> string \<Rightarrow> string list \<Rightarrow> pstate \<Rightarrow> exn + string \<times> pstate" where
  "expanded_value_w_args w d name args ps = fn_val w (expand_whole w d) (name # args) ps"

section \<open>Assignments\<close>

definition lhs_char :: "char \<Rightarrow> bool" where
  "lhs_char c \<longleftrightarrow>
     (CHR ''A'' \<le> c \<and> c \<le> CHR ''Z'') \<or> (CHR ''a'' \<le> c \<and> c \<le> CHR ''z'') \<or>
     (CHR ''0'' \<le> c \<and> c \<le> CHR ''9'') \<or> c = CHR ''_'' \<or> c = CHR ''-''"

text \<open>The left-hand side: what is before the position, and the rest.\<close>

primrec lhs_loop :: "world \<Rightarrow> nat \<Rightarrow> nat \<Rightarrow> string \<Rightarrow> string \<Rightarrow> pstate \<Rightarrow> exn + (string \<times> string) \<times> pstate" where
  "lhs_loop w d 0 name suf ps = Inr ((name, suf), ps)"
| "lhs_loop w d (Suc k) name suf ps =
     (let frag = takeWhile lhs_char suf; rest = dropWhile lhs_char suf
      in if startswith rest ''$('' then
           (case line_macro w d rest ps of
              Inl e \<Rightarrow> Inl e
            | Inr ((val, rest'), ps') \<Rightarrow> lhs_loop w d k (name @ frag @ val) rest' ps')
         else Inr ((name @ frag, rest), ps))"

text \<open>\<^verbatim>\<open>\s*(=|:=|\+=)\s*(.*)\<close>\<close>

datatype assign_op = Recursive | Immediate | Append

definition rhs_match :: "string \<Rightarrow> (assign_op \<times> string) option" where
  "rhs_match s =
     (let t = dropWhile re_space s;
          val = (\<lambda>n. takeWhile (\<lambda>c. c \<noteq> newline) (dropWhile re_space (drop n t)))
      in if startswith t ''='' then Some (Recursive, val 1)
         else if startswith t '':='' then Some (Immediate, val 2)
         else if startswith t ''+='' then Some (Append, val 2)
         else None)"

definition put_variable :: "string \<Rightarrow> variable \<Rightarrow> pstate \<Rightarrow> pstate" where
  "put_variable name v ps = ps\<lparr>variables := (variables ps)(name \<mapsto> v)\<rparr>"

definition fresh_variable :: variable where
  "fresh_variable = \<lparr>v_value = None, is_recursive = False, n_expansions = 0\<rparr>"

text \<open>
  A variable is registered before its value is expanded. An appended value is expanded before
  the old value is read again: \<^verbatim>\<open>var.value += ...\<close> reads the old value first, but the expansion
  does not assign to variables.
\<close>

definition assign_variable :: "world \<Rightarrow> nat \<Rightarrow> string \<Rightarrow> assign_op \<Rightarrow> string \<Rightarrow> pstate \<Rightarrow> exn + pstate" where
  "assign_variable w d name opr val ps =
     (let known = variables ps name \<noteq> None;
          v = (case variables ps name of Some v \<Rightarrow> v | None \<Rightarrow> fresh_variable);
          opr' = (if \<not> known \<and> opr = Append then Recursive else opr);
          ps1 = (if known then ps else put_variable name v ps)
      in case opr' of
           Recursive \<Rightarrow> Inr (put_variable name (v\<lparr>is_recursive := True, v_value := Some val\<rparr>) ps1)
         | Immediate \<Rightarrow>
             map_sum id (\<lambda>(t, ps2). put_variable name (v\<lparr>is_recursive := False, v_value := Some t\<rparr>) ps2)
               (expand_whole w d val []
                  (put_variable name (v\<lparr>is_recursive := False\<rparr>) ps1))
         | Append \<Rightarrow>
             (case v_value v of
                None \<Rightarrow> Inl AttributeError
              | Some old \<Rightarrow>
                  if is_recursive v
                  then Inr (put_variable name (v\<lparr>v_value := Some (old @ '' '' @ val)\<rparr>) ps1)
                  else map_sum id (\<lambda>(t, ps2). put_variable name (v\<lparr>v_value := Some (old @ '' '' @ t)\<rparr>) ps2)
                         (expand_whole w d val [] ps1)))"

definition parse_assignment :: "world \<Rightarrow> nat \<Rightarrow> string \<Rightarrow> pstate \<Rightarrow> exn + pstate" where
  "parse_assignment w d s0 ps =
     (let s = lstrip s0
      in case lhs_loop w d (Suc (length s)) [] s ps of
           Inl e \<Rightarrow> Inl e
         | Inr ((name, rest), ps1) \<Rightarrow>
             if isspace (name @ rest) then Inr ps1
             else (case rhs_match rest of
                     None \<Rightarrow> Inl (parse_error ps1 ''syntax error'')
                   | Some (opr, val) \<Rightarrow> assign_variable w d name opr val ps1))"

section \<open>Names and strings\<close>

definition name_char :: "char \<Rightarrow> bool" where
  "name_char c \<longleftrightarrow> lhs_char c \<or> c = CHR ''$'' \<or> c = CHR ''/'' \<or> c = CHR ''.''"

text \<open>\<^verbatim>\<open>_expand_name_iter\<close>.\<close>

primrec name_loop :: "world \<Rightarrow> nat \<Rightarrow> nat \<Rightarrow> string \<Rightarrow> string \<Rightarrow> pstate \<Rightarrow> exn + (string \<times> string) \<times> pstate" where
  "name_loop w d 0 name suf ps = Inr ((name, suf), ps)"
| "name_loop w d (Suc k) name suf ps =
     (case suf of
        [] \<Rightarrow> Inr ((name, []), ps)
      | c # cs \<Rightarrow>
          if startswith suf ''$('' then
            (case line_macro w d suf ps of
               Inl e \<Rightarrow> Inl e
             | Inr ((val, rest), ps') \<Rightarrow> name_loop w d k (name @ val) rest ps')
          else if name_char c then name_loop w d k (name @ [c]) cs ps
          else Inr ((name, suf), ps))"

text \<open>\<^verbatim>\<open>_expand_name\<close>: the name, the white space after it, and the rest.\<close>

definition expand_name :: "world \<Rightarrow> nat \<Rightarrow> string \<Rightarrow> pstate \<Rightarrow> exn + (string \<times> string \<times> string) \<times> pstate" where
  "expand_name w d suf ps =
     (case name_loop w d (length suf) [] suf ps of
        Inl e \<Rightarrow> Inl e
      | Inr ((name, rest), ps') \<Rightarrow>
          if strip name = [] then Inl (parse_error ps' ''macro expanded to blank string'')
          else Inr ((name, takeWhile py_space rest, dropWhile py_space rest), ps'))"

text \<open>
  \<^verbatim>\<open>_expand_str\<close>, from after the opening quote: the text before the closing quote, and what is
  after it. The character after a backslash is skipped.
\<close>

primrec str_loop :: "world \<Rightarrow> nat \<Rightarrow> char \<Rightarrow> nat \<Rightarrow> string \<Rightarrow> string \<Rightarrow> pstate \<Rightarrow> exn + (string \<times> string) \<times> pstate" where
  "str_loop w d q 0 acc suf ps = Inl (parse_error ps ''unterminated string'')"
| "str_loop w d q (Suc k) acc suf ps =
     (case suf of
        [] \<Rightarrow> Inl (parse_error ps ''unterminated string'')
      | c # cs \<Rightarrow>
          if c = q then Inr ((acc, cs), ps)
          else if c = CHR 0x5C then
            (case cs of
               [] \<Rightarrow> Inl (parse_error ps ''unterminated string'')
             | x # xs \<Rightarrow> str_loop w d q k (acc @ [x]) xs ps)
          else if startswith suf ''$('' then
            (case line_macro w d suf ps of
               Inl e \<Rightarrow> Inl e
             | Inr ((val, rest), ps') \<Rightarrow> str_loop w d q k (acc @ val) rest ps')
          else str_loop w d q k (acc @ [c]) cs ps)"

definition expand_str :: "world \<Rightarrow> nat \<Rightarrow> char \<Rightarrow> string \<Rightarrow> pstate \<Rightarrow> exn + (string \<times> string) \<times> pstate" where
  "expand_str w d q suf ps = str_loop w d q (Suc (length suf)) [] suf ps"

section \<open>References to environment variables in strings\<close>

text \<open>\<^verbatim>\<open>s.replace(old, new)\<close> for a non-empty \<^verbatim>\<open>old\<close>.\<close>

function replace_str :: "string \<Rightarrow> string \<Rightarrow> string \<Rightarrow> string" where
  "replace_str old new s =
     (case s of
        [] \<Rightarrow> []
      | c # cs \<Rightarrow>
          if old \<noteq> [] \<and> startswith s old then new @ replace_str old new (drop (length old) s)
          else c # replace_str old new cs)"
  by pat_completeness auto
termination by (relation "measure (\<lambda>(_, _, s). length s)") auto

declare replace_str.simps [simp del]

text \<open>\<^verbatim>\<open>os.path.expandvars\<close> on POSIX: \<open>$NAME\<close> and \<open>${NAME}\<close> of defined variables.\<close>

definition word_char :: "char \<Rightarrow> bool" where
  "word_char c \<longleftrightarrow> lhs_char c \<and> c \<noteq> CHR ''-''"

definition var_ref :: "string \<Rightarrow> (string \<times> string) option" where
  "var_ref cs =
     (let word = takeWhile word_char cs
      in if word \<noteq> [] then Some (word, dropWhile word_char cs)
         else case cs of
                [] \<Rightarrow> None
              | b # r \<Rightarrow>
                  if b = CHR 0x7B then
                    (let body = takeWhile (\<lambda>c. c \<noteq> CHR 0x7D) r
                     in case dropWhile (\<lambda>c. c \<noteq> CHR 0x7D) r of
                          [] \<Rightarrow> None | _ # rest \<Rightarrow> Some (body, rest))
                  else None)"

lemma var_ref_shorter: "var_ref cs = Some (v, rest) \<Longrightarrow> length rest \<le> length cs"
proof -
  assume a: "var_ref cs = Some (v, rest)"
  have d: "length (tl (dropWhile P r)) \<le> length r" for P and r :: string
    using length_dropWhile_le [of P r] by simp
  show ?thesis
    using a d [of "\<lambda>c. c \<noteq> CHR 0x7D" "tl cs"] length_dropWhile_le [of word_char cs]
    by (auto simp: var_ref_def Let_def split: if_splits list.splits)
qed

function expandvars :: "world \<Rightarrow> string \<Rightarrow> string" where
  "expandvars w s =
     (case s of
        [] \<Rightarrow> []
      | c # cs \<Rightarrow>
          if c = CHR ''$'' then
            (case var_ref cs of
               None \<Rightarrow> c # expandvars w cs
             | Some (v, rest) \<Rightarrow>
                 (case environ w v of
                    None \<Rightarrow> take (Suc (length cs) - length rest) s @ expandvars w rest
                  | Some val \<Rightarrow> val @ expandvars w rest))
          else c # expandvars w cs)"
  by pat_completeness auto
termination
  by (relation "measure (\<lambda>(_, s). length s)") (auto dest!: var_ref_shorter)

declare expandvars.simps [simp del]

text \<open>The value of a string on the slow path of the tokenizer.\<close>

definition string_value :: "world \<Rightarrow> string \<Rightarrow> string" where
  "string_value w s = expandvars w (replace_str ''$UNAME_RELEASE'' (uname_release w) s)"

end
