(* ===== verification/Tokenizer.thy ===== *)
theory Tokenizer
  imports Preproc
begin

text \<open>
  The tokenizer (\<^verbatim>\<open>_tokenize\<close>) with the symbol tables it fills (\<^verbatim>\<open>_lookup_sym\<close>,
  \<^verbatim>\<open>_lookup_const_sym\<close>). As in the preprocessor the line is split at the position; \<open>pre\<close> is
  the part before it, with the macros in it expanded. The recursion of the loop counts the
  characters left.
\<close>

section \<open>Looking up symbols\<close>

definition put_sym :: "sref \<Rightarrow> symbol \<Rightarrow> pstate \<Rightarrow> pstate" where
  "put_sym s x ps = ps\<lparr>conf := (conf ps)\<lparr>symtab := (symtab (conf ps))(s \<mapsto> x)\<rparr>\<rparr>"

definition lookup_sym :: "string \<Rightarrow> pstate \<Rightarrow> sref \<times> pstate" where
  "lookup_sym name ps =
     (let s = SRef False name
      in if symtab (conf ps) s \<noteq> None then (s, ps)
         else if parsing_kconfigs ps
         then (s, put_sym s fresh_symbol (ps\<lparr>syms_keys := syms_keys ps @ [name]\<rparr>))
         else (s, warn_plain (''no symbol '' @ name @ '' in configuration'') ps))"

text \<open>The constants n, m, y are always in \<^verbatim>\<open>const_syms\<close>.\<close>

definition lookup_const_sym :: "string \<Rightarrow> pstate \<Rightarrow> sref \<times> pstate" where
  "lookup_const_sym name ps =
     (let s = SRef True name
      in if is_nmy s \<or> symtab (conf ps) s \<noteq> None \<or> \<not> parsing_kconfigs ps then (s, ps)
         else (s, put_sym s fresh_symbol ps))"

section \<open>One token\<close>

definition string_lex :: "tok \<Rightarrow> bool" where
  "string_lex t = (case t of TKey k \<Rightarrow> k \<in> set STRING_LEX | _ \<Rightarrow> False)"

text \<open>A token with the line before and after it.\<close>

type_synonym read_result = "exn + (tok \<times> string \<times> string) \<times> pstate"

definition style_msg :: "string \<Rightarrow> pstate \<Rightarrow> string" where
  "style_msg name ps =
     ''style: quotes recommended around '' @ quoted_by name @ '' in '' @ quoted_by (strip (line_text ps))"

text \<open>An identifier or keyword (the first alternative of the loop).\<close>

definition sym_or_nmy :: "string \<Rightarrow> pstate \<Rightarrow> sref \<times> pstate" where
  "sym_or_nmy name ps =
     (if STR_TO_TRI name \<noteq> None then (SRef True name, ps) else lookup_sym name ps)"

definition next_ident :: "world \<Rightarrow> nat \<Rightarrow> tok \<Rightarrow> string \<Rightarrow> string \<Rightarrow> pstate \<Rightarrow> read_result" where
  "next_ident w d prev pre suf ps =
     (let name = takeWhile name_char suf;
          rest = dropWhile re_space (dropWhile name_char suf);
          pre' = pre @ take (length suf - length rest) suf
      in case get_keyword name of
           Some k \<Rightarrow> Inr ((TKey k, pre', rest), ps)
         | None \<Rightarrow>
             if \<not> string_lex prev then
               (if CHR ''$'' \<in> set name then
                  (case expand_name w d suf ps of
                     Inl e \<Rightarrow> Inl e
                   | Inr ((name', ws, rest'), ps1) \<Rightarrow>
                       (let (s, ps2) = sym_or_nmy name' ps1
                        in Inr ((TSym s, pre @ name' @ ws, rest'), ps2)))
                else (let (s, ps2) = sym_or_nmy name ps in Inr ((TSym s, pre', rest), ps2)))
             else Inr ((TStr name, pre', rest),
                       if prev \<noteq> TKey T_CHOICE then warn_here (style_msg name ps) ps else ps))"

text \<open>A quoted string.\<close>

definition str_token :: "token \<Rightarrow> tok \<Rightarrow> string \<Rightarrow> pstate \<Rightarrow> tok \<times> pstate" where
  "str_token first prev val ps =
     (if string_lex prev \<or> first = T_OPTION then (TStr val, ps)
      else let (s, ps') = lookup_const_sym val ps in (TSym s, ps'))"

definition read_string :: "world \<Rightarrow> nat \<Rightarrow> string \<Rightarrow> char \<Rightarrow> string \<Rightarrow> pstate \<Rightarrow>
    exn + (string \<times> string \<times> string) \<times> pstate" where
  "read_string w d pre q cs ps =
     (let s = pre @ q # cs
      in if CHR ''$'' \<notin> set s \<and> CHR 0x5C \<notin> set s then
           (let val = takeWhile (\<lambda>c. c \<noteq> q) cs
            in case dropWhile (\<lambda>c. c \<noteq> q) cs of
                 [] \<Rightarrow> Inl (parse_error ps ''unterminated string'')
               | _ # rest \<Rightarrow> Inr ((val, pre @ q # val @ [q], rest), ps))
         else
           (case expand_str w d q cs ps of
              Inl e \<Rightarrow> Inl e
            | Inr ((body, rest), ps') \<Rightarrow> Inr ((string_value w body, pre @ q # body @ [q], rest), ps')))"

definition operator :: "string \<Rightarrow> (token \<times> nat) option" where
  "operator s =
     (if startswith s ''&&'' then Some (T_AND, 2)
      else if startswith s ''||'' then Some (T_OR, 2)
      else if startswith s ''='' then Some (T_EQUAL, 1)
      else if startswith s ''!='' then Some (T_UNEQUAL, 2)
      else if startswith s ''!'' then Some (T_NOT, 1)
      else if startswith s ''('' then Some (T_OPEN_PAREN, 1)
      else if startswith s '')'' then Some (T_CLOSE_PAREN, 1)
      else if startswith s ''<='' then Some (T_LESS_EQUAL, 2)
      else if startswith s ''<'' then Some (T_LESS, 1)
      else if startswith s ''>='' then Some (T_GREATER_EQUAL, 2)
      else if startswith s ''>'' then Some (T_GREATER, 1)
      else None)"

text \<open>The rest of the line after white space.\<close>

definition skip_space :: "tok \<Rightarrow> string \<Rightarrow> string \<Rightarrow> tok \<times> string \<times> string" where
  "skip_space t pre suf = (t, pre @ takeWhile py_space suf, dropWhile py_space suf)"

definition next_other :: "world \<Rightarrow> nat \<Rightarrow> token \<Rightarrow> tok \<Rightarrow> string \<Rightarrow> string \<Rightarrow> pstate \<Rightarrow> read_result" where
  "next_other w d first prev pre suf ps =
     (if hd suf = CHR 0x22 \<or> hd suf = CHR 0x27 then
        (case read_string w d pre (hd suf) (tl suf) ps of
           Inl e \<Rightarrow> Inl e
         | Inr ((val, pre', rest), ps1) \<Rightarrow>
             (let (t, ps2) = str_token first prev val ps1 in Inr (skip_space t pre' rest, ps2)))
      else
        (case operator suf of
           Some (k, n) \<Rightarrow> Inr (skip_space (TKey k) (pre @ take n suf) (drop n suf), ps)
         | None \<Rightarrow> Inl (parse_error ps ''unknown tokens in line'')))"

section \<open>The loop\<close>

text \<open>A comment ends the line.\<close>

primrec tok_loop :: "world \<Rightarrow> nat \<Rightarrow> token \<Rightarrow> nat \<Rightarrow> tok \<Rightarrow> string \<Rightarrow> string \<Rightarrow> pstate \<Rightarrow> exn + tok list \<times> pstate" where
  "tok_loop w d first 0 prev pre suf ps = Inr ([], ps)"
| "tok_loop w d first (Suc k) prev pre suf ps =
     (case suf of
        [] \<Rightarrow> Inr ([], ps)
      | c # cs \<Rightarrow>
          if \<not> name_char c \<and> c = CHR ''#'' then Inr ([], ps)
          else
            (case (if name_char c then next_ident w d prev pre suf ps
                   else next_other w d first prev pre suf ps) of
               Inl e \<Rightarrow> Inl e
             | Inr ((t, pre', rest), ps') \<Rightarrow>
                 map_sum id (\<lambda>(ts, ps''). (t # ts, ps'')) (tok_loop w d first k t pre' rest ps')))"

definition command_char :: "char \<Rightarrow> bool" where
  "command_char c \<longleftrightarrow> lhs_char c \<or> c = CHR ''$''"

text \<open>\<^verbatim>\<open>s.strip(" \t\n-")\<close>\<close>

definition strip_help :: "string \<Rightarrow> string" where
  "strip_help s =
     (let P = (\<lambda>c. c = CHR '' '' \<or> c = CHR 0x09 \<or> c = newline \<or> c = CHR ''-'')
      in rev (dropWhile P (rev (dropWhile P s))))"

definition tokenize :: "world \<Rightarrow> nat \<Rightarrow> string \<Rightarrow> pstate \<Rightarrow> exn + tok list \<times> pstate" where
  "tokenize w d s ps0 =
     (let ps = ps0\<lparr>line_text := s\<rparr>;
          t = dropWhile re_space s;
          command = takeWhile command_char t;
          rest = dropWhile re_space (dropWhile command_char t)
      in if command = [] then
           (if isspace s \<or> startswith (lstrip s) ''#'' then Inr ([], ps)
            else Inl (parse_error ps ''unknown token at start of line''))
         else
           (case get_keyword command of
              None \<Rightarrow>
                if strip_help s = ''help'' then Inr ([TKey T_HELP], ps)
                else map_sum id (\<lambda>ps'. ([], ps')) (parse_assignment w d s ps)
            | Some k \<Rightarrow>
                map_sum id (\<lambda>(ts, ps'). (TKey k # ts, ps'))
                  (tok_loop w d k (length rest) (TKey k) (take (length s - length rest) s) rest ps)))"

end
