(* ===== verification/Expr_Parser.thy ===== *)
theory Expr_Parser
  imports Tokenizer Values
begin

text \<open>
  The parser for expressions (\<^verbatim>\<open>_parse_expr\<close>, \<^verbatim>\<open>_parse_and_expr\<close>, \<^verbatim>\<open>_parse_factor\<close>),
  \<^verbatim>\<open>_parse_cond\<close>, the \<^verbatim>\<open>_expect_*\<close> helpers and \<^verbatim>\<open>eval_string\<close>. They work on the rest of
  the tokens of a line, and return what they have not used.
\<close>

section \<open>Expressions\<close>

fun rel_of_token :: "token \<Rightarrow> rel option" where
  "rel_of_token T_EQUAL = Some EQUAL"
| "rel_of_token T_UNEQUAL = Some UNEQUAL"
| "rel_of_token T_LESS = Some LESS"
| "rel_of_token T_LESS_EQUAL = Some LESS_EQUAL"
| "rel_of_token T_GREATER = Some GREATER"
| "rel_of_token T_GREATER_EQUAL = Some GREATER_EQUAL"
| "rel_of_token _ = None"

definition next_rel :: "tok list \<Rightarrow> rel option" where
  "next_rel ts = (case ts of TKey k # _ \<Rightarrow> rel_of_token k | _ \<Rightarrow> None)"

definition expect_sym :: "pstate \<Rightarrow> tok list \<Rightarrow> exn + sref \<times> tok list" where
  "expect_sym ps ts =
     (case ts of TSym s # ts' \<Rightarrow> Inr (s, ts') | _ \<Rightarrow> Inl (parse_error ps ''expected symbol''))"

text \<open>
  The three levels of the grammar. The two upper ones take the level below as a function; the
  number bounds the recursion by the tokens left.
\<close>

type_synonym expr_result = "exn + expr \<times> tok list"

primrec and_expr :: "(tok list \<Rightarrow> expr_result) \<Rightarrow> nat \<Rightarrow> tok list \<Rightarrow> expr_result" where
  "and_expr factor 0 ts = Inl RecursionError"
| "and_expr factor (Suc k) ts =
     (case factor ts of
        Inl e \<Rightarrow> Inl e
      | Inr (f, ts') \<Rightarrow>
          (case ts' of
             TKey T_AND # ts'' \<Rightarrow> map_sum id (\<lambda>(g, r). (AND f g, r)) (and_expr factor k ts'')
           | _ \<Rightarrow> Inr (f, ts')))"

primrec or_expr :: "(tok list \<Rightarrow> expr_result) \<Rightarrow> nat \<Rightarrow> tok list \<Rightarrow> expr_result" where
  "or_expr factor 0 ts = Inl RecursionError"
| "or_expr factor (Suc k) ts =
     (case and_expr factor (Suc k) ts of
        Inl e \<Rightarrow> Inl e
      | Inr (f, ts') \<Rightarrow>
          (case ts' of
             TKey T_OR # ts'' \<Rightarrow> map_sum id (\<lambda>(g, r). (OR f g, r)) (or_expr factor k ts'')
           | _ \<Rightarrow> Inr (f, ts')))"

primrec parse_factor :: "pstate \<Rightarrow> bool \<Rightarrow> nat \<Rightarrow> tok list \<Rightarrow> expr_result" where
  "parse_factor ps transform_m 0 ts = Inl RecursionError"
| "parse_factor ps transform_m (Suc k) ts =
     (case ts of
        TSym s # ts' \<Rightarrow>
          (case next_rel ts' of
             None \<Rightarrow>
               Inr (if transform_m \<and> s = const_m then AND expr_m (Leaf (Sym modules)) else Leaf (Sym s), ts')
           | Some r \<Rightarrow> map_sum id (\<lambda>(s', ts''). (REL r s s', ts'')) (expect_sym ps (tl ts')))
      | TKey T_NOT # ts' \<Rightarrow> map_sum id (\<lambda>(e, r). (NOT e, r)) (parse_factor ps transform_m k ts')
      | TKey T_OPEN_PAREN # ts' \<Rightarrow>
          (case or_expr (parse_factor ps transform_m k) k ts' of
             Inl e \<Rightarrow> Inl e
           | Inr (e, TKey T_CLOSE_PAREN # r) \<Rightarrow> Inr (e, r)
           | Inr (e, _) \<Rightarrow> Inl (parse_error ps ''malformed expression''))
      | _ \<Rightarrow> Inl (parse_error ps ''malformed expression''))"

definition parse_expr :: "pstate \<Rightarrow> bool \<Rightarrow> tok list \<Rightarrow> expr_result" where
  "parse_expr ps transform_m ts =
     or_expr (parse_factor ps transform_m (Suc (length ts))) (Suc (length ts)) ts"

section \<open>Helpers on the tokens of a line\<close>

definition trailing_tokens :: "pstate \<Rightarrow> exn" where
  "trailing_tokens ps = parse_error ps ''extra tokens at end of line''"

definition expect_nonconst_sym :: "pstate \<Rightarrow> tok list \<Rightarrow> exn + sref \<times> tok list" where
  "expect_nonconst_sym ps ts =
     (case ts of
        TSym s # ts' \<Rightarrow>
          if is_constant s then Inl (parse_error ps ''expected nonconstant symbol'') else Inr (s, ts')
      | _ \<Rightarrow> Inl (parse_error ps ''expected nonconstant symbol''))"

definition expect_str_and_eol :: "pstate \<Rightarrow> tok list \<Rightarrow> exn + string" where
  "expect_str_and_eol ps ts =
     (case ts of
        TStr v # ts' \<Rightarrow> if ts' \<noteq> [] then Inl (trailing_tokens ps) else Inr v
      | _ \<Rightarrow> Inl (parse_error ps ''expected string''))"

definition expect_expr_and_eol :: "pstate \<Rightarrow> tok list \<Rightarrow> exn + expr" where
  "expect_expr_and_eol ps ts =
     (case parse_expr ps True ts of
        Inl e \<Rightarrow> Inl e
      | Inr (e, r) \<Rightarrow> if r \<noteq> [] then Inl (trailing_tokens ps) else Inr e)"

definition check_token :: "token \<Rightarrow> tok list \<Rightarrow> tok list option" where
  "check_token k ts = (case ts of t # r \<Rightarrow> if t = TKey k then Some r else None | [] \<Rightarrow> None)"

definition parse_cond :: "pstate \<Rightarrow> tok list \<Rightarrow> exn + expr" where
  "parse_cond ps ts =
     (case (case check_token T_IF ts of Some r \<Rightarrow> parse_expr ps True r | None \<Rightarrow> Inr (expr_y, ts)) of
        Inl e \<Rightarrow> Inl e
      | Inr (e, r) \<Rightarrow> if r \<noteq> [] then Inl (trailing_tokens ps) else Inr e)"

section \<open>Evaluating a string\<close>

text \<open>
  The expression that \<^verbatim>\<open>eval_string\<close> evaluates. The errors of the parser quote the string
  without the prefix.
\<close>

definition string_expr :: "world \<Rightarrow> nat \<Rightarrow> string \<Rightarrow> pstate \<Rightarrow> exn + expr \<times> pstate" where
  "string_expr w d s ps =
     (case tokenize w d (''if '' @ s) (ps\<lparr>cur_file := None\<rparr>) of
        Inl e \<Rightarrow> Inl e
      | Inr (ts, ps1) \<Rightarrow>
          (let ps2 = ps1\<lparr>line_text := s\<rparr>
           in map_sum id (\<lambda>e. (e, ps2)) (expect_expr_and_eol ps2 (tl ts))))"

definition eval_string :: "world \<Rightarrow> nat \<Rightarrow> user_state \<Rightarrow> string \<Rightarrow> pstate \<Rightarrow> exn + tri prog \<times> pstate" where
  "eval_string w d u s ps =
     map_sum id (\<lambda>(e, ps'). (expr_value (conf ps') u e, ps')) (string_expr w d s ps)"

end
