(* ===== verification/Reader.thy ===== *)
theory Reader
  imports Expr_Parser Node_Str
begin

text \<open>
  Reading Kconfig files line by line (\<^verbatim>\<open>_next_line\<close>, \<^verbatim>\<open>_line_after_help\<close>), the stack of sourced
  files (\<^verbatim>\<open>_enter_file\<close>, \<^verbatim>\<open>_leave_file\<close>), and the properties of a menu node
  (\<^verbatim>\<open>_parse_props\<close> with \<^verbatim>\<open>_set_type\<close>, \<^verbatim>\<open>_parse_prompt\<close>, \<^verbatim>\<open>_parse_help\<close>). A file is the list
  of its lines with their newlines.
\<close>

section \<open>Changing the objects\<close>

definition node_at :: "pstate \<Rightarrow> nat \<Rightarrow> menu_node" where
  "node_at ps i = nodetab (conf ps) i"

definition upd_node :: "nat \<Rightarrow> (menu_node \<Rightarrow> menu_node) \<Rightarrow> pstate \<Rightarrow> pstate" where
  "upd_node i f ps = ps\<lparr>conf := (conf ps)\<lparr>nodetab := (nodetab (conf ps))(i := f (node_at ps i))\<rparr>\<rparr>"

definition upd_sym :: "sref \<Rightarrow> (symbol \<Rightarrow> symbol) \<Rightarrow> pstate \<Rightarrow> pstate" where
  "upd_sym s f ps = put_sym s (f (sym_obj (conf ps) s)) ps"

definition upd_choice :: "nat \<Rightarrow> (choice_obj \<Rightarrow> choice_obj) \<Rightarrow> pstate \<Rightarrow> pstate" where
  "upd_choice c f ps =
     ps\<lparr>conf := (conf ps)\<lparr>choicetab := (choicetab (conf ps))(c := f (choicetab (conf ps) c))\<rparr>\<rparr>"

definition bind_ps :: "exn + 'a \<times> pstate \<Rightarrow> ('a \<Rightarrow> pstate \<Rightarrow> exn + 'b) \<Rightarrow> exn + 'b" where
  "bind_ps r f = (case r of Inl e \<Rightarrow> Inl e | Inr (a, ps) \<Rightarrow> f a ps)"

lemma bind_ps_simps [simp]: "bind_ps (Inl e) f = Inl e" "bind_ps (Inr (a, ps)) f = f a ps"
  by (simp_all add: bind_ps_def)

section \<open>Lines\<close>

text \<open>\<^verbatim>\<open>readline\<close> gives the empty string at the end of the file, again and again.\<close>

definition readline :: "pstate \<Rightarrow> string \<times> pstate" where
  "readline ps = (case file_lines ps of [] \<Rightarrow> ([], ps) | l # ls \<Rightarrow> (l, ps\<lparr>file_lines := ls\<rparr>))"

definition continued :: "string \<Rightarrow> bool" where
  "continued line \<longleftrightarrow> 2 \<le> length line \<and> drop (length line - 2) line = [CHR 0x5C, newline]"

function join_line :: "string \<Rightarrow> pstate \<Rightarrow> string \<times> pstate" where
  "join_line line ps =
     (if continued line then
        (let (l, ps1) = readline ps
         in join_line (take (length line - 2) line @ l) (ps1\<lparr>cur_line := Suc (cur_line ps1)\<rparr>))
      else (line, ps))"
  by pat_completeness auto
termination
  by (relation "measure (\<lambda>(line, ps). length line + length (concat (file_lines ps)))")
    (auto simp: continued_def readline_def split: list.splits)

declare join_line.simps [simp del]

definition set_tokens :: "world \<Rightarrow> nat \<Rightarrow> string \<Rightarrow> pstate \<Rightarrow> exn + pstate" where
  "set_tokens w d line ps =
     (let (line', ps1) = join_line line ps
      in map_sum id (\<lambda>(ts, ps2). ps2\<lparr>tokens := ts\<rparr>) (tokenize w d line' ps1))"

text \<open>\<^verbatim>\<open>_next_line\<close>: whether there is another line.\<close>

definition next_line :: "world \<Rightarrow> nat \<Rightarrow> pstate \<Rightarrow> exn + bool \<times> pstate" where
  "next_line w d ps =
     (if reuse_tokens ps then Inr (True, ps\<lparr>reuse_tokens := False\<rparr>)
      else
        (let (line, ps1) = readline ps
         in if line = [] then Inr (False, ps1)
            else map_sum id (\<lambda>ps2. (True, ps2))
                   (set_tokens w d line (ps1\<lparr>cur_line := Suc (cur_line ps1)\<rparr>))))"

definition line_after_help :: "world \<Rightarrow> nat \<Rightarrow> string \<Rightarrow> pstate \<Rightarrow> exn + pstate" where
  "line_after_help w d line ps = map_sum id (\<lambda>ps1. ps1\<lparr>reuse_tokens := True\<rparr>) (set_tokens w d line ps)"

section \<open>Files\<close>

definition srctree_dir :: "world \<Rightarrow> string" where
  "srctree_dir w = (case environ w ''srctree'' of Some s \<Rightarrow> s | None \<Rightarrow> [])"

definition srctree_prefix :: "world \<Rightarrow> string" where
  "srctree_prefix w = realpath w (srctree_dir w) @ ''/''"

definition here_file :: "pstate \<Rightarrow> string" where
  "here_file ps = (case cur_file ps of Some f \<Rightarrow> f | None \<Rightarrow> [])"

definition include_path_str :: "(string \<times> nat) list \<Rightarrow> string" where
  "include_path_str path = join_with [newline] (map (\<lambda>(f, l). f @ '':'' @ py_str (int l)) path)"

text \<open>The top of the stack of files is its first element.\<close>

definition enter_file :: "world \<Rightarrow> string \<Rightarrow> pstate \<Rightarrow> exn + pstate" where
  "enter_file w fname ps =
     (let rel = (if startswith fname (srctree_prefix w) then drop (length (srctree_prefix w)) fname else fname);
          path = include_path ps @ [(here_file ps, cur_line ps)]
      in if \<exists>x \<in> set path. fst x = rel then
           Inl (KconfigError
             ([newline] @ here_str ps @ ''recursive '' @ quoted_by ''source'' @ '' of '' @ quoted_by rel @
              '' detected. Check that environment variables are set correctly.'' @ [newline] @
              ''Include path:'' @ [newline] @ include_path_str path))
         else
           (case read_file w fname of
              None \<Rightarrow> Inl (EnvironmentError fname)
            | Some ls \<Rightarrow>
                Inr (ps\<lparr>kconfig_filenames := kconfig_filenames ps @ [rel],
                        file_stack := (include_path ps, file_lines ps) # file_stack ps,
                        include_path := path, file_lines := ls, cur_file := Some rel, cur_line := 0\<rparr>)))"

definition leave_file :: "pstate \<Rightarrow> pstate" where
  "leave_file ps =
     ps\<lparr>cur_file := Some (fst (last (include_path ps))), cur_line := snd (last (include_path ps)),
        include_path := fst (hd (file_stack ps)), file_lines := snd (hd (file_stack ps)),
        file_stack := tl (file_stack ps)\<rparr>"

section \<open>Types and prompts\<close>

definition item_sc :: "node_item \<Rightarrow> sc option" where
  "item_sc it = (case it of ISym s \<Rightarrow> Some (Sym s) | ICho c \<Rightarrow> Some (Cho c) | _ \<Rightarrow> None)"

definition put_type :: "sc \<Rightarrow> ktype \<Rightarrow> pstate \<Rightarrow> pstate" where
  "put_type x t =
     (case x of Sym s \<Rightarrow> upd_sym s (\<lambda>o_s. o_s\<lparr>orig_type := t\<rparr>)
              | Cho c \<Rightarrow> upd_choice c (\<lambda>o_c. o_c\<lparr>c_orig_type := t\<rparr>))"

definition set_type :: "sc \<Rightarrow> ktype \<Rightarrow> pstate \<Rightarrow> pstate" where
  "set_type x t ps =
     put_type x t
       (if sc_orig_type (conf ps) x \<noteq> UNKNOWN \<and> sc_orig_type (conf ps) x \<noteq> t
        then warn_plain (name_and_loc (conf ps) x @ '' defined with multiple types, '' @ TYPE_TO_STR t @
               '' will be used'') ps
        else ps)"

text \<open>
  \<^verbatim>\<open>_parse_prompt\<close>, on the tokens after the keyword. A menu or comment has a prompt already,
  and the warning about it is an \<^verbatim>\<open>AttributeError\<close>.
\<close>

definition parse_prompt :: "nat \<Rightarrow> tok list \<Rightarrow> pstate \<Rightarrow> exn + pstate" where
  "parse_prompt i ts ps =
     (case item_sc (item (node_at ps i)) of
        None \<Rightarrow> Inl AttributeError
      | Some x \<Rightarrow>
          (let ps1 = (if nd_prompt (node_at ps i) \<noteq> None
                      then warn_plain (name_and_loc (conf ps) x @
                             '' defined with multiple prompts in single location'') ps
                      else ps)
           in case ts of
                TStr t # r \<Rightarrow>
                  (let ps2 = (if t \<noteq> strip t
                              then warn_plain (name_and_loc (conf ps1) x @
                                     '' has leading or trailing whitespace in its prompt'') ps1
                              else ps1)
                   in map_sum id (\<lambda>c. upd_node i (\<lambda>n. n\<lparr>nd_prompt := Some (strip t, c)\<rparr>) ps2)
                        (parse_cond ps2 r))
              | _ \<Rightarrow> Inl (parse_error ps1 ''expected prompt string'')))"

section \<open>Help texts\<close>

fun expandtabs_from :: "nat \<Rightarrow> string \<Rightarrow> string" where
  "expandtabs_from col [] = []"
| "expandtabs_from col (c # cs) =
     (if c = tab then replicate (8 - col mod 8) CHR '' '' @ expandtabs_from 0 cs
      else if c = newline \<or> c = CHR 0x0D then c # expandtabs_from 0 cs
      else c # expandtabs_from (Suc col) cs)"

definition expandtabs :: "string \<Rightarrow> string" where
  "expandtabs s = expandtabs_from 0 s"

definition indentation :: "string \<Rightarrow> nat" where
  "indentation s = length s - length (lstrip s)"

text \<open>
  The lines of the text after the first one, without the indentation; the line that ends it
  (the empty string at the end of the file), and the lines left.
\<close>

fun help_lines :: "nat \<Rightarrow> string list \<Rightarrow> string list \<times> string \<times> string list" where
  "help_lines ind [] = ([], [], [])"
| "help_lines ind (l # ls) =
     (if isspace l then (let (t, r) = help_lines ind ls in ([newline] # t, r))
      else if l = [] then ([], [], ls)
      else if indentation (expandtabs l) < ind then ([], l, ls)
      else (let (t, r) = help_lines ind ls in (drop ind (expandtabs l) # t, r)))"

definition after_help :: "world \<Rightarrow> nat \<Rightarrow> string \<Rightarrow> pstate \<Rightarrow> exn + pstate" where
  "after_help w d line ps = (if line \<noteq> [] then line_after_help w d line ps else Inr ps)"

definition empty_help :: "world \<Rightarrow> nat \<Rightarrow> nat \<Rightarrow> sc \<Rightarrow> string \<Rightarrow> pstate \<Rightarrow> exn + pstate" where
  "empty_help w d i x line ps =
     after_help w d line
       (upd_node i (\<lambda>n. n\<lparr>nd_help := Some []\<rparr>)
         (warn_plain (name_and_loc (conf ps) x @ '' has '' @ quoted_by ''help'' @ '' but empty help text'') ps))"

text \<open>A menu or comment has no attribute \<^verbatim>\<open>help\<close>.\<close>

definition parse_help :: "world \<Rightarrow> nat \<Rightarrow> nat \<Rightarrow> pstate \<Rightarrow> exn + pstate" where
  "parse_help w d i ps =
     (case item_sc (item (node_at ps i)) of
        None \<Rightarrow> Inl AttributeError
      | Some x \<Rightarrow>
          (let ps1 = (if nd_help (node_at ps i) \<noteq> None
                      then warn_plain (name_and_loc (conf ps) x @
                             '' defined with more than one help text -- only the last one will be used'') ps
                      else ps);
               blank = takeWhile isspace (file_lines ps1);
               (line, ps2) = readline (ps1\<lparr>file_lines := dropWhile isspace (file_lines ps1)\<rparr>);
               ps3 = ps2\<lparr>cur_line := cur_line ps2 + length blank + 1\<rparr>;
               expline = expandtabs line;
               ind = indentation expline
           in if line = [] \<or> ind = 0 then empty_help w d i x line ps3
              else
                (let (more_lines, stop, rest) = help_lines ind (file_lines ps3);
                     lines = drop ind expline # more_lines
                 in after_help w d stop
                      (upd_node i (\<lambda>n. n\<lparr>nd_help := Some (rstrip (concat lines))\<rparr>)
                        (ps3\<lparr>file_lines := rest, cur_line := cur_line ps3 + length lines\<rparr>)))))"

section \<open>Properties\<close>

definition type_prop :: "nat \<Rightarrow> ktype \<Rightarrow> tok list \<Rightarrow> pstate \<Rightarrow> exn + pstate" where
  "type_prop i t ts ps =
     (case item_sc (item (node_at ps i)) of
        None \<Rightarrow> Inl AttributeError
      | Some x \<Rightarrow> if ts \<noteq> [] then parse_prompt i ts (set_type x t ps) else Inr (set_type x t ps))"

definition depends_prop :: "nat \<Rightarrow> tok list \<Rightarrow> pstate \<Rightarrow> exn + pstate" where
  "depends_prop i ts ps =
     (case check_token T_ON ts of
        None \<Rightarrow> Inl (parse_error ps (''expected '' @ quoted_by ''on'' @ '' after '' @ quoted_by ''depends''))
      | Some r \<Rightarrow>
          map_sum id (\<lambda>e. upd_node i (\<lambda>n. n\<lparr>dep := make_and (dep n) e\<rparr>) ps) (expect_expr_and_eol ps r))"

definition target_cond :: "pstate \<Rightarrow> tok list \<Rightarrow> exn + sref \<times> expr" where
  "target_cond ps ts =
     (case expect_nonconst_sym ps ts of
        Inl e \<Rightarrow> Inl e
      | Inr (s, r) \<Rightarrow> map_sum id (\<lambda>c. (s, c)) (parse_cond ps r))"

definition is_sym_node :: "nat \<Rightarrow> pstate \<Rightarrow> bool" where
  "is_sym_node i ps = (case item (node_at ps i) of ISym _ \<Rightarrow> True | _ \<Rightarrow> False)"

definition select_prop :: "nat \<Rightarrow> tok list \<Rightarrow> pstate \<Rightarrow> exn + pstate" where
  "select_prop i ts ps =
     (if \<not> is_sym_node i ps then Inl (parse_error ps ''only symbols can select'')
      else map_sum id (\<lambda>sc. upd_node i (\<lambda>n. n\<lparr>nd_selects := nd_selects n @ [sc]\<rparr>) ps) (target_cond ps ts))"

definition imply_prop :: "nat \<Rightarrow> tok list \<Rightarrow> pstate \<Rightarrow> exn + pstate" where
  "imply_prop i ts ps =
     (if \<not> is_sym_node i ps then Inl (parse_error ps ''only symbols can imply'')
      else map_sum id (\<lambda>sc. upd_node i (\<lambda>n. n\<lparr>nd_implies := nd_implies n @ [sc]\<rparr>) ps) (target_cond ps ts))"

definition default_prop :: "nat \<Rightarrow> tok list \<Rightarrow> pstate \<Rightarrow> exn + pstate" where
  "default_prop i ts ps =
     (case parse_expr ps False ts of
        Inl e \<Rightarrow> Inl e
      | Inr (v, r) \<Rightarrow>
          map_sum id (\<lambda>c. upd_node i (\<lambda>n. n\<lparr>nd_defaults := nd_defaults n @ [(v, c)]\<rparr>) ps) (parse_cond ps r))"

definition def_type_prop :: "nat \<Rightarrow> ktype \<Rightarrow> tok list \<Rightarrow> pstate \<Rightarrow> exn + pstate" where
  "def_type_prop i t ts ps =
     (case item_sc (item (node_at ps i)) of
        None \<Rightarrow> Inl AttributeError
      | Some x \<Rightarrow> default_prop i ts (set_type x t ps))"

definition range_prop :: "nat \<Rightarrow> tok list \<Rightarrow> pstate \<Rightarrow> exn + pstate" where
  "range_prop i ts ps =
     (case expect_sym ps ts of
        Inl e \<Rightarrow> Inl e
      | Inr (low, r) \<Rightarrow>
          (case expect_sym ps r of
             Inl e \<Rightarrow> Inl e
           | Inr (high, r') \<Rightarrow>
               map_sum id (\<lambda>c. upd_node i (\<lambda>n. n\<lparr>nd_ranges := nd_ranges n @ [(low, high, c)]\<rparr>) ps)
                 (parse_cond ps r')))"

text \<open>Only the node of a menu has the attribute \<^verbatim>\<open>visibility\<close>.\<close>

definition visible_prop :: "nat \<Rightarrow> tok list \<Rightarrow> pstate \<Rightarrow> exn + pstate" where
  "visible_prop i ts ps =
     (case check_token T_IF ts of
        None \<Rightarrow> Inl (parse_error ps (''expected '' @ quoted_by ''if'' @ '' after '' @ quoted_by ''visible''))
      | Some r \<Rightarrow>
          if item (node_at ps i) \<noteq> IMenu then Inl AttributeError
          else map_sum id (\<lambda>e. upd_node i (\<lambda>n. n\<lparr>nd_visibility := make_and (nd_visibility n) e\<rparr>) ps)
                 (expect_expr_and_eol ps r))"

definition optional_prop :: "nat \<Rightarrow> pstate \<Rightarrow> exn + pstate" where
  "optional_prop i ps =
     (case item (node_at ps i) of
        ICho c \<Rightarrow> Inr (upd_choice c (\<lambda>o_c. o_c\<lparr>is_optional := True\<rparr>) ps)
      | _ \<Rightarrow> Inl (parse_error ps ([CHR 0x22] @ ''optional'' @ [CHR 0x22] @ '' is only valid for choices'')))"

section \<open>Options\<close>

text \<open>\<^verbatim>\<open>node.item.env_var\<close> cannot be assigned on a choice or menu.\<close>

definition env_value :: "world \<Rightarrow> nat \<Rightarrow> sref \<Rightarrow> string \<Rightarrow> pstate \<Rightarrow> pstate" where
  "env_value w i s v ps =
     (case environ w v of
        Some val \<Rightarrow>
          (let (c, ps1) = lookup_const_sym val ps
           in upd_node i (\<lambda>n. n\<lparr>nd_defaults := nd_defaults n @ [(Leaf (Sym c), expr_y)]\<rparr>) ps1)
      | None \<Rightarrow>
          warn_here (sym_name s @ '' has '' @ quoted_by (''option env='' @ [CHR 0x22] @ v @ [CHR 0x22]) @
            '', but the environment variable '' @ v @ '' is not set'') ps)"

definition env_option :: "world \<Rightarrow> nat \<Rightarrow> tok list \<Rightarrow> pstate \<Rightarrow> exn + pstate" where
  "env_option w i ts ps =
     (case check_token T_EQUAL ts of
        None \<Rightarrow> Inl (parse_error ps (''expected '' @ quoted_by ''='' @ '' after '' @ quoted_by ''env''))
      | Some r \<Rightarrow>
          (case expect_str_and_eol ps r of
             Inl e \<Rightarrow> Inl e
           | Inr v \<Rightarrow>
               (case item (node_at ps i) of
                  ISym s \<Rightarrow>
                    (let ps1 = env_value w i s v (upd_sym s (\<lambda>o_s. o_s\<lparr>env_var := Some v\<rparr>) ps)
                     in Inr (if v \<noteq> sym_name s
                             then warn_here
                               (''Kconfiglib expands environment variables in strings directly, meaning you do '' @
                                ''not need '' @ quoted_by ''option env=...'' @ '' '' @ [CHR 0x22] @ ''bounce'' @
                                [CHR 0x22] @ '' symbols. For compatibility with the C tools, rename '' @
                                sym_name s @ '' to '' @ v @ '' (so that the symbol name matches the '' @
                                ''environment variable name).'') ps1
                             else ps1))
                | _ \<Rightarrow> Inl AttributeError)))"

text \<open>
  \<^verbatim>\<open>option defconfig_list\<close> on a choice, menu or comment makes that the value of the attribute
  in the source; the field holds symbols only, and the model has an error there.
\<close>

definition defconfig_option :: "nat \<Rightarrow> pstate \<Rightarrow> exn + pstate" where
  "defconfig_option i ps =
     (case item (node_at ps i) of
        ISym s \<Rightarrow>
          (case defconfig_list (conf ps) of
             None \<Rightarrow> Inr (ps\<lparr>conf := (conf ps)\<lparr>defconfig_list := Some s\<rparr>\<rparr>)
           | Some t \<Rightarrow>
               Inr (warn_here (quoted_by ''option defconfig_list'' @ '' set on multiple symbols ('' @
                      sym_name t @ '' and '' @ sym_name s @ ''). Only '' @ sym_name t @ '' will be used.'') ps))
      | _ \<Rightarrow> Inl AttributeError)"

definition modules_warning :: "nat \<Rightarrow> string \<Rightarrow> pstate \<Rightarrow> pstate" where
  "modules_warning i what ps =
     (if item (node_at ps i) \<noteq> ISym modules
      then warn_here
        (''the '' @ quoted_by ''modules'' @ '' '' @ what @ '' is not supported. Let me know if this is a '' @
         ''problem for you, as it wouldn'' @ [CHR 0x27] @ ''t be that hard to implement. Note that modules '' @
         ''are supported -- Kconfiglib just assumes the symbol name MODULES, like older versions of the C '' @
         ''implementation did when '' @
         quoted_by (if what = ''option'' then ''option modules'' else ''modules'') @ '' wasn'' @ [CHR 0x27] @
         ''t used.'') ps
      else ps)"

definition allnoconfig_option :: "nat \<Rightarrow> pstate \<Rightarrow> exn + pstate" where
  "allnoconfig_option i ps =
     (case item (node_at ps i) of
        ISym s \<Rightarrow> Inr (upd_sym s (\<lambda>o_s. o_s\<lparr>is_allnoconfig_y := True\<rparr>) ps)
      | _ \<Rightarrow> Inl (parse_error ps (''the '' @ quoted_by ''allnoconfig_y'' @ '' option is only valid for symbols'')))"

definition option_prop :: "world \<Rightarrow> nat \<Rightarrow> tok list \<Rightarrow> pstate \<Rightarrow> exn + pstate" where
  "option_prop w i ts ps =
     (if check_token T_ENV ts \<noteq> None then env_option w i (tl ts) ps
      else if check_token T_DEFCONFIG_LIST ts \<noteq> None then defconfig_option i ps
      else if check_token T_MODULES ts \<noteq> None then Inr (modules_warning i ''option'' ps)
      else if check_token T_ALLNOCONFIG_Y ts \<noteq> None then allnoconfig_option i ps
      else Inl (parse_error ps ''unrecognized option''))"

section \<open>The loop over the properties\<close>

text \<open>None for a line that is not a property.\<close>

definition parse_prop :: "world \<Rightarrow> nat \<Rightarrow> nat \<Rightarrow> token \<Rightarrow> tok list \<Rightarrow> pstate \<Rightarrow> (exn + pstate) option" where
  "parse_prop w d i t0 ts ps =
     (case type_of_token t0 of
        Some t \<Rightarrow> Some (type_prop i t ts ps)
      | None \<Rightarrow>
          (case DEF_TOKEN_TO_TYPE t0 of
             Some t \<Rightarrow> Some (def_type_prop i t ts ps)
           | None \<Rightarrow>
               if t0 = T_DEPENDS then Some (depends_prop i ts ps)
               else if t0 = T_HELP then Some (parse_help w d i ps)
               else if t0 = T_SELECT then Some (select_prop i ts ps)
               else if t0 = T_DEFAULT then Some (default_prop i ts ps)
               else if t0 = T_PROMPT then Some (parse_prompt i ts ps)
               else if t0 = T_RANGE then Some (range_prop i ts ps)
               else if t0 = T_IMPLY then Some (imply_prop i ts ps)
               else if t0 = T_VISIBLE then Some (visible_prop i ts ps)
               else if t0 = T_OPTION then Some (option_prop w i ts ps)
               else if t0 = T_MODULES then Some (Inr (modules_warning i ''property'' ps))
               else if t0 = T_OPTIONAL then Some (optional_prop i ps)
               else None))"

text \<open>The number bounds the lines read; a line after a help text counts twice.\<close>

primrec props_loop :: "world \<Rightarrow> nat \<Rightarrow> nat \<Rightarrow> nat \<Rightarrow> pstate \<Rightarrow> exn + pstate" where
  "props_loop w d i 0 ps = Inl RecursionError"
| "props_loop w d i (Suc k) ps =
     (case next_line w d ps of
        Inl e \<Rightarrow> Inl e
      | Inr (False, ps1) \<Rightarrow> Inr ps1
      | Inr (True, ps1) \<Rightarrow>
          (case tokens ps1 of
             [] \<Rightarrow> props_loop w d i k ps1
           | TKey t0 # ts \<Rightarrow>
               (case parse_prop w d i t0 ts ps1 of
                  None \<Rightarrow> Inr (ps1\<lparr>reuse_tokens := True\<rparr>)
                | Some (Inl e) \<Rightarrow> Inl e
                | Some (Inr ps2) \<Rightarrow> props_loop w d i k ps2)
           | _ # _ \<Rightarrow> Inr (ps1\<lparr>reuse_tokens := True\<rparr>)))"

definition parse_props :: "world \<Rightarrow> nat \<Rightarrow> nat \<Rightarrow> pstate \<Rightarrow> exn + pstate" where
  "parse_props w d i ps =
     props_loop w d i (2 * length (file_lines ps) + 2) (upd_node i (\<lambda>n. n\<lparr>dep := expr_y\<rparr>) ps)"

end
