(* ===== verification/Block_Parser.thy ===== *)
theory Block_Parser
  imports Reader
begin

text \<open>
  \<^verbatim>\<open>_parse_block\<close>, and the part of \<^verbatim>\<open>_init\<close> up to the end of parsing. As in the source, new
  nodes are linked after the node \<open>prev\<close>; the entries of a menu, choice or \<^verbatim>\<open>if\<close> are linked after
  its own node first and then moved to its list.
\<close>

section \<open>Paths of sourced files\<close>

definition dirname :: "string \<Rightarrow> string" where
  "dirname p =
     (let head = rev (dropWhile (\<lambda>c. c \<noteq> CHR ''/'') (rev p))
      in if list_all (\<lambda>c. c = CHR ''/'') head then head
         else rev (dropWhile (\<lambda>c. c = CHR ''/'') (rev head)))"

definition SOURCE_TOKENS :: "token list" where
  "SOURCE_TOKENS = [T_SOURCE, T_RSOURCE, T_OSOURCE, T_ORSOURCE]"

definition REL_SOURCE_TOKENS :: "token list" where
  "REL_SOURCE_TOKENS = [T_RSOURCE, T_ORSOURCE]"

definition OBL_SOURCE_TOKENS :: "token list" where
  "OBL_SOURCE_TOKENS = [T_SOURCE, T_RSOURCE]"

definition source_pattern :: "token \<Rightarrow> string \<Rightarrow> pstate \<Rightarrow> string" where
  "source_pattern t0 pattern ps =
     (if t0 \<in> set REL_SOURCE_TOKENS then path_join (dirname (here_file ps)) pattern else pattern)"

definition source_files :: "world \<Rightarrow> token \<Rightarrow> string \<Rightarrow> pstate \<Rightarrow> exn + string list" where
  "source_files w t0 pattern ps =
     (let fs = sort (iglob w (path_join (srctree_prefix w) pattern))
      in if fs = [] \<and> t0 \<in> set OBL_SOURCE_TOKENS then
           Inl (KconfigError
             (here_str ps @ quoted_by pattern @ '' not found (in '' @ quoted_by (strip (line_text ps)) @
              ''). Check that environment variables are set correctly (e.g. $srctree, which is '' @
              (if srctree_dir w \<noteq> [] then ''set to '' @ quoted_by (srctree_dir w) else ''unset or blank'') @
              ''). Also note that unset environment variables expand to the empty string.''))
         else Inr fs)"

section \<open>New nodes\<close>

definition new_node :: "menu_node \<Rightarrow> pstate \<Rightarrow> nat \<times> pstate" where
  "new_node n ps =
     (next_node ps, upd_node (next_node ps) (\<lambda>_. n) (ps\<lparr>next_node := Suc (next_node ps)\<rparr>))"

text \<open>The fields every node but that of an \<^verbatim>\<open>if\<close> gets.\<close>

definition node_here :: "node_item \<Rightarrow> bool \<Rightarrow> nat \<Rightarrow> pstate \<Rightarrow> menu_node" where
  "node_here it mc p ps = fresh_node
     \<lparr>item := it, is_menuconfig := mc, parent := Some p, filename := here_file ps, linenr := cur_line ps\<rparr>"

text \<open>\<^verbatim>\<open>prev.next = prev = node\<close>\<close>

definition link_node :: "nat \<Rightarrow> nat \<Rightarrow> pstate \<Rightarrow> nat \<times> pstate" where
  "link_node prev i ps = (i, upd_node prev (\<lambda>n. n\<lparr>nd_next := Some i\<rparr>) ps)"

text \<open>\<^verbatim>\<open>node.list = node.next\<close>\<close>

definition tilt :: "nat \<Rightarrow> pstate \<Rightarrow> pstate" where
  "tilt i ps = upd_node i (\<lambda>n. n\<lparr>nd_list := nd_next n\<rparr>) ps"

section \<open>Statements\<close>

type_synonym block_parser = "token option \<Rightarrow> nat \<Rightarrow> nat \<Rightarrow> pstate \<Rightarrow> exn + nat \<times> pstate"

definition config_stmt :: "world \<Rightarrow> nat \<Rightarrow> nat \<Rightarrow> nat \<Rightarrow> bool \<Rightarrow> tok list \<Rightarrow> pstate \<Rightarrow> exn + nat \<times> pstate" where
  "config_stmt w d p prev mc ts ps =
     (case ts of
        TSym s # r \<Rightarrow>
          if is_constant s then Inl (parse_error ps ''missing or bad symbol name'')
          else if r \<noteq> [] then Inl (trailing_tokens ps)
          else
            (let ps1 = ps\<lparr>defined_syms := defined_syms ps @ [s]\<rparr>;
                 (i, ps2) = new_node (node_here (ISym s) mc p ps1) ps1
             in case parse_props w d i (upd_sym s (\<lambda>o_s. o_s\<lparr>nodes := nodes o_s @ [i]\<rparr>) ps2) of
                  Inl e \<Rightarrow> Inl e
                | Inr ps3 \<Rightarrow>
                    Inr (link_node prev i
                      (if mc \<and> nd_prompt (node_at ps3 i) = None
                       then warn_plain (''the menuconfig symbol '' @ name_and_loc (conf ps3) (Sym s) @
                              '' has no prompt'') ps3
                       else ps3)))
      | _ \<Rightarrow> Inl (parse_error ps ''missing or bad symbol name''))"

primrec source_all :: "block_parser \<Rightarrow> world \<Rightarrow> nat \<Rightarrow> string list \<Rightarrow> nat \<Rightarrow> pstate \<Rightarrow> exn + nat \<times> pstate" where
  "source_all block w p [] prev ps = Inr (prev, ps)"
| "source_all block w p (f # fs) prev ps =
     (case enter_file w f ps of
        Inl e \<Rightarrow> Inl e
      | Inr ps1 \<Rightarrow> bind_ps (block None p prev ps1) (\<lambda>prev' ps2. source_all block w p fs prev' (leave_file ps2)))"

definition source_stmt :: "block_parser \<Rightarrow> world \<Rightarrow> nat \<Rightarrow> nat \<Rightarrow> token \<Rightarrow> tok list \<Rightarrow> pstate \<Rightarrow> exn + nat \<times> pstate" where
  "source_stmt block w p prev t0 ts ps =
     (case expect_str_and_eol ps ts of
        Inl e \<Rightarrow> Inl e
      | Inr pattern \<Rightarrow>
          (case source_files w t0 (source_pattern t0 pattern ps) ps of
             Inl e \<Rightarrow> Inl e
           | Inr fs \<Rightarrow> source_all block w p fs prev ps))"

text \<open>The entries of a node up to the end token.\<close>

definition entries :: "block_parser \<Rightarrow> token \<Rightarrow> nat \<Rightarrow> nat \<Rightarrow> pstate \<Rightarrow> exn + nat \<times> pstate" where
  "entries block end_token prev i ps =
     bind_ps (block (Some end_token) i i ps) (\<lambda>_ ps1. Inr (link_node prev i (tilt i ps1)))"

definition if_stmt :: "block_parser \<Rightarrow> nat \<Rightarrow> nat \<Rightarrow> tok list \<Rightarrow> pstate \<Rightarrow> exn + nat \<times> pstate" where
  "if_stmt block p prev ts ps =
     (case expect_expr_and_eol ps ts of
        Inl e \<Rightarrow> Inl e
      | Inr e \<Rightarrow>
          (let (i, ps1) = new_node (fresh_node\<lparr>parent := Some p, dep := e\<rparr>) ps
           in entries block T_ENDIF prev i ps1))"

definition menu_stmt :: "block_parser \<Rightarrow> world \<Rightarrow> nat \<Rightarrow> nat \<Rightarrow> nat \<Rightarrow> tok list \<Rightarrow> pstate \<Rightarrow> exn + nat \<times> pstate" where
  "menu_stmt block w d p prev ts ps =
     (case expect_str_and_eol ps ts of
        Inl e \<Rightarrow> Inl e
      | Inr t \<Rightarrow>
          (let (i, ps1) = new_node ((node_here IMenu True p ps)\<lparr>nd_prompt := Some (t, expr_y)\<rparr>) ps
           in case parse_props w d i (ps1\<lparr>menus := menus ps1 @ [i]\<rparr>) of
                Inl e \<Rightarrow> Inl e
              | Inr ps2 \<Rightarrow> entries block T_ENDMENU prev i ps2))"

definition comment_stmt :: "world \<Rightarrow> nat \<Rightarrow> nat \<Rightarrow> nat \<Rightarrow> tok list \<Rightarrow> pstate \<Rightarrow> exn + nat \<times> pstate" where
  "comment_stmt w d p prev ts ps =
     (case expect_str_and_eol ps ts of
        Inl e \<Rightarrow> Inl e
      | Inr t \<Rightarrow>
          (let (i, ps1) = new_node ((node_here IComment False p ps)\<lparr>nd_prompt := Some (t, expr_y)\<rparr>) ps
           in map_sum id (link_node prev i) (parse_props w d i (ps1\<lparr>comments := comments ps1 @ [i]\<rparr>))))"

text \<open>The choice object: a new one, or the one with the name.\<close>

definition new_choice :: "string option \<Rightarrow> pstate \<Rightarrow> nat \<times> pstate" where
  "new_choice name ps =
     (next_choice ps,
      upd_choice (next_choice ps) (\<lambda>_. fresh_choice\<lparr>c_name := name\<rparr>) (ps\<lparr>next_choice := Suc (next_choice ps)\<rparr>))"

definition choice_object :: "tok list \<Rightarrow> pstate \<Rightarrow> exn + nat \<times> pstate" where
  "choice_object ts ps =
     (if ts = [] then Inr (new_choice None ps)
      else
        (case expect_str_and_eol ps ts of
           Inl e \<Rightarrow> Inl e
         | Inr name \<Rightarrow>
             (case named_choices ps name of
                Some c \<Rightarrow> Inr (c, ps)
              | None \<Rightarrow>
                  (let (c, ps1) = new_choice (Some name) ps
                   in Inr (c, ps1\<lparr>named_choices := (named_choices ps1)(name \<mapsto> c)\<rparr>)))))"

definition choice_stmt :: "block_parser \<Rightarrow> world \<Rightarrow> nat \<Rightarrow> nat \<Rightarrow> nat \<Rightarrow> tok list \<Rightarrow> pstate \<Rightarrow> exn + nat \<times> pstate" where
  "choice_stmt block w d p prev ts ps =
     bind_ps (choice_object ts ps)
       (\<lambda>c ps1.
          let ps2 = ps1\<lparr>choices := choices ps1 @ [c]\<rparr>;
              (i, ps3) = new_node (node_here (ICho c) True p ps2) ps2
          in case parse_props w d i (upd_choice c (\<lambda>o_c. o_c\<lparr>c_nodes := c_nodes o_c @ [i]\<rparr>) ps3) of
               Inl e \<Rightarrow> Inl e
             | Inr ps4 \<Rightarrow> entries block T_ENDCHOICE prev i ps4)"

definition mainmenu_stmt :: "nat \<Rightarrow> tok list \<Rightarrow> pstate \<Rightarrow> exn + nat \<times> pstate" where
  "mainmenu_stmt prev ts ps =
     map_sum id
       (\<lambda>t. (prev, upd_node (top_node (conf ps)) (\<lambda>n. n\<lparr>nd_prompt := Some (t, expr_y)\<rparr>) ps))
       (expect_str_and_eol ps ts)"

definition unexpected :: "token \<Rightarrow> string" where
  "unexpected t0 =
     (if t0 = T_ENDCHOICE then ''no corresponding '' @ quoted_by ''choice''
      else if t0 = T_ENDIF then ''no corresponding '' @ quoted_by ''if''
      else if t0 = T_ENDMENU then ''no corresponding '' @ quoted_by ''menu''
      else ''unrecognized construct'')"

text \<open>A line that starts with a keyword and does not end the block: the new \<open>prev\<close>.\<close>

definition statement ::
  "block_parser \<Rightarrow> world \<Rightarrow> nat \<Rightarrow> nat \<Rightarrow> nat \<Rightarrow> token \<Rightarrow> tok list \<Rightarrow> pstate \<Rightarrow> exn + nat \<times> pstate" where
  "statement block w d p prev t0 ts ps =
     (if t0 = T_CONFIG \<or> t0 = T_MENUCONFIG then config_stmt w d p prev (t0 = T_MENUCONFIG) ts ps
      else if t0 \<in> set SOURCE_TOKENS then source_stmt block w p prev t0 ts ps
      else if t0 = T_IF then if_stmt block p prev ts ps
      else if t0 = T_MENU then menu_stmt block w d p prev ts ps
      else if t0 = T_COMMENT then comment_stmt w d p prev ts ps
      else if t0 = T_CHOICE then choice_stmt block w d p prev ts ps
      else if t0 = T_MAINMENU then mainmenu_stmt prev ts ps
      else Inl (parse_error ps (unexpected t0)))"

section \<open>Blocks\<close>

definition end_name :: "token \<Rightarrow> string" where
  "end_name t = (if t = T_ENDCHOICE then ''endchoice'' else if t = T_ENDIF then ''endif'' else ''endmenu'')"

definition end_of_file :: "token option \<Rightarrow> nat \<Rightarrow> pstate \<Rightarrow> exn + nat \<times> pstate" where
  "end_of_file end_token prev ps =
     (case end_token of
        None \<Rightarrow> Inr (prev, ps)
      | Some t \<Rightarrow>
          Inl (KconfigError (''error: expected '' @ quoted_by (end_name t) @ '' at end of '' @
                             quoted_by (here_file ps))))"

text \<open>
  The number bounds the lines of a block plus the nesting of blocks and files. The first token
  of a line is a keyword.
\<close>

primrec parse_block :: "world \<Rightarrow> nat \<Rightarrow> nat \<Rightarrow> block_parser" where
  "parse_block w d 0 end_token p prev ps = Inl RecursionError"
| "parse_block w d (Suc k) end_token p prev ps =
     (case next_line w d ps of
        Inl e \<Rightarrow> Inl e
      | Inr (False, ps1) \<Rightarrow> end_of_file end_token prev ps1
      | Inr (True, ps1) \<Rightarrow>
          (case tokens ps1 of
             [] \<Rightarrow> parse_block w d k end_token p prev ps1
           | TKey t0 # ts \<Rightarrow>
               if end_token = Some t0 then
                 (if ts \<noteq> [] then Inl (trailing_tokens ps1)
                  else Inr (prev, upd_node prev (\<lambda>n. n\<lparr>nd_next := None\<rparr>) ps1))
               else
                 bind_ps (statement (parse_block w d k) w d p prev t0 ts ps1)
                   (parse_block w d k end_token p)
           | _ # _ \<Rightarrow> Inl (parse_error ps1 ''unrecognized construct'')))"

section \<open>Parsing a tree of files\<close>

definition top_menu :: "string \<Rightarrow> menu_node" where
  "top_menu fname = fresh_node
     \<lparr>item := IMenu, is_menuconfig := True, nd_prompt := Some (''Main menu'', expr_y), filename := fname,
      linenr := 1\<rparr>"

definition env_or :: "world \<Rightarrow> string \<Rightarrow> string \<Rightarrow> string" where
  "env_or w v dflt = (case environ w v of Some s \<Rightarrow> s | None \<Rightarrow> dflt)"

definition empty_config :: "world \<Rightarrow> string \<Rightarrow> kconfig" where
  "empty_config w fname =
     \<lparr>symtab = Map.empty, choicetab = (\<lambda>_. fresh_choice), nodetab = (\<lambda>_. fresh_node)(0 := top_menu fname),
      unique_defined_syms = [], unique_choices = [], defconfig_list = None,
      config_prefix = env_or w ''CONFIG_'' ''CONFIG_'',
      config_header = env_or w ''KCONFIG_CONFIG_HEADER'' [],
      header_header = env_or w ''KCONFIG_AUTOHEADER_HEADER'' [], top_node = 0\<rparr>"

definition start_parser :: "world \<Rightarrow> string \<Rightarrow> bool \<Rightarrow> string list \<Rightarrow> pstate" where
  "start_parser w fname wrn ls =
     snd (lookup_sym ''MODULES''
       \<lparr>conf = empty_config w fname,
        out = init_state\<lparr>warn := wrn, warn_assign_undef := (environ w ''KCONFIG_WARN_UNDEF_ASSIGN'' = Some ''y'')\<rparr>,
        syms_keys = [], parsing_kconfigs = True, variables = Map.empty, env_vars = {},
        cur_file = Some fname, cur_line = 0, line_text = [], tokens = [], reuse_tokens = False,
        file_lines = ls, file_stack = [], include_path = [], kconfig_filenames = [fname],
        defined_syms = [], choices = [], named_choices = Map.empty, menus = [], comments = [],
        next_node = 1, next_choice = 0\<rparr>)"

definition close_top :: "nat \<Rightarrow> pstate \<Rightarrow> pstate" where
  "close_top prev ps =
     (let top = top_node (conf ps)
      in upd_node top (\<lambda>n. n\<lparr>nd_next := None\<rparr>)
           (tilt top (upd_node prev (\<lambda>n. n\<lparr>nd_next := None\<rparr>) ps)))"

definition parse_files :: "world \<Rightarrow> nat \<Rightarrow> nat \<Rightarrow> string \<Rightarrow> bool \<Rightarrow> exn + pstate" where
  "parse_files w d k fname wrn =
     (case read_file w (path_join (srctree_dir w) fname) of
        None \<Rightarrow> Inl (EnvironmentError fname)
      | Some ls \<Rightarrow>
          (case parse_block w d k None 0 0 (start_parser w fname wrn ls) of
             Inl e \<Rightarrow> Inl e
           | Inr (prev, ps) \<Rightarrow> Inr ((close_top prev ps)\<lparr>parsing_kconfigs := False\<rparr>)))"

end
