(* ===== verification/Parser_Frame.thy ===== *)
theory Parser_Frame
  imports Block_Parser
begin

text \<open>
  What parsing a line leaves as it is. A relation between the states before and after that the
  elementary changes of the tokenizer respect is respected by the tokenizer; one that the
  changes of a line's properties respect as well is respected by \<^verbatim>\<open>_parse_props\<close>. The
  relation is a parameter of the interfaces below.
\<close>

section \<open>The tokenizer\<close>

locale line_frame =
  fixes w :: world and R :: "pstate \<Rightarrow> pstate \<Rightarrow> bool"
  assumes refl: "R ps ps"
    and trans: "R ps1 ps2 \<Longrightarrow> R ps2 ps3 \<Longrightarrow> R ps1 ps3"
    and fns: "user_functions w fn = Some (f, lo, hi) \<Longrightarrow> f args ps = Inr (r, ps') \<Longrightarrow> R ps ps'"
    and vars: "R ps (ps\<lparr>variables := V\<rparr>)"
    and envs: "R ps (ps\<lparr>env_vars := E\<rparr>)"
    and outs: "R ps (ps\<lparr>out := add_warning m l (out ps)\<rparr>)"
    and texts: "R ps (ps\<lparr>line_text := t\<rparr>)"
    and keys: "R ps (ps\<lparr>syms_keys := K\<rparr>)"
    and fresh: "symtab (conf ps) s = None \<Longrightarrow> R ps (put_sym s fresh_symbol ps)"
begin

lemma warns: "R ps (warn_here m ps)" "R ps (warn_plain m ps)"
  using outs by (simp_all add: warn_here_def warn_plain_def)

lemma functions_frame:
  assumes "preproc_functions w fn = Some (f, lo, hi)" "f args ps = Inr (r, ps')" shows "R ps ps'"
proof (cases "user_functions w fn")
  case (Some g)
  then show ?thesis using assms fns by (simp add: preproc_functions_def)
next
  case None
  have "f = info_fn \<or> f = error_if_fn \<or> f = filename_fn \<or> f = lineno_fn \<or> f = shell_fn w \<or> f = warning_if_fn"
    using assms(1) None by (simp add: preproc_functions_def split: if_splits) 
  then show ?thesis
    using assms(2) refl warns(1)
    by (auto simp: info_fn_def error_if_fn_def filename_fn_def lineno_fn_def shell_fn_def warning_if_fn_def
        Let_def split: if_splits option.splits prod.splits)
qed

lemma macro_loop_frame:
  assumes "\<And>xs ps r ps'. fv xs ps = Inr (r, ps') \<Longrightarrow> R ps ps'"
  shows "macro_loop fv args k cur xs n suf ps = Inr ((r, rest), ps') \<Longrightarrow> R ps ps'"
proof (induction k arbitrary: cur xs n suf ps r rest ps')
  case (Suc k)
  then obtain c cs where suf: "suf = c # cs" by (cases suf) auto
  show ?case
  proof (cases "startswith suf ''$(''")
    case True
    with Suc.prems suf obtain r1 rest1 ps1 where
      1: "macro_loop fv args k [] [] 0 (drop 2 suf) ps = Inr ((r1, rest1), ps1)"
        "macro_loop fv args k (cur @ r1) xs n rest1 ps1 = Inr ((r, rest), ps')"
      by (auto split: sum.splits prod.splits)
    show ?thesis by (rule trans [OF Suc.IH [OF 1(1)] Suc.IH [OF 1(2)]])
  next
    case False
    consider "c = CHR '')''" "n = 0" | cur' xs' n' where "macro_loop fv args k cur' xs' n' cs ps = Inr ((r, rest), ps')"
      using Suc.prems suf False by (simp split: if_splits)
    then show ?thesis
    proof cases
      case 1
      then have "macro_value fv args (xs @ [cur]) ps = Inr (r, ps')"
        using Suc.prems suf False by (cases "macro_value fv args (xs @ [cur]) ps") (auto simp: split_def)
      then show ?thesis using assms refl by (auto simp: macro_value_def split: option.splits)
    next
      case 2
      then show ?thesis by (rule Suc.IH)
    qed
  qed
qed simp

lemma expand_macro_frame:
  assumes "\<And>xs ps r ps'. fv xs ps = Inr (r, ps') \<Longrightarrow> R ps ps'" "expand_macro fv args suf ps = Inr ((r, rest), ps')"
  shows "R ps ps'"
  using macro_loop_frame [OF assms(1)] assms(2) by (simp add: expand_macro_def)

lemma whole_loop_frame:
  assumes "\<And>xs ps r ps'. fv xs ps = Inr (r, ps') \<Longrightarrow> R ps ps'"
  shows "whole_loop fv args k suf ps = Inr (r, ps') \<Longrightarrow> R ps ps'"
proof (induction k arbitrary: suf ps r)
  case (Suc k)
  show ?case
  proof (cases suf)
    case (Cons c cs)
    show ?thesis
    proof (cases "startswith suf ''$(''")
      case True
      with Suc.prems Cons obtain v rest ps1 t where 1: "expand_macro fv args suf ps = Inr ((v, rest), ps1)"
        "whole_loop fv args k rest ps1 = Inr (t, ps')"
        by (cases "expand_macro fv args suf ps") (auto simp: map_sum_def split: sum.splits)
      show ?thesis by (rule trans [OF expand_macro_frame [OF assms 1(1)] Suc.IH [OF 1(2)]])
    next
      case False
      then obtain t where "whole_loop fv args k cs ps = Inr (t, ps')"
        using Suc.prems Cons by (cases "whole_loop fv args k cs ps") auto
      then show ?thesis by (rule Suc.IH)
    qed
  qed (use Suc.prems refl in simp)
qed (simp add: refl)

lemma fn_val_frame:
  assumes "\<And>s args ps r ps'. ex s args ps = Inr (r, ps') \<Longrightarrow> R ps ps'" "fn_val w ex args ps = Inr (r, ps')"
  shows "R ps ps'"
proof (cases "variables ps (hd args)")
  case (Some v)
  then obtain val ps1 where e: "ex val args (count_expansion (hd args) Suc ps) = Inr (r, ps1)"
    and ps': "ps' = count_expansion (hd args) (\<lambda>n. n - 1) ps1"
    using assms(2) by (auto simp: fn_val_def Let_def map_sum_def split: if_splits option.splits sum.splits)
  have "R ps (count_expansion (hd args) Suc ps)" "R ps1 ps'"
    using vars by (simp_all add: count_expansion_def ps')
  then show ?thesis using assms(1) [OF e] trans by blast
next
  case None
  then show ?thesis
    using assms(2) functions_frame [of "hd args" _ _ _ args ps r ps'] envs refl
    by (auto simp: fn_val_def Let_def split: if_splits option.splits prod.splits)
qed

lemma expand_whole_frame: "expand_whole w d s args ps = Inr (r, ps') \<Longrightarrow> R ps ps'"
proof (induction d arbitrary: s args ps r ps')
  case (Suc d)
  have "R ps ps'" if "fn_val w (expand_whole w d) xs ps = Inr (r, ps')" for xs ps r ps'
    by (rule fn_val_frame [OF _ that]) (rule Suc.IH)
  from whole_loop_frame [OF this] Suc.prems show ?case by simp
qed simp

lemma line_macro_frame: "line_macro w d suf ps = Inr ((r, rest), ps') \<Longrightarrow> R ps ps'"
  unfolding line_macro_def
  by (rule expand_macro_frame [OF fn_val_frame [OF expand_whole_frame]])

lemma lhs_loop_frame: "lhs_loop w d k name suf ps = Inr ((r, rest), ps') \<Longrightarrow> R ps ps'"
proof (induction k arbitrary: name suf ps)
  case (Suc k)
  show ?case
  proof (cases "startswith (dropWhile lhs_char suf) ''$(''")
    case True
    then obtain v rest1 ps1 where 1: "line_macro w d (dropWhile lhs_char suf) ps = Inr ((v, rest1), ps1)"
      "lhs_loop w d k (name @ takeWhile lhs_char suf @ v) rest1 ps1 = Inr ((r, rest), ps')"
      using Suc.prems by (auto simp: Let_def split: sum.splits)
    show ?thesis by (rule trans [OF line_macro_frame [OF 1(1)] Suc.IH [OF 1(2)]])
  next
    case False
    then show ?thesis using Suc.prems refl by (simp add: Let_def)
  qed
qed (simp add: refl)

lemma put_variable_frame: "R ps (put_variable n v ps)"
  using vars by (simp add: put_variable_def)

lemma assign_variable_frame:
  assumes "assign_variable w d name opr val ps = Inr ps'" shows "R ps ps'"
proof -
  define v where "v = (case variables ps name of Some v \<Rightarrow> v | None \<Rightarrow> fresh_variable)"
  define ps1 where "ps1 = (if variables ps name \<noteq> None then ps else put_variable name v ps)"
  have 1: "R ps ps1" using refl put_variable_frame by (simp add: ps1_def)
  have ex: "R ps ps'" if "expand_whole w d val [] ps2 = Inr (t, ps3)" "R ps1 ps2" "ps' = put_variable name x ps3" for t ps2 ps3 x
    using trans [OF 1 trans [OF that(2) trans [OF expand_whole_frame [OF that(1)] put_variable_frame]]] that(3) by simp
  have p: "R ps ps'" if "ps' = put_variable name x ps1" for x
    using trans [OF 1 put_variable_frame] that by simp
  show ?thesis
    using assms p ex put_variable_frame refl
    unfolding assign_variable_def Let_def v_def [symmetric] ps1_def [symmetric] map_sum_def
    by (auto split: assign_op.splits option.splits if_splits sum.splits)
qed

lemma parse_assignment_frame:
  assumes "parse_assignment w d s ps = Inr ps'" shows "R ps ps'"
proof -
  obtain name rest ps1 where l: "lhs_loop w d (Suc (length (lstrip s))) [] (lstrip s) ps = Inr ((name, rest), ps1)"
    using assms by (auto simp: parse_assignment_def Let_def split: sum.splits simp del: lhs_loop.simps)
  have "ps' = ps1 \<or> (\<exists>opr val. assign_variable w d name opr val ps1 = Inr ps')"
    using assms l by (auto simp: parse_assignment_def Let_def split: if_splits option.splits simp del: lhs_loop.simps)
  then show ?thesis using lhs_loop_frame [OF l] assign_variable_frame trans by blast
qed

lemma name_loop_frame: "name_loop w d k name suf ps = Inr ((r, rest), ps') \<Longrightarrow> R ps ps'"
proof (induction k arbitrary: name suf ps)
  case (Suc k)
  show ?case
  proof (cases suf)
    case (Cons c cs)
    show ?thesis
    proof (cases "startswith suf ''$(''")
      case True
      with Suc.prems Cons obtain v rest1 ps1 where 1: "line_macro w d suf ps = Inr ((v, rest1), ps1)"
        "name_loop w d k (name @ v) rest1 ps1 = Inr ((r, rest), ps')"
        by (auto split: sum.splits)
      show ?thesis by (rule trans [OF line_macro_frame [OF 1(1)] Suc.IH [OF 1(2)]])
    next
      case False
      then show ?thesis using Suc.prems Cons Suc.IH refl by (auto split: if_splits)
    qed
  qed (use Suc.prems refl in simp)
qed (simp add: refl)

lemma expand_name_frame: "expand_name w d suf ps = Inr (r, ps') \<Longrightarrow> R ps ps'"
  using name_loop_frame by (fastforce simp: expand_name_def split: sum.splits if_splits)

lemma str_loop_frame: "str_loop w d q k acc suf ps = Inr ((r, rest), ps') \<Longrightarrow> R ps ps'"
proof (induction k arbitrary: acc suf ps)
  case (Suc k)
  then obtain c cs where suf: "suf = c # cs" by (cases suf) auto
  consider "ps' = ps" | acc' xs where "str_loop w d q k acc' xs ps = Inr ((r, rest), ps')"
    | v rest1 ps1 where "line_macro w d suf ps = Inr ((v, rest1), ps1)"
        "str_loop w d q k (acc @ v) rest1 ps1 = Inr ((r, rest), ps')"
    using Suc.prems suf by (auto split: if_splits list.splits sum.splits)
  then show ?case
  proof cases
    case 1
    then show ?thesis using refl by simp
  next
    case 2
    then show ?thesis by (rule Suc.IH)
  next
    case 3
    show ?thesis by (rule trans [OF line_macro_frame [OF 3(1)] Suc.IH [OF 3(2)]])
  qed
qed simp

lemma lookups: "lookup_sym n ps = (s, ps') \<Longrightarrow> R ps ps'" "lookup_const_sym n ps = (s, ps') \<Longrightarrow> R ps ps'"
  using refl warns trans [OF keys fresh] fresh
  by (auto simp: lookup_sym_def lookup_const_sym_def Let_def split: if_splits)

lemma next_ident_frame:
  assumes "next_ident w d prev pre suf ps = Inr (x, ps')" shows "R ps ps'"
proof -
  have s: "R ps1 ps2" if "sym_or_nmy n ps1 = (t, ps2)" for n t ps1 ps2
    using that lookups refl by (auto simp: sym_or_nmy_def split: if_splits)
  let ?name = "takeWhile name_char suf"
  consider "get_keyword ?name \<noteq> None" | "get_keyword ?name = None" "string_lex prev"
    | "get_keyword ?name = None" "\<not> string_lex prev" "CHR ''$'' \<in> set ?name"
    | "get_keyword ?name = None" "\<not> string_lex prev" "CHR ''$'' \<notin> set ?name" by blast
  then show ?thesis
  proof cases
    case 1
    then show ?thesis using assms refl by (auto simp: next_ident_def Let_def)
  next
    case 2
    then show ?thesis using assms refl warns(1) by (auto simp: next_ident_def Let_def split: if_splits)
  next
    case 3
    obtain name' ws rest' ps1 where e: "expand_name w d suf ps = Inr ((name', ws, rest'), ps1)"
      using assms 3 by (auto simp: next_ident_def Let_def split: sum.splits)
    obtain t ps2 where t: "sym_or_nmy name' ps1 = (t, ps2)" by (cases "sym_or_nmy name' ps1")
    have "ps' = ps2" using assms 3 e t by (simp add: next_ident_def Let_def)
    then show ?thesis using trans [OF expand_name_frame [OF e] s [OF t]] by simp
  next
    case 4
    obtain t ps2 where t: "sym_or_nmy ?name ps = (t, ps2)" by (cases "sym_or_nmy ?name ps")
    have "ps' = ps2" using assms 4 t by (simp add: next_ident_def Let_def)
    then show ?thesis using s [OF t] by simp
  qed
qed

lemma read_string_frame: "read_string w d pre q cs ps = Inr (x, ps') \<Longrightarrow> R ps ps'"
  using str_loop_frame [of d q "Suc (length cs)" "[]" cs ps] refl
  by (auto simp: read_string_def expand_str_def Let_def split: if_splits list.splits sum.splits simp del: str_loop.simps)

lemma next_other_frame:
  assumes "next_other w d first prev pre suf ps = Inr (x, ps')" shows "R ps ps'"
proof -
  have s: "R ps1 ps2" if "str_token first prev val ps1 = (t, ps2)" for val t ps1 ps2
    using that lookups refl by (auto simp: str_token_def split: if_splits prod.splits)
  show ?thesis
  proof (cases "hd suf = CHR 0x22 \<or> hd suf = CHR 0x27")
    case True
    then obtain y ps1 where y: "read_string w d pre (hd suf) (tl suf) ps = Inr (y, ps1)"
      using assms by (auto simp: next_other_def split: sum.splits)
    moreover obtain t ps2 where t: "str_token first prev (fst y) ps1 = (t, ps2)" by (cases "str_token first prev (fst y) ps1")
    ultimately have "ps' = ps2"
      using assms True by (cases y) (auto simp: next_other_def Let_def)
    then show ?thesis using trans [OF read_string_frame [OF y] s [OF t]] by simp
  next
    case False
    then show ?thesis using assms refl unfolding next_other_def by (auto split: option.splits)
  qed
qed

lemma tok_loop_frame: "tok_loop w d first k prev pre suf ps = Inr (ts, ps') \<Longrightarrow> R ps ps'"
proof (induction k arbitrary: prev pre suf ps ts)
  case (Suc k)
  show ?case
  proof (cases "suf = [] \<or> (\<not> name_char (hd suf) \<and> hd suf = CHR ''#'')")
    case True
    then show ?thesis using Suc.prems refl by (cases suf) auto
  next
    case False
    then obtain c cs where suf: "suf = c # cs" by (cases suf) auto
    let ?n = "if name_char c then next_ident w d prev pre suf ps else next_other w d first prev pre suf ps"
    obtain t pre' rest ps1 ts1 where n: "?n = Inr ((t, pre', rest), ps1)"
      and l: "tok_loop w d first k t pre' rest ps1 = Inr (ts1, ps')"
      using Suc.prems False suf by (cases ?n) (auto simp: map_sum_def split: sum.splits)
    have "R ps ps1" using n next_ident_frame next_other_frame by (auto split: if_splits)
    then show ?thesis using Suc.IH [OF l] trans by blast
  qed
qed (simp add: refl)

lemma tokenize_frame:
  assumes "tokenize w d s ps = Inr (ts, ps')" shows "R ps ps'"
proof -
  have "R (ps\<lparr>line_text := s\<rparr>) ps'"
    using assms tok_loop_frame parse_assignment_frame refl unfolding tokenize_def Let_def map_sum_def
    by (auto split: if_splits option.splits sum.splits)
  then show ?thesis using texts trans by blast
qed

end

section \<open>The properties of a node\<close>

text \<open>Properties change the contents of the node \<open>i\<close>, not its place in the menu.\<close>

definition keeps_place :: "(menu_node \<Rightarrow> menu_node) \<Rightarrow> bool" where
  "keeps_place f \<longleftrightarrow>
     (\<forall>n. item (f n) = item n \<and> parent (f n) = parent n \<and> nd_next (f n) = nd_next n \<and> nd_list (f n) = nd_list n)"

text \<open>What the properties of an entry leave alone in its symbol or choice.\<close>

definition keeps_links :: "(symbol \<Rightarrow> symbol) \<Rightarrow> bool" where
  "keeps_links f \<longleftrightarrow>
     (\<forall>o_s. choice (f o_s) = choice o_s \<and> dependents (f o_s) = dependents o_s \<and> rev_dep (f o_s) = rev_dep o_s)"

definition keeps_members :: "(choice_obj \<Rightarrow> choice_obj) \<Rightarrow> bool" where
  "keeps_members f \<longleftrightarrow> (\<forall>o_c. c_syms (f o_c) = c_syms o_c \<and> c_dependents (f o_c) = c_dependents o_c)"

locale props_frame = line_frame +
  fixes i :: nat
  assumes lines: "R ps (ps\<lparr>file_lines := ls\<rparr>)" "R ps (ps\<lparr>cur_line := l\<rparr>)" "R ps (ps\<lparr>tokens := ts\<rparr>)"
      "R ps (ps\<lparr>reuse_tokens := b\<rparr>)"
    and node: "keeps_place f \<Longrightarrow> R ps (upd_node i f ps)"
    and syms: "item (node_at ps i) = ISym s \<Longrightarrow> keeps_links g \<Longrightarrow> R ps (upd_sym s g ps)"
    and chos: "item (node_at ps i) = ICho c \<Longrightarrow> keeps_members h \<Longrightarrow> R ps (upd_choice c h ps)"
    and dlist: "R ps (ps\<lparr>conf := (conf ps)\<lparr>defconfig_list := D\<rparr>\<rparr>)"
begin

lemma readline_frame: "readline ps = (l, ps') \<Longrightarrow> R ps ps'"
  using refl lines(1) by (auto simp: readline_def split: list.splits)

lemma join_line_frame: "join_line line ps = (line', ps') \<Longrightarrow> R ps ps'"
proof (induction line ps rule: join_line.induct)
  case (1 line ps)
  show ?case
  proof (cases "continued line")
    case True
    obtain l ps1 where r: "readline ps = (l, ps1)" by (cases "readline ps")
    have "join_line (take (length line - 2) line @ l) (ps1\<lparr>cur_line := Suc (cur_line ps1)\<rparr>) = (line', ps')"
      using 1(2) True r by (subst (asm) join_line.simps) simp
    then have "R (ps1\<lparr>cur_line := Suc (cur_line ps1)\<rparr>) ps'" using 1(1) [OF True] r by simp
    then show ?thesis by (rule trans [OF trans [OF readline_frame [OF r] lines(2)]])
  next
    case False
    then have "ps' = ps" using 1(2) by (subst (asm) join_line.simps) simp
    then show ?thesis using refl by simp
  qed
qed

lemma set_tokens_frame:
  assumes "set_tokens w d line ps = Inr ps'" shows "R ps ps'"
proof -
  obtain line' ps1 where j: "join_line line ps = (line', ps1)" by (cases "join_line line ps")
  obtain ts ps2 where t: "tokenize w d line' ps1 = Inr (ts, ps2)" "ps' = ps2\<lparr>tokens := ts\<rparr>"
    using assms j by (auto simp: set_tokens_def map_sum_def split: sum.splits)
  show ?thesis using trans [OF join_line_frame [OF j] trans [OF tokenize_frame [OF t(1)] lines(3)]] t(2) by simp
qed

lemma next_line_frame:
  assumes "next_line w d ps = Inr (b, ps')" shows "R ps ps'"
proof (cases "reuse_tokens ps")
  case True
  then show ?thesis using assms lines(4) by (auto simp: next_line_def)
next
  case False
  obtain l ps1 where r: "readline ps = (l, ps1)" by (cases "readline ps")
  show ?thesis
  proof (cases "l = []")
    case True
    then show ?thesis using assms False r readline_frame by (simp add: next_line_def)
  next
    case F: False
    then have "set_tokens w d l (ps1\<lparr>cur_line := Suc (cur_line ps1)\<rparr>) = Inr ps'"
      using assms False r by (auto simp: next_line_def map_sum_def split: sum.splits)
    then show ?thesis by (rule trans [OF trans [OF readline_frame [OF r] lines(2)] set_tokens_frame])
  qed
qed

lemma after_help_frame:
  assumes "after_help w d line ps = Inr ps'" shows "R ps ps'"
proof (cases "line = []")
  case True
  then show ?thesis using assms refl by (simp add: after_help_def)
next
  case False
  then obtain ps1 where "set_tokens w d line ps = Inr ps1" "ps' = ps1\<lparr>reuse_tokens := True\<rparr>"
    using assms by (cases "set_tokens w d line ps") (auto simp: after_help_def line_after_help_def)
  then show ?thesis using trans [OF set_tokens_frame lines(4)] by simp
qed

lemma nodes:
  "R ps (upd_node i (\<lambda>n. n\<lparr>nd_prompt := P\<rparr>) ps)" "R ps (upd_node i (\<lambda>n. n\<lparr>nd_help := h\<rparr>) ps)"
  "R ps (upd_node i (\<lambda>n. n\<lparr>dep := E n\<rparr>) ps)" "R ps (upd_node i (\<lambda>n. n\<lparr>nd_selects := L n\<rparr>) ps)"
  "R ps (upd_node i (\<lambda>n. n\<lparr>nd_implies := L n\<rparr>) ps)" "R ps (upd_node i (\<lambda>n. n\<lparr>nd_defaults := M n\<rparr>) ps)"
  "R ps (upd_node i (\<lambda>n. n\<lparr>nd_ranges := N n\<rparr>) ps)" "R ps (upd_node i (\<lambda>n. n\<lparr>nd_visibility := E n\<rparr>) ps)"
  by (rule node, simp add: keeps_place_def)+

lemma set_type_frame:
  assumes "item_sc (item (node_at ps i)) = Some x" shows "R ps (set_type x t ps)"
proof -
  define ps1 where "ps1 = (if sc_orig_type (conf ps) x \<noteq> UNKNOWN \<and> sc_orig_type (conf ps) x \<noteq> t
    then warn_plain (name_and_loc (conf ps) x @ '' defined with multiple types, '' @ TYPE_TO_STR t @ '' will be used'') ps
    else ps)"
  have "node_at ps1 i = node_at ps i" by (simp add: ps1_def warn_plain_def node_at_def)
  then have "R ps1 (put_type x t ps1)"
    using assms syms chos
    by (auto simp: put_type_def item_sc_def keeps_links_def keeps_members_def split: node_item.splits)
  moreover have "R ps ps1" using refl warns(2) by (simp add: ps1_def)
  ultimately show ?thesis unfolding set_type_def ps1_def [symmetric] using trans by blast
qed

lemma parse_prompt_frame:
  assumes "parse_prompt i ts ps = Inr ps'" shows "R ps ps'"
proof -
  obtain x where x: "item_sc (item (node_at ps i)) = Some x"
    using assms by (auto simp: parse_prompt_def split: option.splits)
  define ps1 where "ps1 = (if nd_prompt (node_at ps i) \<noteq> None
    then warn_plain (name_and_loc (conf ps) x @ '' defined with multiple prompts in single location'') ps else ps)"
  obtain t r where ts: "ts = TStr t # r"
    using assms x by (auto simp: parse_prompt_def Let_def split: list.splits tok.splits)
  define ps2 where "ps2 = (if t \<noteq> strip t then warn_plain (name_and_loc (conf ps1) x @
      '' has leading or trailing whitespace in its prompt'') ps1 else ps1)"
  have "map_sum id (\<lambda>c. upd_node i (\<lambda>n. n\<lparr>nd_prompt := Some (strip t, c)\<rparr>) ps2) (parse_cond ps2 r) = Inr ps'"
    using assms x ts unfolding parse_prompt_def ps2_def ps1_def Let_def by simp
  then obtain c where "ps' = upd_node i (\<lambda>n. n\<lparr>nd_prompt := Some (strip t, c)\<rparr>) ps2"
    by (auto simp: map_sum_def split: sum.splits)
  moreover have "R ps ps1" "R ps1 ps2" using warns(2) refl by (simp_all add: ps1_def ps2_def)
  ultimately show ?thesis using nodes(1) trans by blast
qed

lemma parse_help_frame:
  assumes "parse_help w d i ps = Inr ps'" shows "R ps ps'"
proof -
  obtain x where x: "item_sc (item (node_at ps i)) = Some x"
    using assms by (auto simp: parse_help_def split: option.splits)
  define ps1 where "ps1 = (if nd_help (node_at ps i) \<noteq> None then warn_plain (name_and_loc (conf ps) x @
      '' defined with more than one help text -- only the last one will be used'') ps else ps)"
  obtain line ps2 where l: "readline (ps1\<lparr>file_lines := dropWhile isspace (file_lines ps1)\<rparr>) = (line, ps2)"
    by (cases "readline (ps1\<lparr>file_lines := dropWhile isspace (file_lines ps1)\<rparr>)")
  define ps3 where "ps3 = ps2\<lparr>cur_line := cur_line ps2 + length (takeWhile isspace (file_lines ps1)) + 1\<rparr>"
  have r1: "R ps ps1" using warns(2) refl by (simp add: ps1_def)
  have r2: "R ps1 ps2" by (rule trans [OF lines(1) readline_frame [OF l]])
  have r3: "R ps ps3" using trans [OF trans [OF r1 r2] lines(2)] by (simp add: ps3_def)
  obtain more_lines stop rest where h: "help_lines (indentation (expandtabs line)) (file_lines ps3) = (more_lines, stop, rest)"
    by (cases "help_lines (indentation (expandtabs line)) (file_lines ps3)")
  have "parse_help w d i ps =
    (if line = [] \<or> indentation (expandtabs line) = 0 then empty_help w d i x line ps3
     else after_help w d stop
       (upd_node i (\<lambda>n. n\<lparr>nd_help := Some (rstrip (concat (drop (indentation (expandtabs line)) (expandtabs line) # more_lines)))\<rparr>)
         (ps3\<lparr>file_lines := rest,
              cur_line := cur_line ps3 + length (drop (indentation (expandtabs line)) (expandtabs line) # more_lines)\<rparr>)))"
    by (simp only: parse_help_def x option.case Let_def ps1_def [symmetric] l h ps3_def [symmetric] prod.case)
  then have "empty_help w d i x line ps3 = Inr ps' \<or>
    (\<exists>t n. after_help w d stop (upd_node i (\<lambda>n. n\<lparr>nd_help := t\<rparr>) (ps3\<lparr>file_lines := rest, cur_line := n\<rparr>)) = Inr ps')"
    using assms by (auto split: if_splits)
  then show ?thesis
  proof (elim disjE exE)
    assume "empty_help w d i x line ps3 = Inr ps'"
    then have "R ps3 ps'"
      unfolding empty_help_def by (intro trans [OF trans [OF warns(2) nodes(2)] after_help_frame])
    then show ?thesis using r3 trans by blast
  next
    fix t n assume a: "after_help w d stop (upd_node i (\<lambda>n. n\<lparr>nd_help := t\<rparr>) (ps3\<lparr>file_lines := rest, cur_line := n\<rparr>)) = Inr ps'"
    have "R ps3 (ps3\<lparr>file_lines := rest, cur_line := n\<rparr>)" by (rule trans [OF lines(1) lines(2)])
    from trans [OF this trans [OF nodes(2) after_help_frame [OF a]]] show ?thesis by (rule trans [OF r3])
  qed
qed

lemma cond_frame:
  assumes "\<And>c. R ps1 (g c)" "map_sum id g r = Inr ps'" "R ps ps1" shows "R ps ps'"
  using assms trans by (auto simp: map_sum_def split: sum.splits)

lemma default_prop_frame: "default_prop i ts ps = Inr ps' \<Longrightarrow> R ps ps'"
  using nodes(6) by (auto simp: default_prop_def map_sum_def split: sum.splits)

lemma option_prop_frame:
  assumes "option_prop w i ts ps = Inr ps'" shows "R ps ps'"
proof -
  have v: "R ps1 (env_value w i s v ps1)" for s v ps1
    using warns(1) trans [OF lookups(2) nodes(6)]
    by (auto simp: env_value_def Let_def split: option.splits prod.splits)
  have e: "R ps ps'" if "env_option w i ts ps = Inr ps'" for ts
  proof -
    from that obtain s x where x: "item (node_at ps i) = ISym s"
      "ps' = env_value w i s x (upd_sym s (\<lambda>o_s. o_s\<lparr>env_var := Some x\<rparr>) ps) \<or>
      (\<exists>m. ps' = warn_here m (env_value w i s x (upd_sym s (\<lambda>o_s. o_s\<lparr>env_var := Some x\<rparr>) ps)))"
      by (auto simp: env_option_def Let_def split: option.splits sum.splits node_item.splits if_splits)
    have "R ps (upd_sym s (\<lambda>o_s. o_s\<lparr>env_var := Some x\<rparr>) ps)"
      by (rule syms [OF x(1)]) (simp add: keeps_links_def)
    then show ?thesis using x(2) trans v warns(1) by blast
  qed
  have a: "R ps (upd_sym s (\<lambda>o_s. o_s\<lparr>is_allnoconfig_y := True\<rparr>) ps)" if "item (node_at ps i) = ISym s" for s
    by (rule syms [OF that]) (simp add: keeps_links_def)
  show ?thesis
    using assms e a dlist warns(1) refl unfolding option_prop_def
    by (auto simp: defconfig_option_def allnoconfig_option_def modules_warning_def
        split: if_splits node_item.splits option.splits)
qed

lemma parse_prop_frame:
  assumes "parse_prop w d i t0 ts ps = Some (Inr ps')" shows "R ps ps'"
proof -
  have ty: "R ps ps'" if "type_prop i t ts ps = Inr ps'" for t
    using that trans [OF set_type_frame parse_prompt_frame] set_type_frame
    by (auto simp: type_prop_def split: option.splits if_splits)
  have df: "R ps ps'" if "def_type_prop i t ts ps = Inr ps'" for t
    using that trans [OF set_type_frame default_prop_frame]
    by (auto simp: def_type_prop_def split: option.splits)
  have ot: "depends_prop i ts ps = Inr ps' \<Longrightarrow> R ps ps'" "select_prop i ts ps = Inr ps' \<Longrightarrow> R ps ps'"
    "imply_prop i ts ps = Inr ps' \<Longrightarrow> R ps ps'" "range_prop i ts ps = Inr ps' \<Longrightarrow> R ps ps'"
    "visible_prop i ts ps = Inr ps' \<Longrightarrow> R ps ps'" "optional_prop i ps = Inr ps' \<Longrightarrow> R ps ps'"
    "R ps (modules_warning i m ps)" for m
    using nodes chos warns(1) refl
    by (auto simp: keeps_members_def depends_prop_def select_prop_def imply_prop_def range_prop_def visible_prop_def
        optional_prop_def modules_warning_def map_sum_def
        split: option.splits sum.splits if_splits node_item.splits)
  show ?thesis
  proof (cases "type_of_token t0")
    case N: None
    show ?thesis
    proof (cases "DEF_TOKEN_TO_TYPE t0")
      case None
      then show ?thesis using assms N
        by (auto simp: parse_prop_def split: if_splits
            intro: ot parse_help_frame default_prop_frame parse_prompt_frame option_prop_frame)
    qed (use assms N df in \<open>simp add: parse_prop_def\<close>)
  qed (use assms ty in \<open>simp add: parse_prop_def\<close>)
qed

lemma props_loop_frame: "props_loop w d i k ps = Inr ps' \<Longrightarrow> R ps ps'"
proof (induction k arbitrary: ps)
  case (Suc k)
  obtain b ps1 where n: "next_line w d ps = Inr (b, ps1)" using Suc.prems by (auto split: sum.splits)
  note r = next_line_frame [OF n]
  show ?case
  proof (cases b)
    case False
    then show ?thesis using Suc.prems n r by simp
  next
    case True
    have e: "props_loop w d i (Suc k) ps =
      (case tokens ps1 of
         [] \<Rightarrow> props_loop w d i k ps1
       | TKey t0 # ts \<Rightarrow>
           (case parse_prop w d i t0 ts ps1 of
              None \<Rightarrow> Inr (ps1\<lparr>reuse_tokens := True\<rparr>)
            | Some (Inl e) \<Rightarrow> Inl e
            | Some (Inr ps2) \<Rightarrow> props_loop w d i k ps2)
       | _ # _ \<Rightarrow> Inr (ps1\<lparr>reuse_tokens := True\<rparr>))"
      using n True by simp
    consider "props_loop w d i k ps1 = Inr ps'" | "ps' = ps1\<lparr>reuse_tokens := True\<rparr>"
      | t0 ts ps2 where "parse_prop w d i t0 ts ps1 = Some (Inr ps2)" "props_loop w d i k ps2 = Inr ps'"
    proof (cases "tokens ps1")
      case Nil
      then show ?thesis using that(1) Suc.prems e by (simp del: props_loop.simps)
    next
      case (Cons t ts)
      show ?thesis
      proof (cases t)
        case (TKey t0)
        then show ?thesis
          using that Suc.prems e Cons
          by (cases "parse_prop w d i t0 ts ps1"; cases "the (parse_prop w d i t0 ts ps1)")
            (simp_all del: props_loop.simps)
      qed (use that(2) Suc.prems e Cons in \<open>simp_all del: props_loop.simps\<close>)
    qed
    then show ?thesis
    proof cases
      case 1
      then show ?thesis using Suc.IH r trans by blast
    next
      case 2
      then show ?thesis using trans [OF r lines(4)] by simp
    next
      case 3
      then show ?thesis using trans [OF r trans [OF parse_prop_frame [OF 3(1)] Suc.IH [OF 3(2)]]] by simp
    qed
  qed
qed simp

lemma parse_props_frame: "parse_props w d i ps = Inr ps' \<Longrightarrow> R ps ps'"
  unfolding parse_props_def by (rule trans [OF nodes(3) props_loop_frame])

end

end
