(* ===== verification/Menu_Finalize.thy ===== *)
theory Menu_Finalize
  imports Config
begin

text \<open>
  The processing of the menu tree after parsing: \<^verbatim>\<open>_finalize_node\<close> with \<^verbatim>\<open>_propagate_deps\<close>,
  \<^verbatim>\<open>_add_props_to_sym\<close>, \<^verbatim>\<open>_auto_menu_dep\<close>, \<^verbatim>\<open>_flatten\<close>, \<^verbatim>\<open>_remove_ifs\<close> and
  \<^verbatim>\<open>_finalize_choice\<close>. All of them change the nodes, symbols and choices in place. A loop over
  the pointers takes a bound, and is None when that is not enough.
\<close>

section \<open>Changing the objects\<close>

definition set_node :: "nat \<Rightarrow> (menu_node \<Rightarrow> menu_node) \<Rightarrow> kconfig \<Rightarrow> kconfig" where
  "set_node i f kc = kc\<lparr>nodetab := (nodetab kc)(i := f (nodetab kc i))\<rparr>"

definition set_sym :: "sref \<Rightarrow> (symbol \<Rightarrow> symbol) \<Rightarrow> kconfig \<Rightarrow> kconfig" where
  "set_sym s f kc = kc\<lparr>symtab := (symtab kc)(s \<mapsto> f (sym_obj kc s))\<rparr>"

definition set_choice :: "nat \<Rightarrow> (choice_obj \<Rightarrow> choice_obj) \<Rightarrow> kconfig \<Rightarrow> kconfig" where
  "set_choice c f kc = kc\<lparr>choicetab := (choicetab kc)(c := f (choicetab kc c))\<rparr>"

section \<open>Dependencies\<close>

definition auto_menu_dep :: "kconfig \<Rightarrow> sref \<Rightarrow> nat \<Rightarrow> bool" where
  "auto_menu_dep kc s j =
     expr_depends_on
       (case nd_prompt (nodetab kc j) of Some p \<Rightarrow> snd p | None \<Rightarrow> dep (nodetab kc j)) s"

definition is_choice_item :: "node_item \<Rightarrow> bool" where
  "is_choice_item it = (case it of ICho _ \<Rightarrow> True | _ \<Rightarrow> False)"

definition is_sc_item :: "node_item \<Rightarrow> bool" where
  "is_sc_item it = (case it of ISym _ \<Rightarrow> True | ICho _ \<Rightarrow> True | _ \<Rightarrow> False)"

text \<open>What one child gets from its parent.\<close>

definition propagate_to :: "expr \<Rightarrow> expr \<Rightarrow> menu_node \<Rightarrow> menu_node" where
  "propagate_to basedep visible_if n =
     (let d = make_and (dep n) basedep
      in if is_sc_item (item n) then
           n\<lparr>dep := d,
             nd_prompt := map_option (\<lambda>(t, c). (t, make_and c (make_and visible_if d))) (nd_prompt n),
             nd_defaults := map (\<lambda>(v, c). (v, make_and c d)) (nd_defaults n),
             nd_ranges := map (\<lambda>(l, h, c). (l, h, make_and c d)) (nd_ranges n),
             nd_selects := map (\<lambda>(s, c). (s, make_and c d)) (nd_selects n),
             nd_implies := map (\<lambda>(s, c). (s, make_and c d)) (nd_implies n)\<rparr>
         else n\<lparr>dep := d, nd_prompt := map_option (\<lambda>(t, c). (t, make_and c d)) (nd_prompt n)\<rparr>)"

primrec propagate_loop :: "expr \<Rightarrow> expr \<Rightarrow> nat \<Rightarrow> nat option \<Rightarrow> kconfig \<Rightarrow> kconfig option" where
  "propagate_loop basedep visible_if 0 cur kc = None"
| "propagate_loop basedep visible_if (Suc k) cur kc =
     (case cur of
        None \<Rightarrow> Some kc
      | Some i \<Rightarrow>
          (let kc1 = set_node i (propagate_to basedep visible_if) kc
           in propagate_loop basedep visible_if k (nd_next (nodetab kc1 i)) kc1))"

definition base_dep :: "menu_node \<Rightarrow> expr" where
  "base_dep n = (case item n of ICho c \<Rightarrow> Leaf (Cho c) | _ \<Rightarrow> dep n)"

definition propagate_deps :: "nat \<Rightarrow> nat \<Rightarrow> expr \<Rightarrow> kconfig \<Rightarrow> kconfig option" where
  "propagate_deps k i visible_if kc =
     propagate_loop (base_dep (nodetab kc i)) visible_if k (nd_list (nodetab kc i)) kc"

section \<open>Properties of symbols\<close>

definition add_rev_dep :: "sref \<Rightarrow> sref \<times> expr \<Rightarrow> kconfig \<Rightarrow> kconfig" where
  "add_rev_dep s tc kc =
     set_sym (fst tc) (\<lambda>t. t\<lparr>rev_dep := make_or (rev_dep t) (make_and (Leaf (Sym s)) (snd tc))\<rparr>) kc"

definition add_weak_rev_dep :: "sref \<Rightarrow> sref \<times> expr \<Rightarrow> kconfig \<Rightarrow> kconfig" where
  "add_weak_rev_dep s tc kc =
     set_sym (fst tc) (\<lambda>t. t\<lparr>weak_rev_dep := make_or (weak_rev_dep t) (make_and (Leaf (Sym s)) (snd tc))\<rparr>) kc"

definition add_props_to_sym :: "menu_node \<Rightarrow> sref \<Rightarrow> kconfig \<Rightarrow> kconfig" where
  "add_props_to_sym n s kc =
     fold (add_weak_rev_dep s) (nd_implies n)
       (fold (add_rev_dep s) (nd_selects n)
         (set_sym s
           (\<lambda>o_s. o_s\<lparr>direct_dep := make_or (direct_dep o_s) (dep n),
                      defaults := defaults o_s @ nd_defaults n, ranges := ranges o_s @ nd_ranges n,
                      selects := selects o_s @ nd_selects n, implies := implies o_s @ nd_implies n\<rparr>) kc))"

section \<open>Flattening\<close>

text \<open>The children of a node get its parent; the last one of them.\<close>

primrec reparent :: "nat \<Rightarrow> nat option \<Rightarrow> nat \<Rightarrow> kconfig \<Rightarrow> (nat \<times> kconfig) option" where
  "reparent 0 p i kc = None"
| "reparent (Suc k) p i kc =
     (let kc1 = set_node i (\<lambda>n. n\<lparr>parent := p\<rparr>) kc
      in case nd_next (nodetab kc1 i) of
           None \<Rightarrow> Some (i, kc1)
         | Some j \<Rightarrow> reparent k p j kc1)"

definition flattens :: "menu_node \<Rightarrow> bool" where
  "flattens n \<longleftrightarrow> nd_list n \<noteq> None \<and> nd_prompt n = None \<and> \<not> is_choice_item (item n)"

definition lift_children :: "nat \<Rightarrow> nat \<Rightarrow> kconfig \<Rightarrow> kconfig option" where
  "lift_children k i kc =
     (case nd_list (nodetab kc i) of
        None \<Rightarrow> Some kc
      | Some l \<Rightarrow>
          (case reparent k (parent (nodetab kc i)) l kc of
             None \<Rightarrow> None
           | Some (z, kc1) \<Rightarrow>
               (let kc2 = set_node z (\<lambda>n. n\<lparr>nd_next := nd_next (nodetab kc1 i)\<rparr>) kc1
                in Some (set_node i (\<lambda>n. n\<lparr>nd_next := nd_list n, nd_list := None\<rparr>) kc2))))"

primrec flatten :: "nat \<Rightarrow> nat option \<Rightarrow> kconfig \<Rightarrow> kconfig option" where
  "flatten 0 cur kc = None"
| "flatten (Suc k) cur kc =
     (case cur of
        None \<Rightarrow> Some kc
      | Some i \<Rightarrow>
          (case (if flattens (nodetab kc i) then lift_children k i kc else Some kc) of
             None \<Rightarrow> None
           | Some kc1 \<Rightarrow> flatten k (nd_next (nodetab kc1 i)) kc1))"

text \<open>From a pointer to the next node that is not an \<^verbatim>\<open>if\<close>.\<close>

primrec skip_ifs :: "nat \<Rightarrow> kconfig \<Rightarrow> nat option \<Rightarrow> nat option option" where
  "skip_ifs 0 kc cur = None"
| "skip_ifs (Suc k) kc cur =
     (case cur of
        None \<Rightarrow> Some None
      | Some i \<Rightarrow> if item (nodetab kc i) = INone then skip_ifs k kc (nd_next (nodetab kc i)) else Some cur)"

primrec unlink_ifs :: "nat \<Rightarrow> nat option \<Rightarrow> kconfig \<Rightarrow> kconfig option" where
  "unlink_ifs 0 cur kc = None"
| "unlink_ifs (Suc k) cur kc =
     (case cur of
        None \<Rightarrow> Some kc
      | Some i \<Rightarrow>
          (case skip_ifs k kc (nd_next (nodetab kc i)) of
             None \<Rightarrow> None
           | Some nxt \<Rightarrow> unlink_ifs k nxt (set_node i (\<lambda>n. n\<lparr>nd_next := nxt\<rparr>) kc)))"

definition remove_ifs :: "nat \<Rightarrow> nat \<Rightarrow> kconfig \<Rightarrow> kconfig option" where
  "remove_ifs k i kc =
     (case skip_ifs k kc (nd_list (nodetab kc i)) of
        None \<Rightarrow> None
      | Some cur \<Rightarrow> unlink_ifs k cur (set_node i (\<lambda>n. n\<lparr>nd_list := cur\<rparr>) kc))"

section \<open>Choices\<close>

primrec choice_members :: "nat \<Rightarrow> nat \<Rightarrow> nat option \<Rightarrow> kconfig \<Rightarrow> kconfig option" where
  "choice_members c 0 cur kc = None"
| "choice_members c (Suc k) cur kc =
     (case cur of
        None \<Rightarrow> Some kc
      | Some i \<Rightarrow>
          choice_members c k (nd_next (nodetab kc i))
            (case item (nodetab kc i) of
               ISym s \<Rightarrow>
                 set_choice c (\<lambda>o_c. o_c\<lparr>c_syms := c_syms o_c @ [s]\<rparr>)
                   (set_sym s (\<lambda>o_s. o_s\<lparr>choice := Some c\<rparr>) kc)
             | _ \<Rightarrow> kc))"

definition infer_choice_type :: "nat \<Rightarrow> kconfig \<Rightarrow> kconfig" where
  "infer_choice_type c kc =
     (if c_orig_type (choicetab kc c) = UNKNOWN then
        (case find (\<lambda>s. orig_type (sym_obj kc s) \<noteq> UNKNOWN) (c_syms (choicetab kc c)) of
           None \<Rightarrow> kc
         | Some s \<Rightarrow> set_choice c (\<lambda>o_c. o_c\<lparr>c_orig_type := orig_type (sym_obj kc s)\<rparr>) kc)
      else kc)"

definition infer_sym_types :: "nat \<Rightarrow> kconfig \<Rightarrow> kconfig" where
  "infer_sym_types c kc =
     fold (\<lambda>s kc. if orig_type (sym_obj kc s) = UNKNOWN
                  then set_sym s (\<lambda>o_s. o_s\<lparr>orig_type := c_orig_type (choicetab kc c)\<rparr>) kc else kc)
       (c_syms (choicetab kc c)) kc"

definition finalize_choice :: "nat \<Rightarrow> nat \<Rightarrow> nat \<Rightarrow> kconfig \<Rightarrow> kconfig option" where
  "finalize_choice k c i kc =
     map_option (\<lambda>kc1. infer_sym_types c (infer_choice_type c kc1))
       (choice_members c k (nd_list (nodetab kc i)) kc)"

section \<open>Nodes\<close>

text \<open>The nodes after \<open>i\<close> that depend on its symbol; the last one of them.\<close>

primrec implicit_loop ::
  "(nat \<Rightarrow> kconfig \<Rightarrow> kconfig option) \<Rightarrow> nat \<Rightarrow> sref \<Rightarrow> nat \<Rightarrow> nat \<Rightarrow> kconfig \<Rightarrow> (nat \<times> kconfig) option" where
  "implicit_loop fin i s 0 cur kc = None"
| "implicit_loop fin i s (Suc k) cur kc =
     (case nd_next (nodetab kc cur) of
        None \<Rightarrow> Some (cur, kc)
      | Some j \<Rightarrow>
          if auto_menu_dep kc s j then
            (case fin j kc of
               None \<Rightarrow> None
             | Some kc1 \<Rightarrow> implicit_loop fin i s k j (set_node j (\<lambda>n. n\<lparr>parent := Some i\<rparr>) kc1))
          else Some (cur, kc))"

definition tilt_submenu :: "nat \<Rightarrow> nat \<Rightarrow> kconfig \<Rightarrow> kconfig" where
  "tilt_submenu i cur kc =
     (if cur \<noteq> i then
        set_node cur (\<lambda>n. n\<lparr>nd_next := None\<rparr>)
          (set_node i (\<lambda>n. n\<lparr>nd_list := nd_next n, nd_next := nd_next (nodetab kc cur)\<rparr>) kc)
      else kc)"

primrec children_loop ::
  "(nat \<Rightarrow> kconfig \<Rightarrow> kconfig option) \<Rightarrow> nat \<Rightarrow> nat option \<Rightarrow> kconfig \<Rightarrow> kconfig option" where
  "children_loop fin 0 cur kc = None"
| "children_loop fin (Suc k) cur kc =
     (case cur of
        None \<Rightarrow> Some kc
      | Some j \<Rightarrow>
          (case fin j kc of
             None \<Rightarrow> None
           | Some kc1 \<Rightarrow> children_loop fin k (nd_next (nodetab kc1 j)) kc1))"

text \<open>The three parts of \<^verbatim>\<open>_finalize_node\<close>: the symbol or the children, the level, the choice.\<close>

definition finalize_item ::
  "(expr \<Rightarrow> nat \<Rightarrow> kconfig \<Rightarrow> kconfig option) \<Rightarrow> nat \<Rightarrow> expr \<Rightarrow> nat \<Rightarrow> kconfig \<Rightarrow> kconfig option" where
  "finalize_item fin k visible_if i kc =
     (let n = nodetab kc i
      in case item n of
           ISym s \<Rightarrow>
             map_option (\<lambda>(cur, kc1). tilt_submenu i cur kc1)
               (implicit_loop (fin visible_if) i s k i (add_props_to_sym n s kc))
         | it \<Rightarrow>
             if nd_list n = None then Some kc
             else
               (let vis = (if it = IMenu then make_and visible_if (nd_visibility n) else visible_if)
                in case propagate_deps k i vis kc of
                     None \<Rightarrow> None
                   | Some kc1 \<Rightarrow> children_loop (fin vis) k (nd_list (nodetab kc1 i)) kc1))"

definition finalize_level :: "nat \<Rightarrow> nat \<Rightarrow> kconfig \<Rightarrow> kconfig option" where
  "finalize_level k i kc =
     (if nd_list (nodetab kc i) = None then Some kc
      else Option.bind (flatten k (nd_list (nodetab kc i)) kc) (remove_ifs k i))"

definition finalize_if_choice :: "nat \<Rightarrow> nat \<Rightarrow> kconfig \<Rightarrow> kconfig option" where
  "finalize_if_choice k i kc =
     (let n = nodetab kc i
      in case item n of
           ICho c \<Rightarrow>
             finalize_choice k c i
               (set_choice c (\<lambda>o_c. o_c\<lparr>c_direct_dep := make_or (c_direct_dep o_c) (dep n),
                                       c_defaults := c_defaults o_c @ nd_defaults n\<rparr>) kc)
         | _ \<Rightarrow> Some kc)"

primrec finalize_node :: "nat \<Rightarrow> expr \<Rightarrow> nat \<Rightarrow> kconfig \<Rightarrow> kconfig option" where
  "finalize_node 0 visible_if i kc = None"
| "finalize_node (Suc k) visible_if i kc =
     Option.bind (finalize_item (finalize_node k) k visible_if i kc)
       (\<lambda>kc1. Option.bind (finalize_level k i kc1) (finalize_if_choice k i))"

end
