(* ===== verification/Menu_Trees.thy ===== *)
theory Menu_Trees
  imports Menu_Finalize Menu_Walk
begin

text \<open>
  The loops over the menu tree, against the trees that the pointers represent: lists of
  siblings as segments, flattening as a function on trees, the removal of \<^verbatim>\<open>if\<close> nodes as a
  filter.
\<close>

section \<open>Nodes of a forest\<close>

definition ids :: "mtree list \<Rightarrow> nat list" where
  "ids ts = concat (map preorder ts)"

fun root :: "mtree \<Rightarrow> nat" where
  "root (MNode i cs) = i"

fun kids :: "mtree \<Rightarrow> mtree list" where
  "kids (MNode i cs) = cs"

lemma ids_simps [simp]: "ids [] = []" "ids (t # ts) = preorder t @ ids ts" "ids (ts @ us) = ids ts @ ids us"
  by (simp_all add: ids_def)

lemma preorder_ids [simp]: "preorder (MNode i cs) = i # ids cs"
  by (simp add: ids_def)

declare preorder.simps [simp del]

lemma root_kids [simp]: "MNode (root t) (kids t) = t"
  by (cases t) simp

lemma length_ids: "length ts \<le> length (ids ts)"
proof (induction ts)
  case (Cons t ts)
  then show ?case by (cases t) simp
qed simp

section \<open>What stays\<close>

definition same_ptrs :: "kconfig \<Rightarrow> kconfig \<Rightarrow> nat \<Rightarrow> bool" where
  "same_ptrs kc kc' j \<longleftrightarrow>
     parent (nodetab kc' j) = parent (nodetab kc j) \<and> nd_list (nodetab kc' j) = nd_list (nodetab kc j) \<and>
     nd_next (nodetab kc' j) = nd_next (nodetab kc j)"

text \<open>Only the pointers of nodes in \<open>X\<close> change, and of no node the item or whether it has a prompt.\<close>

definition rearranged :: "nat set \<Rightarrow> kconfig \<Rightarrow> kconfig \<Rightarrow> bool" where
  "rearranged X kc kc' \<longleftrightarrow>
     (\<forall>j. j \<notin> X \<longrightarrow> same_ptrs kc kc' j) \<and>
     (\<forall>j. item (nodetab kc' j) = item (nodetab kc j) \<and>
          (nd_prompt (nodetab kc' j) = None) = (nd_prompt (nodetab kc j) = None)) \<and>
     top_node kc' = top_node kc"

lemma rearranged_refl [simp]: "rearranged X kc kc"
  by (simp add: rearranged_def same_ptrs_def)

lemma rearranged_trans:
  "rearranged X kc kc1 \<Longrightarrow> rearranged Y kc1 kc2 \<Longrightarrow> X \<union> Y \<subseteq> Z \<Longrightarrow> rearranged Z kc kc2"
  unfolding rearranged_def same_ptrs_def by (metis Un_iff subsetD)

lemma rearranged_item: "rearranged X kc kc' \<Longrightarrow> item (nodetab kc' j) = item (nodetab kc j)"
  by (simp add: rearranged_def)

lemma rearranged_same: "rearranged X kc kc' \<Longrightarrow> j \<notin> X \<Longrightarrow> same_ptrs kc kc' j"
  by (simp add: rearranged_def)

lemma rearranged_next: "rearranged X kc kc' \<Longrightarrow> j \<notin> X \<Longrightarrow> nd_next (nodetab kc' j) = nd_next (nodetab kc j)"
  by (simp add: rearranged_def same_ptrs_def)

lemma set_node_tab [simp]:
  "nodetab (set_node i f kc) = (nodetab kc)(i := f (nodetab kc i))"
  "symtab (set_node i f kc) = symtab kc" "choicetab (set_node i f kc) = choicetab kc"
  "top_node (set_node i f kc) = top_node kc"
  by (simp_all add: set_node_def)

lemma set_node_rearranged:
  assumes "i \<in> X" "\<And>n. item (f n) = item n" "\<And>n. (nd_prompt (f n) = None) = (nd_prompt n = None)"
  shows "rearranged X kc (set_node i f kc)"
  using assms by (auto simp: rearranged_def same_ptrs_def)

text \<open>Changes of symbols and choices.\<close>

lemma same_nodes_rearranged:
  "nodetab kc' = nodetab kc \<Longrightarrow> top_node kc' = top_node kc \<Longrightarrow> rearranged X kc kc'"
  by (simp add: rearranged_def same_ptrs_def)

lemma repr_same:
  "\<forall>j \<in> set (ids ts). same_ptrs kc kc' j \<Longrightarrow> repr kc p i ts \<Longrightarrow> repr kc' p i ts"
  by (induction kc p i ts rule: repr.induct) (auto simp: same_ptrs_def)

section \<open>Segments\<close>

text \<open>The nodes from the pointer \<open>i\<close> up to the pointer \<open>e\<close>, with parent \<open>p\<close>.\<close>

fun seg :: "kconfig \<Rightarrow> nat \<Rightarrow> nat option \<Rightarrow> mtree list \<Rightarrow> nat option \<Rightarrow> bool" where
  "seg kc p i [] e \<longleftrightarrow> i = e"
| "seg kc p i (MNode j cs # ts) e \<longleftrightarrow>
     i = Some j \<and> parent (nodetab kc j) = Some p \<and>
     repr kc j (nd_list (nodetab kc j)) cs \<and> seg kc p (nd_next (nodetab kc j)) ts e"

lemma repr_seg: "repr kc p i ts = seg kc p i ts None"
  by (induction kc p i ts rule: repr.induct) auto

lemma seg_append: "seg kc p i (xs @ ys) e \<longleftrightarrow> (\<exists>m. seg kc p i xs m \<and> seg kc p m ys e)"
  by (induction kc p i xs e rule: seg.induct) auto

lemma seg_same: "\<forall>j \<in> set (ids ts). same_ptrs kc kc' j \<Longrightarrow> seg kc p i ts e \<Longrightarrow> seg kc' p i ts e"
  by (induction kc p i ts e rule: seg.induct) (auto simp: same_ptrs_def intro: repr_same)

lemma seg_rearranged:
  assumes "seg kc p i ts e" "rearranged X kc kc'" "set (ids ts) \<inter> X = {}"
  shows "seg kc' p i ts e"
  using assms(2,3) rearranged_same [OF assms(2)] by (intro seg_same [OF _ assms(1)]) auto

lemma repr_rearranged:
  assumes "repr kc p i ts" "rearranged X kc kc'" "set (ids ts) \<inter> X = {}"
  shows "repr kc' p i ts"
  using seg_rearranged [OF _ assms(2,3)] assms(1) by (simp add: repr_seg)

text \<open>The end of a segment is the successor of its last root.\<close>

lemma seg_end: "seg kc p i ts e \<Longrightarrow> ts \<noteq> [] \<Longrightarrow> e = nd_next (nodetab kc (root (last ts)))"
  by (induction kc p i ts e rule: seg.induct) auto

lemma last_root_in: "ts \<noteq> [] \<Longrightarrow> root (last ts) \<in> set (ids ts)"
  by (induction ts) (auto split: if_splits intro: preorder_ids, metis list.set_intros(1) preorder_ids root_kids)

lemma seg_relink:
  assumes "seg kc p i ts e" "ts \<noteq> []" "distinct (ids ts)"
  shows "seg (set_node (root (last ts)) (\<lambda>n. n\<lparr>nd_next := e'\<rparr>) kc) p i ts e'"
  using assms
proof (induction kc p i ts e rule: seg.induct)
  case (2 kc p i j cs ts e)
  let ?z = "root (last (MNode j cs # ts))"
  let ?kc = "set_node ?z (\<lambda>n. n\<lparr>nd_next := e'\<rparr>) kc"
  have cs: "repr ?kc j (nd_list (nodetab kc j)) cs" if "?z \<notin> set (ids cs)"
    using 2(2) that by (intro repr_same [of cs kc ?kc]) (auto simp: same_ptrs_def)
  show ?case
  proof (cases "ts = []")
    case True
    then show ?thesis using 2(2,4) cs by simp
  next
    case False
    then have z: "?z = root (last ts)" "root (last ts) \<in> set (ids ts)" using last_root_in by simp_all
    then have "?z \<noteq> j" "?z \<notin> set (ids cs)" using 2(4) by auto
    moreover have "seg ?kc p (nd_next (nodetab kc j)) ts e'" using 2(1) [OF _ False] 2(2,4) z by simp
    ultimately show ?thesis using 2(2) cs z by simp
  qed
qed simp

section \<open>Flattening\<close>

function flat :: "(nat \<Rightarrow> bool) \<Rightarrow> mtree list \<Rightarrow> mtree list" where
  "flat F [] = []"
| "flat F (MNode j cs # ts) =
     (if F j \<and> cs \<noteq> [] then MNode j [] # flat F (cs @ ts) else MNode j cs # flat F ts)"
  by pat_completeness auto
termination
  by (relation "measure (\<lambda>(F, ts). length (ids ts))") auto

lemma ids_flat [simp]: "ids (flat F ts) = ids ts"
  by (induction F ts rule: flat.induct) auto

lemma flat_kids: "t \<in> set (flat F ts) \<Longrightarrow> kids t = [] \<or> (\<not> F (root t))"
  by (induction F ts rule: flat.induct) (auto split: if_splits)

definition hidden :: "kconfig \<Rightarrow> nat \<Rightarrow> bool" where
  "hidden kc j \<longleftrightarrow> nd_prompt (nodetab kc j) = None \<and> \<not> is_choice_item (item (nodetab kc j))"

lemma hidden_rearranged: "rearranged X kc kc' \<Longrightarrow> hidden kc' = hidden kc"
  by (auto simp: rearranged_def hidden_def fun_eq_iff)

lemma reparent_repr:
  assumes "repr kc q (Some l) cs" "distinct (ids cs)" "length cs \<le> k"
  shows "\<exists>kc1. reparent k (Some p) l kc = Some (root (last cs), kc1) \<and> seg kc1 p (Some l) cs None \<and>
    rearranged (set (ids cs)) kc kc1"
  using assms
proof (induction cs arbitrary: k l kc)
  case (Cons c cs)
  obtain j ds where c: "c = MNode j ds" by (cases c)
  obtain k' where k: "k = Suc k'" using Cons.prems(3) by (cases k) auto
  let ?kc1 = "set_node j (\<lambda>n. n\<lparr>parent := Some p\<rparr>) kc"
  have r1: "rearranged {j} kc ?kc1" by (rule set_node_rearranged) simp_all
  have l: "l = j" and r: "repr kc j (nd_list (nodetab kc j)) ds" "repr kc q (nd_next (nodetab kc j)) cs"
    using Cons.prems(1) c by simp_all
  have d: "j \<notin> set (ids ds)" "j \<notin> set (ids cs)" "set (ids ds) \<inter> set (ids cs) = {}" "distinct (ids cs)"
    using Cons.prems(2) c by auto
  have ds: "repr ?kc1 j (nd_list (nodetab kc j)) ds" and cs: "repr ?kc1 q (nd_next (nodetab kc j)) cs"
    using r d by (auto intro: repr_rearranged [OF _ r1])
  show ?case
  proof (cases cs)
    case Nil
    then show ?thesis using k l c r ds r1 by (auto intro: rearranged_trans [OF r1 rearranged_refl])
  next
    case (Cons t ts)
    then obtain m where m: "nd_next (nodetab kc j) = Some m" using r(2) by (cases t) auto
    obtain kc1 where kc1: "reparent k' (Some p) m ?kc1 = Some (root (last cs), kc1)"
      "seg kc1 p (Some m) cs None" "rearranged (set (ids cs)) ?kc1 kc1"
      using Cons.IH [of ?kc1 m k'] cs m d(4) Cons.prems(3) k by auto
    have "same_ptrs ?kc1 kc1 j" using rearranged_same [OF kc1(3)] d(2) by blast
    then have "seg kc1 p (Some l) (c # cs) None"
      using c l m kc1(2) repr_rearranged [OF ds kc1(3)] d(3) by (simp add: same_ptrs_def)
    moreover have "rearranged (set (ids (c # cs))) kc kc1"
      by (rule rearranged_trans [OF r1 kc1(3)]) (auto simp: c)
    ultimately show ?thesis using k l m kc1(1) Cons by simp
  qed
qed simp

lemma lift_children_repr:
  assumes "repr kc p (Some j) (MNode j cs # ts)" "distinct (ids (MNode j cs # ts))" "cs \<noteq> []" "length cs \<le> k"
  shows "\<exists>kc'. lift_children k j kc = Some kc' \<and> seg kc' p (Some j) (MNode j [] # cs @ ts) None \<and>
    rearranged (set (ids [MNode j cs])) kc kc'"
proof -
  have pj: "parent (nodetab kc j) = Some p" and rc: "repr kc j (nd_list (nodetab kc j)) cs"
    and rt: "repr kc p (nd_next (nodetab kc j)) ts"
    using assms(1) by simp_all
  obtain l where l: "nd_list (nodetab kc j) = Some l" using rc assms(3) by (cases cs rule: list.exhaust; cases "hd cs") auto
  have d: "j \<notin> set (ids cs)" "j \<notin> set (ids ts)" "set (ids cs) \<inter> set (ids ts) = {}" "distinct (ids cs)"
    using assms(2) by auto
  obtain kc1 where kc1: "reparent k (Some p) l kc = Some (root (last cs), kc1)"
    "seg kc1 p (Some l) cs None" "rearranged (set (ids cs)) kc kc1"
    using reparent_repr [of kc j l cs k p] rc l d(4) assms(4) by auto
  have sj: "same_ptrs kc kc1 j" by (rule rearranged_same [OF kc1(3) d(1)])
  let ?z = "root (last cs)"
  let ?kc2 = "set_node ?z (\<lambda>n. n\<lparr>nd_next := nd_next (nodetab kc1 j)\<rparr>) kc1"
  let ?kc3 = "set_node j (\<lambda>n. n\<lparr>nd_next := nd_list n, nd_list := None\<rparr>) ?kc2"
  have z: "?z \<in> set (ids cs)" by (rule last_root_in [OF assms(3)])
  have zj: "?z \<noteq> j" using z d(1) by blast
  have r2: "rearranged {?z} kc1 ?kc2" and r3: "rearranged {j} ?kc2 ?kc3"
    by (rule set_node_rearranged; simp)+
  have s2: "seg ?kc2 p (Some l) cs (nd_next (nodetab kc j))"
    using seg_relink [OF kc1(2) assms(3) d(4)] sj by (simp add: same_ptrs_def)
  have r13: "rearranged (set (ids [MNode j cs])) kc ?kc3"
    by (rule rearranged_trans [OF rearranged_trans [OF kc1(3) r2 order_refl] r3]) (use z in auto)
  have "seg ?kc3 p (nd_next (nodetab kc j)) ts None"
    using rt d by (intro seg_rearranged [OF _ r13]) (auto simp: repr_seg)
  moreover have "seg ?kc3 p (Some l) cs (nd_next (nodetab kc j))"
    using d(1) by (intro seg_rearranged [OF s2 r3]) auto
  ultimately have "seg ?kc3 p (Some l) (cs @ ts) None" by (auto simp: seg_append)
  moreover have "nd_next (nodetab ?kc3 j) = Some l" "nd_list (nodetab ?kc3 j) = None" "parent (nodetab ?kc3 j) = Some p"
    using zj sj l pj by (simp_all add: same_ptrs_def)
  ultimately have "seg ?kc3 p (Some j) (MNode j [] # cs @ ts) None" by simp
  then show ?thesis using r13 kc1(1) l pj by (simp add: lift_children_def Let_def)
qed

lemma flatten_flat:
  assumes "repr kc p cur ts" "distinct (ids ts)" "length (ids ts) < k"
  shows "\<exists>kc'. flatten k cur kc = Some kc' \<and> repr kc' p cur (flat (hidden kc) ts) \<and>
    rearranged (set (ids ts)) kc kc'"
  using assms
proof (induction k arbitrary: kc cur ts)
  case (Suc k)
  show ?case
  proof (cases ts)
    case Nil
    then show ?thesis using Suc.prems(1) by simp
  next
    case (Cons t us)
    obtain j cs where t: "t = MNode j cs" by (cases t)
    have cur: "cur = Some j" and rc: "repr kc j (nd_list (nodetab kc j)) cs"
      using Suc.prems(1) Cons t by simp_all
    have ne: "nd_list (nodetab kc j) \<noteq> None \<longleftrightarrow> cs \<noteq> []" using rc by (cases cs rule: list.exhaust; cases "hd cs") auto
    have F: "flattens (nodetab kc j) \<longleftrightarrow> hidden kc j \<and> cs \<noteq> []" using ne by (auto simp: flattens_def hidden_def)
    have d: "j \<notin> set (ids cs)" "j \<notin> set (ids us)" "set (ids cs) \<inter> set (ids us) = {}" "distinct (ids (cs @ us))"
      using Suc.prems(2) Cons t by auto
    have len: "length cs \<le> k" "length (ids (cs @ us)) < k"
      using Suc.prems(3) Cons t length_ids [of cs] by auto
    define ds where "ds = (if hidden kc j \<and> cs \<noteq> [] then [] else cs)"
    define vs where "vs = (if hidden kc j \<and> cs \<noteq> [] then cs @ us else us)"
    obtain kc1 where kc1: "(if flattens (nodetab kc j) then lift_children k j kc else Some kc) = Some kc1"
      "seg kc1 p (Some j) (MNode j ds # vs) None" "rearranged (set (ids [MNode j cs])) kc kc1"
    proof (cases "hidden kc j \<and> cs \<noteq> []")
      case True
      then show ?thesis
        using lift_children_repr [of kc p j cs us k] Suc.prems(1,2) Cons t cur len(1) F that
        by (auto simp: ds_def vs_def)
    next
      case False
      then show ?thesis using Suc.prems(1) Cons t cur F that [of kc] by (simp add: ds_def vs_def repr_seg False)
    qed
    have iv: "set (ids ds) \<union> set (ids vs) = set (ids cs) \<union> set (ids us)" "distinct (ids vs)" "length (ids vs) < k"
      "set (ids ds) \<inter> set (ids vs) = {}" "j \<notin> set (ids vs)"
      using d len(2) by (auto simp: ds_def vs_def)
    obtain kc2 where kc2: "flatten k (nd_next (nodetab kc1 j)) kc1 = Some kc2"
      "repr kc2 p (nd_next (nodetab kc1 j)) (flat (hidden kc1) vs)" "rearranged (set (ids vs)) kc1 kc2"
      using Suc.IH [of kc1 "nd_next (nodetab kc1 j)" vs] kc1(2) iv(2,3) by (auto simp: repr_seg)
    have h: "hidden kc1 = hidden kc" by (rule hidden_rearranged [OF kc1(3)])
    have "same_ptrs kc1 kc2 j" by (rule rearranged_same [OF kc2(3) iv(5)])
    moreover have "repr kc2 j (nd_list (nodetab kc1 j)) ds"
      using kc1(2) iv(4) by (intro repr_rearranged [OF _ kc2(3)]) auto
    ultimately have "repr kc2 p cur (MNode j ds # flat (hidden kc) vs)"
      using kc1(2) kc2(2) cur h by (simp add: same_ptrs_def)
    moreover have "MNode j ds # flat (hidden kc) vs = flat (hidden kc) ts"
      using Cons t by (simp add: ds_def vs_def)
    moreover have "rearranged (set (ids ts)) kc kc2"
      by (rule rearranged_trans [OF kc1(3) kc2(3)]) (use iv(1) in \<open>auto simp: Cons t\<close>)
    ultimately show ?thesis using cur kc1(1) kc2(1) by simp
  qed
qed simp

end
