(* ===== verification/Menu_Order.thy ===== *)
theory Menu_Order
  imports Menu_Trees
begin

text \<open>
  Finalisation keeps the menu a tree and keeps the order of its nodes: after it the walk over
  the tree passes the same nodes as before, without those of \<open>if\<close>s.
\<close>

section \<open>Removing the nodes of ifs\<close>

definition shown :: "kconfig \<Rightarrow> nat \<Rightarrow> bool" where
  "shown kc j \<longleftrightarrow> item (nodetab kc j) \<noteq> INone"

lemma shown_rearranged: "rearranged X kc kc' \<Longrightarrow> shown kc' = shown kc"
  by (auto simp: rearranged_def shown_def fun_eq_iff)

abbreviation shown_roots :: "kconfig \<Rightarrow> mtree list \<Rightarrow> mtree list" where
  "shown_roots kc ts \<equiv> filter (\<lambda>t. shown kc (root t)) ts"

lemma skip_ifs_repr:
  "repr kc p cur ts \<Longrightarrow> length ts < k \<Longrightarrow>
     \<exists>cur'. skip_ifs k kc cur = Some cur' \<and> repr kc p cur' (dropWhile (\<lambda>t. \<not> shown kc (root t)) ts)"
proof (induction k arbitrary: cur ts)
  case (Suc k)
  show ?case
  proof (cases ts)
    case Nil
    then show ?thesis using Suc.prems by simp
  next
    case (Cons t us)
    obtain j cs where t: "t = MNode j cs" by (cases t)
    then show ?thesis using Suc.prems Suc.IH [of "nd_next (nodetab kc j)" us] Cons by (auto simp: shown_def)
  qed
qed simp

lemma unlink_ifs_repr:
  assumes "repr kc p cur ts" "distinct (ids ts)" "length ts < k" "ts \<noteq> [] \<Longrightarrow> shown kc (root (hd ts))"
  shows "\<exists>kc'. unlink_ifs k cur kc = Some kc' \<and> repr kc' p cur (shown_roots kc ts) \<and>
    rearranged (set (ids ts)) kc kc'"
  using assms
proof (induction k arbitrary: kc cur ts)
  case (Suc k)
  show ?case
  proof (cases ts)
    case Nil
    then show ?thesis using Suc.prems(1) by simp
  next
    case (Cons t us)
    obtain j cs where t: "t = MNode j cs" by (cases t)
    let ?vs = "dropWhile (\<lambda>t. \<not> shown kc (root t)) us"
    have cur: "cur = Some j" "parent (nodetab kc j) = Some p" "repr kc j (nd_list (nodetab kc j)) cs"
      "repr kc p (nd_next (nodetab kc j)) us" "shown kc j"
      using Suc.prems(1,4) Cons t by auto
    obtain nxt where nxt: "skip_ifs k kc (nd_next (nodetab kc j)) = Some nxt" "repr kc p nxt ?vs"
      using skip_ifs_repr [OF cur(4), of k] Suc.prems(3) Cons by auto
    obtain ws where ws: "us = ws @ ?vs" by (metis takeWhile_dropWhile_id)
    have d: "j \<notin> set (ids cs)" "j \<notin> set (ids ?vs)" "set (ids cs) \<inter> set (ids ?vs) = {}" "distinct (ids ?vs)"
      "set (ids ?vs) \<subseteq> set (ids us)"
      using Suc.prems(2) Cons t arg_cong [OF ws, of ids] by auto
    let ?kc1 = "set_node j (\<lambda>n. n\<lparr>nd_next := nxt\<rparr>) kc"
    have r1: "rearranged {j} kc ?kc1" by (rule set_node_rearranged) simp_all
    note s1 = shown_rearranged [OF r1]
    have v1: "repr ?kc1 p nxt ?vs" using d(2) by (intro repr_rearranged [OF nxt(2) r1]) auto
    have hd_v: "shown ?kc1 (root (hd ?vs))" if "?vs \<noteq> []" using hd_dropWhile [OF that] s1 by simp
    have len: "length ?vs < k" using Suc.prems(3) Cons by (auto intro: le_less_trans [OF length_dropWhile_le])
    obtain kc2 where kc2: "unlink_ifs k nxt ?kc1 = Some kc2" "repr kc2 p nxt (shown_roots ?kc1 ?vs)"
      "rearranged (set (ids ?vs)) ?kc1 kc2"
      using Suc.IH [OF v1 d(4) len hd_v] by blast
    have sj: "same_ptrs ?kc1 kc2 j" by (rule rearranged_same [OF kc2(3) d(2)])
    have "repr ?kc1 j (nd_list (nodetab kc j)) cs" using d(1) by (intro repr_rearranged [OF cur(3) r1]) auto
    then have "repr kc2 j (nd_list (nodetab kc j)) cs" using d(3) by (intro repr_rearranged [OF _ kc2(3)]) auto
    moreover have "shown_roots kc ?vs = shown_roots kc us" by (induction us) auto
    ultimately have "repr kc2 p cur (shown_roots kc ts)"
      using kc2(2) sj cur(1,2,5) Cons t s1 by (simp add: same_ptrs_def)
    moreover have "rearranged (set (ids ts)) kc kc2"
      by (rule rearranged_trans [OF r1 kc2(3)]) (use d(5) in \<open>auto simp: Cons t\<close>)
    ultimately show ?thesis using kc2(1) nxt(1) cur(1) by auto
  qed
qed simp

lemma remove_ifs_repr:
  assumes "repr kc i (nd_list (nodetab kc i)) ts" "distinct (ids ts)" "i \<notin> set (ids ts)" "length ts < k"
  shows "\<exists>kc'. remove_ifs k i kc = Some kc' \<and> repr kc' i (nd_list (nodetab kc' i)) (shown_roots kc ts) \<and>
    rearranged (insert i (set (ids ts))) kc kc' \<and>
    parent (nodetab kc' i) = parent (nodetab kc i) \<and> nd_next (nodetab kc' i) = nd_next (nodetab kc i)"
proof -
  let ?vs = "dropWhile (\<lambda>t. \<not> shown kc (root t)) ts"
  obtain cur where cur: "skip_ifs k kc (nd_list (nodetab kc i)) = Some cur" "repr kc i cur ?vs"
    using skip_ifs_repr [OF assms(1,4)] by blast
  obtain ws where ws: "ts = ws @ ?vs" by (metis takeWhile_dropWhile_id)
  have d: "i \<notin> set (ids ?vs)" "distinct (ids ?vs)" "set (ids ?vs) \<subseteq> set (ids ts)"
    using assms(2,3) arg_cong [OF ws, of ids] by auto
  let ?kc1 = "set_node i (\<lambda>n. n\<lparr>nd_list := cur\<rparr>) kc"
  have r1: "rearranged {i} kc ?kc1" by (rule set_node_rearranged) simp_all
  note s1 = shown_rearranged [OF r1]
  have v1: "repr ?kc1 i cur ?vs" using d(1) by (intro repr_rearranged [OF cur(2) r1]) auto
  have hd_v: "shown ?kc1 (root (hd ?vs))" if "?vs \<noteq> []" using hd_dropWhile [OF that] s1 by simp
  have len: "length ?vs < k" by (rule le_less_trans [OF length_dropWhile_le assms(4)])
  obtain kc2 where kc2: "unlink_ifs k cur ?kc1 = Some kc2" "repr kc2 i cur (shown_roots ?kc1 ?vs)"
    "rearranged (set (ids ?vs)) ?kc1 kc2"
    using unlink_ifs_repr [OF v1 d(2) len hd_v] by blast
  have "same_ptrs ?kc1 kc2 i" by (rule rearranged_same [OF kc2(3) d(1)])
  moreover have "shown_roots kc ?vs = shown_roots kc ts" by (induction ts) auto
  moreover have "rearranged (insert i (set (ids ts))) kc kc2"
    by (rule rearranged_trans [OF r1 kc2(3)]) (use d(3) in auto)
  ultimately show ?thesis using kc2(1,2) cur(1) s1 by (auto simp: remove_ifs_def same_ptrs_def)
qed

section \<open>One level\<close>

text \<open>No \<open>if\<close> has a prompt.\<close>

definition bare_ifs :: "kconfig \<Rightarrow> bool" where
  "bare_ifs kc \<longleftrightarrow> (\<forall>j. item (nodetab kc j) = INone \<longrightarrow> nd_prompt (nodetab kc j) = None)"

lemma bare_ifs_rearranged: "rearranged X kc kc' \<Longrightarrow> bare_ifs kc' = bare_ifs kc"
  by (simp add: rearranged_def bare_ifs_def)

text \<open>Below the roots all nodes are shown.\<close>

definition clean :: "kconfig \<Rightarrow> mtree list \<Rightarrow> bool" where
  "clean kc ts \<longleftrightarrow> (\<forall>t \<in> set ts. \<forall>j \<in> set (ids (kids t)). shown kc j)"

lemma kids_ids: "t \<in> set ts \<Longrightarrow> set (ids (kids t)) \<subseteq> set (ids ts)"
proof (induction ts)
  case (Cons u ts)
  then show ?case by (cases u) auto
qed simp

lemma clean_flat: "clean kc ts \<Longrightarrow> clean kc (flat F ts)"
proof (induction F ts rule: flat.induct)
  case (2 F j cs ts)
  show ?case
  proof (cases "F j \<and> cs \<noteq> []")
    case True
    have "clean kc (cs @ ts)"
      using 2(3) kids_ids [of _ cs] unfolding clean_def by fastforce
    then show ?thesis using 2(1) [OF True] True by (simp add: clean_def)
  next
    case False
    then show ?thesis using 2 by (auto simp: clean_def)
  qed
qed simp

lemma ids_shown_roots:
  assumes "clean kc ts" "\<And>t. t \<in> set ts \<Longrightarrow> \<not> shown kc (root t) \<Longrightarrow> kids t = []"
  shows "ids (shown_roots kc ts) = filter (shown kc) (ids ts)"
  using assms
proof (induction ts)
  case (Cons t ts)
  obtain j cs where t: "t = MNode j cs" by (cases t)
  have "clean kc ts" using Cons.prems(1) by (simp add: clean_def)
  then have "ids (shown_roots kc ts) = filter (shown kc) (ids ts)" using Cons by simp
  moreover have "filter (shown kc) (ids cs) = ids cs"
    using Cons.prems(1) t by (auto simp: clean_def filter_id_conv)
  ultimately show ?case using Cons.prems(2) [of t] t by auto
qed simp

lemma finalize_level_repr:
  assumes "repr kc i (nd_list (nodetab kc i)) ts" "distinct (i # ids ts)" "length (ids ts) < k"
    and "bare_ifs kc" "clean kc ts"
  shows "\<exists>kc' cs. finalize_level k i kc = Some kc' \<and> repr kc' i (nd_list (nodetab kc' i)) cs \<and>
    ids cs = filter (shown kc) (ids ts) \<and> rearranged (insert i (set (ids ts))) kc kc' \<and>
    parent (nodetab kc' i) = parent (nodetab kc i) \<and> nd_next (nodetab kc' i) = nd_next (nodetab kc i)"
proof (cases "nd_list (nodetab kc i) = None")
  case True
  then have "ts = []" using assms(1) by (cases ts rule: list.exhaust; cases "hd ts") auto
  then show ?thesis using True by (intro exI [of _ kc] exI [of _ "[]"]) (simp add: finalize_level_def)
next
  case False
  let ?fs = "flat (hidden kc) ts"
  obtain kc1 where kc1: "flatten k (nd_list (nodetab kc i)) kc = Some kc1"
    "repr kc1 i (nd_list (nodetab kc i)) ?fs" "rearranged (set (ids ts)) kc kc1"
    using flatten_flat [OF assms(1) _ assms(3)] assms(2) by auto
  have si: "same_ptrs kc kc1 i" by (rule rearranged_same [OF kc1(3)]) (use assms(2) in simp)
  have len: "length ?fs < k" using length_ids [of ?fs] assms(3) by simp
  obtain kc2 where kc2: "remove_ifs k i kc1 = Some kc2" "repr kc2 i (nd_list (nodetab kc2 i)) (shown_roots kc1 ?fs)"
    "rearranged (insert i (set (ids ts))) kc1 kc2"
    "parent (nodetab kc2 i) = parent (nodetab kc1 i)" "nd_next (nodetab kc2 i) = nd_next (nodetab kc1 i)"
    using remove_ifs_repr [of kc1 i ?fs k] kc1(2) si assms(2) len by (auto simp: same_ptrs_def)
  have "kids t = []" if "t \<in> set ?fs" "\<not> shown kc (root t)" for t
    using flat_kids [OF that(1)] that(2) assms(4)
    by (auto simp: hidden_def shown_def bare_ifs_def is_choice_item_def)
  then have "ids (shown_roots kc ?fs) = filter (shown kc) (ids ts)"
    using ids_shown_roots [OF clean_flat [OF assms(5)]] by simp
  moreover have "shown kc1 = shown kc" by (rule shown_rearranged [OF kc1(3)])
  moreover have "rearranged (insert i (set (ids ts))) kc kc2"
    by (rule rearranged_trans [OF kc1(3) kc2(3)]) auto
  ultimately show ?thesis
    using kc1(1) kc2 si False by (auto simp: finalize_level_def same_ptrs_def)
qed

section \<open>The loops over nodes\<close>

text \<open>The nodes of symbols have no entries before finalisation.\<close>

fun leaf_syms :: "kconfig \<Rightarrow> mtree list \<Rightarrow> bool" where
  "leaf_syms kc [] \<longleftrightarrow> True"
| "leaf_syms kc (MNode i cs # ts) \<longleftrightarrow>
     (case item (nodetab kc i) of ISym s \<Rightarrow> cs = [] | _ \<Rightarrow> True) \<and> leaf_syms kc cs \<and> leaf_syms kc ts"

lemma leaf_syms_append [simp]: "leaf_syms kc (ts @ us) \<longleftrightarrow> leaf_syms kc ts \<and> leaf_syms kc us"
  by (induction kc ts rule: leaf_syms.induct) auto

lemma leaf_syms_rearranged: "rearranged X kc kc' \<Longrightarrow> leaf_syms kc' ts = leaf_syms kc ts"
  by (induction kc ts rule: leaf_syms.induct) (simp_all add: rearranged_item)

text \<open>
  The contract of \<^verbatim>\<open>_finalize_node\<close> on a node \<open>i\<close> with the entries \<open>cs\<close> that is followed by
  \<open>ts\<close>: it takes some nodes \<open>pre\<close> that follow into its submenu; its entries \<open>cs'\<close> are then,
  in order, the shown nodes among the old ones and those.
\<close>

definition finalized ::
  "kconfig \<Rightarrow> kconfig \<Rightarrow> nat \<Rightarrow> nat \<Rightarrow> mtree list \<Rightarrow> mtree list \<Rightarrow> mtree list \<Rightarrow> mtree list \<Rightarrow> mtree list \<Rightarrow> bool" where
  "finalized kc kc' p i cs ts cs' pre ts' \<longleftrightarrow>
     ts = pre @ ts' \<and> repr kc' p (Some i) (MNode i cs' # ts') \<and>
     ids cs' = filter (shown kc) (ids cs @ ids pre) \<and>
     rearranged (set (ids (MNode i cs # pre))) kc kc'"

definition tidied :: "kconfig \<Rightarrow> mtree list \<Rightarrow> mtree list \<Rightarrow> bool" where
  "tidied kc ts us \<longleftrightarrow>
     filter (shown kc) (ids us) = filter (shown kc) (ids ts) \<and> set (ids us) \<subseteq> set (ids ts) \<and>
     distinct (ids us) \<and> clean kc us"

lemma tidied_length: "tidied kc ts us \<Longrightarrow> length (ids us) \<le> length (ids ts)"
proof -
  assume "tidied kc ts us"
  then have "card (set (ids us)) = length (ids us)" "set (ids us) \<subseteq> set (ids ts)"
    by (simp_all add: tidied_def distinct_card)
  then show ?thesis using card_mono [of "set (ids ts)" "set (ids us)"] card_length [of "ids ts"] by simp
qed

lemma tidied_Nil [simp]: "tidied kc [] []"
  by (simp add: tidied_def clean_def)

lemma tidied_rearranged: "rearranged X kc kc' \<Longrightarrow> tidied kc' ts us = tidied kc ts us"
  by (simp add: tidied_def clean_def shown_rearranged [of X kc kc'])

lemma tidied_Cons:
  assumes "ids cs' = filter (shown kc) (ids cs @ ids pre)" "tidied kc ts us"
    and "distinct (ids (MNode j cs # pre @ ts))"
  shows "tidied kc (MNode j cs # pre @ ts) (MNode j cs' # us)"
  using assms by (auto simp: tidied_def clean_def)

locale finalizer =
  fixes fin :: "nat \<Rightarrow> kconfig \<Rightarrow> kconfig option" and m :: nat
  assumes fin_ok:
    "repr kc p (Some i) (MNode i cs # ts) \<Longrightarrow> distinct (ids (MNode i cs # ts)) \<Longrightarrow>
     length (ids (MNode i cs # ts)) \<le> m \<Longrightarrow> bare_ifs kc \<Longrightarrow> leaf_syms kc (MNode i cs # ts) \<Longrightarrow>
     \<exists>kc' cs' pre ts'. fin i kc = Some kc' \<and> finalized kc kc' p i cs ts cs' pre ts'"
begin

lemma children_loop_repr:
  assumes "repr kc p cur ts" "distinct (ids ts)" "length (ids ts) \<le> m" "length (ids ts) < k"
    and "bare_ifs kc" "leaf_syms kc ts"
  shows "\<exists>kc' us. children_loop fin k cur kc = Some kc' \<and> repr kc' p cur us \<and> tidied kc ts us \<and>
    rearranged (set (ids ts)) kc kc'"
  using assms
proof (induction k arbitrary: kc cur ts)
  case (Suc k)
  show ?case
  proof (cases ts)
    case Nil
    then show ?thesis using Suc.prems(1) by (intro exI [of _ kc] exI [of _ "[]"]) simp
  next
    case (Cons t rs)
    obtain j cs where t: "t = MNode j cs" by (cases t)
    have cur: "cur = Some j" using Suc.prems(1) Cons t by simp
    obtain kc1 cs' pre ts' where fj: "fin j kc = Some kc1" and f: "finalized kc kc1 p j cs rs cs' pre ts'"
      using fin_ok [of kc p j cs rs] Suc.prems Cons t cur by auto
    have rs: "rs = pre @ ts'" and r1: "repr kc1 p (Some j) (MNode j cs' # ts')"
      and i1: "ids cs' = filter (shown kc) (ids cs @ ids pre)"
      and m1: "rearranged (set (ids (MNode j cs # pre))) kc kc1"
      using f by (simp_all add: finalized_def)
    have d: "distinct (ids ts')" "j \<notin> set (ids ts')" "set (ids cs') \<inter> set (ids ts') = {}"
      using Suc.prems(2) Cons t rs i1 by auto
    obtain kc2 us where kc2: "children_loop fin k (nd_next (nodetab kc1 j)) kc1 = Some kc2"
      "repr kc2 p (nd_next (nodetab kc1 j)) us" "tidied kc1 ts' us" "rearranged (set (ids ts')) kc1 kc2"
      using Suc.IH [of kc1 "nd_next (nodetab kc1 j)" ts'] r1 d(1) Suc.prems(3-6) Cons t rs
        bare_ifs_rearranged [OF m1] leaf_syms_rearranged [OF m1] by auto
    have "same_ptrs kc1 kc2 j" by (rule rearranged_same [OF kc2(4) d(2)])
    moreover have "repr kc2 j (nd_list (nodetab kc1 j)) cs'"
      using r1 d(3) by (intro repr_rearranged [OF _ kc2(4)]) auto
    ultimately have "repr kc2 p cur (MNode j cs' # us)"
      using r1 kc2(2) cur by (simp add: same_ptrs_def)
    moreover have "tidied kc ts (MNode j cs' # us)"
      unfolding Cons t rs
    proof (rule tidied_Cons [OF i1])
      show "tidied kc ts' us" using kc2(3) tidied_rearranged [OF m1] by simp
      show "distinct (ids (MNode j cs # pre @ ts'))" using Suc.prems(2) Cons t rs by simp
    qed
    moreover have "rearranged (set (ids ts)) kc kc2"
      by (rule rearranged_trans [OF m1 kc2(4)]) (auto simp: Cons t rs)
    moreover have "children_loop fin (Suc k) cur kc = Some kc2" using cur fj kc2(1) by simp
    ultimately show ?thesis by blast
  qed
qed simp

lemma implicit_loop_repr:
  assumes "repr kc p (nd_next (nodetab kc cur)) ts" "distinct (ids ts)" "length (ids ts) \<le> m"
    and "length (ids ts) < k" "bare_ifs kc" "leaf_syms kc ts" "cur \<notin> set (ids ts)"
  shows "\<exists>kc' cur' pre qs ts'. implicit_loop fin i s k cur kc = Some (cur', kc') \<and> ts = pre @ ts' \<and>
    seg kc' i (nd_next (nodetab kc' cur)) qs (nd_next (nodetab kc' cur')) \<and>
    repr kc' p (nd_next (nodetab kc' cur')) ts' \<and> tidied kc pre qs \<and>
    cur' = (if qs = [] then cur else root (last qs)) \<and> rearranged (set (ids pre)) kc kc'"
  using assms
proof (induction k arbitrary: kc cur ts)
  case (Suc k)
  consider (stop) "implicit_loop fin i s (Suc k) cur kc = Some (cur, kc)"
    | (step) j where "nd_next (nodetab kc cur) = Some j" "auto_menu_dep kc s j"
    by (cases "nd_next (nodetab kc cur)"; cases "auto_menu_dep kc s (the (nd_next (nodetab kc cur)))") auto
  then show ?case
  proof cases
    case stop
    then show ?thesis using Suc.prems(1)
      by (intro exI [of _ kc] exI [of _ cur] exI [of _ "[]"] exI [of _ ts]) simp
  next
    case step
    then obtain cs rs where ts: "ts = MNode j cs # rs"
      using Suc.prems(1) by (cases ts rule: list.exhaust; cases "hd ts") auto
    obtain kc1 cs' pre1 ts1 where fj: "fin j kc = Some kc1" and f: "finalized kc kc1 p j cs rs cs' pre1 ts1"
      using fin_ok [of kc p j cs rs] Suc.prems ts step(1) by auto
    have rs: "rs = pre1 @ ts1" and r1: "repr kc1 p (Some j) (MNode j cs' # ts1)"
      and i1: "ids cs' = filter (shown kc) (ids cs @ ids pre1)"
      and m1: "rearranged (set (ids (MNode j cs # pre1))) kc kc1"
      using f by (simp_all add: finalized_def)
    let ?kc2 = "set_node j (\<lambda>n. n\<lparr>parent := Some i\<rparr>) kc1"
    have m2: "rearranged {j} kc1 ?kc2" by (rule set_node_rearranged) simp_all
    have m12: "rearranged (set (ids (MNode j cs # pre1))) kc ?kc2"
      by (rule rearranged_trans [OF m1 m2]) simp
    have d: "distinct (ids ts1)" "j \<notin> set (ids ts1)" "set (ids cs') \<inter> set (ids ts1) = {}" "j \<notin> set (ids cs')"
      "cur \<notin> set (ids (MNode j cs # pre1))" "cur \<notin> set (ids ts1)" "cur \<noteq> j"
      using Suc.prems(2,7) ts rs i1 by auto
    have r2: "repr ?kc2 p (nd_next (nodetab ?kc2 j)) ts1" "repr ?kc2 j (nd_list (nodetab ?kc2 j)) cs'"
      using r1 d(2,4) by (auto intro!: repr_rearranged [OF _ m2])
    obtain kc3 cur' pre2 qs ts2 where kc3: "implicit_loop fin i s k j ?kc2 = Some (cur', kc3)" "ts1 = pre2 @ ts2"
      "seg kc3 i (nd_next (nodetab kc3 j)) qs (nd_next (nodetab kc3 cur'))"
      "repr kc3 p (nd_next (nodetab kc3 cur')) ts2" "tidied ?kc2 pre2 qs"
      "cur' = (if qs = [] then j else root (last qs))" "rearranged (set (ids pre2)) ?kc2 kc3"
      using Suc.IH [of ?kc2 j ts1] r2(1) d(1,2) Suc.prems(3-6) ts rs
        bare_ifs_rearranged [OF m12] leaf_syms_rearranged [OF m12] by auto
    have p2: "set (ids pre2) \<subseteq> set (ids ts1)" using kc3(2) by auto
    have sj: "same_ptrs ?kc2 kc3 j" by (rule rearranged_same [OF kc3(7)]) (use d(2) p2 in blast)
    have "repr kc3 j (nd_list (nodetab ?kc2 j)) cs'"
      using d(3) p2 by (intro repr_rearranged [OF r2(2) kc3(7)]) blast
    moreover have c: "nd_next (nodetab kc3 cur) = Some j"
    proof -
      have "nd_next (nodetab ?kc2 cur) = nd_next (nodetab kc cur)" by (rule rearranged_next [OF m12 d(5)])
      moreover have "nd_next (nodetab kc3 cur) = nd_next (nodetab ?kc2 cur)"
        by (rule rearranged_next [OF kc3(7)]) (use d(6) p2 in blast)
      ultimately show ?thesis using step(1) by simp
    qed
    ultimately have "seg kc3 i (nd_next (nodetab kc3 cur)) (MNode j cs' # qs) (nd_next (nodetab kc3 cur'))"
      using sj kc3(3) by (simp add: same_ptrs_def)
    moreover have "tidied kc (MNode j cs # pre1 @ pre2) (MNode j cs' # qs)"
    proof (rule tidied_Cons [OF i1])
      show "tidied kc pre2 qs" using kc3(5) tidied_rearranged [OF m12] by simp
      show "distinct (ids (MNode j cs # pre1 @ pre2))" using Suc.prems(2) ts rs kc3(2) by auto
    qed
    moreover have "rearranged (set (ids (MNode j cs # pre1 @ pre2))) kc kc3"
      by (rule rearranged_trans [OF m12 kc3(7)]) auto
    moreover have "ts = (MNode j cs # pre1 @ pre2) @ ts2" using ts rs kc3(2) by simp
    moreover have "cur' = (if MNode j cs' # qs = [] then cur else root (last (MNode j cs' # qs)))"
      using kc3(6) by simp
    moreover have "implicit_loop fin i s (Suc k) cur kc = Some (cur', kc3)" using step fj kc3(1) by simp
    ultimately show ?thesis using kc3(4) by blast
  qed
qed simp

end

section \<open>Changes that leave the pointers\<close>

lemma set_node_contents:
  assumes "\<And>n. item (f n) = item n" "\<And>n. (nd_prompt (f n) = None) = (nd_prompt n = None)"
    and "\<And>n. parent (f n) = parent n" "\<And>n. nd_list (f n) = nd_list n" "\<And>n. nd_next (f n) = nd_next n"
  shows "rearranged X kc (set_node i f kc)"
  using assms by (simp add: rearranged_def same_ptrs_def)

lemma propagate_to_same [simp]:
  "item (propagate_to b v n) = item n" "(nd_prompt (propagate_to b v n) = None) = (nd_prompt n = None)"
  "parent (propagate_to b v n) = parent n" "nd_list (propagate_to b v n) = nd_list n"
  "nd_next (propagate_to b v n) = nd_next n"
  by (simp_all add: propagate_to_def Let_def)

lemma propagate_loop_repr:
  "repr kc p cur ts \<Longrightarrow> length ts < k \<Longrightarrow>
     \<exists>kc'. propagate_loop b v k cur kc = Some kc' \<and> rearranged {} kc kc'"
proof (induction k arbitrary: kc cur ts)
  case (Suc k)
  show ?case
  proof (cases ts)
    case Nil
    then show ?thesis using Suc.prems by simp
  next
    case (Cons t us)
    obtain j cs where t: "t = MNode j cs" by (cases t)
    let ?kc1 = "set_node j (propagate_to b v) kc"
    have r: "rearranged {} kc ?kc1" by (rule set_node_contents) simp_all
    have "repr ?kc1 p (nd_next (nodetab kc j)) us" using Suc.prems(1) Cons t by (intro repr_rearranged [OF _ r]) auto
    then obtain kc2 where "propagate_loop b v k (nd_next (nodetab kc j)) ?kc1 = Some kc2" "rearranged {} ?kc1 kc2"
      using Suc.IH [of ?kc1 "nd_next (nodetab kc j)" us] Suc.prems(2) Cons by auto
    then show ?thesis using Suc.prems(1) Cons t rearranged_trans [OF r] by (auto simp: Let_def)
  qed
qed simp

lemma set_sym_tab [simp]:
  "nodetab (set_sym s f kc) = nodetab kc" "top_node (set_sym s f kc) = top_node kc"
  "choicetab (set_sym s f kc) = choicetab kc"
  by (simp_all add: set_sym_def)

lemma set_choice_tab [simp]:
  "nodetab (set_choice c f kc) = nodetab kc" "top_node (set_choice c f kc) = top_node kc"
  "symtab (set_choice c f kc) = symtab kc"
  by (simp_all add: set_choice_def)

lemma fold_nodetab:
  "(\<And>x kc. nodetab (f x kc) = nodetab kc \<and> top_node (f x kc) = top_node kc) \<Longrightarrow>
     nodetab (fold f xs kc) = nodetab kc \<and> top_node (fold f xs kc) = top_node kc"
  by (induction xs arbitrary: kc) simp_all

lemma add_props_nodes [simp]:
  "nodetab (add_props_to_sym n s kc) = nodetab kc" "top_node (add_props_to_sym n s kc) = top_node kc"
  using fold_nodetab [of "add_weak_rev_dep s"] fold_nodetab [of "add_rev_dep s"]
  by (simp_all add: add_props_to_sym_def add_rev_dep_def add_weak_rev_dep_def)

lemma choice_members_repr:
  "repr kc p cur ts \<Longrightarrow> length ts < k \<Longrightarrow>
     \<exists>kc'. choice_members c k cur kc = Some kc' \<and> nodetab kc' = nodetab kc \<and> top_node kc' = top_node kc"
proof (induction k arbitrary: kc cur ts)
  case (Suc k)
  show ?case
  proof (cases ts)
    case Nil
    then show ?thesis using Suc.prems by simp
  next
    case (Cons t us)
    obtain j cs where t: "t = MNode j cs" by (cases t)
    define kc1 where "kc1 = (case item (nodetab kc j) of
        ISym s \<Rightarrow> set_choice c (\<lambda>o_c. o_c\<lparr>c_syms := c_syms o_c @ [s]\<rparr>) (set_sym s (\<lambda>o_s. o_s\<lparr>choice := Some c\<rparr>) kc)
      | _ \<Rightarrow> kc)"
    have n: "nodetab kc1 = nodetab kc" "top_node kc1 = top_node kc"
      by (simp_all add: kc1_def split: node_item.split)
    have "repr kc1 p (nd_next (nodetab kc j)) us"
      using Suc.prems(1) Cons t by (intro repr_rearranged [OF _ same_nodes_rearranged [OF n, of "{}"]]) auto
    then show ?thesis
      using Suc.IH [of kc1 "nd_next (nodetab kc j)" us] Suc.prems Cons t n by (simp add: kc1_def)
  qed
qed simp

lemma infer_types_nodes [simp]:
  "nodetab (infer_choice_type c kc) = nodetab kc" "top_node (infer_choice_type c kc) = top_node kc"
  "nodetab (infer_sym_types c kc) = nodetab kc" "top_node (infer_sym_types c kc) = top_node kc"
  by (simp_all add: infer_choice_type_def infer_sym_types_def fold_nodetab split: option.split)

lemma finalize_if_choice_repr:
  assumes "repr kc i (nd_list (nodetab kc i)) ts" "length ts < k"
  shows "\<exists>kc'. finalize_if_choice k i kc = Some kc' \<and> nodetab kc' = nodetab kc \<and> top_node kc' = top_node kc"
proof (cases "item (nodetab kc i)")
  case (ICho c)
  let ?kc1 = "set_choice c (\<lambda>o_c. o_c\<lparr>c_direct_dep := make_or (c_direct_dep o_c) (dep (nodetab kc i)),
                                     c_defaults := c_defaults o_c @ nd_defaults (nodetab kc i)\<rparr>) kc"
  have "repr ?kc1 i (nd_list (nodetab kc i)) ts"
    by (rule repr_rearranged [OF assms(1) same_nodes_rearranged [of _ _ "{}"]]) simp_all
  from choice_members_repr [OF this assms(2), of c]
  obtain kc' where "choice_members c k (nd_list (nodetab kc i)) ?kc1 = Some kc'"
    "nodetab kc' = nodetab kc" "top_node kc' = top_node kc" by auto
  then show ?thesis using ICho by (simp add: finalize_if_choice_def finalize_choice_def Let_def)
qed (simp_all add: finalize_if_choice_def)

section \<open>One node\<close>

lemma finalize_entries_repr:
  assumes "\<And>v. finalizer (fin v) m" "\<nexists>s. item (nodetab kc i) = ISym s"
    and "repr kc i (nd_list (nodetab kc i)) cs" "distinct (ids cs)" "i \<notin> set (ids cs)"
    and "length (ids cs) \<le> m" "length (ids cs) < k" "bare_ifs kc" "leaf_syms kc cs"
  shows "\<exists>kc' us. finalize_item fin k v i kc = Some kc' \<and> repr kc' i (nd_list (nodetab kc' i)) us \<and>
    tidied kc cs us \<and> rearranged (set (ids cs)) kc kc'"
proof (cases "nd_list (nodetab kc i) = None")
  case True
  then have "cs = []" using assms(3) by (cases cs rule: list.exhaust; cases "hd cs") auto
  then show ?thesis using True assms(2)
    by (intro exI [of _ kc] exI [of _ "[]"]) (auto simp: finalize_item_def Let_def split: node_item.split)
next
  case False
  define vis where "vis = (if item (nodetab kc i) = IMenu then make_and v (nd_visibility (nodetab kc i)) else v)"
  have item: "finalize_item fin k v i kc =
    (case propagate_deps k i vis kc of
       None \<Rightarrow> None | Some kc1 \<Rightarrow> children_loop (fin vis) k (nd_list (nodetab kc1 i)) kc1)"
    using False assms(2) unfolding finalize_item_def vis_def Let_def by (auto split: node_item.split)
  have "length cs < k" using length_ids [of cs] assms(7) by simp
  then obtain kc1 where kc1: "propagate_deps k i vis kc = Some kc1" "rearranged {} kc kc1"
    using propagate_loop_repr [OF assms(3)] unfolding propagate_deps_def by blast
  have "same_ptrs kc kc1 i" using rearranged_same [OF kc1(2)] by blast
  moreover have "repr kc1 i (nd_list (nodetab kc i)) cs" by (rule repr_rearranged [OF assms(3) kc1(2)]) simp
  ultimately have r1: "repr kc1 i (nd_list (nodetab kc1 i)) cs" by (simp add: same_ptrs_def)
  obtain kc2 us where kc2: "children_loop (fin vis) k (nd_list (nodetab kc1 i)) kc1 = Some kc2"
    "repr kc2 i (nd_list (nodetab kc1 i)) us" "tidied kc1 cs us" "rearranged (set (ids cs)) kc1 kc2"
    using finalizer.children_loop_repr [OF assms(1) r1 assms(4,6,7)] assms(8,9)
      bare_ifs_rearranged [OF kc1(2)] leaf_syms_rearranged [OF kc1(2)] by blast
  have "same_ptrs kc1 kc2 i" by (rule rearranged_same [OF kc2(4) assms(5)])
  then show ?thesis
    using item kc1(1) kc2(1,2) tidied_rearranged [OF kc1(2)] kc2(3) rearranged_trans [OF kc1(2) kc2(4)]
    by (auto simp: same_ptrs_def)
qed

lemma tilt_submenu_repr:
  assumes "seg kc i (nd_next (nodetab kc i)) qs (nd_next (nodetab kc cur))" "repr kc p (nd_next (nodetab kc cur)) ts"
    and "parent (nodetab kc i) = Some p" "nd_list (nodetab kc i) = None" "distinct (i # ids qs @ ids ts)"
    and "cur = (if qs = [] then i else root (last qs))"
  shows "repr (tilt_submenu i cur kc) p (Some i) (MNode i qs # ts) \<and>
    rearranged (insert i (set (ids qs))) kc (tilt_submenu i cur kc)"
proof (cases "qs = []")
  case True
  then show ?thesis using assms by (simp add: tilt_submenu_def)
next
  case False
  let ?e = "nd_next (nodetab kc cur)"
  let ?kc1 = "set_node i (\<lambda>n. n\<lparr>nd_list := nd_next n, nd_next := ?e\<rparr>) kc"
  let ?kc2 = "set_node cur (\<lambda>n. n\<lparr>nd_next := None\<rparr>) ?kc1"
  have cur: "cur = root (last qs)" "cur \<in> set (ids qs)" using assms(6) False last_root_in by simp_all
  have ne: "cur \<noteq> i" using cur(2) assms(5) by auto
  have t: "tilt_submenu i cur kc = ?kc2" using ne by (simp add: tilt_submenu_def)
  have r1: "rearranged {i} kc ?kc1" and r2: "rearranged {cur} ?kc1 ?kc2" by (rule set_node_rearranged; simp)+
  have r: "rearranged (insert i (set (ids qs))) kc ?kc2"
    by (rule rearranged_trans [OF r1 r2]) (use cur(2) in auto)
  have "seg ?kc1 i (nd_next (nodetab kc i)) qs ?e"
    using assms(5) by (intro seg_rearranged [OF assms(1) r1]) auto
  then have "seg ?kc2 i (nd_next (nodetab kc i)) qs None"
    unfolding cur(1) using assms(5) False by (intro seg_relink) auto
  moreover have "repr ?kc2 p ?e ts" using assms(5) by (intro repr_rearranged [OF assms(2) r]) auto
  ultimately show ?thesis using ne assms(3) r unfolding t by (simp add: repr_seg)
qed

lemma finalize_item_repr:
  assumes "\<And>v. finalizer (fin v) m" "repr kc p (Some i) (MNode i cs # ts)" "distinct (ids (MNode i cs # ts))"
    and "length (ids (MNode i cs # ts)) \<le> Suc m" "Suc m < k" "bare_ifs kc" "leaf_syms kc (MNode i cs # ts)"
  shows "\<exists>kc' us pre ts'. finalize_item fin k v i kc = Some kc' \<and> ts = pre @ ts' \<and>
    repr kc' p (Some i) (MNode i us # ts') \<and> tidied kc (cs @ pre) us \<and>
    rearranged (set (ids (MNode i cs # pre))) kc kc'"
proof (cases "\<exists>s. item (nodetab kc i) = ISym s")
  case True
  then obtain s where s: "item (nodetab kc i) = ISym s" by blast
  let ?kc0 = "add_props_to_sym (nodetab kc i) s kc"
  have r0: "rearranged {} kc ?kc0" by (rule same_nodes_rearranged) simp_all
  have cs: "cs = []" using assms(7) s by simp
  have i: "parent (nodetab kc i) = Some p" "nd_list (nodetab kc i) = None" "repr kc p (nd_next (nodetab kc i)) ts"
    using assms(2) cs by simp_all
  have "repr ?kc0 p (nd_next (nodetab ?kc0 i)) ts" using repr_rearranged [OF i(3) r0] by simp
  then have "\<exists>kc1 cur pre qs ts'. implicit_loop (fin v) i s k i ?kc0 = Some (cur, kc1) \<and> ts = pre @ ts' \<and>
    seg kc1 i (nd_next (nodetab kc1 i)) qs (nd_next (nodetab kc1 cur)) \<and>
    repr kc1 p (nd_next (nodetab kc1 cur)) ts' \<and> tidied ?kc0 pre qs \<and>
    cur = (if qs = [] then i else root (last qs)) \<and> rearranged (set (ids pre)) ?kc0 kc1"
    using assms(3-7) bare_ifs_rearranged [OF r0] leaf_syms_rearranged [OF r0]
    by (intro finalizer.implicit_loop_repr [OF assms(1)]) auto
  then obtain kc1 cur pre qs ts' where l: "implicit_loop (fin v) i s k i ?kc0 = Some (cur, kc1)" "ts = pre @ ts'"
    "seg kc1 i (nd_next (nodetab kc1 i)) qs (nd_next (nodetab kc1 cur))" "repr kc1 p (nd_next (nodetab kc1 cur)) ts'"
    "tidied ?kc0 pre qs" "cur = (if qs = [] then i else root (last qs))" "rearranged (set (ids pre)) ?kc0 kc1"
    by blast
  have d: "i \<notin> set (ids pre)" "distinct (i # ids qs @ ids ts')"
    using assms(3) l(2,5) by (auto simp: tidied_def)
  have si: "same_ptrs ?kc0 kc1 i" by (rule rearranged_same [OF l(7) d(1)])
  let ?kc2 = "tilt_submenu i cur kc1"
  have t: "repr ?kc2 p (Some i) (MNode i qs # ts')" "rearranged (insert i (set (ids qs))) kc1 ?kc2"
    using tilt_submenu_repr [OF l(3,4) _ _ d(2) l(6)] si i by (simp_all add: same_ptrs_def)
  have "finalize_item fin k v i kc = Some ?kc2" using s l(1) by (simp add: finalize_item_def)
  moreover have "tidied kc (cs @ pre) qs" using l(5) tidied_rearranged [OF r0] cs by simp
  moreover have "rearranged (set (ids (MNode i cs # pre))) kc ?kc2"
    by (rule rearranged_trans [OF rearranged_trans [OF r0 l(7) order_refl] t(2)])
      (use l(5) in \<open>auto simp: tidied_def\<close>)
  ultimately show ?thesis using l(2) t(1) by blast
next
  case False
  have i: "parent (nodetab kc i) = Some p" "repr kc i (nd_list (nodetab kc i)) cs" "repr kc p (nd_next (nodetab kc i)) ts"
    and d: "distinct (ids cs)" "i \<notin> set (ids cs)" "i \<notin> set (ids ts)" "set (ids cs) \<inter> set (ids ts) = {}"
    using assms(2,3) by auto
  have "\<exists>kc1 us. finalize_item fin k v i kc = Some kc1 \<and> repr kc1 i (nd_list (nodetab kc1 i)) us \<and>
    tidied kc cs us \<and> rearranged (set (ids cs)) kc kc1"
    using False assms(4-7) by (intro finalize_entries_repr [OF assms(1) _ i(2) d(1,2)]) auto
  then obtain kc1 us where kc1: "finalize_item fin k v i kc = Some kc1" "repr kc1 i (nd_list (nodetab kc1 i)) us"
    "tidied kc cs us" "rearranged (set (ids cs)) kc kc1"
    by blast
  have "same_ptrs kc kc1 i" by (rule rearranged_same [OF kc1(4) d(2)])
  moreover have "repr kc1 p (nd_next (nodetab kc i)) ts" using d(4) by (intro repr_rearranged [OF i(3) kc1(4)]) auto
  ultimately have "repr kc1 p (Some i) (MNode i us # ts)" using kc1(2) i(1) by (simp add: same_ptrs_def)
  moreover have "rearranged (set (ids (MNode i cs # []))) kc kc1"
    by (rule rearranged_trans [OF kc1(4) rearranged_refl]) auto
  ultimately show ?thesis using kc1(1,3)
    by (intro exI [of _ kc1] exI [of _ us] exI [of _ "[]"] exI [of _ ts]) simp
qed

text \<open>The level and the choice keep the entries that are shown.\<close>

lemma finalize_rest_repr:
  assumes "repr kc i (nd_list (nodetab kc i)) us" "distinct (i # ids us)" "length (ids us) < k"
    and "bare_ifs kc" "clean kc us"
  shows "\<exists>kc' cs. Option.bind (finalize_level k i kc) (finalize_if_choice k i) = Some kc' \<and>
    repr kc' i (nd_list (nodetab kc' i)) cs \<and> ids cs = filter (shown kc) (ids us) \<and>
    rearranged (insert i (set (ids us))) kc kc' \<and>
    parent (nodetab kc' i) = parent (nodetab kc i) \<and> nd_next (nodetab kc' i) = nd_next (nodetab kc i)"
proof -
  obtain kc1 cs where kc1: "finalize_level k i kc = Some kc1" "repr kc1 i (nd_list (nodetab kc1 i)) cs"
    "ids cs = filter (shown kc) (ids us)" "rearranged (insert i (set (ids us))) kc kc1"
    "parent (nodetab kc1 i) = parent (nodetab kc i)" "nd_next (nodetab kc1 i) = nd_next (nodetab kc i)"
    using finalize_level_repr [OF assms] by blast
  have "length (ids cs) \<le> length (ids us)" unfolding kc1(3) by (rule length_filter_le)
  then have "length cs < k" using length_ids [of cs] assms(3) by linarith
  then obtain kc2 where kc2: "finalize_if_choice k i kc1 = Some kc2" "nodetab kc2 = nodetab kc1" "top_node kc2 = top_node kc1"
    using finalize_if_choice_repr [OF kc1(2)] by blast
  have r: "rearranged {} kc1 kc2" by (rule same_nodes_rearranged) (use kc2 in simp_all)
  have "repr kc2 i (nd_list (nodetab kc2 i)) cs" using repr_rearranged [OF kc1(2) r] kc2(2) by simp
  moreover have "rearranged (insert i (set (ids us))) kc kc2" by (rule rearranged_trans [OF kc1(4) r]) simp
  ultimately show ?thesis using kc1 kc2 by (intro exI [of _ kc2] exI [of _ cs]) simp
qed

lemma finalizer_node: "m + 2 \<le> k \<Longrightarrow> finalizer (finalize_node k v) m"
proof (induction k arbitrary: m v)
  case (Suc k)
  show ?case
  proof
    fix kc p i cs ts
    assume r: "repr kc p (Some i) (MNode i cs # ts)" and d: "distinct (ids (MNode i cs # ts))"
      and len: "length (ids (MNode i cs # ts)) \<le> m" and b: "bare_ifs kc" "leaf_syms kc (MNode i cs # ts)"
    obtain m' where m: "m = Suc m'" using len by (cases m) auto
    have "\<exists>kc' us pre ts'. finalize_item (finalize_node k) k v i kc = Some kc' \<and> ts = pre @ ts' \<and>
      repr kc' p (Some i) (MNode i us # ts') \<and> tidied kc (cs @ pre) us \<and>
      rearranged (set (ids (MNode i cs # pre))) kc kc'"
      using Suc.prems m len by (intro finalize_item_repr [OF Suc.IH r d _ _ b]) auto
    then obtain kc1 us pre ts' where kc1: "finalize_item (finalize_node k) k v i kc = Some kc1" "ts = pre @ ts'"
      "repr kc1 p (Some i) (MNode i us # ts')" "tidied kc (cs @ pre) us"
      "rearranged (set (ids (MNode i cs # pre))) kc kc1"
      by blast
    have us: "repr kc1 i (nd_list (nodetab kc1 i)) us" using kc1(3) by simp
    have di: "distinct (i # ids us)" "set (ids us) \<inter> set (ids ts') = {}" "i \<notin> set (ids ts')"
      and sub: "insert i (set (ids us)) \<subseteq> set (ids (MNode i cs # pre))"
      using kc1(2,4) d by (auto simp: tidied_def)
    have lu: "length (ids us) < k" using tidied_length [OF kc1(4)] kc1(2) len Suc.prems by simp
    have s: "shown kc1 = shown kc" by (rule shown_rearranged [OF kc1(5)])
    have c: "clean kc1 us" using kc1(4) s by (simp add: tidied_def clean_def)
    have b1: "bare_ifs kc1" using bare_ifs_rearranged [OF kc1(5)] b(1) by simp
    obtain kc2 cs' where kc2: "Option.bind (finalize_level k i kc1) (finalize_if_choice k i) = Some kc2"
      "repr kc2 i (nd_list (nodetab kc2 i)) cs'" "ids cs' = filter (shown kc1) (ids us)"
      "rearranged (insert i (set (ids us))) kc1 kc2"
      "parent (nodetab kc2 i) = parent (nodetab kc1 i)" "nd_next (nodetab kc2 i) = nd_next (nodetab kc1 i)"
      using finalize_rest_repr [OF us di(1) lu b1 c] by blast
    have "repr kc2 p (nd_next (nodetab kc1 i)) ts'"
      using kc1(3) di(2,3) by (intro repr_rearranged [OF _ kc2(4)]) auto
    then have "repr kc2 p (Some i) (MNode i cs' # ts')" using kc1(3) kc2(2,5,6) by simp
    moreover have "ids cs' = filter (shown kc) (ids cs @ ids pre)"
      using kc2(3) kc1(4) s by (simp add: tidied_def)
    moreover have "rearranged (set (ids (MNode i cs # pre))) kc kc2"
      by (rule rearranged_trans [OF kc1(5) kc2(4)]) (use sub in auto)
    moreover have "finalize_node (Suc k) v i kc = Some kc2" using kc1(1) kc2(1) by simp
    ultimately show "\<exists>kc' cs' pre ts'. finalize_node (Suc k) v i kc = Some kc' \<and> finalized kc kc' p i cs ts cs' pre ts'"
      unfolding finalized_def using kc1(2) by blast
  qed
qed simp

interpretation node: finalizer "finalize_node (m + 2) v" m for m v
  by (rule finalizer_node) simp

section \<open>The whole tree\<close>

lemma finalize_tree:
  assumes "represents kc ts" "distinct (top_node kc # concat (map preorder ts))"
    and "item (nodetab kc (top_node kc)) = IMenu" "bare_ifs kc" "leaf_syms kc ts"
    and "length (concat (map preorder ts)) + 3 \<le> k"
  shows "\<exists>kc' ts'. finalize_node k v (top_node kc) kc = Some kc' \<and> represents kc' ts' \<and>
    concat (map preorder ts') = filter (\<lambda>i. item (nodetab kc i) \<noteq> INone) (concat (map preorder ts)) \<and>
    rearranged UNIV kc kc'"
proof -
  let ?t = "top_node kc" and ?m = "length (ids ts)"
  obtain k' where k: "k = Suc k'" "?m + 2 \<le> k'" using assms(6) by (cases k) (auto simp: ids_def)
  have r: "repr kc ?t (nd_list (nodetab kc ?t)) ts" and top: "parent (nodetab kc ?t) = None" "nd_next (nodetab kc ?t) = None"
    using assms(1) by (auto simp: represents_def)
  have d: "distinct (ids ts)" "?t \<notin> set (ids ts)" using assms(2) by (simp_all add: ids_def)
  have "\<exists>kc1 us. finalize_item (finalize_node k') k' v ?t kc = Some kc1 \<and>
      repr kc1 ?t (nd_list (nodetab kc1 ?t)) us \<and> tidied kc ts us \<and> rearranged (set (ids ts)) kc kc1"
    using assms(3) k(2) by (intro finalize_entries_repr [OF finalizer_node [of ?m] _ r d _ _ assms(4,5)]) auto
  then obtain kc1 us where kc1: "finalize_item (finalize_node k') k' v ?t kc = Some kc1"
    "repr kc1 ?t (nd_list (nodetab kc1 ?t)) us" "tidied kc ts us" "rearranged (set (ids ts)) kc kc1"
    by blast
  have s: "shown kc1 = shown kc" by (rule shown_rearranged [OF kc1(4)])
  have di: "distinct (?t # ids us)" using kc1(3) d by (auto simp: tidied_def)
  have lu: "length (ids us) < k'" using tidied_length [OF kc1(3)] k(2) by simp
  have b: "bare_ifs kc1" "clean kc1 us"
    using bare_ifs_rearranged [OF kc1(4)] assms(4) kc1(3) s by (simp_all add: tidied_def clean_def)
  obtain kc2 cs where kc2: "Option.bind (finalize_level k' ?t kc1) (finalize_if_choice k' ?t) = Some kc2"
    "repr kc2 ?t (nd_list (nodetab kc2 ?t)) cs" "ids cs = filter (shown kc1) (ids us)"
    "rearranged (insert ?t (set (ids us))) kc1 kc2"
    "parent (nodetab kc2 ?t) = parent (nodetab kc1 ?t)" "nd_next (nodetab kc2 ?t) = nd_next (nodetab kc1 ?t)"
    using finalize_rest_repr [OF kc1(2) di lu b] by blast
  have st: "same_ptrs kc kc1 ?t" by (rule rearranged_same [OF kc1(4) d(2)])
  have "top_node kc2 = ?t" using kc1(4) kc2(4) by (simp add: rearranged_def)
  then have rep: "represents kc2 cs" using kc2(2,5,6) st top by (simp add: represents_def same_ptrs_def)
  have o: "concat (map preorder cs) = filter (\<lambda>i. item (nodetab kc i) \<noteq> INone) (concat (map preorder ts))"
    using kc2(3) kc1(3) s unfolding tidied_def ids_def shown_def by simp
  have "rearranged UNIV kc kc2" by (rule rearranged_trans [OF kc1(4) kc2(4)]) simp
  moreover have "finalize_node k v ?t kc = Some kc2" using k(1) kc1(1) kc2(1) by simp
  ultimately show ?thesis using rep o by auto
qed

text \<open>
  C11. Finalisation returns, leaves the menu a tree, and keeps the order of its nodes: the preorder
  of the tree afterwards is the one of the parsed tree without the nodes of \<open>if\<close>s, whatever
  submenus were created and levels flattened.
\<close>

theorem finalize_keeps_order:
  assumes "represents kc ts" "distinct (top_node kc # concat (map preorder ts))"
    and "item (nodetab kc (top_node kc)) = IMenu" "bare_ifs kc" "leaf_syms kc ts"
    and "length (concat (map preorder ts)) + 3 \<le> k"
  shows "\<exists>kc' ts'. finalize_node k v (top_node kc) kc = Some kc' \<and> represents kc' ts' \<and>
    concat (map preorder ts') = filter (\<lambda>i. item (nodetab kc i) \<noteq> INone) (concat (map preorder ts))"
  using finalize_tree [OF assms] by blast

end
