(* ===== verification/Parse_Tree.thy ===== *)
theory Parse_Tree
  imports Parser_Frame Menu_Order
begin

text \<open>
  The menu nodes that \<^verbatim>\<open>_parse_block\<close> links together form a tree, whose preorder is the order
  in which the nodes are created: the order of the statements in the Kconfig files.
\<close>

section \<open>What stays during parsing\<close>

text \<open>Only the contents of the node \<open>i\<close> change.\<close>

definition in_place :: "nat \<Rightarrow> pstate \<Rightarrow> pstate \<Rightarrow> bool" where
  "in_place i ps ps' \<longleftrightarrow>
     next_node ps' = next_node ps \<and> top_node (conf ps') = top_node (conf ps) \<and>
     (\<forall>j. item (node_at ps' j) = item (node_at ps j) \<and> same_ptrs (conf ps) (conf ps') j \<and>
          (j \<noteq> i \<longrightarrow> nd_prompt (node_at ps' j) = nd_prompt (node_at ps j)))"

text \<open>Functions from \<^verbatim>\<open>KCONFIG_FUNCTIONS\<close> do not touch the menu.\<close>

definition menu_safe :: "world \<Rightarrow> bool" where
  "menu_safe w \<longleftrightarrow>
     (\<forall>fn f lo hi args ps r ps'. user_functions w fn = Some (f, lo, hi) \<longrightarrow> f args ps = Inr (r, ps') \<longrightarrow>
        next_node ps' = next_node ps \<and> nodetab (conf ps') = nodetab (conf ps) \<and>
        top_node (conf ps') = top_node (conf ps))"

lemma in_place_same:
  "next_node ps' = next_node ps \<Longrightarrow> nodetab (conf ps') = nodetab (conf ps) \<Longrightarrow>
   top_node (conf ps') = top_node (conf ps) \<Longrightarrow> in_place i ps ps'"
  by (simp add: in_place_def same_ptrs_def node_at_def)

lemma in_place_trans: "in_place i ps1 ps2 \<Longrightarrow> in_place i ps2 ps3 \<Longrightarrow> in_place i ps1 ps3"
  by (simp add: in_place_def same_ptrs_def)

interpretation place: props_frame w "\<lambda>ps ps'. menu_safe w \<longrightarrow> in_place i ps ps'" i for w i
proof
  fix ps1 ps2 ps3 :: pstate
  show "menu_safe w \<longrightarrow> in_place i ps1 ps2 \<Longrightarrow> menu_safe w \<longrightarrow> in_place i ps2 ps3 \<Longrightarrow> menu_safe w \<longrightarrow> in_place i ps1 ps3"
    using in_place_trans by blast
next
  fix fn f lo hi args ps r ps'
  assume "user_functions w fn = Some (f, lo, hi)" "f args ps = Inr (r, ps')"
  then show "menu_safe w \<longrightarrow> in_place i ps ps'"
    unfolding menu_safe_def by (intro impI in_place_same) blast+
next
  fix f :: "menu_node \<Rightarrow> menu_node" and ps :: pstate
  assume "keeps_place f"
  then show "menu_safe w \<longrightarrow> in_place i ps (upd_node i f ps)"
    by (simp add: keeps_place_def in_place_def same_ptrs_def upd_node_def node_at_def)
qed (auto intro: in_place_same simp: put_sym_def upd_sym_def upd_choice_def)

lemma next_line_nodes:
  assumes "menu_safe w" "next_line w d ps = Inr (b, ps')"
  shows "in_place i ps ps'" "nd_prompt (node_at ps' j) = nd_prompt (node_at ps j)"
proof -
  have p: "in_place i ps ps'" for i using place.next_line_frame [OF assms(2)] assms(1) by blast
  show "in_place i ps ps'" by (rule p)
  show "nd_prompt (node_at ps' j) = nd_prompt (node_at ps j)"
    using p [of "Suc j"] by (simp add: in_place_def)
qed

section \<open>Growing the menu\<close>

definition menu_ok :: "pstate \<Rightarrow> bool" where
  "menu_ok ps \<longleftrightarrow>
     bare_ifs (conf ps) \<and> item (node_at ps (top_node (conf ps))) = IMenu \<and> top_node (conf ps) < next_node ps"

text \<open>
  From \<open>ps\<close> to \<open>ps'\<close> nodes were added after \<open>prev\<close>, under the parent \<open>p\<close>: the trees \<open>ts\<close>, with
  \<open>z\<close> as the last one.
\<close>

definition grows :: "nat \<Rightarrow> nat \<Rightarrow> pstate \<Rightarrow> nat \<Rightarrow> pstate \<Rightarrow> bool" where
  "grows p prev ps z ps' \<longleftrightarrow>
     next_node ps \<le> next_node ps' \<and> top_node (conf ps') = top_node (conf ps) \<and> (menu_ok ps \<longrightarrow> menu_ok ps') \<and>
     (\<forall>j < next_node ps. item (node_at ps' j) = item (node_at ps j) \<and>
        parent (node_at ps' j) = parent (node_at ps j) \<and> nd_list (node_at ps' j) = nd_list (node_at ps j) \<and>
        (j \<noteq> prev \<longrightarrow> nd_next (node_at ps' j) = nd_next (node_at ps j))) \<and>
     (\<exists>ts. ids ts = [next_node ps..<next_node ps'] \<and> z = (if ts = [] then prev else root (last ts)) \<and>
        seg (conf ps') p (nd_next (node_at ps' prev)) ts (nd_next (node_at ps' z)) \<and> leaf_syms (conf ps') ts)"

text \<open>Nothing added.\<close>

lemma grows_none:
  assumes "next_node ps' = next_node ps" "top_node (conf ps') = top_node (conf ps)" "menu_ok ps \<longrightarrow> menu_ok ps'"
    and "\<And>j. item (node_at ps' j) = item (node_at ps j) \<and> parent (node_at ps' j) = parent (node_at ps j) \<and>
      nd_list (node_at ps' j) = nd_list (node_at ps j) \<and> (j \<noteq> prev \<longrightarrow> nd_next (node_at ps' j) = nd_next (node_at ps j))"
  shows "grows p prev ps prev ps'"
  unfolding grows_def using assms by (intro conjI exI [of _ "[]"]) auto

lemma menu_ok_same:
  assumes "in_place i ps ps'" "item (node_at ps i) \<noteq> INone \<or> nd_prompt (node_at ps' i) = nd_prompt (node_at ps i)" "menu_ok ps"
  shows "menu_ok ps'"
proof -
  have "nd_prompt (node_at ps' j) = None" if "item (node_at ps j) = INone" for j
    using assms that by (cases "j = i") (auto simp: menu_ok_def bare_ifs_def in_place_def node_at_def)
  then show ?thesis
    using assms(1,3) by (simp add: menu_ok_def bare_ifs_def in_place_def node_at_def)
qed

lemma grows_in_place:
  assumes "in_place i ps ps'" "item (node_at ps i) \<noteq> INone \<or> nd_prompt (node_at ps' i) = nd_prompt (node_at ps i)"
  shows "grows p prev ps prev ps'"
proof (rule grows_none)
  show "menu_ok ps \<longrightarrow> menu_ok ps'" using menu_ok_same [OF assms] by blast
qed (use assms(1) in \<open>simp_all add: in_place_def same_ptrs_def node_at_def\<close>)

text \<open>The last root of a segment may get another successor.\<close>

lemma seg_last:
  assumes "seg kc p i ts e" "distinct (ids ts)"
    and "\<And>j. j \<in> set (ids ts) \<Longrightarrow> parent (nodetab kc' j) = parent (nodetab kc j) \<and> nd_list (nodetab kc' j) = nd_list (nodetab kc j)"
    and "\<And>j. j \<in> set (ids ts) \<Longrightarrow> j \<noteq> root (last ts) \<Longrightarrow> nd_next (nodetab kc' j) = nd_next (nodetab kc j)"
  shows "ts \<noteq> [] \<Longrightarrow> seg kc' p i ts (nd_next (nodetab kc' (root (last ts))))"
  using assms
proof (induction kc p i ts e rule: seg.induct)
  case (2 kc p i j cs ts e)
  have z: "root (last (MNode j cs # ts)) \<notin> set (ids cs)"
    using "2.prems"(3) last_root_in [of ts] by (cases "ts = []") auto
  have cs: "repr kc' j (nd_list (nodetab kc j)) cs"
    using "2.prems"(2,4,5) z by (intro repr_same [of cs kc kc']) (auto simp: same_ptrs_def)
  show ?case
  proof (cases "ts = []")
    case True
    then show ?thesis using "2.prems"(2,4) cs by simp
  next
    case False
    then have ne: "j \<noteq> root (last ts)" using "2.prems"(3) last_root_in [OF False] by auto
    have "seg kc' p (nd_next (nodetab kc j)) ts (nd_next (nodetab kc' (root (last ts))))"
      using "2.prems" False by (intro "2.IH") auto
    then show ?thesis using "2.prems"(2,4,5) False ne cs by simp
  qed
qed simp

lemma leaf_syms_cong:
  "(\<And>j. j \<in> set (ids ts) \<Longrightarrow> item (nodetab kc' j) = item (nodetab kc j)) \<Longrightarrow> leaf_syms kc' ts = leaf_syms kc ts"
  by (induction kc ts rule: leaf_syms.induct) auto

lemma grows_trans:
  assumes "grows p prev ps y ps1" "grows p y ps1 z ps2" "prev < next_node ps"
  shows "grows p prev ps z ps2"
proof -
  obtain ts where ts: "ids ts = [next_node ps..<next_node ps1]" "y = (if ts = [] then prev else root (last ts))"
    "seg (conf ps1) p (nd_next (node_at ps1 prev)) ts (nd_next (node_at ps1 y))" "leaf_syms (conf ps1) ts"
    using assms(1) unfolding grows_def by blast
  obtain us where us: "ids us = [next_node ps1..<next_node ps2]" "z = (if us = [] then y else root (last us))"
    "seg (conf ps2) p (nd_next (node_at ps2 y)) us (nd_next (node_at ps2 z))" "leaf_syms (conf ps2) us"
    using assms(2) unfolding grows_def by blast
  have le: "next_node ps \<le> next_node ps1" "next_node ps1 \<le> next_node ps2"
    using assms(1,2) by (simp_all add: grows_def)
  have f: "item (node_at ps2 j) = item (node_at ps1 j)" "parent (node_at ps2 j) = parent (node_at ps1 j)"
    "nd_list (node_at ps2 j) = nd_list (node_at ps1 j)"
    "j \<noteq> y \<Longrightarrow> nd_next (node_at ps2 j) = nd_next (node_at ps1 j)" if "j < next_node ps1" for j
    using assms(2) that by (simp_all add: grows_def)
  have "ids (ts @ us) = [next_node ps..<next_node ps2]"
    using ts(1) us(1) le upt_add_eq_append [of "next_node ps" "next_node ps1" "next_node ps2 - next_node ps1"] by simp
  moreover have "z = (if ts @ us = [] then prev else root (last (ts @ us)))"
    using ts(2) us(2) by auto
  moreover have "seg (conf ps2) p (nd_next (node_at ps2 prev)) (ts @ us) (nd_next (node_at ps2 z))"
  proof (cases "ts = []")
    case True
    then show ?thesis using ts(2) us(3) by simp
  next
    case False
    have in_ts: "j < next_node ps1" if "j \<in> set (ids ts)" for j using that ts(1) by simp
    have "seg (conf ps2) p (nd_next (node_at ps1 prev)) ts (nd_next (nodetab (conf ps2) (root (last ts))))"
    proof (rule seg_last [OF ts(3)])
      show "distinct (ids ts)" using ts(1) by simp
    qed (use f in_ts ts(2) False in \<open>simp_all add: node_at_def\<close>)
    moreover have "prev \<noteq> y"
      using last_root_in [OF False] ts(1,2) False assms(3) by auto
    then have "nd_next (node_at ps2 prev) = nd_next (node_at ps1 prev)" using f(4) assms(3) le by simp
    ultimately show ?thesis using ts(2) us(3) False unfolding seg_append node_at_def by auto
  qed
  moreover have "leaf_syms (conf ps2) (ts @ us)"
    using ts(1,4) us(4) f(1) leaf_syms_cong [of ts "conf ps2" "conf ps1"] by (simp add: node_at_def)
  moreover have "item (node_at ps2 j) = item (node_at ps j) \<and> parent (node_at ps2 j) = parent (node_at ps j) \<and>
      nd_list (node_at ps2 j) = nd_list (node_at ps j) \<and>
      (j \<noteq> prev \<longrightarrow> nd_next (node_at ps2 j) = nd_next (node_at ps j))" if j: "j < next_node ps" for j
  proof -
    have "nd_next (node_at ps2 j) = nd_next (node_at ps j)" if "j \<noteq> prev"
    proof -
      have "j \<noteq> y"
        using ts(1,2) last_root_in [of ts] j that by (cases "ts = []") auto
      then show ?thesis using f(4) [of j] j le that assms(1) by (simp add: grows_def)
    qed
    then show ?thesis using f(1-3) [of j] j le assms(1) by (simp add: grows_def)
  qed
  ultimately show ?thesis
    using assms(1,2) le unfolding grows_def by (intro conjI exI [of _ "ts @ us"]) auto
qed

section \<open>One new node\<close>

definition added :: "nat \<Rightarrow> menu_node \<Rightarrow> pstate \<Rightarrow> pstate \<Rightarrow> bool" where
  "added i n ps ps' \<longleftrightarrow>
     i = next_node ps \<and> next_node ps' = Suc i \<and> top_node (conf ps') = top_node (conf ps) \<and>
     (\<forall>j. j \<noteq> i \<longrightarrow> item (node_at ps' j) = item (node_at ps j) \<and> same_ptrs (conf ps) (conf ps') j \<and>
        nd_prompt (node_at ps' j) = nd_prompt (node_at ps j)) \<and>
     item (node_at ps' i) = item n \<and> parent (node_at ps' i) = parent n \<and> nd_list (node_at ps' i) = nd_list n \<and>
     nd_next (node_at ps' i) = nd_next n"

lemma new_node_added:
  "new_node n ps = (i, ps') \<Longrightarrow> added i n ps ps' \<and> nd_prompt (node_at ps' i) = nd_prompt n"
  by (auto simp: new_node_def added_def upd_node_def node_at_def same_ptrs_def)

lemma added_in_place: "added i n ps ps1 \<Longrightarrow> in_place i ps1 ps2 \<Longrightarrow> added i n ps ps2"
  unfolding added_def in_place_def same_ptrs_def node_at_def by auto

lemma added_before:
  "in_place j ps ps1 \<Longrightarrow> (\<And>k. nd_prompt (node_at ps1 k) = nd_prompt (node_at ps k)) \<Longrightarrow> added i n ps1 ps2 \<Longrightarrow> added i n ps ps2"
  unfolding added_def in_place_def same_ptrs_def node_at_def by auto

lemma upd_node_at:
  "nodetab (conf (upd_node i f ps)) = (nodetab (conf ps))(i := f (nodetab (conf ps) i))"
  "next_node (upd_node i f ps) = next_node ps" "top_node (conf (upd_node i f ps)) = top_node (conf ps)"
  by (simp_all add: upd_node_def node_at_def)

lemma menu_ok_added:
  assumes "added i n ps ps1" "item n \<noteq> INone \<or> nd_prompt (node_at ps1 i) = None" "menu_ok ps"
  shows "menu_ok ps1"
proof -
  have "nd_prompt (nodetab (conf ps1) j) = None" if "item (nodetab (conf ps1) j) = INone" for j
    using assms that by (cases "j = i") (auto simp: menu_ok_def bare_ifs_def added_def node_at_def)
  then show ?thesis using assms(1,3) by (auto simp: menu_ok_def bare_ifs_def added_def node_at_def)
qed

lemma menu_ok_upd:
  assumes "menu_ok ps" "\<And>n. item (f n) = item n \<and> nd_prompt (f n) = nd_prompt n"
  shows "menu_ok (upd_node i f ps)"
  using assms by (auto simp: menu_ok_def bare_ifs_def upd_node_at node_at_def)

lemma grows_leaf:
  assumes "added i n ps ps1" "parent n = Some p" "nd_list n = None" "item n \<noteq> INone" "prev < next_node ps"
    and "link_node prev i ps1 = (z, ps2)"
  shows "grows p prev ps z ps2"
proof -
  have z: "z = i" "ps2 = upd_node prev (\<lambda>n. n\<lparr>nd_next := Some i\<rparr>) ps1" using assms(6) by (auto simp: link_node_def)
  have i: "i = next_node ps" "next_node ps2 = Suc i" using assms(1) z by (simp_all add: added_def upd_node_at)
  have "menu_ok ps2" if "menu_ok ps"
    unfolding z by (rule menu_ok_upd [OF menu_ok_added [OF assms(1) _ that]]) (use assms(4) in simp_all)
  moreover have "ids [MNode i []] = [next_node ps..<next_node ps2]" using i by simp
  moreover have "seg (conf ps2) p (nd_next (node_at ps2 prev)) [MNode i []] (nd_next (node_at ps2 z))"
    using assms(1-3,5) i by (simp add: z upd_node_at added_def node_at_def)
  moreover have "item (node_at ps2 j) = item (node_at ps j) \<and> parent (node_at ps2 j) = parent (node_at ps j) \<and>
      nd_list (node_at ps2 j) = nd_list (node_at ps j) \<and> (j \<noteq> prev \<longrightarrow> nd_next (node_at ps2 j) = nd_next (node_at ps j))"
    if "j < next_node ps" for j
    using assms(1) that i(1) by (auto simp: z upd_node_at added_def same_ptrs_def node_at_def)
  ultimately show ?thesis
    using assms(1) i z unfolding grows_def
    by (intro conjI exI [of _ "[MNode i []]"]) (auto simp: added_def upd_node_at node_at_def split: node_item.split)
qed

lemma grows_entries:
  assumes "added i n ps ps1" "parent n = Some p" "\<nexists>s. item n = ISym s"
    and "item n \<noteq> INone \<or> nd_prompt (node_at ps1 i) = None" "prev < next_node ps"
    and "grows i i ps1 z ps2" "nd_next (node_at ps2 z) = None" "link_node prev i (tilt i ps2) = (y, ps3)"
  shows "grows p prev ps y ps3"
proof -
  have y: "y = i" "ps3 = upd_node prev (\<lambda>n. n\<lparr>nd_next := Some i\<rparr>) (upd_node i (\<lambda>n. n\<lparr>nd_list := nd_next n\<rparr>) ps2)"
    using assms(8) by (auto simp: link_node_def tilt_def)
  have i: "i = next_node ps" "next_node ps1 = Suc i" "prev \<noteq> i" using assms(1,5) by (simp_all add: added_def)
  obtain ts where ts: "ids ts = [next_node ps1..<next_node ps2]" "z = (if ts = [] then i else root (last ts))"
    "seg (conf ps2) i (nd_next (node_at ps2 i)) ts (nd_next (node_at ps2 z))" "leaf_syms (conf ps2) ts"
    using assms(6) unfolding grows_def by blast
  have n2: "next_node ps1 \<le> next_node ps2" "next_node ps3 = next_node ps2" using assms(6) y by (simp_all add: grows_def upd_node_at)
  have f: "item (node_at ps2 j) = item (node_at ps1 j)" "parent (node_at ps2 j) = parent (node_at ps1 j)"
    "nd_list (node_at ps2 j) = nd_list (node_at ps1 j)" "j \<noteq> i \<Longrightarrow> nd_next (node_at ps2 j) = nd_next (node_at ps1 j)"
    if "j < next_node ps1" for j
    using assms(6) that by (simp_all add: grows_def)
  have out: "j \<notin> set (ids ts)" if "j \<le> i" for j using that ts(1) i(2) by simp
  have "menu_ok ps3" if "menu_ok ps"
  proof -
    have "menu_ok ps2" using menu_ok_added [OF assms(1,4) that] assms(6) by (simp add: grows_def)
    then show ?thesis unfolding y by (intro menu_ok_upd) simp_all
  qed
  moreover have "ids [MNode i ts] = [next_node ps..<next_node ps3]"
    using ts(1) i n2 by (simp add: upt_conv_Cons)
  moreover have "seg (conf ps3) p (nd_next (node_at ps3 prev)) [MNode i ts] (nd_next (node_at ps3 y))"
  proof -
    have "repr (conf ps2) i (nd_next (node_at ps2 i)) ts" using ts(3) assms(7) by (simp add: repr_seg)
    moreover have "same_ptrs (conf ps2) (conf ps3) j" if "j \<in> set (ids ts)" for j
    proof -
      have "j \<noteq> i" "j \<noteq> prev" using that out [of i] out [of prev] assms(5) i(1) by auto
      then show ?thesis by (simp add: y(2) upd_node_at same_ptrs_def)
    qed
    ultimately have "repr (conf ps3) i (nd_next (node_at ps2 i)) ts" using repr_same by blast
    moreover have "parent (node_at ps3 i) = Some p" "nd_list (node_at ps3 i) = nd_next (node_at ps2 i)"
      using f(2) [of i] assms(1,2) i by (simp_all add: y upd_node_at added_def node_at_def)
    moreover have "nd_next (node_at ps3 prev) = Some i" by (simp add: y upd_node_at node_at_def)
    ultimately show ?thesis unfolding y(1) by (simp add: node_at_def)
  qed
  moreover have "leaf_syms (conf ps3) [MNode i ts]"
  proof -
    have "item (nodetab (conf ps3) j) = item (nodetab (conf ps2) j)" for j
      by (simp add: y upd_node_at)
    moreover have "item (nodetab (conf ps2) i) = item n" using f(1) [of i] assms(1) i by (simp add: added_def node_at_def)
    ultimately show ?thesis using ts(4) leaf_syms_cong [of ts "conf ps3" "conf ps2"] assms(3)
      by (auto split: node_item.split)
  qed
  moreover have "item (node_at ps3 j) = item (node_at ps j) \<and> parent (node_at ps3 j) = parent (node_at ps j) \<and>
      nd_list (node_at ps3 j) = nd_list (node_at ps j) \<and> (j \<noteq> prev \<longrightarrow> nd_next (node_at ps3 j) = nd_next (node_at ps j))"
    if "j < next_node ps" for j
    using f [of j] assms(1) that i by (auto simp: y upd_node_at added_def same_ptrs_def node_at_def)
  moreover have "y = (if [MNode i ts] = [] then prev else root (last [MNode i ts]))" using y by simp
  moreover have "next_node ps \<le> next_node ps3" "top_node (conf ps3) = top_node (conf ps)"
    using assms(1,6) i n2 by (simp_all add: y upd_node_at added_def grows_def)
  ultimately show ?thesis unfolding grows_def by blast
qed

section \<open>Statements\<close>

text \<open>What changes between the creation of a node and its properties.\<close>

lemma props_in_place:
  assumes "menu_safe w" "parse_props w d i ps1 = Inr ps2" "next_node ps1 = next_node ps"
    and "nodetab (conf ps1) = nodetab (conf ps)" "top_node (conf ps1) = top_node (conf ps)"
  shows "in_place i ps ps2"
  using in_place_trans [OF in_place_same [OF assms(3-5)]] place.parse_props_frame [OF assms(2)] assms(1) by blast

lemma same_menu [simp]:
  "nodetab (conf (upd_sym s g ps)) = nodetab (conf ps)" "next_node (upd_sym s g ps) = next_node ps"
  "top_node (conf (upd_sym s g ps)) = top_node (conf ps)" "nodetab (conf (upd_choice c h ps)) = nodetab (conf ps)"
  "next_node (upd_choice c h ps) = next_node ps" "top_node (conf (upd_choice c h ps)) = top_node (conf ps)"
  "conf (warn_plain m ps) = conf ps" "next_node (warn_plain m ps) = next_node ps"
  by (simp_all add: upd_sym_def put_sym_def upd_choice_def warn_plain_def)

lemma added_same:
  "nodetab (conf ps1) = nodetab (conf ps) \<Longrightarrow> next_node ps1 = next_node ps \<Longrightarrow> top_node (conf ps1) = top_node (conf ps) \<Longrightarrow>
     added i n ps1 ps2 = added i n ps ps2"
  by (simp add: added_def node_at_def same_ptrs_def)

lemma added_warn: "added i n ps ps' \<Longrightarrow> added i n ps (warn_plain m ps')"
  unfolding added_def node_at_def same_menu by blast

lemma node_here_simps [simp]:
  "parent (node_here it mc p ps) = Some p" "item (node_here it mc p ps) = it" "nd_list (node_here it mc p ps) = None"
  by (simp_all add: node_here_def fresh_node_def)

lemma config_stmt_grows:
  assumes "menu_safe w" "config_stmt w d p prev mc ts ps = Inr (z, ps')" "prev < next_node ps"
  shows "grows p prev ps z ps'"
proof -
  obtain s where ts: "ts = [TSym s]" "\<not> is_constant s"
    using assms(2) by (auto simp: config_stmt_def split: list.splits tok.splits if_splits)
  define ps1 where "ps1 = ps\<lparr>defined_syms := defined_syms ps @ [s]\<rparr>"
  obtain i ps2 where n: "new_node (node_here (ISym s) mc p ps1) ps1 = (i, ps2)"
    by (cases "new_node (node_here (ISym s) mc p ps1) ps1")
  obtain ps3 where r: "parse_props w d i (upd_sym s (\<lambda>o_s. o_s\<lparr>nodes := nodes o_s @ [i]\<rparr>) ps2) = Inr ps3"
    and l: "(z, ps') = link_node prev i
      (if mc \<and> nd_prompt (node_at ps3 i) = None
       then warn_plain (''the menuconfig symbol '' @ name_and_loc (conf ps3) (Sym s) @ '' has no prompt'') ps3
       else ps3)"
    using assms(2) ts n unfolding config_stmt_def ps1_def by (auto simp: Let_def split: sum.splits)
  have "in_place i ps2 ps3" by (rule props_in_place [OF assms(1) r]) simp_all
  from added_in_place [OF conjunct1 [OF new_node_added [OF n]] this]
  have "added i (node_here (ISym s) mc p ps1) ps ps3" using added_same [of ps1 ps] by (simp add: ps1_def)
  then have "added i (node_here (ISym s) mc p ps1) ps (if b then warn_plain m ps3 else ps3)" for b m
    by (simp add: added_warn)
  from grows_leaf [OF this _ _ _ assms(3) l [symmetric]] show ?thesis by simp
qed

lemma comment_stmt_grows:
  assumes "menu_safe w" "comment_stmt w d p prev ts ps = Inr (z, ps')" "prev < next_node ps"
  shows "grows p prev ps z ps'"
proof -
  obtain t where t: "expect_str_and_eol ps ts = Inr t"
    using assms(2) by (auto simp: comment_stmt_def split: sum.splits)
  let ?n = "(node_here IComment False p ps)\<lparr>nd_prompt := Some (t, expr_y)\<rparr>"
  obtain i ps1 where n: "new_node ?n ps = (i, ps1)" by (cases "new_node ?n ps")
  obtain ps2 where r: "parse_props w d i (ps1\<lparr>comments := comments ps1 @ [i]\<rparr>) = Inr ps2" "link_node prev i ps2 = (z, ps')"
    using assms(2) t n by (auto simp: comment_stmt_def Let_def map_sum_def split: sum.splits)
  have "in_place i ps1 ps2" by (rule props_in_place [OF assms(1) r(1)]) simp_all
  note a = added_in_place [OF conjunct1 [OF new_node_added [OF n]] this]
  from grows_leaf [OF a _ _ _ assms(3) r(2)] show ?thesis by simp
qed

lemma mainmenu_stmt_grows:
  assumes "mainmenu_stmt prev ts ps = Inr (z, ps')" shows "grows p prev ps z ps'"
proof -
  obtain t where z: "z = prev" "ps' = upd_node (top_node (conf ps)) (\<lambda>n. n\<lparr>nd_prompt := Some (t, expr_y)\<rparr>) ps"
    using assms by (auto simp: mainmenu_stmt_def map_sum_def split: sum.splits)
  have "menu_ok ps'" if "menu_ok ps"
    using that by (auto simp: menu_ok_def bare_ifs_def z upd_node_at node_at_def)
  then show ?thesis unfolding z(1) by (intro grows_none) (auto simp: z upd_node_at node_at_def)
qed

lemma choice_object_same:
  assumes "choice_object ts ps = Inr (c, ps')"
  shows "nodetab (conf ps') = nodetab (conf ps)" "next_node ps' = next_node ps" "top_node (conf ps') = top_node (conf ps)"
  using assms by (auto simp: choice_object_def new_choice_def Let_def split: if_splits sum.splits option.splits)

text \<open>The contract of the parser for blocks.\<close>

locale block_builder =
  fixes w :: world and block :: block_parser
  assumes block_grows:
    "menu_safe w \<Longrightarrow> block e p prev ps = Inr (z, ps') \<Longrightarrow> prev < next_node ps \<Longrightarrow>
       grows p prev ps z ps' \<and> (e \<noteq> None \<longrightarrow> nd_next (node_at ps' z) = None)"
begin

lemma source_all_grows:
  "menu_safe w \<Longrightarrow> source_all block w p fs prev ps = Inr (z, ps') \<Longrightarrow> prev < next_node ps \<Longrightarrow> grows p prev ps z ps'"
proof (induction fs arbitrary: prev ps)
  case Nil
  then show ?case by (auto intro!: grows_in_place [OF in_place_same])
next
  case (Cons f fs)
  obtain ps1 y ps2 where e: "enter_file w f ps = Inr ps1" and b: "block None p prev ps1 = Inr (y, ps2)"
    and s: "source_all block w p fs y (leave_file ps2) = Inr (z, ps')"
    using Cons.prems(2) by (auto simp: bind_ps_def split: sum.splits prod.splits)
  have e1: "conf ps1 = conf ps" "next_node ps1 = next_node ps"
    using e by (auto simp: enter_file_def Let_def split: if_splits option.splits)
  have g1: "grows p prev ps1 y ps2" using block_grows [OF Cons.prems(1) b] Cons.prems(3) e1 by simp
  have g0: "grows p prev ps prev ps1" by (rule grows_in_place [OF in_place_same]) (use e1 in \<open>simp_all add: node_at_def\<close>)
  have l: "conf (leave_file ps2) = conf ps2" "next_node (leave_file ps2) = next_node ps2" by (simp_all add: leave_file_def)
  have g2: "grows p y ps2 y (leave_file ps2)" by (rule grows_in_place [OF in_place_same]) (use l in \<open>simp_all add: node_at_def\<close>)
  have y: "y < next_node ps2" using g1 Cons.prems(3) e1 last_root_in unfolding grows_def by fastforce
  have g3: "grows p y (leave_file ps2) z ps'" using Cons.IH [OF Cons.prems(1) s] y l by simp
  show ?case
    using grows_trans [OF grows_trans [OF g0 g1 Cons.prems(3)] grows_trans [OF g2 g3 y] Cons.prems(3)] .
qed

lemma entries_grows:
  assumes "menu_safe w" "entries block t prev i ps1 = Inr (z, ps')" "added i n ps ps1" "parent n = Some p"
    and "\<nexists>s. item n = ISym s" "item n \<noteq> INone \<or> nd_prompt (node_at ps1 i) = None" "prev < next_node ps"
  shows "grows p prev ps z ps'"
proof -
  obtain y ps2 where b: "block (Some t) i i ps1 = Inr (y, ps2)" and l: "link_node prev i (tilt i ps2) = (z, ps')"
    using assms(2) by (auto simp: entries_def bind_ps_def split: sum.splits)
  have "i < next_node ps1" using assms(3) by (simp add: added_def)
  then have "grows i i ps1 y ps2" "nd_next (node_at ps2 y) = None" using block_grows [OF assms(1) b] by simp_all
  then show ?thesis using grows_entries [OF assms(3-7) _ _ l] by blast
qed

lemma if_stmt_grows:
  assumes "menu_safe w" "if_stmt block p prev ts ps = Inr (z, ps')" "prev < next_node ps"
  shows "grows p prev ps z ps'"
proof -
  obtain e where e: "expect_expr_and_eol ps ts = Inr e" using assms(2) by (auto simp: if_stmt_def split: sum.splits)
  let ?n = "fresh_node\<lparr>parent := Some p, dep := e\<rparr>"
  obtain i ps1 where n: "new_node ?n ps = (i, ps1)" by (cases "new_node ?n ps")
  have "entries block T_ENDIF prev i ps1 = Inr (z, ps')" using assms(2) e n by (simp add: if_stmt_def)
  from entries_grows [OF assms(1) this conjunct1 [OF new_node_added [OF n]] _ _ _ assms(3)]
  show ?thesis using new_node_added [OF n] by (simp add: fresh_node_def)
qed

lemma menu_stmt_grows:
  assumes "menu_safe w" "menu_stmt block w d p prev ts ps = Inr (z, ps')" "prev < next_node ps"
  shows "grows p prev ps z ps'"
proof -
  obtain t where t: "expect_str_and_eol ps ts = Inr t" using assms(2) by (auto simp: menu_stmt_def split: sum.splits)
  let ?n = "(node_here IMenu True p ps)\<lparr>nd_prompt := Some (t, expr_y)\<rparr>"
  obtain i ps1 where n: "new_node ?n ps = (i, ps1)" by (cases "new_node ?n ps")
  obtain ps2 where r: "parse_props w d i (ps1\<lparr>menus := menus ps1 @ [i]\<rparr>) = Inr ps2" "entries block T_ENDMENU prev i ps2 = Inr (z, ps')"
    using assms(2) t n by (auto simp: menu_stmt_def Let_def split: sum.splits)
  have "in_place i ps1 ps2" by (rule props_in_place [OF assms(1) r(1)]) simp_all
  note a = added_in_place [OF conjunct1 [OF new_node_added [OF n]] this]
  from entries_grows [OF assms(1) r(2) a _ _ _ assms(3)] show ?thesis by simp
qed

lemma choice_stmt_grows:
  assumes "menu_safe w" "choice_stmt block w d p prev ts ps = Inr (z, ps')" "prev < next_node ps"
  shows "grows p prev ps z ps'"
proof -
  obtain c ps1 where c: "choice_object ts ps = Inr (c, ps1)"
    using assms(2) by (auto simp: choice_stmt_def bind_ps_def split: sum.splits)
  define ps2 where "ps2 = ps1\<lparr>choices := choices ps1 @ [c]\<rparr>"
  let ?n = "node_here (ICho c) True p ps2"
  obtain i ps3 where n: "new_node ?n ps2 = (i, ps3)" by (cases "new_node ?n ps2")
  obtain ps4 where r: "parse_props w d i (upd_choice c (\<lambda>o_c. o_c\<lparr>c_nodes := c_nodes o_c @ [i]\<rparr>) ps3) = Inr ps4"
    "entries block T_ENDCHOICE prev i ps4 = Inr (z, ps')"
    using assms(2) c n unfolding choice_stmt_def ps2_def by (auto simp: Let_def split: sum.splits)
  have "in_place i ps3 ps4" by (rule props_in_place [OF assms(1) r(1)]) simp_all
  from added_in_place [OF conjunct1 [OF new_node_added [OF n]] this]
  have "added i ?n ps ps4" using added_same [of ps2 ps] choice_object_same [OF c] by (simp add: ps2_def)
  from entries_grows [OF assms(1) r(2) this _ _ _ assms(3)] show ?thesis by simp
qed

lemma statement_grows:
  assumes "menu_safe w" "statement block w d p prev t0 ts ps = Inr (z, ps')" "prev < next_node ps"
  shows "grows p prev ps z ps'"
proof -
  have "source_stmt block w p prev t0 ts ps = Inr (z, ps') \<Longrightarrow> grows p prev ps z ps'"
    using source_all_grows [OF assms(1) _ assms(3)] by (auto simp: source_stmt_def split: sum.splits)
  then show ?thesis
    using assms(2) config_stmt_grows [OF assms(1) _ assms(3)] comment_stmt_grows [OF assms(1) _ assms(3)]
      mainmenu_stmt_grows if_stmt_grows [OF assms(1) _ assms(3)] menu_stmt_grows [OF assms(1) _ assms(3)]
      choice_stmt_grows [OF assms(1) _ assms(3)]
    unfolding statement_def by (simp split: if_splits)
qed

end

section \<open>Blocks and files\<close>

lemma grows_last: "grows p prev ps z ps' \<Longrightarrow> prev < next_node ps \<Longrightarrow> z < next_node ps'"
  using last_root_in unfolding grows_def by fastforce

lemma parse_block_builder: "block_builder w (parse_block w d k)"
proof (induction k)
  case 0
  show ?case by unfold_locales simp
next
  case (Suc k)
  show ?case
  proof
    fix e p prev ps z ps'
    assume safe: "menu_safe w" and b: "parse_block w d (Suc k) e p prev ps = Inr (z, ps')" and prev: "prev < next_node ps"
    obtain more ps1 where n: "next_line w d ps = Inr (more, ps1)" using b by (auto split: sum.splits)
    have g1: "grows p prev ps prev ps1"
      using grows_in_place [OF next_line_nodes(1) [OF safe n]] next_line_nodes(2) [OF safe n] by blast
    have prev1: "prev < next_node ps1" using g1 prev by (simp add: grows_def)
    have rest: "grows p prev ps z ps' \<and> (e \<noteq> None \<longrightarrow> nd_next (node_at ps' z) = None)"
      if "parse_block w d k e p y ps2 = Inr (z, ps')" "grows p prev ps1 y ps2" for y ps2
      using block_builder.block_grows [OF Suc.IH safe that(1) grows_last [OF that(2) prev1]]
        grows_trans [OF grows_trans [OF g1 that(2) prev] _ prev] by blast
    show "grows p prev ps z ps' \<and> (e \<noteq> None \<longrightarrow> nd_next (node_at ps' z) = None)"
    proof (cases more)
      case False
      then have "e = None \<and> z = prev \<and> ps' = ps1"
        using b n by (cases e) (simp_all add: end_of_file_def)
      then show ?thesis using g1 by simp
    next
      case True
      show ?thesis
      proof (cases "tokens ps1")
        case Nil
        then have "parse_block w d k e p prev ps1 = Inr (z, ps')" using b n True by simp
        then show ?thesis using rest grows_in_place [OF in_place_same] by blast
      next
        case (Cons t ts)
        then obtain t0 where t: "t = TKey t0" using b n True by (cases t) simp_all
        show ?thesis
        proof (cases "e = Some t0")
          case e: True
          then have z: "z = prev" "ps' = upd_node prev (\<lambda>n. n\<lparr>nd_next := None\<rparr>) ps1"
            using b n True Cons t by (auto split: if_splits)
          have "grows p prev ps1 prev ps'"
          proof (rule grows_none)
            show "menu_ok ps1 \<longrightarrow> menu_ok ps'" unfolding z(2) by (intro impI menu_ok_upd) simp_all
          qed (simp_all add: z(2) upd_node_at node_at_def)
          then show ?thesis using grows_trans [OF g1 _ prev] by (simp add: z upd_node_at node_at_def)
        next
          case False
          then obtain y ps2 where s: "statement (parse_block w d k) w d p prev t0 ts ps1 = Inr (y, ps2)"
            and r: "parse_block w d k e p y ps2 = Inr (z, ps')"
            using b n True Cons t by (auto simp: bind_ps_def split: sum.splits)
          show ?thesis by (rule rest [OF r block_builder.statement_grows [OF Suc.IH safe s prev1]])
        qed
      qed
    qed
  qed
qed

interpretation blocks: block_builder w "parse_block w d k" for w d k
  by (rule parse_block_builder)

lemma parsed_tree:
  assumes "menu_safe w" "parse_files w d k fname wrn = Inr ps"
  shows "\<exists>ts. represents (conf ps) ts \<and> concat (map preorder ts) = [1..<next_node ps] \<and>
    top_node (conf ps) = 0 \<and> leaf_syms (conf ps) ts \<and> menu_ok ps"
proof -
  obtain ls z ps1 where b: "parse_block w d k None 0 0 (start_parser w fname wrn ls) = Inr (z, ps1)"
    and ps: "ps = (close_top z ps1)\<lparr>parsing_kconfigs := False\<rparr>"
    using assms(2) by (auto simp: parse_files_def split: option.splits sum.splits)
  let ?s = "start_parser w fname wrn ls"
  have s: "next_node ?s = 1" "conf ?s = conf ?s" "top_node (conf ?s) = 0"
    "nodetab (conf ?s) = (\<lambda>_. fresh_node)(0 := top_menu fname)"
    by (simp_all add: start_parser_def lookup_sym_def put_sym_def Let_def empty_config_def)
  have ok: "menu_ok ?s"
    using s by (simp add: menu_ok_def bare_ifs_def node_at_def top_menu_def fresh_node_def)
  have g: "grows 0 0 ?s z ps1" using blocks.block_grows [OF assms(1) b] s by simp
  obtain ts where ts: "ids ts = [1..<next_node ps1]" "z = (if ts = [] then 0 else root (last ts))"
    "seg (conf ps1) 0 (nd_next (node_at ps1 0)) ts (nd_next (node_at ps1 z))" "leaf_syms (conf ps1) ts"
    using g s unfolding grows_def by auto
  have top: "top_node (conf ps1) = 0" "parent (node_at ps1 0) = None" "menu_ok ps1"
    using g s ok by (auto simp: grows_def node_at_def top_menu_def fresh_node_def)
  define ps2 where "ps2 = upd_node z (\<lambda>n. n\<lparr>nd_next := None\<rparr>) ps1"
  have c: "conf ps = conf (upd_node 0 (\<lambda>n. n\<lparr>nd_next := None\<rparr>) (tilt 0 ps2))" "next_node ps = next_node ps1"
    using top(1) by (simp_all add: ps close_top_def ps2_def tilt_def upd_node_at)
  have r2: "repr (conf ps2) 0 (nd_next (node_at ps2 0)) ts"
  proof (cases "ts = []")
    case True
    then show ?thesis using ts(2) by (simp add: ps2_def upd_node_at node_at_def)
  next
    case False
    have "conf ps2 = set_node (root (last ts)) (\<lambda>n. n\<lparr>nd_next := None\<rparr>) (conf ps1)"
      using ts(2) False by (simp add: ps2_def upd_node_def set_node_def node_at_def)
    moreover have "0 \<noteq> z" using ts(1,2) last_root_in [OF False] False by auto
    then have "nd_next (node_at ps2 0) = nd_next (node_at ps1 0)" by (simp add: ps2_def upd_node_at node_at_def)
    ultimately show ?thesis using seg_relink [OF ts(3) False, of None] ts(1) by (simp add: repr_seg)
  qed
  have same: "same_ptrs (conf ps2) (conf ps) j" if "j \<noteq> 0" for j
    using that by (simp add: c(1) tilt_def upd_node_at same_ptrs_def)
  have "0 \<notin> set (ids ts)" using ts(1) by simp
  then have "repr (conf ps) 0 (nd_next (node_at ps2 0)) ts" using repr_same [OF _ r2, of "conf ps"] same by metis
  moreover have "nd_list (nodetab (conf ps) 0) = nd_next (node_at ps2 0)" "nd_next (nodetab (conf ps) 0) = None"
    by (simp_all add: c(1) tilt_def upd_node_at node_at_def)
  moreover have "parent (nodetab (conf ps) 0) = None" "top_node (conf ps) = 0"
    using top by (simp_all add: c(1) ps2_def tilt_def upd_node_at node_at_def)
  ultimately have "represents (conf ps) ts" by (simp add: represents_def)
  moreover have "item (nodetab (conf ps) j) = item (nodetab (conf ps1) j)" for j
    by (simp add: c(1) ps2_def tilt_def upd_node_at)
  then have "leaf_syms (conf ps) ts" using leaf_syms_cong [of ts "conf ps" "conf ps1"] ts(4) by simp
  moreover have "menu_ok ps"
    using top(1,3) c by (auto simp: menu_ok_def bare_ifs_def ps2_def tilt_def upd_node_at node_at_def)
  ultimately show ?thesis
    using ts(1) c(2) \<open>top_node (conf ps) = 0\<close> by (intro exI [of _ ts]) (simp add: ids_def)
qed

text \<open>
  C10. Parsing the files builds a tree: the menu nodes, linked by the pointers that the parser sets,
  represent a tree with the top menu as its root; its preorder is the order in which the
  statements come in the files.
\<close>

theorem parse_builds_tree:
  assumes "menu_safe w" "parse_files w d k fname wrn = Inr ps"
  shows "\<exists>ts. represents (conf ps) ts \<and> concat (map preorder ts) = [1..<next_node ps]"
  using parsed_tree [OF assms] by blast

end
