(* ===== verification/Kconfig_Init.thy ===== *)
theory Kconfig_Init
  imports Parse_Tree Sanity Dep_Loop Build_Dep
begin

text \<open>
  \<^verbatim>\<open>Kconfig._init\<close>: parsing, finalisation, the sanity checks, the dependency sets and the check
  for dependency loops, in this order. The bound of the finalisation is computed from the
  number of menu nodes, the one of the search for loops from the number of items; \<open>d\<close> bounds
  the nesting of macros and \<open>k\<close> the lines and the nesting of blocks.
\<close>

definition finalize_menu :: "pstate \<Rightarrow> kconfig option" where
  "finalize_menu ps = finalize_node (next_node ps + 3) expr_y (top_node (conf ps)) (conf ps)"

definition register_items :: "pstate \<Rightarrow> kconfig \<Rightarrow> kconfig" where
  "register_items ps kc =
     kc\<lparr>unique_defined_syms := ordered_unique (defined_syms ps), unique_choices := ordered_unique (choices ps)\<rparr>"

definition warn_undef :: "world \<Rightarrow> bool" where
  "warn_undef w \<longleftrightarrow> environ w ''KCONFIG_WARN_UNDEF'' = Some ''y'' \<or> environ w ''KCONFIG_STRICT'' = Some ''y''"

definition check_configuration :: "world \<Rightarrow> nat \<Rightarrow> string list \<Rightarrow> kconfig \<Rightarrow> kstate \<Rightarrow> exn + kstate" where
  "check_configuration w k names kc st =
     (case check_sym_sanity kc st of
        Inl e \<Rightarrow> Inl e
      | Inr st1 \<Rightarrow>
          (case check_choice_sanity kc st1 of
             Inl e \<Rightarrow> Inl e
           | Inr st2 \<Rightarrow>
               if warn_undef w then
                 (case node_iter kc k False of
                    None \<Rightarrow> Inl RecursionError
                  | Some ns \<Rightarrow> Inr (check_undef_syms kc names ns st2))
               else Inr st2))"

definition dependencies :: "kconfig \<Rightarrow> exn + kconfig" where
  "dependencies kc =
     (let kc1 = build_dep kc
      in case check_dep_loops kc1 (Suc (length (unique_defined_syms kc1) + length (unique_choices kc1))) of
           Inl e \<Rightarrow> Inl e
         | Inr _ \<Rightarrow> Inr (add_choice_deps kc1))"

definition kconfig_init :: "world \<Rightarrow> nat \<Rightarrow> nat \<Rightarrow> string \<Rightarrow> bool \<Rightarrow> exn + pstate" where
  "kconfig_init w d k fname wrn =
     (case parse_files w d k fname wrn of
        Inl e \<Rightarrow> Inl e
      | Inr ps \<Rightarrow>
          (case finalize_menu ps of
             None \<Rightarrow> Inl RecursionError
           | Some kc \<Rightarrow>
               (let kc1 = register_items ps kc
                in case check_configuration w (2 * next_node ps + 3) (syms_keys ps) kc1 (out ps) of
                     Inl e \<Rightarrow> Inl e
                   | Inr st \<Rightarrow> map_sum id (\<lambda>kc2. ps\<lparr>conf := kc2, out := st\<rparr>) (dependencies kc1))))"

section \<open>The menu after initialisation\<close>

text \<open>Finalisation of parsed files never runs out of its bound.\<close>

lemma finalize_menu_parsed:
  assumes "menu_safe w" "parse_files w d k fname wrn = Inr ps"
  shows "\<exists>kc ts. finalize_menu ps = Some kc \<and> represents kc ts \<and>
    concat (map preorder ts) = filter (\<lambda>i. item (node_at ps i) \<noteq> INone) [1..<next_node ps] \<and>
    (\<forall>j. item (nodetab kc j) = item (node_at ps j))"
proof -
  obtain ts where ts: "represents (conf ps) ts" "concat (map preorder ts) = [1..<next_node ps]"
    "top_node (conf ps) = 0" "leaf_syms (conf ps) ts" "menu_ok ps"
    using parsed_tree [OF assms] by blast
  have "\<exists>kc' ts'. finalize_node (next_node ps + 3) expr_y (top_node (conf ps)) (conf ps) = Some kc' \<and> represents kc' ts' \<and>
    concat (map preorder ts') = filter (\<lambda>i. item (nodetab (conf ps) i) \<noteq> INone) (concat (map preorder ts)) \<and>
    rearranged UNIV (conf ps) kc'"
    using ts by (intro finalize_tree) (auto simp: menu_ok_def node_at_def)
  then obtain kc ts' where "finalize_menu ps = Some kc" "represents kc ts'" "rearranged UNIV (conf ps) kc"
    "concat (map preorder ts') = filter (\<lambda>i. item (nodetab (conf ps) i) \<noteq> INone) (concat (map preorder ts))"
    unfolding finalize_menu_def by blast
  moreover from this(3) have "item (nodetab kc j) = item (nodetab (conf ps) j)" for j by (rule rearranged_item)
  ultimately show ?thesis unfolding node_at_def ts(2) by blast
qed

lemma add_dependent_menu [simp]: "nodetab (add_dependent x y kc) = nodetab kc \<and> top_node (add_dependent x y kc) = top_node kc"
proof (cases y)
  case (Sym s)
  then show ?thesis unfolding Sym add_dependent.simps by simp
next
  case (Cho c)
  then show ?thesis unfolding Cho add_dependent.simps by simp
qed

lemma depend_on_menu [simp]: "nodetab (depend_on x e kc) = nodetab kc \<and> top_node (depend_on x e kc) = top_node kc"
  by (induction e arbitrary: kc) (simp_all add: Let_def)

lemma dependencies_menu:
  assumes "dependencies kc = Inr kc'"
  shows "nodetab kc' = nodetab kc \<and> top_node kc' = top_node kc"
proof -
  have b: "nodetab (build_dep kc) = nodetab kc \<and> top_node (build_dep kc) = top_node kc"
    unfolding build_dep_def Let_def by (simp add: fold_nodetab)
  have "nodetab (add_choice_deps k) = nodetab k \<and> top_node (add_choice_deps k) = top_node k" for k
    unfolding add_choice_deps_def by (simp add: fold_nodetab)
  then show ?thesis using assms b by (auto simp: dependencies_def Let_def split: sum.splits)
qed

text \<open>Walking it, before and after the dependency sets are built.\<close>

lemma node_iter_cong:
  assumes "nodetab kc' = nodetab kc" "top_node kc' = top_node kc"
  shows "node_iter kc' f b = node_iter kc f b"
proof -
  have c: "climb kc' f i = climb kc f i" for f i by (induction f arbitrary: i) (simp_all add: assms cong: option.case_cong)
  have "advance kc' f i = advance kc f i" for f i unfolding advance_def assms c ..
  then have w: "walk kc' f i = walk kc f i" for f i by (induction f arbitrary: i) (simp_all add: walk.simps cong: option.case_cong)
  have "first_nodes kc' A is = first_nodes kc A is" for A "is"
    by (induction "is" arbitrary: A) (simp_all add: assms split: node_item.split)
  then show ?thesis by (simp add: node_iter_def w assms cong: if_cong)
qed

lemma node_iter_parsed:
  assumes "menu_safe w" "parse_files w d k fname wrn = Inr ps" "finalize_menu ps = Some kc" "2 * next_node ps + 3 \<le> f"
  shows "node_iter kc f False = Some (filter (\<lambda>i. item (nodetab kc i) \<noteq> INone) [1..<next_node ps])"
proof -
  obtain ts where ts: "represents kc ts" "\<forall>j. item (nodetab kc j) = item (node_at ps j)"
    "concat (map preorder ts) = filter (\<lambda>i. item (node_at ps i) \<noteq> INone) [1..<next_node ps]"
    using finalize_menu_parsed [OF assms(1,2)] assms(3) by auto
  have "2 * length (concat (map preorder ts)) + 3 \<le> f"
    using length_filter_le [of "\<lambda>i. item (node_at ps i) \<noteq> INone" "[1..<next_node ps]"] assms(4) ts(3) by simp
  from walk_tree [OF ts(1) this] show ?thesis using ts(2,3) by (simp add: node_iter_def visits_trees)
qed

text \<open>
  C9. From the Kconfig files to the menu: after an initialisation that returns, the menu is a tree,
  and \<^verbatim>\<open>node_iter\<close> visits the symbols, choices, menus and comments of the files, each node once
  and in the order in which they are written, sourced files in their place; no node of an \<open>if\<close> is
  left. Two steps for every node, and three more, suffice.
\<close>

theorem init_menu_order:
  assumes "menu_safe w" "kconfig_init w d k fname wrn = Inr ps" "2 * next_node ps + 3 \<le> f"
  shows "node_iter (conf ps) f False =
    Some (filter (\<lambda>i. item (nodetab (conf ps) i) \<noteq> INone) [1..<next_node ps])"
proof -
  obtain ps1 kc kc2 st where p: "parse_files w d k fname wrn = Inr ps1" "finalize_menu ps1 = Some kc"
    "dependencies (register_items ps1 kc) = Inr kc2" "ps = ps1\<lparr>conf := kc2, out := st\<rparr>"
    using assms(2) by (auto simp: kconfig_init_def Let_def map_sum_def split: sum.splits option.splits)
  have n: "nodetab kc2 = nodetab kc" "top_node kc2 = top_node kc"
    using dependencies_menu [OF p(3)] by (simp_all add: register_items_def)
  have "node_iter kc f False = Some (filter (\<lambda>i. item (nodetab kc i) \<noteq> INone) [1..<next_node ps1])"
    by (rule node_iter_parsed [OF assms(1) p(1,2)]) (use assms(3) p(4) in simp)
  moreover have "node_iter kc2 f False = node_iter kc f False" by (rule node_iter_cong [OF n])
  ultimately show ?thesis using n p(4) by simp
qed

end
