(* ===== verification/Menu_Deps.thy ===== *)
theory Menu_Deps
  imports Menu_Finalize Node_Str
begin

text \<open>
  The dependencies that \<^verbatim>\<open>_propagate_deps\<close> adds to the conditions of a node, and the
  \<^verbatim>\<open>orig_*\<close> properties that take them away again.
\<close>

section \<open>One condition\<close>

text \<open>A condition that ends in \<open>&& y\<close> looks like one to which the dependency y was added.\<close>

definition ends_in_y :: "expr \<Rightarrow> bool" where
  "ends_in_y c \<longleftrightarrow> (case c of AND a b \<Rightarrow> b = expr_y | _ \<Rightarrow> False)"

lemma strip_make_and:
  assumes "dep n \<noteq> expr_n" "dep n = expr_y \<Longrightarrow> \<not> ends_in_y c"
  shows "strip_dep n (make_and c (dep n)) = c"
proof -
  consider "c = expr_y" | "c \<noteq> expr_y" "dep n = expr_y" | "c = expr_n" "dep n \<noteq> expr_y"
    | "c \<noteq> expr_y" "c \<noteq> expr_n" "dep n \<noteq> expr_y" by blast
  then show ?thesis
  proof cases
    case 1
    then show ?thesis by (simp add: make_and_def strip_dep_def)
  next
    case 2
    then show ?thesis using assms(2) by (auto simp: make_and_def strip_dep_def ends_in_y_def split: expr.splits)
  next
    case 3
    then show ?thesis using assms(1) by (auto simp: make_and_def strip_dep_def)
  next
    case 4
    have "size (dep n) < size (AND c (dep n))" by simp
    then have "dep n \<noteq> AND c (dep n)" by (metis less_irrefl)
    then show ?thesis using 4 assms(1) by (simp add: make_and_def strip_dep_def)
  qed
qed

section \<open>The properties of a node\<close>

definition conditions :: "menu_node \<Rightarrow> expr list" where
  "conditions n =
     map snd (nd_defaults n) @ map snd (nd_selects n) @ map snd (nd_implies n) @ map (snd \<circ> snd) (nd_ranges n)"

text \<open>
  C13. \<^verbatim>\<open>orig_defaults\<close>, \<^verbatim>\<open>orig_selects\<close>, \<^verbatim>\<open>orig_implies\<close> and \<^verbatim>\<open>orig_ranges\<close> undo the propagation of
  dependencies: after the dependencies of the parent were propagated to the node of a symbol or
  choice, they give the properties with the conditions that the node had before. Excepted are a
  dependency n, which makes every condition n, and conditions that end in \<open>&& y\<close> in a node that
  depends on nothing. It does not hold of \<^verbatim>\<open>orig_prompt\<close>.
\<close>

theorem orig_props_parsed:
  assumes "is_sc_item (item n)" "n' = propagate_to basedep visible_if n" "dep n' \<noteq> expr_n"
    and "dep n' = expr_y \<longrightarrow> (\<forall>c \<in> set (conditions n). \<not> ends_in_y c)"
  shows "orig_defaults n' = nd_defaults n \<and> orig_selects n' = nd_selects n \<and>
    orig_implies n' = nd_implies n \<and> orig_ranges n' = nd_ranges n"
proof -
  let ?d = "make_and (dep n) basedep"
  have d: "dep n' = ?d" using assms(1,2) by (simp add: propagate_to_def Let_def)
  have s: "strip_dep n' (make_and c ?d) = c" if "c \<in> set (conditions n)" for c
    using strip_make_and [of n' c] assms(3,4) d that by auto
  have f: "nd_defaults n' = map (\<lambda>(v, c). (v, make_and c ?d)) (nd_defaults n)"
    "nd_selects n' = map (\<lambda>(s, c). (s, make_and c ?d)) (nd_selects n)"
    "nd_implies n' = map (\<lambda>(s, c). (s, make_and c ?d)) (nd_implies n)"
    "nd_ranges n' = map (\<lambda>(l, h, c). (l, h, make_and c ?d)) (nd_ranges n)"
    using assms(1,2) by (simp_all add: propagate_to_def Let_def)
  have m: "\<forall>p \<in> set (nd_defaults n). snd p \<in> set (conditions n)" "\<forall>p \<in> set (nd_selects n). snd p \<in> set (conditions n)"
    "\<forall>p \<in> set (nd_implies n). snd p \<in> set (conditions n)" "\<forall>p \<in> set (nd_ranges n). snd (snd p) \<in> set (conditions n)"
    by (simp_all add: conditions_def)
  show ?thesis
    unfolding orig_defaults_def orig_selects_def orig_implies_def orig_ranges_def f map_map
    using m by (intro conjI map_idI) (simp_all add: split_def s)
qed


end
