(* ===== verification/Preproc_Props.thy ===== *)
theory Preproc_Props
  imports Preproc
begin

text \<open>
  Properties of macro expansion: it consumes its input, leaves the variables as they were, and
  returns. The interface \<open>evaluator\<close> is what the loops over the text need of the evaluation
  of a variable or function; the model's evaluation at every depth provides it.
\<close>

section \<open>What the loops need of the evaluation of values\<close>

lemma parse_error_neq [simp]: "parse_error ps msg \<noteq> RecursionError"
  by (simp add: parse_error_def)

text \<open>\<open>ok\<close> says of a state, by its variables, that values can be evaluated in it.\<close>

locale evaluator =
  fixes fv :: "string list \<Rightarrow> pstate \<Rightarrow> exn + string \<times> pstate" and ok :: "pstate \<Rightarrow> bool"
  assumes same_ok: "ok ps \<Longrightarrow> variables ps' = variables ps \<Longrightarrow> ok ps'"
    and keeps: "ok ps \<Longrightarrow> fv args ps = Inr (r, ps') \<Longrightarrow> variables ps' = variables ps"
    and returns: "ok ps \<Longrightarrow> fv args ps \<noteq> Inl RecursionError"
begin

lemma macro_value_keeps: "ok ps \<Longrightarrow> macro_value fv args xs ps = Inr (r, ps') \<Longrightarrow> variables ps' = variables ps"
  using keeps by (auto simp: macro_value_def split: option.splits)

lemma macro_value_returns: "ok ps \<Longrightarrow> macro_value fv args xs ps \<noteq> Inl RecursionError"
  using returns by (auto simp: macro_value_def split: option.splits)

lemma macro_loop_good:
  "ok ps \<Longrightarrow>
   macro_loop fv args k cur xs n suf ps \<noteq> Inl RecursionError \<and>
   (\<forall>r rest ps'. macro_loop fv args k cur xs n suf ps = Inr ((r, rest), ps') \<longrightarrow> variables ps' = variables ps)"
proof (induction k arbitrary: cur xs n suf ps)
  case (Suc k)
  show ?case
  proof (cases suf)
    case (Cons c cs)
    show ?thesis
    proof (cases "startswith suf ''$(''")
      case True
      note i = Suc.IH [OF Suc.prems, of "[]" "[]" 0 "drop 2 suf"]
      show ?thesis
      proof (cases "macro_loop fv args k [] [] 0 (drop 2 suf) ps")
        case (Inl e)
        then show ?thesis using i True Cons by simp
      next
        case (Inr p)
        obtain r rest ps1 where p: "p = ((r, rest), ps1)" by (metis prod.exhaust)
        then have v: "variables ps1 = variables ps" using i Inr by blast
        from Suc.IH [OF same_ok [OF Suc.prems v]] show ?thesis using True Cons Inr p v by simp
      qed
    next
      case False
      show ?thesis
      proof (cases "c = CHR '')'' \<and> n = 0")
        case True
        then show ?thesis
          using False Cons macro_value_keeps [OF Suc.prems, of args "xs @ [cur]"]
            macro_value_returns [OF Suc.prems, of args "xs @ [cur]"]
          by (cases "macro_value fv args (xs @ [cur]) ps") auto
      next
        case F: False
        show ?thesis using False F Cons Suc.IH [OF Suc.prems] by simp
      qed
    qed
  qed simp
qed simp

lemma expand_macro_good:
  "ok ps \<Longrightarrow> expand_macro fv args suf ps \<noteq> Inl RecursionError"
  "ok ps \<Longrightarrow> expand_macro fv args suf ps = Inr ((r, rest), ps') \<Longrightarrow> variables ps' = variables ps"
  using macro_loop_good unfolding expand_macro_def by blast+

lemma whole_loop_good:
  "ok ps \<Longrightarrow>
   whole_loop fv args k suf ps \<noteq> Inl RecursionError \<and>
   (\<forall>r ps'. whole_loop fv args k suf ps = Inr (r, ps') \<longrightarrow> variables ps' = variables ps)"
proof (induction k arbitrary: suf ps)
  case (Suc k)
  show ?case
  proof (cases suf)
    case (Cons c cs)
    show ?thesis
    proof (cases "startswith suf ''$(''")
      case True
      show ?thesis
      proof (cases "expand_macro fv args suf ps")
        case (Inl e)
        then show ?thesis using expand_macro_good(1) [OF Suc.prems, of args suf] True Cons by simp
      next
        case (Inr p)
        obtain r rest ps1 where p: "p = ((r, rest), ps1)" by (metis prod.exhaust)
        then have v: "variables ps1 = variables ps" using expand_macro_good(2) [OF Suc.prems] Inr by blast
        from Suc.IH [OF same_ok [OF Suc.prems v], of rest] show ?thesis
          using True Cons Inr p v by (cases "whole_loop fv args k rest ps1") auto
      qed
    next
      case False
      then show ?thesis using Cons Suc.IH [OF Suc.prems, of cs]
        by (cases "whole_loop fv args k cs ps") auto
    qed
  qed (use Suc.prems in simp)
qed simp

end

section \<open>The evaluation of the model\<close>

text \<open>What is asked of the functions of the module \<^verbatim>\<open>KCONFIG_FUNCTIONS\<close>.\<close>

definition well_behaved :: "world \<Rightarrow> bool" where
  "well_behaved w \<longleftrightarrow>
     (\<forall>fn f lo hi args ps. user_functions w fn = Some (f, lo, hi) \<longrightarrow>
        f args ps \<noteq> Inl RecursionError \<and>
        (\<forall>r ps'. f args ps = Inr (r, ps') \<longrightarrow> variables ps' = variables ps))"

lemma functions_good:
  assumes "well_behaved w" "preproc_functions w fn = Some (f, lo, hi)"
  shows "f args ps \<noteq> Inl RecursionError" "f args ps = Inr (r, ps') \<Longrightarrow> variables ps' = variables ps"
proof -
  have u: "f args ps \<noteq> Inl RecursionError \<and> (f args ps = Inr (r, ps') \<longrightarrow> variables ps' = variables ps)"
  proof (cases "user_functions w fn")
    case (Some g)
    then have "user_functions w fn = Some (f, lo, hi)" using assms(2) by (simp add: preproc_functions_def)
    then show ?thesis using assms(1) unfolding well_behaved_def by blast
  next
    case None
    then have "f \<in> {info_fn, error_if_fn, filename_fn, lineno_fn, shell_fn w, warning_if_fn}"
      using assms(2) by (auto simp: preproc_functions_def split: if_splits)
    then show ?thesis
      by (auto simp: info_fn_def error_if_fn_def filename_fn_def lineno_fn_def shell_fn_def warning_if_fn_def
          warn_here_def Let_def split: if_splits option.splits prod.splits)
  qed
  then show "f args ps \<noteq> Inl RecursionError" "f args ps = Inr (r, ps') \<Longrightarrow> variables ps' = variables ps" by blast+
qed

text \<open>How many nested values are possible.\<close>

definition expansions_left :: "(string \<Rightarrow> variable option) \<Rightarrow> nat" where
  "expansions_left V = (\<Sum>x \<in> dom V. case V x of Some v \<Rightarrow> 101 - n_expansions v | None \<Rightarrow> 0)"

lemma variables_count: "variables (count_expansion fn f ps) =
    (variables ps)(fn := map_option (\<lambda>v. v\<lparr>n_expansions := f (n_expansions v)\<rparr>) (variables ps fn))"
  by (simp add: count_expansion_def)

lemma count_back:
  assumes "variables ps' = variables (count_expansion fn Suc ps)"
  shows "variables (count_expansion fn (\<lambda>n. n - 1) ps') = variables ps"
  unfolding variables_count assms
  by (auto simp: fun_eq_iff option.map_comp comp_def option.map_ident)

lemma expansions_left_count:
  assumes "finite (dom (variables ps))" "variables ps fn = Some v" "n_expansions v \<le> 100"
  shows "expansions_left (variables (count_expansion fn Suc ps)) < expansions_left (variables ps)"
    "dom (variables (count_expansion fn Suc ps)) = dom (variables ps)"
proof -
  let ?V = "variables ps" and ?W = "variables (count_expansion fn Suc ps)"
  show d: "dom ?W = dom ?V" unfolding variables_count using assms(2) by auto
  let ?f = "\<lambda>V x. case V x of Some v \<Rightarrow> 101 - n_expansions v | None \<Rightarrow> (0 :: nat)"
  have "sum (?f ?W) (dom ?V) < sum (?f ?V) (dom ?V)"
  proof (rule sum_strict_mono_ex1 [OF assms(1)])
    show "\<forall>x \<in> dom ?V. ?f ?W x \<le> ?f ?V x"
      using assms(2) by (auto simp: variables_count split: option.splits)
    have "fn \<in> dom ?V" "?f ?W fn < ?f ?V fn" using assms(2,3) by (auto simp: variables_count)
    then show "\<exists>x \<in> dom ?V. ?f ?W x < ?f ?V x" by blast
  qed
  then show "expansions_left ?W < expansions_left ?V" by (simp add: expansions_left_def d)
qed

lemma fn_val_good:
  assumes w: "well_behaved w" and f: "finite (dom V)" and p: "variables ps = V"
    and e: "\<And>s args ps. finite (dom (variables ps)) \<Longrightarrow> expansions_left (variables ps) < expansions_left V \<Longrightarrow>
      expand s args ps \<noteq> Inl RecursionError \<and>
      (\<forall>r ps'. expand s args ps = Inr (r, ps') \<longrightarrow> variables ps' = variables ps)"
  shows "fn_val w expand args ps \<noteq> Inl RecursionError \<and>
    (\<forall>r ps'. fn_val w expand args ps = Inr (r, ps') \<longrightarrow> variables ps' = V)"
proof (cases "variables ps (hd args)")
  case None
  show ?thesis
  proof (cases "preproc_functions w (hd args)")
    case (Some t)
    obtain g lo hi where t: "t = (g, lo, hi)" by (metis prod.exhaust)
    show ?thesis
      using functions_good [OF w Some [unfolded t], of args ps] None Some p
      by (auto simp: fn_val_def Let_def t bad_arguments_def split: if_splits)
  qed (use None p in \<open>auto simp: fn_val_def Let_def split: option.splits\<close>)
next
  case (Some v)
  consider (one) "length args = 1" "n_expansions v \<noteq> 0" | (many) "length args \<noteq> 1" "n_expansions v > 100"
    | (go) "\<not> (length args = 1 \<and> n_expansions v \<noteq> 0)" "\<not> (length args \<noteq> 1 \<and> n_expansions v > 100)" by blast
  then show ?thesis
  proof cases
    case go
    show ?thesis
    proof (cases "v_value v")
      case None
      then show ?thesis using Some go by (simp add: fn_val_def Let_def)
    next
      case val: (Some t)
      let ?ps = "count_expansion (hd args) Suc ps"
      have n: "n_expansions v \<le> 100" using go by linarith
      note c = expansions_left_count [OF _ Some n]
      have g: "expand t args ?ps \<noteq> Inl RecursionError \<and>
          (\<forall>r ps'. expand t args ?ps = Inr (r, ps') \<longrightarrow> variables ps' = variables ?ps)"
        by (rule e) (use c f p in auto)
      have d: "fn_val w expand args ps =
          map_sum id (\<lambda>(res, ps'). (res, count_expansion (hd args) (\<lambda>n. n - 1) ps')) (expand t args ?ps)"
        using Some val go by (auto simp: fn_val_def Let_def)
      show ?thesis
      proof (cases "expand t args ?ps")
        case (Inr q)
        obtain r ps1 where "q = (r, ps1)" by (cases q)
        then show ?thesis using d g Inr count_back [of ps1 "hd args" ps] p by auto
      qed (use d g in auto)
    qed
  qed (use Some in \<open>simp_all add: fn_val_def Let_def parse_error_def\<close>)
qed

text \<open>Enough depth for the values that are still possible.\<close>

definition expandable :: "world \<Rightarrow> nat \<Rightarrow> pstate \<Rightarrow> bool" where
  "expandable w d ps \<longleftrightarrow>
     well_behaved w \<and> finite (dom (variables ps)) \<and> expansions_left (variables ps) \<le> d"

definition expands_well :: "world \<Rightarrow> nat \<Rightarrow> bool" where
  "expands_well w d \<longleftrightarrow>
     (\<forall>s args ps. well_behaved w \<longrightarrow> finite (dom (variables ps)) \<longrightarrow> expansions_left (variables ps) < d \<longrightarrow>
        expand_whole w d s args ps \<noteq> Inl RecursionError \<and>
        (\<forall>r ps'. expand_whole w d s args ps = Inr (r, ps') \<longrightarrow> variables ps' = variables ps))"

lemma evaluator_if:
  assumes "expands_well w d"
  shows "evaluator (fn_val w (expand_whole w d)) (expandable w d)"
proof
  fix ps :: pstate and args r ps'
  assume e: "expandable w d ps"
  have g: "fn_val w (expand_whole w d) args ps \<noteq> Inl RecursionError \<and>
      (\<forall>r ps'. fn_val w (expand_whole w d) args ps = Inr (r, ps') \<longrightarrow> variables ps' = variables ps)"
  proof (rule fn_val_good [of w "variables ps" ps])
    show "well_behaved w" "finite (dom (variables ps))" using e by (simp_all add: expandable_def)
    fix s args and ps1 :: pstate
    assume "finite (dom (variables ps1))" "expansions_left (variables ps1) < expansions_left (variables ps)"
    moreover from this have "expansions_left (variables ps1) < d" using e by (simp add: expandable_def)
    ultimately show "expand_whole w d s args ps1 \<noteq> Inl RecursionError \<and>
        (\<forall>r ps'. expand_whole w d s args ps1 = Inr (r, ps') \<longrightarrow> variables ps' = variables ps1)"
      using assms e unfolding expands_well_def expandable_def by blast
  qed simp
  then show "fn_val w (expand_whole w d) args ps = Inr (r, ps') \<Longrightarrow> variables ps' = variables ps"
    and "fn_val w (expand_whole w d) args ps \<noteq> Inl RecursionError" by blast+
qed (simp add: expandable_def)

lemma expand_whole_good: "expands_well w d"
proof (induction d)
  case (Suc d)
  note loop = evaluator.whole_loop_good [OF evaluator_if [OF Suc.IH]]
  show ?case unfolding expands_well_def
  proof (intro allI impI)
    fix s args and ps :: pstate assume "well_behaved w" "finite (dom (variables ps))" "expansions_left (variables ps) < Suc d"
    then have "expandable w d ps" by (simp add: expandable_def)
    from loop [OF this] show "expand_whole w (Suc d) s args ps \<noteq> Inl RecursionError \<and>
        (\<forall>r ps'. expand_whole w (Suc d) s args ps = Inr (r, ps') \<longrightarrow> variables ps' = variables ps)" by simp
  qed
qed (simp add: expands_well_def)

interpretation vals: evaluator "fn_val w (expand_whole w d)" "expandable w d" for w d
  by (rule evaluator_if [OF expand_whole_good])

section \<open>Expansion returns\<close>

lemma expansions_left_bound: "expansions_left V \<le> 101 * card (dom V)"
proof -
  have "expansions_left V \<le> (\<Sum>x \<in> dom V. 101)"
    unfolding expansions_left_def by (rule sum_mono) (auto split: option.splits)
  then show ?thesis by simp
qed

text \<open>A reference to a variable in a text: its value is looked up with its name as the only argument.\<close>

definition var_use :: "string \<Rightarrow> string" where
  "var_use name = ''$('' @ name @ '')''"

definition plain_name :: "string \<Rightarrow> bool" where
  "plain_name name \<longleftrightarrow> (\<forall>c \<in> set name. lhs_char c) \<and> py_int name 10 = None"

lemma macro_loop_plain:
  assumes "length xs < k" "\<forall>c \<in> set xs. lhs_char c" "py_int (cur @ xs) 10 = None"
  shows "macro_loop fv args k cur [] 0 (xs @ CHR '')'' # rest) ps =
    map_sum id (\<lambda>(val, ps'). ((val, rest), ps')) (fv [cur @ xs] ps)"
  using assms
proof (induction xs arbitrary: cur k)
  case Nil
  then obtain k' where "k = Suc k'" by (cases k) auto
  then show ?case using Nil by (simp add: startswith_def macro_value_def id_def)
next
  case (Cons x xs)
  then obtain k' where k: "k = Suc k'" by (cases k) auto
  have "x \<noteq> CHR ''$''" "x \<noteq> CHR ''(''" "x \<noteq> CHR '')''" "x \<noteq> CHR '',''"
    using Cons.prems(2) by (auto simp: lhs_char_def less_eq_char_def)
  then show ?case using Cons.IH [of k' "cur @ [x]"] Cons.prems k by (simp add: startswith_def)
qed

lemma expand_macro_plain:
  assumes "plain_name name"
  shows "expand_macro fv args (var_use name @ rest) ps = map_sum id (\<lambda>(val, ps'). ((val, rest), ps')) (fv [name] ps)"
  using macro_loop_plain [of name _ "[]" fv args rest ps] assms
  by (simp add: expand_macro_def var_use_def plain_name_def del: macro_loop.simps)

lemma whole_loop_plain_error:
  assumes "CHR ''$'' \<notin> set pre" "plain_name name" "fv [name] ps = Inl e" "length (pre @ var_use name) \<le> k"
  shows "whole_loop fv args k (pre @ var_use name @ rest) ps = Inl e"
  using assms(1,4)
proof (induction pre arbitrary: k)
  case Nil
  then obtain k' where k: "k = Suc k'" by (cases k) (auto simp: var_use_def)
  obtain c cs where c: "var_use name @ rest = c # cs" "startswith (c # cs) ''$(''"
    by (simp add: var_use_def startswith_def)
  show ?case using expand_macro_plain [OF assms(2), of fv args rest ps] assms(3) unfolding k append_Nil c(1) by (simp add: c(2))
next
  case (Cons x xs)
  then obtain k' where k: "k = Suc k'" by (cases k) auto
  have "\<not> startswith (x # xs @ var_use name @ rest) ''$(''" using Cons.prems(1) by (auto simp: startswith_def)
  then show ?case using Cons.IH [of k'] Cons.prems k by simp
qed

text \<open>
  Variables that refer to each other without end: the first reference in the value of each is to
  one of them.
\<close>

definition refer_to_each_other :: "(string \<Rightarrow> variable option) \<Rightarrow> string set \<Rightarrow> bool" where
  "refer_to_each_other V X \<longleftrightarrow>
     (\<forall>x \<in> X. plain_name x \<and>
        (\<exists>v pre y post. V x = Some v \<and> v_value v = Some (pre @ var_use y @ post) \<and> CHR ''$'' \<notin> set pre \<and> y \<in> X))"

definition recursion_error :: "pstate \<Rightarrow> string \<Rightarrow> exn" where
  "recursion_error ps x =
     parse_error ps (''Preprocessor variable '' @ x @ '' recursively references itself'')"

lemma refer_count:
  assumes "refer_to_each_other (variables ps) X"
  shows "refer_to_each_other (variables (count_expansion fn f ps)) X"
  unfolding refer_to_each_other_def
proof
  fix x assume "x \<in> X"
  then obtain v pre y post where v: "plain_name x" "variables ps x = Some v"
    "v_value v = Some (pre @ var_use y @ post)" "CHR ''$'' \<notin> set pre" "y \<in> X"
    using assms unfolding refer_to_each_other_def by blast
  obtain v' where "variables (count_expansion fn f ps) x = Some v'" "v_value v' = v_value v"
    unfolding variables_count using v(2) by (cases "x = fn") auto
  with v show "plain_name x \<and> (\<exists>v pre y post. variables (count_expansion fn f ps) x = Some v \<and>
      v_value v = Some (pre @ var_use y @ post) \<and> CHR ''$'' \<notin> set pre \<and> y \<in> X)" by metis
qed

lemma fn_val_recursive:
  "refer_to_each_other (variables ps) X \<Longrightarrow> x \<in> X \<Longrightarrow> finite (dom (variables ps)) \<Longrightarrow>
   expansions_left (variables ps) \<le> d \<Longrightarrow> \<exists>y \<in> X. fn_val w (expand_whole w d) [x] ps = Inl (recursion_error ps y)"
proof (induction d arbitrary: ps x)
  case 0
  then obtain v where v: "variables ps x = Some v" unfolding refer_to_each_other_def by blast
  then have "expansions_left (variables ps) \<ge> 101 - n_expansions v"
    using member_le_sum [of x "dom (variables ps)" "\<lambda>x. case variables ps x of Some v \<Rightarrow> 101 - n_expansions v | None \<Rightarrow> 0"] 0
    by (auto simp: expansions_left_def)
  then have "n_expansions v \<noteq> 0" using 0 by auto
  then show ?case using v 0 by (auto simp: fn_val_def recursion_error_def)
next
  case (Suc d)
  obtain v pre y post where v: "variables ps x = Some v" "v_value v = Some (pre @ var_use y @ post)"
    "CHR ''$'' \<notin> set pre" "y \<in> X" using Suc.prems(1,2) unfolding refer_to_each_other_def by blast
  have y: "plain_name y" using Suc.prems(1) v(4) unfolding refer_to_each_other_def by blast
  show ?case
  proof (cases "n_expansions v = 0")
    case True
    let ?ps = "count_expansion x Suc ps"
    note c = expansions_left_count [OF Suc.prems(3) v(1)]
    have "\<exists>z \<in> X. fn_val w (expand_whole w d) [y] ?ps = Inl (recursion_error ?ps z)"
      by (rule Suc.IH [OF refer_count [OF Suc.prems(1)] v(4)]) (use c True Suc.prems(3,4) in auto)
    then obtain z where z: "z \<in> X" "fn_val w (expand_whole w d) [y] ?ps = Inl (recursion_error ?ps z)" by blast
    have "expand_whole w (Suc d) (pre @ var_use y @ post) [x] ?ps = Inl (recursion_error ?ps z)"
      unfolding expand_whole.simps by (rule whole_loop_plain_error [where fv = "fn_val w (expand_whole w d)", OF v(3) y z(2)]) simp
    moreover have "recursion_error ?ps z = recursion_error ps z"
      by (simp add: recursion_error_def parse_error_def count_expansion_def cong: option.case_cong)
    ultimately show ?thesis using v(1,2) True z(1) by (auto simp: fn_val_def simp del: expand_whole.simps)
  next
    case False
    then show ?thesis using v(1) Suc.prems(2) by (auto simp: fn_val_def recursion_error_def)
  qed
qed

text \<open>
  C14. Expanding a text returns, whatever the variables hold, with a value or with an error of the
  preprocessor: the depth is bounded by 101 expansions for each variable. And a reference to one
  of a set of variables whose values refer to each other without end is an error: the one that
  says that a variable of the set references itself.
\<close>

theorem expansion_returns:
  assumes "well_behaved w" "finite (dom (variables ps))" "101 * card (dom (variables ps)) < d"
  shows "expand_whole w d s args ps \<noteq> Inl RecursionError \<and>
    (\<forall>X. \<forall>x \<in> X. refer_to_each_other (variables ps) X \<longrightarrow>
       (\<exists>y \<in> X. expand_whole w d (var_use x) args ps = Inl (recursion_error ps y)))"
proof (intro conjI allI ballI impI)
  have b: "expansions_left (variables ps) < d" by (rule le_less_trans [OF expansions_left_bound assms(3)])
  then show "expand_whole w d s args ps \<noteq> Inl RecursionError"
    using expand_whole_good [of w d] assms(1,2) unfolding expands_well_def by blast
  fix X x assume x: "x \<in> X" and r: "refer_to_each_other (variables ps) X"
  obtain d' where d: "d = Suc d'" "expansions_left (variables ps) \<le> d'" using b by (cases d) auto
  obtain y where y: "y \<in> X" "fn_val w (expand_whole w d') [x] ps = Inl (recursion_error ps y)"
    using fn_val_recursive [OF r x assms(2) d(2)] by blast
  have "plain_name x" using r x unfolding refer_to_each_other_def by blast
  then have "whole_loop (fn_val w (expand_whole w d')) args (length (var_use x)) ([] @ var_use x @ []) ps = Inl (recursion_error ps y)"
    by (intro whole_loop_plain_error [where fv = "fn_val w (expand_whole w d')"] y(2)) simp_all
  then have "expand_whole w d (var_use x) args ps = Inl (recursion_error ps y)" by (simp add: d(1))
  then show "\<exists>y \<in> X. expand_whole w d (var_use x) args ps = Inl (recursion_error ps y)" using y(1) by blast
qed

text \<open>
  C15. Expansion has no effect on the variables: their values, and the counters that detect
  recursion, are as before when it has returned.
\<close>

theorem expansion_keeps_variables:
  assumes "well_behaved w" "finite (dom (variables ps))" "101 * card (dom (variables ps)) < d"
    and "expand_whole w d s args ps = Inr (t, ps')"
  shows "variables ps' = variables ps"
  using expand_whole_good [of w d] assms le_less_trans [OF expansions_left_bound assms(3)]
  unfolding expands_well_def by blast

section \<open>Expansion in the text of a line\<close>

text \<open>The facts of the loops, at the outermost level.\<close>

lemma line_macro_keeps:
  "expandable w d ps \<Longrightarrow> line_macro w d suf ps = Inr ((r, rest), ps') \<Longrightarrow> variables ps' = variables ps"
  unfolding line_macro_def by (rule vals.expand_macro_good(2))

lemma line_macro_returns: "expandable w d ps \<Longrightarrow> line_macro w d suf ps \<noteq> Inl RecursionError"
  unfolding line_macro_def by (rule vals.expand_macro_good(1))

text \<open>What is left after a macro is shorter: the loops over the text come to an end.\<close>

lemma macro_loop_shorter:
  "macro_loop fv args k cur xs n suf ps = Inr ((r, rest), ps') \<Longrightarrow> length rest < length suf"
proof (induction k arbitrary: cur xs n suf ps r rest ps')
  case (Suc k)
  then obtain c cs where suf: "suf = c # cs" by (cases suf) auto
  show ?case
  proof (cases "startswith suf ''$(''")
    case True
    with Suc.prems suf obtain r1 rest1 ps1 where
      1: "macro_loop fv args k [] [] 0 (drop 2 suf) ps = Inr ((r1, rest1), ps1)"
        "macro_loop fv args k (cur @ r1) xs n rest1 ps1 = Inr ((r, rest), ps')"
      by (auto split: sum.splits prod.splits)
    from Suc.IH [OF 1(1)] Suc.IH [OF 1(2)] show ?thesis using suf by simp
  next
    case False
    consider "c = CHR '')''" "n = 0" | cur' xs' n' where "macro_loop fv args k cur' xs' n' cs ps = Inr ((r, rest), ps')"
      using Suc.prems suf False by (simp split: if_splits)
    then show ?thesis
    proof cases
      case 1
      then show ?thesis using Suc.prems suf False
        by (cases "macro_value fv args (xs @ [cur]) ps") (auto simp: split_def)
    next
      case 2
      from Suc.IH [OF 2] show ?thesis using suf by simp
    qed
  qed
qed simp

lemma line_macro_shorter: "line_macro w d suf ps = Inr ((r, rest), ps') \<Longrightarrow> length rest + 2 < length suf"
  using macro_loop_shorter [of "fn_val w (expand_whole w d)" "[]" "length suf" "[]" "[]" 0 "drop 2 suf" ps r rest ps']
  by (simp add: line_macro_def expand_macro_def)

text \<open>
  C39. A variable that is defined with \<open>:=\<close> from its own name (\<open>CC := $(CC)\<close>) and that no earlier
  line defined does not get the value of the environment variable: the new variable has no
  value yet when it is looked up, and the assignment ends in an \<open>AttributeError\<close>.
\<close>

theorem immediate_self_reference:
  assumes "variables ps name = None" "\<forall>c \<in> set name. lhs_char c" "py_int name 10 = None"
  shows "assign_variable w (Suc d) name Immediate (''$('' @ name @ '')'') ps = Inl AttributeError"
proof -
  define ps1 where "ps1 = put_variable name fresh_variable (put_variable name fresh_variable ps)"
  have v: "variables ps1 name = Some fresh_variable" by (simp add: ps1_def put_variable_def)
  have "fn_val w (expand_whole w d) [name] ps1 = Inl AttributeError"
    by (simp add: fn_val_def v fresh_variable_def)
  then have "expand_whole w (Suc d) (''$('' @ name @ '')'') [] ps1 = Inl AttributeError"
    using macro_loop_plain [of name _ "[]" _ _ "[]"] assms(2,3)
    by (simp add: startswith_def expand_macro_def del: macro_loop.simps)
  then show ?thesis
    using assms(1) by (simp add: assign_variable_def ps1_def fresh_variable_def del: expand_whole.simps)
qed

end
