(* ===== verification/Tokenizer_Props.thy ===== *)
theory Tokenizer_Props
  imports Tokenizer
begin

text \<open>
  The two ways to read a quoted string. Without a \<open>$\<close> or a backslash in the line the
  tokenizer looks for the closing quote and takes what is before it; this is what the way
  with macros, escapes and environment variables gives.
\<close>

lemma startswith_dollar: "CHR ''$'' \<notin> set s \<Longrightarrow> \<not> startswith s (CHR ''$'' # t)"
  by (cases s) (auto simp: startswith_def)

lemma replace_str_dollar: "CHR ''$'' \<notin> set s \<Longrightarrow> replace_str (CHR ''$'' # t) new s = s"
proof (induction s)
  case Nil
  show ?case by (subst replace_str.simps) simp
next
  case (Cons c cs)
  then show ?case by (subst replace_str.simps) (simp add: startswith_dollar)
qed

lemma expandvars_dollar: "CHR ''$'' \<notin> set s \<Longrightarrow> expandvars w s = s"
proof (induction s)
  case Nil
  show ?case by (subst expandvars.simps) simp
next
  case (Cons c cs)
  then have "c \<noteq> CHR ''$''" by auto
  then show ?case using Cons by (subst expandvars.simps) simp
qed

lemma string_value_plain: "CHR ''$'' \<notin> set s \<Longrightarrow> string_value w s = s"
  by (simp add: string_value_def replace_str_dollar expandvars_dollar)

lemma str_loop_plain:
  assumes "CHR ''$'' \<notin> set cs" "CHR 0x5C \<notin> set cs" "length cs < k"
  shows "str_loop w d q k acc cs ps =
           (case dropWhile (\<lambda>c. c \<noteq> q) cs of
              [] \<Rightarrow> Inl (parse_error ps ''unterminated string'')
            | _ # rest \<Rightarrow> Inr ((acc @ takeWhile (\<lambda>c. c \<noteq> q) cs, rest), ps))"
  using assms
proof (induction cs arbitrary: k acc)
  case Nil
  then show ?case by (cases k) simp_all
next
  case (Cons c cs)
  then obtain k' where k: "k = Suc k'" "length cs < k'" by (cases k) auto
  have m: "\<not> startswith (c # cs) ''$(''" using Cons.prems(1) by (intro startswith_dollar) simp
  have b: "c \<noteq> CHR 0x5C" using Cons.prems(2) by auto
  show ?case
  proof (cases "c = q")
    case True
    then show ?thesis by (simp add: k)
  next
    case False
    have "str_loop w d q k acc (c # cs) ps = str_loop w d q k' (acc @ [c]) cs ps"
      using False m b by (simp add: k)
    also have "\<dots> =
        (case dropWhile (\<lambda>c. c \<noteq> q) cs of
           [] \<Rightarrow> Inl (parse_error ps ''unterminated string'')
         | _ # rest \<Rightarrow> Inr (((acc @ [c]) @ takeWhile (\<lambda>c. c \<noteq> q) cs, rest), ps))"
      using Cons.prems k by (intro Cons.IH) simp_all
    finally show ?thesis using False by (simp cong: list.case_cong)
  qed
qed

text \<open>
  C16. Reading a quoted string: the fast way of the tokenizer (the text up to the next quote,
  taken when the line has no \<open>$\<close> and no backslash) is an optimisation of the slow way
  (\<^verbatim>\<open>_expand_str\<close> with macros and escapes, then \<^verbatim>\<open>UNAME_RELEASE\<close> and environment variables),
  also in the error for a string that is not closed.
\<close>

theorem read_string_slow:
  "read_string w d pre q cs ps =
     (case expand_str w d q cs ps of
        Inl e \<Rightarrow> Inl e
      | Inr ((body, rest), ps') \<Rightarrow> Inr ((string_value w body, pre @ q # body @ [q], rest), ps'))"
proof (cases "CHR ''$'' \<in> set (pre @ q # cs) \<or> CHR 0x5C \<in> set (pre @ q # cs)")
  case True
  then show ?thesis by (auto simp: read_string_def)
next
  case False
  then have plain: "CHR ''$'' \<notin> set cs" "CHR 0x5C \<notin> set cs" by simp_all
  have "string_value w (takeWhile (\<lambda>c. c \<noteq> q) cs) = takeWhile (\<lambda>c. c \<noteq> q) cs"
    using plain set_takeWhileD by (intro string_value_plain) fastforce
  moreover have "expand_str w d q cs ps =
      (case dropWhile (\<lambda>c. c \<noteq> q) cs of
         [] \<Rightarrow> Inl (parse_error ps ''unterminated string'')
       | _ # rest \<Rightarrow> Inr ((takeWhile (\<lambda>c. c \<noteq> q) cs, rest), ps))"
    using str_loop_plain [OF plain, of "Suc (length cs)" w d q "[]" ps]
    by (simp add: expand_str_def del: str_loop.simps cong: list.case_cong)
  ultimately show ?thesis
    using False by (cases "dropWhile (\<lambda>c. c \<noteq> q) cs") (simp_all add: read_string_def Let_def del: dropWhile_eq_Nil_conv)
qed

end
