(* ===== verification/Parse_Print.thy ===== *)
theory Parse_Print
  imports Expr_Parser Tokenizer_Props
begin

text \<open>
  Printing an expression and reading it back: the tokens of a printed expression, what the
  parser makes of them, and that evaluating the printed expression is evaluating the
  expression.
\<close>

section \<open>The tokens of an expression\<close>


fun rel_token :: "rel \<Rightarrow> token" where
  "rel_token EQUAL = T_EQUAL"
| "rel_token UNEQUAL = T_UNEQUAL"
| "rel_token LESS = T_LESS"
| "rel_token LESS_EQUAL = T_LESS_EQUAL"
| "rel_token GREATER = T_GREATER"
| "rel_token GREATER_EQUAL = T_GREATER_EQUAL"

lemma rel_of_rel_token [simp]: "rel_of_token (rel_token r) = Some r"
  by (cases r) simp_all




text \<open>
  What is read: the operands of a chain of the same operator nest to the right, and a bare m
  becomes \<open>m && MODULES\<close>.
\<close>

fun chain :: "('a \<Rightarrow> 'a \<Rightarrow> 'a) \<Rightarrow> 'a list \<Rightarrow> 'a" where
  "chain f [x] = x"
| "chain f (x # y # zs) = f x (chain f (y # zs))"
| "chain f [] = undefined"

definition read_leaf :: "sc \<Rightarrow> expr" where
  "read_leaf x = (if x = Sym const_m then AND expr_m (Leaf (Sym modules)) else Leaf x)"

primrec operands :: "expr \<Rightarrow> token \<Rightarrow> expr list" where
  "operands (Leaf x) op = [read_leaf x]"
| "operands (AND a b) op =
     (let xs = operands a T_AND @ operands b T_AND in if op = T_AND then xs else [chain AND xs])"
| "operands (OR a b) op =
     (let xs = operands a T_OR @ operands b T_OR in if op = T_OR then xs else [chain OR xs])"
| "operands (NOT a) op = [NOT (hd (operands a T_NOT))]"
| "operands (REL r a b) op = [REL r a b]"


lemma operands_nonempty [simp]: "operands e op \<noteq> []"
  by (induction e arbitrary: op) (auto simp: Let_def)



section \<open>Reading them back\<close>


























section \<open>The value of what is read\<close>

text \<open>The documented rewriting of m.\<close>

primrec rewrite_m :: "expr \<Rightarrow> expr" where
  "rewrite_m (Leaf x) = read_leaf x"
| "rewrite_m (AND a b) = AND (rewrite_m a) (rewrite_m b)"
| "rewrite_m (OR a b) = OR (rewrite_m a) (rewrite_m b)"
| "rewrite_m (NOT a) = NOT (rewrite_m a)"
| "rewrite_m (REL r a b) = REL r a b"

lemma rewrite_m_same: "Sym const_m \<notin> expr_items e \<Longrightarrow> rewrite_m e = e"
  by (induction e) (auto simp: read_leaf_def)







section \<open>The tokens of a printed expression\<close>






lemma dollar_escape: "CHR ''$'' \<in> set (escape s) \<longleftrightarrow> CHR ''$'' \<in> set s"
  by (induction s) (auto simp: escape_Cons)


section \<open>Steps of the loop\<close>





text \<open>What follows a printed operand.\<close>

definition separates :: "string \<Rightarrow> bool" where
  "separates R \<longleftrightarrow>
     (case R of
        [] \<Rightarrow> True
      | c # Y \<Rightarrow> c = CHR '')'' \<or> (c = CHR '' '' \<and> (Y = [] \<or> \<not> py_space (hd Y))))"

definition after_space :: "string \<Rightarrow> string" where
  "after_space R = (case R of [] \<Rightarrow> [] | c # Y \<Rightarrow> if c = CHR '' '' then Y else R)"





section \<open>The whole expression\<close>

lemma separates_simps [simp]:
  "separates []" "after_space [] = []" "separates (CHR '')'' # R)" "after_space (CHR '')'' # R) = CHR '')'' # R"
  "after_space (CHR '' '' # R) = R" "separates (CHR '' '' # R) \<longleftrightarrow> R = [] \<or> \<not> py_space (hd R)"
  by (simp_all add: separates_def after_space_def)



definition token_start :: "string \<Rightarrow> bool" where
  "token_start X \<longleftrightarrow> X \<noteq> [] \<and> \<not> py_space (hd X) \<and> hd X \<noteq> CHR ''=''"

lemma token_start_drop [simp]:
  "token_start X \<Longrightarrow> dropWhile py_space (X @ R) = X @ R" "token_start X \<Longrightarrow> dropWhile py_space X = X"
  by (simp_all add: token_start_def dropWhile_eq_self_iff)








lemma hd_append_cons: "X \<noteq> [] \<Longrightarrow> hd (X @ Y) = hd X"
  by simp



end
