(* ===== verification/Parse_Examples.thy ===== *)
theory Parse_Examples
  imports Preproc_Props Tokenizer_Props Parse_Print Example
begin

text \<open>
  The preprocessor, the tokenizer and the expression parser on small inputs.
\<close>

section \<open>A world and a parser\<close>

definition small_world :: world where
  "small_world =
     \<lparr>environ = (\<lambda>v. if v = ''CC'' then Some ''gcc'' else None), uname_release = ''5.10'',
      shell = (\<lambda>_. ([], [])), user_functions = (\<lambda>_. None), read_file = (\<lambda>_. None),
      iglob = (\<lambda>_. []), realpath = id\<rparr>"

definition small_vars :: "string \<Rightarrow> variable option" where
  "small_vars =
     [''A'' \<mapsto> \<lparr>v_value = Some ''x$(B)'', is_recursive = True, n_expansions = 0\<rparr>,
      ''B'' \<mapsto> \<lparr>v_value = Some ''$(CC)-1'', is_recursive = True, n_expansions = 0\<rparr>]"

definition small_ps :: pstate where
  "small_ps =
     \<lparr>conf = ex_kc, out = init_state, syms_keys = [], parsing_kconfigs = False, variables = small_vars,
      env_vars = {}, cur_file = Some ''Kconfig'', cur_line = 1, line_text = [], tokens = [],
      reuse_tokens = False, file_lines = [], file_stack = [], include_path = [], kconfig_filenames = [],
      defined_syms = [], choices = [], named_choices = Map.empty, menus = [], comments = [],
      next_node = 20, next_choice = 1\<rparr>"

lemma small_world_behaved: "well_behaved small_world"
  by (simp add: well_behaved_def small_world_def)

lemma small_vars_dom: "dom (variables small_ps) = {''A'', ''B''}"
  by (auto simp: small_ps_def small_vars_def)

section \<open>The preprocessor\<close>

text \<open>Two variables that refer to each other.\<close>

definition loop_vars :: "string \<Rightarrow> variable option" where
  "loop_vars =
     [''P'' \<mapsto> \<lparr>v_value = Some ''p$(Q)s'', is_recursive = True, n_expansions = 0\<rparr>,
      ''Q'' \<mapsto> \<lparr>v_value = Some ''$(P)'', is_recursive = True, n_expansions = 0\<rparr>]"

lemma loop_vars_refer: "refer_to_each_other loop_vars {''P'', ''Q''}"
proof -
  have n: "plain_name ''P''" "plain_name ''Q''" by code_simp+
  have "\<exists>v pre y post. loop_vars ''P'' = Some v \<and> v_value v = Some (pre @ var_use y @ post) \<and>
      CHR ''$'' \<notin> set pre \<and> y \<in> {''P'', ''Q''}"
    by (rule exI [of _ "the (loop_vars ''P'')"], rule exI [of _ "''p''"], rule exI [of _ "''Q''"], rule exI [of _ "''s''"])
      (simp add: loop_vars_def var_use_def)
  moreover have "\<exists>v pre y post. loop_vars ''Q'' = Some v \<and> v_value v = Some (pre @ var_use y @ post) \<and>
      CHR ''$'' \<notin> set pre \<and> y \<in> {''P'', ''Q''}"
    by (rule exI [of _ "the (loop_vars ''Q'')"], rule exI [of _ "[]"], rule exI [of _ "''P''"], rule exI [of _ "[]"])
      (simp add: loop_vars_def var_use_def)
  ultimately show ?thesis unfolding refer_to_each_other_def using n by simp
qed

lemma expansion_returns_witness:
  "expand_whole small_world 300 ''v$(A)'' [] small_ps \<noteq> Inl RecursionError \<and>
   (\<exists>y \<in> {''P'', ''Q''}. expand_whole small_world 300 (var_use ''P'') [] (small_ps\<lparr>variables := loop_vars\<rparr>) =
      Inl (recursion_error (small_ps\<lparr>variables := loop_vars\<rparr>) y))"
proof -
  let ?ps = "small_ps\<lparr>variables := loop_vars\<rparr>"
  have "dom (variables ?ps) = {''P'', ''Q''}" by (auto simp: loop_vars_def)
  then have "\<forall>X. \<forall>x \<in> X. refer_to_each_other (variables ?ps) X \<longrightarrow>
       (\<exists>y \<in> X. expand_whole small_world 300 (var_use x) [] ?ps = Inl (recursion_error ?ps y))"
    by (intro conjunct2 [OF expansion_returns [where s = "[]"]]) (simp_all add: small_world_behaved)
  moreover have "refer_to_each_other (variables ?ps) {''P'', ''Q''}" using loop_vars_refer by simp
  moreover have "expand_whole small_world 300 ''v$(A)'' [] small_ps \<noteq> Inl RecursionError"
    by (rule conjunct1 [OF expansion_returns]) (simp_all add: small_world_behaved small_vars_dom)
  ultimately show ?thesis by blast
qed

lemma expand_A:
  "map_sum id fst (expand_whole small_world 300 ''v$(A)'' [] small_ps) = Inr ''vxgcc-1''"
  by code_simp

lemma expansion_keeps_variables_witness:
  "\<exists>ps'. expand_whole small_world 300 ''v$(A)'' [] small_ps = Inr (''vxgcc-1'', ps') \<and>
     variables ps' = variables small_ps"
proof -
  obtain ps' where e: "expand_whole small_world 300 ''v$(A)'' [] small_ps = Inr (''vxgcc-1'', ps')"
    using expand_A
    by (cases "expand_whole small_world 300 ''v$(A)'' [] small_ps") (auto simp del: expand_whole.simps)
  have "variables ps' = variables small_ps"
    by (rule expansion_keeps_variables [OF small_world_behaved _ _ e]) (simp_all add: small_vars_dom)
  then show ?thesis using e by blast
qed

lemma immediate_self_reference_witness:
  "assign_variable small_world (Suc 5) ''CC'' Immediate (''$('' @ ''CC'' @ '')'') small_ps = Inl AttributeError"
proof (rule immediate_self_reference)
  show "variables small_ps ''CC'' = None" by (simp add: small_ps_def small_vars_def)
  show "\<forall>c \<in> set ''CC''. lhs_char c" by (simp add: lhs_char_def less_eq_char_def)
  show "py_int ''CC'' 10 = None" by code_simp
qed

section \<open>Expressions\<close>



end
