(* ===== verification/Init_Examples.thy ===== *)
theory Init_Examples
  imports Kconfig_Init Menu_Deps Parse_Examples
begin

text \<open>
  A tree of two Kconfig files with an \<open>if\<close>, a sourced file, a menu and a choice: parsed,
  finalised and checked. The functions of the world are constants of their own, so that the
  evaluation does not carry their definitions along.
\<close>

declare fun_upd_apply [code]

section \<open>The files\<close>

definition ln :: "string \<Rightarrow> string" where
  "ln s = s @ [newline]"

definition in_quotes :: "string \<Rightarrow> string" where
  "in_quotes s = [CHR 0x22] @ s @ [CHR 0x22]"

definition k_lines :: "string list" where
  "k_lines =
     [ln ''config A'', ln ('' bool '' @ in_quotes ''a''), ln '' select C'', ln ''if A'', ln ''config B'', ln '' bool'',
      ln ('' default y if C''), ln (''source '' @ in_quotes ''sub''), ln ''endif'', ln ''menu m'', ln ''visible if B'',
      ln ''choice'', ln ('' prompt '' @ in_quotes ''pick''), ln ''config X'', ln '' bool x'', ln ''endchoice'', ln ''endmenu'']"

definition sub_lines :: "string list" where
  "sub_lines = [ln ''config C'', ln '' bool'', ln ''  help'', ln ''   text'']"

definition k_read :: "string \<Rightarrow> string list option" where
  "k_read f = (if f = ''Kconfig'' then Some k_lines else if f = ''/k/sub'' then Some sub_lines else None)"

definition k_environ :: "string \<Rightarrow> string option" where
  "k_environ v = None"

definition k_shell :: "string \<Rightarrow> string \<times> string" where
  "k_shell c = ([], [])"

definition k_functions :: "string \<Rightarrow> (py_fn \<times> nat \<times> nat option) option" where
  "k_functions f = None"

definition k_glob :: "string \<Rightarrow> string list" where
  "k_glob p = [p]"

definition k_realpath :: "string \<Rightarrow> string" where
  "k_realpath p = ''/k''"

definition k_world :: world where
  "k_world =
     \<lparr>environ = k_environ, uname_release = [], shell = k_shell, user_functions = k_functions, read_file = k_read,
      iglob = k_glob, realpath = k_realpath\<rparr>"

lemma k_world_safe: "menu_safe k_world"
  by (simp add: menu_safe_def k_world_def k_functions_def)

section \<open>Initialisation\<close>

definition menu_items :: "pstate \<Rightarrow> node_item list" where
  "menu_items ps = map (\<lambda>i. item (node_at ps i)) [1..<next_node ps]"

lemma k_init:
  "map_sum id (\<lambda>ps. (next_node ps, menu_items ps)) (kconfig_init k_world 1 30 ''Kconfig'' True) =
     Inr (8, [ISym (nsym ''A''), INone, ISym (nsym ''B''), ISym (nsym ''C''), IMenu, ICho 0, ISym (nsym ''X'')])"
  by code_simp

text \<open>The result, its nodes in order.\<close>

lemma k_result:
  obtains ps where "kconfig_init k_world 1 30 ''Kconfig'' True = Inr ps" "next_node ps = 8"
    "filter (\<lambda>i. item (nodetab (conf ps) i) \<noteq> INone) [1..<next_node ps] = [1, 3, 4, 5, 6, 7]"
proof -
  obtain ps where ps: "kconfig_init k_world 1 30 ''Kconfig'' True = Inr ps" and n: "next_node ps = 8"
    and i: "menu_items ps = [ISym (nsym ''A''), INone, ISym (nsym ''B''), ISym (nsym ''C''), IMenu, ICho 0, ISym (nsym ''X'')]"
    using k_init by (cases "kconfig_init k_world 1 30 ''Kconfig'' True") auto
  have u: "[1..<8] = [1, 2, 3, 4, 5, 6, 7::nat]" by (simp add: upt_rec)
  have "filter (\<lambda>i. item (nodetab (conf ps) i) \<noteq> INone) [1..<next_node ps] = [1, 3, 4, 5, 6, 7]"
    using i unfolding menu_items_def n u node_at_def by simp
  then show thesis using that ps n by blast
qed

lemma init_menu_order_witness:
  "\<exists>ps. kconfig_init k_world 1 30 ''Kconfig'' True = Inr ps \<and> node_iter (conf ps) 19 False = Some [1, 3, 4, 5, 6, 7]"
proof -
  obtain ps where ps: "kconfig_init k_world 1 30 ''Kconfig'' True = Inr ps" "next_node ps = 8"
    "filter (\<lambda>i. item (nodetab (conf ps) i) \<noteq> INone) [1..<next_node ps] = [1, 3, 4, 5, 6, 7]"
    using k_result by blast
  then show ?thesis using init_menu_order [OF k_world_safe ps(1), of 19] by auto
qed

section \<open>The parts\<close>

lemma k_parsed:
  obtains ps where "parse_files k_world 1 30 ''Kconfig'' True = Inr ps" "next_node ps = 8"
proof -
  obtain ps where ps: "kconfig_init k_world 1 30 ''Kconfig'' True = Inr ps" "next_node ps = 8" using k_result by blast
  obtain ps1 where "parse_files k_world 1 30 ''Kconfig'' True = Inr ps1" "next_node ps1 = next_node ps"
    using ps(1) unfolding kconfig_init_def Let_def map_sum_def by (auto split: sum.splits option.splits)
  then show thesis using that ps(2) by simp
qed

lemma parse_builds_tree_witness:
  "\<exists>ps ts. parse_files k_world 1 30 ''Kconfig'' True = Inr ps \<and> represents (conf ps) ts \<and>
     concat (map preorder ts) = [1, 2, 3, 4, 5, 6, 7]"
proof -
  obtain ps where ps: "parse_files k_world 1 30 ''Kconfig'' True = Inr ps" "next_node ps = 8" using k_parsed by blast
  then show ?thesis using parse_builds_tree [OF k_world_safe ps(1)] by (auto simp: upt_rec)
qed

lemma finalize_keeps_order_witness:
  "\<exists>ps kc' ts'. parse_files k_world 1 30 ''Kconfig'' True = Inr ps \<and>
     finalize_node 10 expr_y (top_node (conf ps)) (conf ps) = Some kc' \<and> represents kc' ts' \<and>
     concat (map preorder ts') = filter (\<lambda>i. item (node_at ps i) \<noteq> INone) [1, 2, 3, 4, 5, 6, 7]"
proof -
  obtain ps where ps: "parse_files k_world 1 30 ''Kconfig'' True = Inr ps" "next_node ps = 8" using k_parsed by blast
  obtain ts where ts: "represents (conf ps) ts" "concat (map preorder ts) = [1, 2, 3, 4, 5, 6, 7]"
    "top_node (conf ps) = 0" "leaf_syms (conf ps) ts" "menu_ok ps"
    using parsed_tree [OF k_world_safe ps(1)] ps(2) by (auto simp: upt_rec)
  have "\<exists>kc' ts'. finalize_node 10 expr_y (top_node (conf ps)) (conf ps) = Some kc' \<and> represents kc' ts' \<and>
    concat (map preorder ts') = filter (\<lambda>i. item (nodetab (conf ps) i) \<noteq> INone) (concat (map preorder ts))"
    using ts by (intro finalize_keeps_order) (auto simp: menu_ok_def node_at_def)
  then show ?thesis using ps(1) ts(2) by (auto simp: node_at_def)
qed

section \<open>Propagated dependencies\<close>

definition d_node :: menu_node where
  "d_node = fresh_node\<lparr>item := ISym (nsym ''S''), nd_prompt := Some (''s'', ex_dep_A),
     nd_defaults := [(expr_y, ex_dep_A), (expr_m, expr_y)], nd_selects := [(nsym ''T'', expr_y)]\<rparr>"

definition d_dep :: expr where "d_dep = Leaf (Sym (nsym ''D''))"

lemma orig_props_parsed_witness:
  "nd_defaults (propagate_to d_dep expr_y d_node) = [(expr_y, AND ex_dep_A d_dep), (expr_m, d_dep)] \<and>
   orig_defaults (propagate_to d_dep expr_y d_node) = nd_defaults d_node \<and>
   orig_selects (propagate_to d_dep expr_y d_node) = nd_selects d_node"
proof -
  have "dep (propagate_to d_dep expr_y d_node) = d_dep"
    by (simp add: propagate_to_def d_node_def is_sc_item_def fresh_node_def make_and_def)
  moreover have "d_dep \<noteq> expr_n" "d_dep \<noteq> expr_y" by (simp_all add: d_dep_def const_n_def const_y_def)
  moreover have "is_sc_item (item d_node)" by (simp add: d_node_def is_sc_item_def)
  moreover have "nd_defaults (propagate_to d_dep expr_y d_node) = [(expr_y, AND ex_dep_A d_dep), (expr_m, d_dep)]"
    by code_simp
  ultimately show ?thesis
    using orig_props_parsed [of d_node "propagate_to d_dep expr_y d_node" d_dep expr_y] by simp
qed


end
