(* ===== verification/Registered.thy ===== *)
theory Registered
  imports Parser_Frame Menu_Finalize Menu_Order Sanity Build_Dep
begin

text \<open>
  Which symbols and choices a configuration has: those for which there is a menu node. Parsing
  registers each of them when it creates the node, and nothing else gives an object a type, a
  location, properties or a choice. This is what the checks and the dependency sets rely on.
\<close>

section \<open>The invariant\<close>

definition registered :: "sref set \<Rightarrow> nat set \<Rightarrow> kconfig \<Rightarrow> bool" where
  "registered D C kc \<longleftrightarrow>
     (\<forall>i s. item (nodetab kc i) = ISym s \<longrightarrow> s \<in> D) \<and> (\<forall>i c. item (nodetab kc i) = ICho c \<longrightarrow> c \<in> C) \<and>
     (\<forall>s \<in> D. \<not> is_constant s) \<and>
     (\<forall>s. s \<notin> D \<longrightarrow> undefined_sym kc s \<and> direct_dep (sym_obj kc s) = expr_n) \<and>
     (\<forall>c. c \<notin> C \<longrightarrow> undefined_choice kc c) \<and>
     (\<forall>s. dependents (sym_obj kc s) = []) \<and> (\<forall>c. c_dependents (choicetab kc c) = []) \<and>
     (\<forall>s c. choice (sym_obj kc s) = Some c \<longrightarrow> c \<in> C \<and> s \<in> set (c_syms (choicetab kc c))) \<and>
     (\<forall>c. set (c_syms (choicetab kc c)) \<subseteq> D) \<and>
     selects_built kc"

lemma registered_rules:
  assumes "registered D C kc"
  shows "item (nodetab kc i) = ISym s \<Longrightarrow> s \<in> D" "item (nodetab kc i) = ICho c \<Longrightarrow> c \<in> C"
    "s \<in> D \<Longrightarrow> \<not> is_constant s" "s \<in> D \<Longrightarrow> \<not> is_nmy s"
    "s \<notin> D \<Longrightarrow> undefined_sym kc s" "s \<notin> D \<Longrightarrow> direct_dep (sym_obj kc s) = expr_n"
    "c \<notin> C \<Longrightarrow> undefined_choice kc c" "sc_dependents kc x = []"
    "choice (sym_obj kc s) = Some c \<Longrightarrow> c \<in> C" "choice (sym_obj kc s) = Some c \<Longrightarrow> s \<in> set (c_syms (choicetab kc c))"
    "set (c_syms (choicetab kc c)) \<subseteq> D" "selects_built kc"
  using assms not_constant_not_nmy by (auto simp: registered_def sc_dependents_def split: sc.split)

section \<open>Elementary changes\<close>

lemma sym_obj_set_sym:
  "sym_obj (set_sym s f kc) t = (if t = s \<and> \<not> is_nmy s then f (sym_obj kc s) else sym_obj kc t)"
  by (simp add: set_sym_def sym_obj_def)

lemma sym_obj_set [simp]:
  "sym_obj (set_node i g kc) t = sym_obj kc t" "sym_obj (set_choice c h kc) t = sym_obj kc t"
  by (simp_all add: set_node_def set_choice_def sym_obj_def)

lemma choicetab_set [simp]:
  "choicetab (set_node i g kc) = choicetab kc"
  "choicetab (set_choice c h kc) = (choicetab kc)(c := h (choicetab kc c))"
  by (simp_all add: set_node_def set_choice_def)

lemma registered_node:
  "registered D C kc \<Longrightarrow> \<forall>n. item (f n) = item n \<Longrightarrow> registered D C (set_node i f kc)"
  unfolding registered_def undefined_sym_def undefined_choice_def selects_built_def sym_obj_set choicetab_set
  by (simp add: set_node_def)

lemma registered_sym:
  assumes "registered D C kc" "s \<in> D" "keeps_links f"
  shows "registered D C (set_sym s f kc)"
  using assms unfolding registered_def undefined_sym_def undefined_choice_def selects_built_def sym_obj_set_sym keeps_links_def
  by auto

lemma registered_choice:
  assumes "registered D C kc" "c \<in> C" "keeps_members f"
  shows "registered D C (set_choice c f kc)"
  using assms unfolding registered_def undefined_sym_def undefined_choice_def selects_built_def sym_obj_set choicetab_set keeps_members_def
  by auto

lemma registered_member:
  assumes "registered D C kc" "c \<in> C" "s \<in> D"
  shows "registered D C (set_choice c (\<lambda>o_c. o_c\<lparr>c_syms := c_syms o_c @ [s]\<rparr>) (set_sym s (\<lambda>o_s. o_s\<lparr>choice := Some c\<rparr>) kc))"
  using assms registered_rules(4) [OF assms(1,3)] unfolding registered_def undefined_sym_def undefined_choice_def selects_built_def sym_obj_set choicetab_set sym_obj_set_sym
  by auto

section \<open>Finalisation\<close>

lemma split_make_or: "set (split_expr (make_or a b) T_OR) \<subseteq> set (split_expr a T_OR) \<union> set (split_expr b T_OR) \<union> {expr_y}"
  by (auto simp: make_or_def)

lemma select_form_leaf [simp]: "select_form (Leaf x)" "select_form (AND (Leaf x) c)"
  by (simp_all add: select_form_def)

lemma select_form_make_and:
  assumes "\<not> is_constant s" "sel \<in> set (split_expr (make_and (Leaf (Sym s)) c) T_OR)"
  shows "select_form sel"
proof -
  have "Leaf (Sym s) \<noteq> expr_y" "Leaf (Sym s) \<noteq> expr_n" using assms(1) by auto
  then show ?thesis using assms(2) by (auto simp: make_and_def split: if_splits)
qed

lemma registered_rev_dep:
  assumes "registered D C kc" "s \<in> D"
  shows "registered D C (add_rev_dep s tc kc)"
proof -
  have "select_form sel"
    if "sel \<in> set (split_expr (make_or (rev_dep (sym_obj kc t)) (make_and (Leaf (Sym s)) (snd tc))) T_OR)" for sel t
    using that split_make_or select_form_make_and [OF registered_rules(3) [OF assms]] registered_rules(12) [OF assms(1)]
    unfolding selects_built_def by fastforce
  then show ?thesis
    using assms(1) unfolding registered_def undefined_sym_def undefined_choice_def selects_built_def
      add_rev_dep_def sym_obj_set_sym
    by auto
qed

lemma registered_weak_rev_dep:
  assumes "registered D C kc" shows "registered D C (add_weak_rev_dep s tc kc)"
  using assms unfolding registered_def undefined_sym_def undefined_choice_def selects_built_def
    add_weak_rev_dep_def sym_obj_set_sym
  by auto

lemma registered_add_props:
  assumes "registered D C kc" "s \<in> D" shows "registered D C (add_props_to_sym n s kc)"
proof -
  have rev: "registered D C (fold (add_rev_dep s) xs kc)" if "registered D C kc" for xs kc
    using that by (induction xs arbitrary: kc) (simp_all add: registered_rev_dep assms(2))
  have weak: "registered D C (fold (add_weak_rev_dep s) xs kc)" if "registered D C kc" for xs kc
    using that by (induction xs arbitrary: kc) (simp_all add: registered_weak_rev_dep)
  show ?thesis unfolding add_props_to_sym_def
    by (rule weak [OF rev [OF registered_sym [OF assms]]]) (simp add: keeps_links_def)
qed

lemma propagate_to_item [simp]: "item (propagate_to b v n) = item n"
  by (simp add: propagate_to_def Let_def)

lemma registered_propagate_loop:
  "propagate_loop b v k cur kc = Some kc' \<Longrightarrow> registered D C kc \<Longrightarrow> registered D C kc'"
proof (induction k arbitrary: cur kc)
  case (Suc k)
  show ?case
  proof (cases cur)
    case (Some i)
    then have "propagate_loop b v k (nd_next (nodetab (set_node i (propagate_to b v) kc) i)) (set_node i (propagate_to b v) kc) = Some kc'"
      using Suc.prems(1) by (simp add: Let_def)
    then show ?thesis by (rule Suc.IH) (rule registered_node [OF Suc.prems(2)], simp)
  qed (use Suc.prems in simp)
qed simp

lemma registered_reparent:
  "reparent k p i kc = Some (z, kc') \<Longrightarrow> registered D C kc \<Longrightarrow> registered D C kc'"
proof (induction k arbitrary: i kc)
  case (Suc k)
  have "registered D C (set_node i (\<lambda>n. n\<lparr>parent := p\<rparr>) kc)" using Suc.prems(2) by (intro registered_node) auto
  then show ?case using Suc by (auto simp: Let_def split: option.splits)
qed simp

lemma registered_lift_children:
  assumes "lift_children k i kc = Some kc'" "registered D C kc" shows "registered D C kc'"
proof (cases "nd_list (nodetab kc i)")
  case (Some l)
  then obtain z kc1 where "reparent k (parent (nodetab kc i)) l kc = Some (z, kc1)"
    "kc' = set_node i (\<lambda>n. n\<lparr>nd_next := nd_list n, nd_list := None\<rparr>)
       (set_node z (\<lambda>n. n\<lparr>nd_next := nd_next (nodetab kc1 i)\<rparr>) kc1)"
    using assms(1) by (auto simp: lift_children_def Let_def split: option.splits)
  then show ?thesis using registered_reparent [OF _ assms(2)] by (auto intro!: registered_node)
qed (use assms in \<open>simp add: lift_children_def\<close>)

lemma registered_flatten:
  "flatten k cur kc = Some kc' \<Longrightarrow> registered D C kc \<Longrightarrow> registered D C kc'"
proof (induction k arbitrary: cur kc)
  case (Suc k)
  show ?case
  proof (cases cur)
    case (Some i)
    then obtain kc1 where "(if flattens (nodetab kc i) then lift_children k i kc else Some kc) = Some kc1"
      "flatten k (nd_next (nodetab kc1 i)) kc1 = Some kc'"
      using Suc.prems(1) by (auto split: option.splits)
    then show ?thesis using Suc.IH Suc.prems(2) registered_lift_children by (auto split: if_splits)
  qed (use Suc.prems in simp)
qed simp

lemma registered_unlink_ifs:
  "unlink_ifs k cur kc = Some kc' \<Longrightarrow> registered D C kc \<Longrightarrow> registered D C kc'"
proof (induction k arbitrary: cur kc)
  case (Suc k)
  show ?case
  proof (cases cur)
    case (Some i)
    then obtain nxt where "unlink_ifs k nxt (set_node i (\<lambda>n. n\<lparr>nd_next := nxt\<rparr>) kc) = Some kc'"
      using Suc.prems(1) by (auto split: option.splits)
    then show ?thesis by (rule Suc.IH) (use Suc.prems(2) in \<open>auto intro: registered_node\<close>)
  qed (use Suc.prems in simp)
qed simp

lemma registered_level:
  assumes "finalize_level k i kc = Some kc'" "registered D C kc" shows "registered D C kc'"
proof (cases "nd_list (nodetab kc i) = None")
  case False
  then obtain kc1 cur where f: "flatten k (nd_list (nodetab kc i)) kc = Some kc1"
    "unlink_ifs k cur (set_node i (\<lambda>n. n\<lparr>nd_list := cur\<rparr>) kc1) = Some kc'"
    using assms(1) by (auto simp: finalize_level_def remove_ifs_def bind_eq_Some_conv split: option.splits)
  show ?thesis
    by (rule registered_unlink_ifs [OF f(2)]) (use registered_flatten [OF f(1) assms(2)] in \<open>auto intro: registered_node\<close>)
qed (use assms in \<open>simp add: finalize_level_def\<close>)

lemma registered_choice_members:
  "choice_members c k cur kc = Some kc' \<Longrightarrow> registered D C kc \<Longrightarrow> c \<in> C \<Longrightarrow> registered D C kc'"
proof (induction k arbitrary: cur kc)
  case (Suc k)
  show ?case
  proof (cases cur)
    case (Some i)
    let ?kc1 = "case item (nodetab kc i) of
               ISym s \<Rightarrow>
                 set_choice c (\<lambda>o_c. o_c\<lparr>c_syms := c_syms o_c @ [s]\<rparr>)
                   (set_sym s (\<lambda>o_s. o_s\<lparr>choice := Some c\<rparr>) kc)
             | _ \<Rightarrow> kc"
    have "choice_members c k (nd_next (nodetab kc i)) ?kc1 = Some kc'" using Suc.prems(1) Some by simp
    moreover have "registered D C ?kc1"
      using Suc.prems(2,3) registered_member registered_rules(1) by (auto split: node_item.split)
    ultimately show ?thesis by (rule Suc.IH) (rule Suc.prems(3))
  qed (use Suc.prems in simp)
qed simp

lemma registered_infer_choice_type:
  "registered D C kc \<Longrightarrow> c \<in> C \<Longrightarrow> registered D C (infer_choice_type c kc)"
  by (auto simp: infer_choice_type_def keeps_members_def intro!: registered_choice split: option.split)

lemma registered_infer_sym_types:
  assumes "registered D C kc" shows "registered D C (infer_sym_types c kc)"
proof -
  have "registered D C (fold (\<lambda>s kc. if orig_type (sym_obj kc s) = UNKNOWN
                  then set_sym s (\<lambda>o_s. o_s\<lparr>orig_type := c_orig_type (choicetab kc c)\<rparr>) kc else kc) ss kc)"
    if "registered D C kc" "set ss \<subseteq> D" for ss kc
    using that
  proof (induction ss arbitrary: kc)
    case (Cons s ss)
    have "registered D C (if orig_type (sym_obj kc s) = UNKNOWN
                  then set_sym s (\<lambda>o_s. o_s\<lparr>orig_type := c_orig_type (choicetab kc c)\<rparr>) kc else kc)"
      using Cons.prems by (auto simp: keeps_links_def intro!: registered_sym)
    from Cons.IH [OF this] show ?case using Cons.prems(2) by simp
  qed simp
  from this [OF assms registered_rules(11) [OF assms]] show ?thesis by (simp add: infer_sym_types_def)
qed

lemma registered_if_choice:
  assumes "finalize_if_choice k i kc = Some kc'" "registered D C kc" shows "registered D C kc'"
proof (cases "item (nodetab kc i)")
  case (ICho c)
  have c: "c \<in> C" by (rule registered_rules(2) [OF assms(2) ICho])
  obtain kc1 where k: "choice_members c k (nd_list (nodetab kc i))
      (set_choice c (\<lambda>o_c. o_c\<lparr>c_direct_dep := make_or (c_direct_dep o_c) (dep (nodetab kc i)),
         c_defaults := c_defaults o_c @ nd_defaults (nodetab kc i)\<rparr>) kc) = Some kc1"
    "kc' = infer_sym_types c (infer_choice_type c kc1)"
    using assms(1) ICho by (auto simp: finalize_if_choice_def finalize_choice_def Let_def)
  have "registered D C kc1"
    by (rule registered_choice_members [OF k(1) registered_choice c]) (use assms(2) c in \<open>auto simp: keeps_members_def\<close>)
  then show ?thesis using k(2) c registered_infer_sym_types registered_infer_choice_type by blast
qed (use assms in \<open>simp_all add: finalize_if_choice_def\<close>)

lemma registered_implicit_loop:
  assumes "\<And>j kc kc'. fin j kc = Some kc' \<Longrightarrow> registered D C kc \<Longrightarrow> registered D C kc'"
  shows "implicit_loop fin i s k cur kc = Some (z, kc') \<Longrightarrow> registered D C kc \<Longrightarrow> registered D C kc'"
proof (induction k arbitrary: cur kc)
  case (Suc k)
  show ?case
  proof (cases "nd_next (nodetab kc cur)")
    case (Some j)
    show ?thesis
    proof (cases "auto_menu_dep kc s j")
      case True
      then obtain kc1 where f: "fin j kc = Some kc1"
        "implicit_loop fin i s k j (set_node j (\<lambda>n. n\<lparr>parent := Some i\<rparr>) kc1) = Some (z, kc')"
        using Suc.prems(1) Some by (auto split: option.splits)
      show ?thesis by (rule Suc.IH [OF f(2)]) (use assms [OF f(1) Suc.prems(2)] in \<open>auto intro: registered_node\<close>)
    qed (use Suc.prems Some in simp)
  qed (use Suc.prems in simp)
qed simp

lemma registered_children_loop:
  assumes "\<And>j kc kc'. fin j kc = Some kc' \<Longrightarrow> registered D C kc \<Longrightarrow> registered D C kc'"
  shows "children_loop fin k cur kc = Some kc' \<Longrightarrow> registered D C kc \<Longrightarrow> registered D C kc'"
  by (induction k arbitrary: cur kc) (auto split: option.splits dest: assms)

lemma registered_item:
  assumes "\<And>v j kc kc'. fin v j kc = Some kc' \<Longrightarrow> registered D C kc \<Longrightarrow> registered D C kc'"
    and "finalize_item fin k v i kc = Some kc'" "registered D C kc"
  shows "registered D C kc'"
proof (cases "\<exists>s. item (nodetab kc i) = ISym s")
  case True
  then obtain s where s: "item (nodetab kc i) = ISym s" by blast
  obtain cur kc1 where l: "implicit_loop (fin v) i s k i (add_props_to_sym (nodetab kc i) s kc) = Some (cur, kc1)"
    "kc' = tilt_submenu i cur kc1"
    using assms(2) s by (auto simp: finalize_item_def Let_def)
  have "registered D C kc1"
    by (rule registered_implicit_loop [OF assms(1) l(1) registered_add_props [OF assms(3) registered_rules(1) [OF assms(3) s]]])
  then show ?thesis using l(2) by (auto simp: tilt_submenu_def intro!: registered_node)
next
  case False
  then have "kc' = kc \<or> (\<exists>v b w cur' cur kc1. propagate_loop b w k cur kc = Some kc1 \<and> children_loop (fin v) k cur' kc1 = Some kc')"
    using assms(2)
    by (cases "item (nodetab kc i)"; cases "nd_list (nodetab kc i)")
      (fastforce simp: finalize_item_def propagate_deps_def Let_def split: option.splits)+
  moreover have "registered D C kc'" if "children_loop (fin v) k cur kc1 = Some kc'" "registered D C kc1" for v cur kc1
    by (rule registered_children_loop [where fin = "fin v", OF _ that]) (rule assms(1))
  ultimately show ?thesis using assms(3) registered_propagate_loop by blast
qed

lemma registered_finalize_node:
  "finalize_node k v i kc = Some kc' \<Longrightarrow> registered D C kc \<Longrightarrow> registered D C kc'"
proof (induction k arbitrary: v i kc kc')
  case (Suc k)
  then obtain kc1 kc2 where f: "finalize_item (finalize_node k) k v i kc = Some kc1"
    "finalize_level k i kc1 = Some kc2" "finalize_if_choice k i kc2 = Some kc'"
    by (auto simp: bind_eq_Some_conv)
  show ?case
    by (rule registered_if_choice [OF f(3) registered_level [OF f(2) registered_item [OF Suc.IH f(1) Suc.prems(2)]]])
qed simp

section \<open>Parsing\<close>

definition parse_ok :: "pstate \<Rightarrow> bool" where
  "parse_ok ps \<longleftrightarrow>
     registered (set (defined_syms ps)) (set (choices ps)) (conf ps) \<and> (\<forall>s. choice (sym_obj (conf ps) s) = None) \<and>
     usr (out ps) = init_user \<and> cache (out ps) = preset"

text \<open>Functions from \<^verbatim>\<open>KCONFIG_FUNCTIONS\<close> do not change the configuration or its values.\<close>

definition functions_safe :: "world \<Rightarrow> bool" where
  "functions_safe w \<longleftrightarrow>
     (\<forall>fn f lo hi args ps r ps'. user_functions w fn = Some (f, lo, hi) \<longrightarrow> f args ps = Inr (r, ps') \<longrightarrow>
        next_node ps' = next_node ps \<and> conf ps' = conf ps \<and> defined_syms ps' = defined_syms ps \<and>
        choices ps' = choices ps \<and> usr (out ps') = usr (out ps) \<and> cache (out ps') = cache (out ps))"

lemma parse_ok_same:
  "parse_ok ps \<Longrightarrow> conf ps' = conf ps \<Longrightarrow> defined_syms ps' = defined_syms ps \<Longrightarrow> choices ps' = choices ps \<Longrightarrow>
   usr (out ps') = usr (out ps) \<Longrightarrow> cache (out ps') = cache (out ps) \<Longrightarrow> parse_ok ps'"
  by (simp add: parse_ok_def)

lemma upd_set [simp]:
  "conf (upd_node i f ps) = set_node i f (conf ps)" "conf (upd_sym s g ps) = set_sym s g (conf ps)"
  "conf (upd_choice c h ps) = set_choice c h (conf ps)"
  by (simp_all add: upd_node_def set_node_def node_at_def upd_sym_def put_sym_def set_sym_def upd_choice_def set_choice_def)

lemma upd_regs [simp]:
  "defined_syms (upd_node i f ps) = defined_syms ps" "choices (upd_node i f ps) = choices ps"
  "defined_syms (upd_sym s g ps) = defined_syms ps" "choices (upd_sym s g ps) = choices ps"
  "defined_syms (upd_choice c h ps) = defined_syms ps" "choices (upd_choice c h ps) = choices ps"
  "out (upd_node i f ps) = out ps" "out (upd_sym s g ps) = out ps" "out (upd_choice c h ps) = out ps"
  by (simp_all add: upd_node_def upd_sym_def put_sym_def upd_choice_def)

lemma sym_obj_fresh:
  "symtab kc s = None \<Longrightarrow> sym_obj (kc\<lparr>symtab := (symtab kc)(s \<mapsto> fresh_symbol)\<rparr>) t = sym_obj kc t"
  by (simp add: sym_obj_def)

lemma registered_cong:
  assumes "registered D C kc" "nodetab kc' = nodetab kc" "choicetab kc' = choicetab kc" "\<And>s. sym_obj kc' s = sym_obj kc s"
  shows "registered D C kc'"
  using assms by (simp add: registered_def undefined_sym_def undefined_choice_def selects_built_def)

lemma parse_ok_node: "parse_ok ps \<Longrightarrow> \<forall>n. item (f n) = item n \<Longrightarrow> parse_ok (upd_node i f ps)"
  by (simp add: parse_ok_def registered_node)

lemma parse_ok_sym: "parse_ok ps \<Longrightarrow> s \<in> set (defined_syms ps) \<Longrightarrow> keeps_links f \<Longrightarrow> parse_ok (upd_sym s f ps)"
  by (simp add: parse_ok_def registered_sym sym_obj_set_sym keeps_links_def)

lemma parse_ok_choice: "parse_ok ps \<Longrightarrow> c \<in> set (choices ps) \<Longrightarrow> keeps_members f \<Longrightarrow> parse_ok (upd_choice c f ps)"
  by (simp add: parse_ok_def registered_choice)

lemma parse_ok_fresh:
  assumes "parse_ok ps" "symtab (conf ps) s = None" shows "parse_ok (put_sym s fresh_symbol ps)"
proof -
  let ?kc = "(conf ps)\<lparr>symtab := (symtab (conf ps))(s \<mapsto> fresh_symbol)\<rparr>"
  have "registered (set (defined_syms ps)) (set (choices ps)) ?kc"
    using registered_cong [of _ _ "conf ps" ?kc] sym_obj_fresh [OF assms(2)] assms(1) by (simp add: parse_ok_def)
  then show ?thesis using assms sym_obj_fresh [OF assms(2)] by (simp add: parse_ok_def put_sym_def)
qed

interpretation parts: props_frame w "\<lambda>ps ps'. functions_safe w \<longrightarrow> parse_ok ps \<longrightarrow> parse_ok ps'" i for w i
proof
  fix fn f lo hi args ps r ps'
  assume "user_functions w fn = Some (f, lo, hi)" "f args ps = Inr (r, ps')"
  then show "functions_safe w \<longrightarrow> parse_ok ps \<longrightarrow> parse_ok ps'"
    unfolding functions_safe_def using parse_ok_same by blast
next
  fix f :: "menu_node \<Rightarrow> menu_node" and ps :: pstate
  assume "keeps_place f"
  then show "functions_safe w \<longrightarrow> parse_ok ps \<longrightarrow> parse_ok (upd_node i f ps)"
    using parse_ok_node by (simp add: keeps_place_def)
next
  fix ps s g assume "item (node_at ps i) = ISym s" "keeps_links g"
  then show "functions_safe w \<longrightarrow> parse_ok ps \<longrightarrow> parse_ok (upd_sym s g ps)"
    using parse_ok_sym registered_rules(1) by (auto simp: parse_ok_def node_at_def)
next
  fix ps c h assume "item (node_at ps i) = ICho c" "keeps_members h"
  then show "functions_safe w \<longrightarrow> parse_ok ps \<longrightarrow> parse_ok (upd_choice c h ps)"
    using parse_ok_choice registered_rules(2) by (auto simp: parse_ok_def node_at_def)
next
  fix ps :: pstate and D
  have o: "sym_obj ((conf ps)\<lparr>defconfig_list := D\<rparr>) s = sym_obj (conf ps) s" for s by (simp add: sym_obj_def)
  show "functions_safe w \<longrightarrow> parse_ok ps \<longrightarrow> parse_ok (ps\<lparr>conf := (conf ps)\<lparr>defconfig_list := D\<rparr>\<rparr>)"
    using registered_cong [of _ _ "conf ps" "(conf ps)\<lparr>defconfig_list := D\<rparr>"] o by (simp add: parse_ok_def)
qed (auto intro: parse_ok_fresh elim: parse_ok_same)

section \<open>Blocks\<close>

lemma registered_grow:
  assumes "registered D C kc" "D \<subseteq> D'" "C \<subseteq> C'" "\<forall>s \<in> D'. \<not> is_constant s" shows "registered D' C' kc"
proof -
  have "set (c_syms (choicetab kc c)) \<subseteq> D'" for c using registered_rules(11) [OF assms(1)] assms(2) by blast
  then show ?thesis using assms unfolding registered_def by (auto dest: subsetD)
qed

definition item_registered :: "pstate \<Rightarrow> node_item \<Rightarrow> bool" where
  "item_registered ps it =
     (case it of ISym s \<Rightarrow> s \<in> set (defined_syms ps) | ICho c \<Rightarrow> c \<in> set (choices ps) | _ \<Rightarrow> True)"

lemma parse_ok_new_node:
  assumes "new_node n ps = (i, ps')" "parse_ok ps" "item_registered ps (item n)"
  shows "parse_ok ps' \<and> defined_syms ps' = defined_syms ps \<and> choices ps' = choices ps"
proof -
  have "ps' = upd_node i (\<lambda>_. n) (ps\<lparr>next_node := Suc (next_node ps)\<rparr>)" using assms(1) by (auto simp: new_node_def)
  moreover have "registered (set (defined_syms ps)) (set (choices ps)) (set_node i (\<lambda>_. n) (conf ps))"
    using assms(2,3) unfolding parse_ok_def registered_def undefined_sym_def undefined_choice_def selects_built_def
      item_registered_def sym_obj_set choicetab_set
    by (auto simp: set_node_def)
  ultimately show ?thesis using assms(2) by (simp add: parse_ok_def)
qed

lemma parse_ok_define:
  assumes "parse_ok ps" "\<not> is_constant s" shows "parse_ok (ps\<lparr>defined_syms := defined_syms ps @ [s]\<rparr>)"
proof -
  have r: "registered (set (defined_syms ps)) (set (choices ps)) (conf ps)" using assms by (simp add: parse_ok_def)
  have "registered (set (defined_syms ps @ [s])) (set (choices ps)) (conf ps)"
    by (rule registered_grow [OF r]) (use assms(2) registered_rules(3) [OF r] in auto)
  then show ?thesis using assms by (simp add: parse_ok_def)
qed

lemma parse_ok_add_choice:
  assumes "parse_ok ps" shows "parse_ok (ps\<lparr>choices := choices ps @ [c]\<rparr>)"
proof -
  have r: "registered (set (defined_syms ps)) (set (choices ps)) (conf ps)" using assms by (simp add: parse_ok_def)
  have "registered (set (defined_syms ps)) (set (choices ps @ [c])) (conf ps)"
    by (rule registered_grow [OF r]) (use registered_rules(3) [OF r] in auto)
  then show ?thesis using assms by (simp add: parse_ok_def)
qed

lemma parse_ok_new_choice:
  assumes "new_choice name ps = (c, ps')" "parse_ok ps" shows "parse_ok ps'"
proof -
  have "ps' = upd_choice c (\<lambda>_. fresh_choice\<lparr>c_name := name\<rparr>) (ps\<lparr>next_choice := Suc (next_choice ps)\<rparr>)"
    using assms(1) by (auto simp: new_choice_def)
  moreover have "registered (set (defined_syms ps)) (set (choices ps)) (set_choice c (\<lambda>_. fresh_choice\<lparr>c_name := name\<rparr>) (conf ps))"
    using assms(2) unfolding parse_ok_def registered_def undefined_sym_def undefined_choice_def selects_built_def
      sym_obj_set choicetab_set
    by (auto simp: fresh_choice_def)
  ultimately show ?thesis using assms(2) by (simp add: parse_ok_def)
qed

lemma parse_ok_choice_object:
  assumes "choice_object ts ps = Inr (c, ps')" "parse_ok ps" shows "parse_ok ps'"
proof (cases "ts = []")
  case True
  then show ?thesis using assms parse_ok_new_choice by (cases "new_choice None ps") (simp add: choice_object_def)
next
  case False
  then obtain name where n: "expect_str_and_eol ps ts = Inr name"
    using assms(1) by (auto simp: choice_object_def split: sum.splits)
  show ?thesis
  proof (cases "named_choices ps name")
    case None
    obtain c1 ps1 where c: "new_choice (Some name) ps = (c1, ps1)" by (cases "new_choice (Some name) ps")
    have "ps' = ps1\<lparr>named_choices := (named_choices ps1)(name \<mapsto> c)\<rparr>"
      using assms(1) False n None c by (auto simp: choice_object_def)
    then show ?thesis using parse_ok_same [OF parse_ok_new_choice [OF c assms(2)], of ps'] by simp
  qed (use assms False n in \<open>simp add: choice_object_def\<close>)
qed

text \<open>What the statements need of the function that parses the block inside them.\<close>

definition block_keeps :: "block_parser \<Rightarrow> bool" where
  "block_keeps block \<longleftrightarrow> (\<forall>e p prev ps z ps'. block e p prev ps = Inr (z, ps') \<longrightarrow> parse_ok ps \<longrightarrow> parse_ok ps')"

lemma parse_ok_link: "link_node prev i ps = (z, ps') \<Longrightarrow> parse_ok ps \<Longrightarrow> parse_ok ps'"
  by (auto simp: link_node_def intro: parse_ok_node)

lemma parse_ok_entries:
  assumes "block_keeps block" "entries block e prev i ps = Inr (z, ps')" "parse_ok ps" shows "parse_ok ps'"
proof -
  obtain y ps1 where b: "block (Some e) i i ps = Inr (y, ps1)" "link_node prev i (tilt i ps1) = (z, ps')"
    using assms(2) by (cases "block (Some e) i i ps") (auto simp: entries_def)
  have "parse_ok ps1" using assms(1,3) b(1) unfolding block_keeps_def by blast
  then have "parse_ok (tilt i ps1)" by (simp add: tilt_def parse_ok_node)
  with b(2) show ?thesis by (rule parse_ok_link)
qed

lemma parse_ok_props: "functions_safe w \<Longrightarrow> parse_props w d i ps = Inr ps' \<Longrightarrow> parse_ok ps \<Longrightarrow> parse_ok ps'"
  using parts.parse_props_frame [of w d i ps ps'] by blast

lemma parse_ok_config_stmt:
  assumes "functions_safe w" "config_stmt w d p prev mc ts ps = Inr (z, ps')" "parse_ok ps" shows "parse_ok ps'"
proof -
  obtain s where s: "ts = [TSym s]" "\<not> is_constant s"
    using assms(2) by (auto simp: config_stmt_def Let_def split: list.splits tok.splits if_splits)
  define ps1 where "ps1 = ps\<lparr>defined_syms := defined_syms ps @ [s]\<rparr>"
  obtain i ps2 where n: "new_node (node_here (ISym s) mc p ps1) ps1 = (i, ps2)"
    by (cases "new_node (node_here (ISym s) mc p ps1) ps1")
  obtain ps3 where ps3: "parse_props w d i (upd_sym s (\<lambda>o_s. o_s\<lparr>nodes := nodes o_s @ [i]\<rparr>) ps2) = Inr ps3"
    "link_node prev i (if mc \<and> nd_prompt (node_at ps3 i) = None
       then warn_plain (''the menuconfig symbol '' @ name_and_loc (conf ps3) (Sym s) @ '' has no prompt'') ps3
       else ps3) = (z, ps')"
    using assms(2) s n unfolding config_stmt_def ps1_def by (auto simp: Let_def split: sum.splits)
  have 1: "parse_ok ps1" unfolding ps1_def by (rule parse_ok_define [OF assms(3) s(2)])
  have "item_registered ps1 (item (node_here (ISym s) mc p ps1))" by (simp add: item_registered_def node_here_def ps1_def)
  note 2 = parse_ok_new_node [OF n 1 this]
  then have "s \<in> set (defined_syms ps2)" by (simp add: ps1_def)
  then have "parse_ok (upd_sym s (\<lambda>o_s. o_s\<lparr>nodes := nodes o_s @ [i]\<rparr>) ps2)"
    using 2 by (intro parse_ok_sym) (auto simp: keeps_links_def)
  note 3 = parse_ok_props [OF assms(1) ps3(1) this]
  show ?thesis by (rule parse_ok_link [OF ps3(2)]) (use 3 in \<open>auto simp: warn_plain_def elim: parse_ok_same\<close>)
qed

lemma parse_ok_enter:
  assumes "enter_file w f ps = Inr ps'" "parse_ok ps" shows "parse_ok ps'"
  using assms by (auto simp: enter_file_def Let_def elim!: parse_ok_same split: if_splits option.splits)

lemma parse_ok_source_all:
  assumes "block_keeps block"
  shows "source_all block w p fs prev ps = Inr (z, ps') \<Longrightarrow> parse_ok ps \<Longrightarrow> parse_ok ps'"
proof (induction fs arbitrary: prev ps)
  case (Cons f fs)
  obtain ps1 where e: "enter_file w f ps = Inr ps1" using Cons.prems(1) by (auto split: sum.splits)
  obtain y ps2 where b: "block None p prev ps1 = Inr (y, ps2)" "source_all block w p fs y (leave_file ps2) = Inr (z, ps')"
    using Cons.prems(1) e by (cases "block None p prev ps1") auto
  have "parse_ok ps2" using assms b(1) parse_ok_enter [OF e Cons.prems(2)] unfolding block_keeps_def by blast
  then have "parse_ok (leave_file ps2)" by (rule parse_ok_same) (simp_all add: leave_file_def)
  with b(2) show ?case by (rule Cons.IH)
qed simp

lemma parse_ok_menu_stmt:
  assumes "functions_safe w" "block_keeps block" "menu_stmt block w d p prev ts ps = Inr (z, ps')" "parse_ok ps"
  shows "parse_ok ps'"
proof -
  obtain t where t: "expect_str_and_eol ps ts = Inr t" using assms(3) by (auto simp: menu_stmt_def split: sum.splits)
  let ?n = "(node_here IMenu True p ps)\<lparr>nd_prompt := Some (t, expr_y)\<rparr>"
  obtain i ps1 where n: "new_node ?n ps = (i, ps1)" by (cases "new_node ?n ps")
  obtain ps2 where p: "parse_props w d i (ps1\<lparr>menus := menus ps1 @ [i]\<rparr>) = Inr ps2" "entries block T_ENDMENU prev i ps2 = Inr (z, ps')"
    using assms(3) t n by (auto simp: menu_stmt_def split: sum.splits)
  have "parse_ok ps1" using parse_ok_new_node [OF n assms(4)] by (simp add: item_registered_def node_here_def)
  then have "parse_ok (ps1\<lparr>menus := menus ps1 @ [i]\<rparr>)" by (rule parse_ok_same) simp_all
  from parse_ok_entries [OF assms(2) p(2) parse_ok_props [OF assms(1) p(1) this]] show ?thesis .
qed

lemma parse_ok_comment_stmt:
  assumes "functions_safe w" "comment_stmt w d p prev ts ps = Inr (z, ps')" "parse_ok ps"
  shows "parse_ok ps'"
proof -
  obtain t where t: "expect_str_and_eol ps ts = Inr t" using assms(2) by (auto simp: comment_stmt_def split: sum.splits)
  let ?n = "(node_here IComment False p ps)\<lparr>nd_prompt := Some (t, expr_y)\<rparr>"
  obtain i ps1 where n: "new_node ?n ps = (i, ps1)" by (cases "new_node ?n ps")
  obtain ps2 where p: "parse_props w d i (ps1\<lparr>comments := comments ps1 @ [i]\<rparr>) = Inr ps2" "link_node prev i ps2 = (z, ps')"
    using assms(2) t n by (auto simp: comment_stmt_def map_sum_def split: sum.splits)
  have "parse_ok ps1" using parse_ok_new_node [OF n assms(3)] by (simp add: item_registered_def node_here_def)
  then have "parse_ok (ps1\<lparr>comments := comments ps1 @ [i]\<rparr>)" by (rule parse_ok_same) simp_all
  from parse_ok_link [OF p(2) parse_ok_props [OF assms(1) p(1) this]] show ?thesis .
qed

lemma parse_ok_if_stmt:
  assumes "block_keeps block" "if_stmt block p prev ts ps = Inr (z, ps')" "parse_ok ps"
  shows "parse_ok ps'"
proof -
  obtain e where e: "expect_expr_and_eol ps ts = Inr e" using assms(2) by (auto simp: if_stmt_def split: sum.splits)
  let ?n = "fresh_node\<lparr>parent := Some p, dep := e\<rparr>"
  obtain i ps1 where n: "new_node ?n ps = (i, ps1)" by (cases "new_node ?n ps")
  have "entries block T_ENDIF prev i ps1 = Inr (z, ps')" using assms(2) e n by (simp add: if_stmt_def)
  moreover have "parse_ok ps1" using parse_ok_new_node [OF n assms(3)] by (simp add: item_registered_def fresh_node_def)
  ultimately show ?thesis by (rule parse_ok_entries [OF assms(1)])
qed

lemma parse_ok_choice_stmt:
  assumes "functions_safe w" "block_keeps block" "choice_stmt block w d p prev ts ps = Inr (z, ps')" "parse_ok ps"
  shows "parse_ok ps'"
proof -
  obtain c ps1 where c: "choice_object ts ps = Inr (c, ps1)"
    using assms(3) by (cases "choice_object ts ps") (auto simp: choice_stmt_def)
  define ps2 where "ps2 = ps1\<lparr>choices := choices ps1 @ [c]\<rparr>"
  obtain i ps3 where n: "new_node (node_here (ICho c) True p ps2) ps2 = (i, ps3)"
    by (cases "new_node (node_here (ICho c) True p ps2) ps2")
  obtain ps4 where p: "parse_props w d i (upd_choice c (\<lambda>o_c. o_c\<lparr>c_nodes := c_nodes o_c @ [i]\<rparr>) ps3) = Inr ps4"
    "entries block T_ENDCHOICE prev i ps4 = Inr (z, ps')"
    using assms(3) c n unfolding choice_stmt_def ps2_def by (auto simp: Let_def split: sum.splits)
  have 2: "parse_ok ps2" unfolding ps2_def by (rule parse_ok_add_choice [OF parse_ok_choice_object [OF c assms(4)]])
  have "item_registered ps2 (item (node_here (ICho c) True p ps2))" by (simp add: item_registered_def node_here_def ps2_def)
  note 3 = parse_ok_new_node [OF n 2 this]
  then have "c \<in> set (choices ps3)" by (simp add: ps2_def)
  then have "parse_ok (upd_choice c (\<lambda>o_c. o_c\<lparr>c_nodes := c_nodes o_c @ [i]\<rparr>) ps3)"
    using 3 by (intro parse_ok_choice) (auto simp: keeps_members_def)
  from parse_ok_entries [OF assms(2) p(2) parse_ok_props [OF assms(1) p(1) this]] show ?thesis .
qed

lemma parse_ok_statement:
  assumes "functions_safe w" "block_keeps block" "statement block w d p prev t0 ts ps = Inr (z, ps')" "parse_ok ps"
  shows "parse_ok ps'"
proof -
  have m: "parse_ok ps'" if "mainmenu_stmt prev ts ps = Inr (z, ps')"
    using that assms(4) by (auto simp: mainmenu_stmt_def map_sum_def intro: parse_ok_node split: sum.splits)
  have s: "parse_ok ps'" if "source_stmt block w p prev t0 ts ps = Inr (z, ps')"
    using that parse_ok_source_all [OF assms(2) _ assms(4)] by (auto simp: source_stmt_def split: sum.splits)
  show ?thesis
    using assms(3) m s parse_ok_config_stmt [OF assms(1) _ assms(4)] parse_ok_if_stmt [OF assms(2) _ assms(4)]
      parse_ok_menu_stmt [OF assms(1,2) _ assms(4)] parse_ok_comment_stmt [OF assms(1) _ assms(4)]
      parse_ok_choice_stmt [OF assms(1,2) _ assms(4)]
    unfolding statement_def by (simp split: if_splits)
qed

lemma parse_ok_block:
  assumes "functions_safe w" shows "block_keeps (parse_block w d k)"
proof (induction k)
  case (Suc k)
  show ?case unfolding block_keeps_def
  proof (intro allI impI)
    fix e p prev ps z ps' assume b: "parse_block w d (Suc k) e p prev ps = Inr (z, ps')" and ok: "parse_ok ps"
    obtain more ps1 where n: "next_line w d ps = Inr (more, ps1)" using b by (auto split: sum.splits)
    have 1: "parse_ok ps1" using parts.next_line_frame [OF n] assms ok by blast
    have k: "parse_ok ps'" if "parse_block w d k e p y ps2 = Inr (z, ps')" "parse_ok ps2" for y ps2
      using Suc that unfolding block_keeps_def by blast
    consider "ps' = ps1" | "parse_block w d k e p prev ps1 = Inr (z, ps')"
      | "ps' = upd_node prev (\<lambda>n. n\<lparr>nd_next := None\<rparr>) ps1"
      | t0 ts y ps2 where "statement (parse_block w d k) w d p prev t0 ts ps1 = Inr (y, ps2)" "parse_block w d k e p y ps2 = Inr (z, ps')"
    proof (cases more)
      case False
      then show ?thesis using that(1) b n by (auto simp: end_of_file_def split: option.splits)
    next
      case M: True
      show ?thesis
      proof (cases "tokens ps1")
        case Nil
        then show ?thesis using that(2) b n M by simp
      next
        case (Cons t ts)
        then obtain t0 where t0: "t = TKey t0" using b n M by (cases t) auto
        show ?thesis
        proof (cases "e = Some t0")
          case True
          then have "prev = z \<and> upd_node prev (\<lambda>n. n\<lparr>nd_next := None\<rparr>) ps1 = ps'"
            using b n M Cons t0 by (auto split: if_splits)
          then show ?thesis using that(3) by blast
        next
          case False
          then show ?thesis using that(4) b n M Cons t0
            by (cases "statement (parse_block w d k) w d p prev t0 ts ps1") auto
        qed
      qed
    qed
    then show "parse_ok ps'"
      using 1 k parse_ok_node [of ps1] parse_ok_statement [OF assms Suc] by cases auto
  qed
qed (simp add: block_keeps_def)

lemma parse_ok_looked_up:
  assumes "parse_ok ps" shows "parse_ok (snd (lookup_sym name ps))"
proof -
  have "parse_ok (put_sym s fresh_symbol (ps\<lparr>syms_keys := ks\<rparr>))" if "symtab (conf ps) s = None" for s ks
    by (rule parse_ok_fresh [OF parse_ok_same [OF assms]]) (simp_all add: that)
  moreover have "parse_ok (warn_plain m ps)" for m by (rule parse_ok_same [OF assms]) (simp_all add: warn_plain_def)
  ultimately show ?thesis using assms by (auto simp: lookup_sym_def Let_def)
qed

lemma parse_files_ok:
  assumes "functions_safe w" "parse_files w d k fname wrn = Inr ps" shows "parse_ok ps"
proof -
  obtain ls prev ps1 where b: "parse_block w d k None 0 0 (start_parser w fname wrn ls) = Inr (prev, ps1)"
    "ps = (close_top prev ps1)\<lparr>parsing_kconfigs := False\<rparr>"
    using assms(2) by (auto simp: parse_files_def split: option.splits sum.splits)
  let ?e = "empty_config w fname"
  have o: "sym_obj ?e s = (if is_nmy s then const_symbol else fresh_symbol)" for s
    by (simp add: sym_obj_def empty_config_def)
  have n: "item (nodetab ?e i) = (if i = 0 then IMenu else INone)" "choicetab ?e c = fresh_choice" for i c
    by (simp_all add: empty_config_def top_menu_def fresh_node_def)
  have e: "registered {} {} ?e" "choice (sym_obj ?e s) = None" for s
    unfolding registered_def undefined_sym_def undefined_choice_def selects_built_def
    by (auto simp: o n const_symbol_def fresh_symbol_def fresh_choice_def split: if_splits)
  have "parse_ok (start_parser w fname wrn ls)"
    unfolding start_parser_def using e by (intro parse_ok_looked_up) (simp_all add: parse_ok_def init_state_def)
  then have "parse_ok ps1" using parse_ok_block [OF assms(1)] b(1) unfolding block_keeps_def by blast
  then have "parse_ok (close_top prev ps1)" by (simp add: close_top_def Let_def tilt_def parse_ok_node)
  then show ?thesis unfolding b(2) by (rule parse_ok_same) simp_all
qed

end
