(* ===== verification/Init_Values.thy ===== *)
theory Init_Values
  imports Registered Kconfig_Init Loop_Free
begin

text \<open>
  The configuration that \<^verbatim>\<open>_init\<close> returns is one that the theorems on values speak about: the
  dependency sets are complete, and after the checks no read fails. Here the two halves of the
  development meet, from the Kconfig files to the values in every state that a client reaches.
\<close>

section \<open>The checks add warnings only\<close>

definition only_warns :: "kstate \<Rightarrow> kstate \<Rightarrow> bool" where
  "only_warns st st' \<longleftrightarrow> usr st' = usr st \<and> cache st' = cache st"

lemma only_warns_trans: "only_warns st1 st2 \<Longrightarrow> only_warns st2 st3 \<Longrightarrow> only_warns st1 st3"
  by (simp add: only_warns_def)

lemma only_warns_simps [simp]: "only_warns st st" "only_warns st (add_warning m l st') = only_warns st st'"
  by (simp_all add: only_warns_def)

lemma fold_only_warns:
  "(\<And>x st. only_warns st (f x st)) \<Longrightarrow> only_warns st (fold f xs st)"
  by (induction xs arbitrary: st) (auto intro: only_warns_trans)

lemma try_each_only_warns:
  assumes "try_each f xs st = Inr st'" "\<And>x st st'. f x st = Inr st' \<Longrightarrow> only_warns st st'"
  shows "only_warns st st'"
  using assms(1)
proof (induction xs arbitrary: st)
  case (Cons x xs)
  then obtain st1 where s: "f x st = Inr st1" "try_each f xs st1 = Inr st'" by (auto split: sum.splits)
  show ?case by (rule only_warns_trans [OF assms(2) [OF s(1)] Cons.IH [OF s(2)]])
qed simp

lemma warn_targets_only: "only_warns st (warn_targets kc v s ts st)"
  unfolding warn_targets_def by (rule fold_only_warns) (simp split: prod.split)

lemma check_default_only: "check_default kc s d st = Inr st' \<Longrightarrow> only_warns st st'"
  by (auto simp: check_default_def Let_def split: expr.splits sc.splits if_splits)

lemma check_ranges_only: "only_warns st (check_ranges kc s st)"
proof -
  have "only_warns st (fold f (ranges (sym_obj kc s)) st)" if "\<And>x st. only_warns st (f x st)" for f
    by (rule fold_only_warns [OF that])
  then show ?thesis by (simp add: check_ranges_def Let_def split_def)
qed

lemma check_sym_only:
  assumes "check_sym kc s st = Inr st'" shows "only_warns st st'"
proof -
  have t: "only_warns st st1" if "try_each (check_default kc s) ds st = Inr st1" for ds st1
    by (rule try_each_only_warns [OF that check_default_only])
  have w: "only_warns st (warn_targets kc v s ts (warn_targets kc v' s ts' st))" for v ts v' ts'
    by (rule only_warns_trans [OF warn_targets_only warn_targets_only])
  let ?ty = "orig_type (sym_obj kc s)"
  obtain st1 where st1: "(if ?ty \<in> BOOL_TRISTATE
            then Inr (warn_targets kc ''implies'' s (implies (sym_obj kc s))
                        (warn_targets kc ''selects'' s (selects (sym_obj kc s)) st))
            else if ?ty \<noteq> UNKNOWN
            then map_sum id (\<lambda>st. if selects (sym_obj kc s) \<noteq> [] \<or> implies (sym_obj kc s) \<noteq> []
                     then add_warning (''the '' @ TYPE_TO_STR ?ty @ '' symbol '' @ name_and_loc kc (Sym s) @
                            '' has selects or implies'') None st
                     else st)
                   (try_each (check_default kc s) (defaults (sym_obj kc s)) st)
            else Inr (add_warning (name_and_loc kc (Sym s) @ '' defined without a type'') None st)) = Inr st1"
    "st' = check_ranges kc s st1"
    using assms unfolding check_sym_def Let_def map_sum_Inr by blast
  have "only_warns st st1"
  proof (cases "?ty \<in> BOOL_TRISTATE")
    case True
    then show ?thesis using st1(1) w by auto
  next
    case F: False
    show ?thesis
    proof (cases "?ty = UNKNOWN")
      case True
      then show ?thesis using st1(1) F by auto
    next
      case False
      then obtain st0 where "try_each (check_default kc s) (defaults (sym_obj kc s)) st = Inr st0" "only_warns st0 st1"
        using st1(1) F by (auto simp: map_sum_def split: sum.splits)
      then show ?thesis using t only_warns_trans by blast
    qed
  qed
  then show ?thesis unfolding st1(2) by (rule only_warns_trans) (rule check_ranges_only)
qed

lemma warn_select_imply_only: "warn_select_imply kc s e ty st = Inr st' \<Longrightarrow> only_warns st st'"
  by (auto simp: warn_select_imply_def map_sum_def split: sum.splits)

lemma check_choice_default_only: "check_choice_default kc c d st = Inr st' \<Longrightarrow> only_warns st st'"
  by (auto simp: check_choice_default_def split: expr.splits sc.splits if_splits)

lemma check_choice_node_only: "check_choice_node kc c s i st = Inr st' \<Longrightarrow> only_warns st st'"
  by (auto simp: check_choice_node_def Let_def split: option.splits if_splits)

lemma check_choice_sym_only:
  assumes "check_choice_sym kc c s st = Inr st'" shows "only_warns st st'"
proof -
  obtain st1 st2 st3 where st: "only_warns st st1" "st2 = st1 \<or> warn_select_imply kc s (rev_dep (sym_obj kc s)) ''selected'' st1 = Inr st2"
    "st3 = st2 \<or> warn_select_imply kc s (weak_rev_dep (sym_obj kc s)) ''implied'' st2 = Inr st3"
    "try_each (check_choice_node kc c s) (nodes (sym_obj kc s)) st3 = Inr st'"
  proof -
    define st1 where "st1 = (if defaults (sym_obj kc s) \<noteq> []
                 then add_warning (''default on the choice symbol '' @ name_and_loc kc (Sym s) @
                        '' will have no effect, as defaults do not affect choice symbols'') None st
                 else st)"
    have 1: "only_warns st st1" by (simp add: st1_def)
    obtain st2 where 2: "(if rev_dep (sym_obj kc s) \<noteq> expr_n then warn_select_imply kc s (rev_dep (sym_obj kc s)) ''selected'' st1 else Inr st1) = Inr st2"
      using assms unfolding check_choice_sym_def Let_def st1_def [symmetric] by (auto split: sum.splits)
    obtain st3 where 3: "(if weak_rev_dep (sym_obj kc s) \<noteq> expr_n
                    then warn_select_imply kc s (weak_rev_dep (sym_obj kc s)) ''implied'' st2 else Inr st2) = Inr st3"
      "try_each (check_choice_node kc c s) (nodes (sym_obj kc s)) st3 = Inr st'"
      using assms 2 unfolding check_choice_sym_def Let_def st1_def [symmetric] by (auto split: sum.splits)
    show thesis using that [OF 1 _ _ 3(2), of st2] 2 3(1) by (simp split: if_splits)
  qed
  have "only_warns st st2" using st(1,2) only_warns_trans warn_select_imply_only by blast
  then have "only_warns st st3" using st(3) only_warns_trans warn_select_imply_only by blast
  moreover have "only_warns st3 st'" by (rule try_each_only_warns [OF st(4)]) (rule check_choice_node_only)
  ultimately show ?thesis by (rule only_warns_trans)
qed

lemma check_choice_only:
  assumes "check_choice kc c st = Inr st'" shows "only_warns st st'"
proof -
  define st1 where "st1 = (if c_orig_type (choicetab kc c) \<notin> BOOL_TRISTATE
      then add_warning (name_and_loc kc (Cho c) @ '' defined with type '' @ TYPE_TO_STR (c_orig_type (choicetab kc c))) None st
      else st)"
  define st2 where "st2 = (if \<forall>i \<in> set (c_nodes (choicetab kc c)). nd_prompt (nodetab kc i) = None
      then add_warning (name_and_loc kc (Cho c) @ '' defined without a prompt'') None st1 else st1)"
  have st1: "only_warns st st2" by (simp add: st1_def st2_def)
  obtain st3 where st: "try_each (check_choice_default kc c) (c_defaults (choicetab kc c)) st2 = Inr st3"
    "try_each (check_choice_sym kc c) (c_syms (choicetab kc c)) st3 = Inr st'"
    using assms unfolding check_choice_def Let_def st1_def [symmetric] st2_def [symmetric]
    by (auto split: sum.splits)
  show ?thesis
    by (rule only_warns_trans [OF only_warns_trans [OF st1 try_each_only_warns [OF st(1) check_choice_default_only]]
          try_each_only_warns [OF st(2) check_choice_sym_only]])
qed

lemma check_undef_only: "only_warns st (check_undef_syms kc names ns st)"
  unfolding check_undef_syms_def by (rule fold_only_warns) simp

lemma check_configuration_only:
  assumes "check_configuration w k names kc st = Inr st'" shows "only_warns st st'"
proof -
  obtain st1 st2 where st: "check_sym_sanity kc st = Inr st1" "check_choice_sanity kc st1 = Inr st2"
    "st' = st2 \<or> (\<exists>ns. st' = check_undef_syms kc names ns st2)"
    using assms by (auto simp: check_configuration_def split: sum.splits if_splits option.splits)
  have "only_warns st st2"
    by (rule only_warns_trans [OF try_each_only_warns [OF st(1) [unfolded check_sym_sanity_def] check_sym_only]
          try_each_only_warns [OF st(2) [unfolded check_choice_sanity_def] check_choice_only]])
  then show ?thesis using st(3) only_warns_trans check_undef_only by blast
qed

section \<open>The result of the initialisation\<close>

lemma registered_init:
  assumes "functions_safe w" "parse_files w d k fname wrn = Inr ps" "finalize_menu ps = Some kc"
  defines "kc1 \<equiv> register_items ps kc"
  shows "registered (set (unique_defined_syms kc1)) (set (unique_choices kc1)) kc1"
proof -
  have ok: "parse_ok ps" by (rule parse_files_ok [OF assms(1,2)])
  have "registered (set (defined_syms ps)) (set (choices ps)) kc"
    by (rule registered_finalize_node [OF assms(3) [unfolded finalize_menu_def]]) (use ok in \<open>simp add: parse_ok_def\<close>)
  then have "registered (set (defined_syms ps)) (set (choices ps)) kc1"
    by (rule registered_cong) (simp_all add: kc1_def register_items_def sym_obj_def)
  moreover have "set (unique_defined_syms kc1) = set (defined_syms ps)" "set (unique_choices kc1) = set (choices ps)"
    by (simp_all add: kc1_def register_items_def ordered_unique_def set_ordered_unique_from)
  ultimately show ?thesis by simp
qed

lemma init_parts:
  assumes "functions_safe w" "kconfig_init w d k fname wrn = Inr ps"
  obtains kc n vis st st1 st2 where
    "registered (set (unique_defined_syms kc)) (set (unique_choices kc)) kc"
    "conf ps = add_choice_deps (build_dep kc)" "check_dep_loops (build_dep kc) n = Inr vis"
    "check_sym_sanity kc st = Inr st1" "check_choice_sanity kc st1 = Inr st2"
    "usr (out ps) = init_user" "cache (out ps) = preset"
proof -
  obtain ps1 kc0 where p: "parse_files w d k fname wrn = Inr ps1" "finalize_menu ps1 = Some kc0"
    using assms(2) unfolding kconfig_init_def Let_def by (auto split: sum.splits option.splits)
  define kc where "kc = register_items ps1 kc0"
  have i: "(case check_configuration w (2 * next_node ps1 + 3) (syms_keys ps1) kc (out ps1) of Inl e \<Rightarrow> Inl e
      | Inr st \<Rightarrow> map_sum id (\<lambda>kc2. ps1\<lparr>conf := kc2, out := st\<rparr>) (dependencies kc)) = Inr ps"
    using assms(2) p unfolding kc_def by (simp add: kconfig_init_def Let_def)
  then obtain st where c: "check_configuration w (2 * next_node ps1 + 3) (syms_keys ps1) kc (out ps1) = Inr st"
    by (auto split: sum.splits)
  obtain kc2 where d: "dependencies kc = Inr kc2" "ps = ps1\<lparr>conf := kc2, out := st\<rparr>"
    using i c by (auto simp: map_sum_Inr)
  have ok: "parse_ok ps1" by (rule parse_files_ok [OF assms(1) p(1)])
  have r: "registered (set (unique_defined_syms kc)) (set (unique_choices kc)) kc"
    unfolding kc_def by (rule registered_init [OF assms(1) p])
  obtain n vis where l: "check_dep_loops (build_dep kc) n = Inr vis" "kc2 = add_choice_deps (build_dep kc)"
    using d(1) by (auto simp: dependencies_def Let_def split: sum.splits)
  obtain st1 st2 where s: "check_sym_sanity kc (out ps1) = Inr st1" "check_choice_sanity kc st1 = Inr st2"
    using c by (auto simp: check_configuration_def split: sum.splits)
  have "usr (out ps) = init_user" "cache (out ps) = preset"
    using check_configuration_only [OF c] ok d(2) by (simp_all add: only_warns_def parse_ok_def)
  with r l s d(2) show thesis by (intro that [of kc n vis "out ps1" st1 st2]) simp_all
qed

text \<open>
  What the checks warn about but let pass: a default selection outside of the choice, and a symbol
  of a choice whose dependencies do not mention the choice, because it can never be visible there
  or because it also has a definition elsewhere that does not depend on anything.
\<close>

definition choices_plain :: "kconfig \<Rightarrow> bool" where
  "choices_plain kc \<longleftrightarrow>
     (\<forall>c \<in> set (unique_choices kc).
        (\<forall>d \<in> set (c_defaults (choicetab kc c)).
           case fst d of Leaf (Sym s) \<Rightarrow> s \<in> set (c_syms (choicetab kc c)) | _ \<Rightarrow> True) \<and>
        (\<forall>s \<in> set (c_syms (choicetab kc c)).
           choice (sym_obj kc s) = Some c \<longrightarrow> Cho c \<in> expr_items (direct_dep (sym_obj kc s))))"

lemma registered_before_deps:
  assumes r: "registered (set (unique_defined_syms kc)) (set (unique_choices kc)) kc" and p: "choices_plain kc"
  shows "before_deps kc"
  unfolding before_deps_def
proof (intro conjI allI impI)
  fix x show "sc_dependents kc x = []" by (rule registered_rules(8) [OF r])
next
  fix s show "if s \<in> set (unique_defined_syms kc) then \<not> is_constant s else undefined_sym kc s"
    using registered_rules(3,5) [OF r] by simp
next
  fix c
  have "s \<in> set (c_syms (choicetab kc c))"
    if "c \<in> set (unique_choices kc)" "d \<in> set (c_defaults (choicetab kc c))" "fst d = Leaf (Sym s)" for d s
    using p that unfolding choices_plain_def by fastforce
  moreover have "\<not> is_constant s" if "s \<in> set (c_syms (choicetab kc c))" for s
    using registered_rules(3,11) [OF r] that by blast
  ultimately show "if c \<in> set (unique_choices kc)
      then (\<forall>d \<in> set (c_defaults (choicetab kc c)). \<forall>s. fst d = Leaf (Sym s) \<longrightarrow> s \<in> set (c_syms (choicetab kc c))) \<and>
           (\<forall>s \<in> set (c_syms (choicetab kc c)). \<not> is_constant s)
      else undefined_choice kc c"
    using registered_rules(7) [OF r] by simp
next
  fix s c assume c: "choice (sym_obj kc s) = Some c"
  show 1: "c \<in> set (unique_choices kc)" by (rule registered_rules(9) [OF r c])
  show 2: "s \<in> set (c_syms (choicetab kc c))" by (rule registered_rules(10) [OF r c])
  show "Cho c \<in> expr_items (direct_dep (sym_obj kc s))" using p c 1 2 unfolding choices_plain_def by blast
qed

lemma choices_plain_extends: "extends kc kc' \<Longrightarrow> choices_plain kc' = choices_plain kc"
  using extends_fields [of kc kc'] by (simp add: choices_plain_def cong: expr.case_cong sc.case_cong)

lemma registered_extends:
  assumes "registered (set (unique_defined_syms kc)) (set (unique_choices kc)) kc"
  shows "extends kc (add_choice_deps (build_dep kc))"
proof -
  note b = conjunct1 [OF build_dep_extends [of kc]]
  have "\<forall>c \<in> set (unique_choices (build_dep kc)). \<forall>s \<in> set (c_syms (choicetab (build_dep kc) c)). \<not> is_nmy s"
    using registered_rules(4,11) [OF assms] extends_fields(4,14) [OF b] by (metis subsetD)
  from extends_trans [OF b conjunct1 [OF add_choice_deps_extends [OF this]]] show ?thesis .
qed

lemma init_wf_deps:
  assumes "functions_safe w" "kconfig_init w d k fname wrn = Inr ps" "choices_plain (conf ps)"
  shows "wf_deps (conf ps)" "consistent (conf ps) (out ps)"
proof -
  obtain kc where kc: "registered (set (unique_defined_syms kc)) (set (unique_choices kc)) kc"
    "conf ps = add_choice_deps (build_dep kc)" "usr (out ps) = init_user" "cache (out ps) = preset"
    using init_parts [OF assms(1,2)] by metis
  have "choices_plain kc" using assms(3) choices_plain_extends [OF registered_extends [OF kc(1)]] kc(2) by simp
  then show "wf_deps (conf ps)" unfolding kc(2) by (rule build_dep_wf [OF registered_before_deps [OF kc(1)]])
  show "consistent (conf ps) (out ps)"
    using consistent_init [of "conf ps"] kc(3,4) by (simp add: consistent_def init_state_def)
qed

lemma steps_consistent:
  "(step kc)\<^sup>*\<^sup>* st st' \<Longrightarrow> wf_deps kc \<Longrightarrow> consistent kc st \<Longrightarrow> consistent kc st'"
  by (induction rule: rtranclp_induct) (auto intro: step_consistent)

section \<open>Values after the initialisation\<close>

text \<open>
  C1. From the Kconfig files to the values: in every state that reads, assignments, loading and
  writing reach from the one the constructor returns, an attribute read that returns gives the
  value computed from scratch under the current user values, if that returns as well. The choices
  must be plain: their defaults are inside the choice, and the direct dependency of each of their
  symbols mentions the choice. It does not for a symbol that also has a definition outside which
  depends on nothing, and then a cached value can be stale.
\<close>

theorem initialised_caching:
  assumes "functions_safe w" "kconfig_init w d k fname wrn = Inr ps" "choices_plain (conf ps)"
    and "(step (conf ps))\<^sup>*\<^sup>* (out ps) st" "get (conf ps) n q st = (Inr v, st')"
    and "pure (conf ps) (usr st) m q = Inr v'"
  shows "v = v'"
proof -
  have c: "consistent (conf ps) st" by (rule steps_consistent [OF assms(4) init_wf_deps [OF assms(1-3)]])
  then have g: "good (conf ps) (usr st) st" by (simp add: consistent_def good_def)
  have "cache st' q = Some v" by (rule caching.answers [OF g assms(5)])
  moreover have "supported (conf ps) (usr st) (cache st')"
    using caching.inv_rd [OF g assms(5)] by (simp add: good_def)
  ultimately show ?thesis using supported_value assms(6) by blast
qed

text \<open>
  C2. When the constructor has returned for a configuration without choices in which \<^verbatim>\<open>MODULES\<close>
  is not a tristate and depends on no symbol, there is a bound on the nesting with which every
  attribute of every symbol can be read, in every state that a client can reach. The condition
  on \<^verbatim>\<open>MODULES\<close> is needed: every tristate symbol reads it, which the check for loops does not see.
\<close>

theorem initialised_reads:
  assumes "functions_safe w" "kconfig_init w d k fname wrn = Inr ps"
    and "choice_free (conf ps)" "modules_plain (conf ps)"
  shows "\<exists>m. \<forall>st q. (step (conf ps))\<^sup>*\<^sup>* (out ps) st \<longrightarrow> (\<exists>v st'. get (conf ps) m q st = (Inr v, st'))"
proof -
  have cp: "choices_plain (conf ps)" using assms(3) by (simp add: choices_plain_def choice_free_def)
  note wf = init_wf_deps [OF assms(1,2) cp]
  obtain kc n vis st0 st1 st2 where kc: "registered (set (unique_defined_syms kc)) (set (unique_choices kc)) kc"
    "conf ps = add_choice_deps (build_dep kc)" "check_dep_loops (build_dep kc) n = Inr vis"
    "check_sym_sanity kc st0 = Inr st1" "check_choice_sanity kc st1 = Inr st2"
    using init_parts [OF assms(1,2)] by metis
  have e: "extends kc (conf ps)" using registered_extends [OF kc(1)] kc(2) by simp
  note f = extends_fields [OF e]
  have nc: "unique_choices (build_dep kc) = []"
    using assms(3) f(4) extends_fields(4) [OF conjunct1 [OF build_dep_extends [of kc]]] by (simp add: choice_free_def)
  then have "conf ps = build_dep kc" unfolding kc(2) by (simp add: add_choice_deps_def)
  then have l: "check_dep_loops (conf ps) n = Inr vis" using kc(3) by simp
  have u: "undefined_n (conf ps)" using registered_rules(6) [OF kc(1)] f(3,10) by (simp add: undefined_n_def)
  have b: "selects_built (conf ps)" using registered_rules(12) [OF kc(1)] f(11) by (simp add: selects_built_def)
  have "\<exists>st1. check_sym_sanity (conf ps) st0 = Inr st1"
    using iffD1 [OF check_sym_sanity_ok exI [of "\<lambda>x. check_sym_sanity kc st0 = Inr x", OF kc(4)]] f(3,5,8)
    unfolding check_sym_sanity_ok defaults_ok_def by simp
  then obtain st3 where s3: "check_sym_sanity (conf ps) st0 = Inr st3" by blast
  moreover have "check_choice_sanity (conf ps) st3 = Inr st3"
    using assms(3) by (simp add: check_choice_sanity_def choice_free_def)
  ultimately have sane: "sane (conf ps)" by (rule passed_sane [OF _ _ wf(1) b])
  obtain rk m where r: "\<forall>u. wf_user (conf ps) u \<longrightarrow> ranked (conf ps) u rk (\<lambda>_. 0)" "\<forall>q. qrank rk (\<lambda>_. 0) q < m"
    using checked_ranked [OF l wf(1) assms(3,4) u] by blast
  have "\<exists>v st'. get (conf ps) m q st = (Inr v, st')" if st: "(step (conf ps))\<^sup>*\<^sup>* (out ps) st" for st q
  proof -
    have c: "consistent (conf ps) st" by (rule steps_consistent [OF st wf])
    have wu: "wf_user (conf ps) init_user" by (simp add: wf_user_def init_user_def)
    have rk: "ranked (conf ps) (usr st) rk (\<lambda>_. 0)" "valid_user (conf ps) (usr st)"
      using r(1) c by (simp_all add: consistent_def)
    obtain v where "pure (conf ps) (usr st) m q = Inr v"
      using attr_total_any [OF rk(1) sane rk(2)] r(2) by blast
    from cached.rd_complete [OF consistent_coherent [OF c _ sane] this] r(1) wu show ?thesis by blast
  qed
  then show ?thesis by blast
qed

end
