(* ===== verification/Line_Returns.thy ===== *)
theory Line_Returns
  imports Parser_Frame Preproc_Props
begin

text \<open>
  Reading returns. Each expression, line and entry consumes what it reads, and every line
  defines at most one variable, which bounds the depth of macro expansion.
\<close>

section \<open>Computations that return\<close>

text \<open>The result is not a \<^verbatim>\<open>RecursionError\<close>, and a value satisfies \<open>Q\<close>.\<close>

definition returning :: "('a \<Rightarrow> bool) \<Rightarrow> exn + 'a \<Rightarrow> bool" where
  "returning Q r \<longleftrightarrow> (case r of Inl e \<Rightarrow> e \<noteq> RecursionError | Inr a \<Rightarrow> Q a)"

lemma returning_simps [simp]:
  "returning Q (Inl e) \<longleftrightarrow> e \<noteq> RecursionError" "returning Q (Inr a) \<longleftrightarrow> Q a"
  by (simp_all add: returning_def)

lemma returning_weaken: "returning P r \<Longrightarrow> (\<And>a. P a \<Longrightarrow> Q a) \<Longrightarrow> returning Q r"
  by (cases r) simp_all

lemma returning_bind:
  "returning P r \<Longrightarrow> (\<And>a. P a \<Longrightarrow> returning Q (g a)) \<Longrightarrow>
     returning Q (case r of Inl e \<Rightarrow> Inl e | Inr a \<Rightarrow> g a)"
  by (cases r) simp_all

lemma returning_bind_pair:
  "returning (\<lambda>(a, s). P a s) r \<Longrightarrow> (\<And>a s. P a s \<Longrightarrow> returning Q (g a s)) \<Longrightarrow>
     returning Q (case r of Inl e \<Rightarrow> Inl e | Inr (a, s) \<Rightarrow> g a s)"
  by (cases r) auto

lemma returning_map:
  "returning P r \<Longrightarrow> (\<And>a. P a \<Longrightarrow> Q (g a)) \<Longrightarrow> returning Q (map_sum id g r)"
  by (cases r) simp_all

lemma returning_iff: "returning Q r \<longleftrightarrow> r \<noteq> Inl RecursionError \<and> (\<forall>a. r = Inr a \<longrightarrow> Q a)"
  by (cases r) auto

section \<open>Expressions\<close>

text \<open>On at most \<open>n\<close> tokens the parser \<open>f\<close> returns, and takes at least one token.\<close>

definition consumes :: "(tok list \<Rightarrow> expr_result) \<Rightarrow> nat \<Rightarrow> bool" where
  "consumes f n \<longleftrightarrow>
     (\<forall>ts. length ts \<le> n \<longrightarrow>
        f ts \<noteq> Inl RecursionError \<and> (\<forall>e r. f ts = Inr (e, r) \<longrightarrow> length r < length ts))"

lemma consumesD:
  assumes "consumes f n" "length ts \<le> n"
  shows "f ts \<noteq> Inl RecursionError" "f ts = Inr (e, r) \<Longrightarrow> length r < length ts"
  using assms by (auto simp: consumes_def)

lemma and_expr_consumes:
  assumes "consumes f n"
  shows "length ts \<le> n \<Longrightarrow> length ts < k \<Longrightarrow>
    and_expr f k ts \<noteq> Inl RecursionError \<and> (\<forall>e r. and_expr f k ts = Inr (e, r) \<longrightarrow> length r < length ts)"
proof (induction k arbitrary: ts)
  case (Suc k)
  note c = consumesD [OF assms Suc.prems(1)]
  show ?case
  proof (cases "f ts")
    case (Inr p)
    obtain e r where p: "p = (e, r)" by (cases p)
    have l: "length r < length ts" using c(2) Inr p by blast
    show ?thesis
    proof (cases "\<exists>r'. r = TKey T_AND # r'")
      case True
      then obtain r' where r: "r = TKey T_AND # r'" by blast
      have i: "and_expr f k r' \<noteq> Inl RecursionError \<and> (\<forall>e r. and_expr f k r' = Inr (e, r) \<longrightarrow> length r < length r')"
        using Suc.IH [of r'] Suc.prems l r by simp
      show ?thesis using Inr p r l i by (cases "and_expr f k r'") (auto dest: order.strict_trans)
    next
      case False
      then have "and_expr f (Suc k) ts = Inr (e, r)"
        using Inr p by (cases r; cases "hd r") (auto split: token.splits)
      then show ?thesis using l by simp
    qed
  qed (use c(1) in auto)
qed simp

lemma or_expr_consumes:
  assumes "consumes f n"
  shows "length ts \<le> n \<Longrightarrow> length ts < k \<Longrightarrow>
    or_expr f k ts \<noteq> Inl RecursionError \<and> (\<forall>e r. or_expr f k ts = Inr (e, r) \<longrightarrow> length r < length ts)"
proof (induction k arbitrary: ts)
  case (Suc k)
  note c = and_expr_consumes [OF assms Suc.prems]
  show ?case
  proof (cases "and_expr f (Suc k) ts")
    case (Inr p)
    obtain e r where p: "p = (e, r)" by (cases p)
    have l: "length r < length ts" using c Inr p by blast
    show ?thesis
    proof (cases "\<exists>r'. r = TKey T_OR # r'")
      case True
      then obtain r' where r: "r = TKey T_OR # r'" by blast
      have i: "or_expr f k r' \<noteq> Inl RecursionError \<and> (\<forall>e r. or_expr f k r' = Inr (e, r) \<longrightarrow> length r < length r')"
        using Suc.IH [of r'] Suc.prems l r by simp
      show ?thesis using Inr p r l i
        by (cases "or_expr f k r'") (auto simp del: and_expr.simps dest: order.strict_trans)
    next
      case False
      then have "or_expr f (Suc k) ts = Inr (e, r)"
        using Inr p by (cases r; cases "hd r") (auto simp del: and_expr.simps split: token.splits)
      then show ?thesis using l by simp
    qed
  qed (use c in \<open>auto simp del: and_expr.simps\<close>)
qed simp

lemma expect_sym_result:
  "expect_sym ps ts \<noteq> Inl RecursionError" "expect_sym ps ts = Inr (s, r) \<Longrightarrow> length r < length ts"
  by (auto simp: expect_sym_def split: list.splits tok.splits)

lemma parse_factor_consumes: "consumes (parse_factor ps m (Suc n)) n"
proof (induction n)
  case 0
  show ?case by (simp add: consumes_def)
next
  case (Suc n)
  show ?case unfolding consumes_def
  proof (intro allI impI)
    fix ts :: "tok list" assume ts: "length ts \<le> Suc n"
    let ?P = "\<lambda>x. x \<noteq> Inl RecursionError \<and> (\<forall>e r. x = Inr (e, r) \<longrightarrow> length r < length ts)"
    show "?P (parse_factor ps m (Suc (Suc n)) ts)"
    proof (cases ts)
      case Nil
      then show ?thesis by simp
    next
      case (Cons t ts')
      have l: "length ts' \<le> n" using ts Cons by simp
      show ?thesis
      proof (cases t)
        case (TSym s)
        show ?thesis
        proof (cases "next_rel ts'")
          case None
          then show ?thesis using Cons TSym by simp
        next
          case (Some r)
          have e: "parse_factor ps m (Suc (Suc n)) ts = map_sum id (\<lambda>(s', ts''). (REL r s s', ts'')) (expect_sym ps (tl ts'))"
            using Cons TSym Some by simp
          show ?thesis
          proof (cases "expect_sym ps (tl ts')")
            case (Inl x)
            then show ?thesis using e expect_sym_result(1) [of ps "tl ts'"] by simp
          next
            case (Inr p)
            obtain s' r' where p: "p = (s', r')" by (cases p)
            have "length r' < length (tl ts')" using expect_sym_result(2) Inr p by blast
            then show ?thesis using e Inr p Cons by simp
          qed
        qed
      next
        case (TStr x)
        then show ?thesis using Cons by simp
      next
        case (TKey k)
        consider "k = T_NOT" | "k = T_OPEN_PAREN" | "k \<noteq> T_NOT" "k \<noteq> T_OPEN_PAREN" by blast
        then show ?thesis
        proof cases
          case 1
          note c = consumesD [OF Suc.IH l]
          have e: "parse_factor ps m (Suc (Suc n)) ts = map_sum id (\<lambda>(e, r). (NOT e, r)) (parse_factor ps m (Suc n) ts')"
            using Cons TKey 1 by simp
          show ?thesis
          proof (cases "parse_factor ps m (Suc n) ts'")
            case (Inl x)
            then show ?thesis using e c(1) by simp
          next
            case (Inr p)
            obtain g r where p: "p = (g, r)" by (cases p)
            have "length r < length ts'" using c(2) Inr p by blast
            then show ?thesis using e Inr p Cons by simp
          qed
        next
          case 2
          note c = or_expr_consumes [OF Suc.IH l, of "Suc n"]
          have e: "parse_factor ps m (Suc (Suc n)) ts =
            (case or_expr (parse_factor ps m (Suc n)) (Suc n) ts' of
               Inl e \<Rightarrow> Inl e
             | Inr (e, TKey T_CLOSE_PAREN # r) \<Rightarrow> Inr (e, r)
             | Inr (e, _) \<Rightarrow> Inl (parse_error ps ''malformed expression''))"
            using Cons TKey 2 by simp
          show ?thesis
          proof (cases "or_expr (parse_factor ps m (Suc n)) (Suc n) ts'")
            case (Inl x)
            then show ?thesis using e c l by (simp del: or_expr.simps parse_factor.simps)
          next
            case (Inr p)
            obtain g r where p: "p = (g, r)" by (cases p)
            have len: "length r < length ts'" using c l Inr p by (simp del: or_expr.simps parse_factor.simps)
            show ?thesis
            proof (cases "\<exists>r'. r = TKey T_CLOSE_PAREN # r'")
              case True
              then show ?thesis using e Inr p len Cons by (auto simp del: or_expr.simps parse_factor.simps)
            next
              case False
              then have "parse_factor ps m (Suc (Suc n)) ts = Inl (parse_error ps ''malformed expression'')"
                using e Inr p by (cases r; cases "hd r") (auto simp del: or_expr.simps parse_factor.simps split: token.splits)
              then show ?thesis by simp
            qed
          qed
        next
          case 3
          then have "parse_factor ps m (Suc (Suc n)) ts = Inl (parse_error ps ''malformed expression'')"
            using Cons TKey by (simp split: token.split)
          then show ?thesis by simp
        qed
      qed
    qed
  qed
qed

lemma parse_expr_returns: "parse_expr ps m ts \<noteq> Inl RecursionError"
  using or_expr_consumes [OF parse_factor_consumes [of ps m "length ts"], of ts "Suc (length ts)"]
  by (simp add: parse_expr_def)

section \<open>Lines\<close>

text \<open>Within a line macros are expanded with the variables \<open>V\<close>, which stay as they are.\<close>

definition at :: "(string \<Rightarrow> variable option) \<Rightarrow> 'a \<times> pstate \<Rightarrow> bool" where
  "at V p \<longleftrightarrow> variables (snd p) = V"

lemma at_pair [simp]: "at V (a, ps) \<longleftrightarrow> variables ps = V"
  by (simp add: at_def)

lemma at_bind:
  "returning (at V) r \<Longrightarrow> (\<And>a b ps. variables ps = V \<Longrightarrow> returning Q (g a b ps)) \<Longrightarrow>
     returning Q (case r of Inl e \<Rightarrow> Inl e | Inr ((a, b), ps) \<Rightarrow> g a b ps)"
  by (cases r) auto

lemma line_macro_at:
  assumes "expandable w d ps" "variables ps = V"
  shows "returning (at V) (line_macro w d suf ps)"
  using line_macro_returns [OF assms(1)] line_macro_keeps [OF assms(1)] assms(2) by (auto simp: returning_iff)

lemma expandable_vars: "expandable w d ps \<Longrightarrow> variables ps' = variables ps \<Longrightarrow> expandable w d ps'"
  by (simp add: expandable_def)

lemma lhs_loop_at:
  "expandable w d ps \<Longrightarrow> variables ps = V \<Longrightarrow>
   returning (at V) (lhs_loop w d k name suf ps)"
proof (induction k arbitrary: name suf ps)
  case (Suc k)
  show ?case
  proof (cases "startswith (dropWhile lhs_char suf) ''$(''")
    case True
    have "returning (at V)
      (case line_macro w d (dropWhile lhs_char suf) ps of
              Inl e \<Rightarrow> Inl e
            | Inr ((val, rest'), ps') \<Rightarrow> lhs_loop w d k (name @ takeWhile lhs_char suf @ val) rest' ps')"
      by (rule at_bind [OF line_macro_at [OF Suc.prems] Suc.IH])
        (use Suc.prems in \<open>auto intro: expandable_vars\<close>)
    then show ?thesis using True by (simp add: Let_def)
  qed (use Suc.prems in \<open>simp add: Let_def\<close>)
qed simp

lemma name_loop_at:
  "expandable w d ps \<Longrightarrow> variables ps = V \<Longrightarrow>
   returning (at V) (name_loop w d k name suf ps)"
proof (induction k arbitrary: name suf ps)
  case (Suc k)
  show ?case
  proof (cases "startswith suf ''$(''")
    case True
    have "returning (at V)
      (case line_macro w d suf ps of
              Inl e \<Rightarrow> Inl e
            | Inr ((val, rest'), ps') \<Rightarrow> name_loop w d k (name @ val) rest' ps')"
      by (rule at_bind [OF line_macro_at [OF Suc.prems] Suc.IH])
        (use Suc.prems in \<open>auto intro: expandable_vars\<close>)
    then show ?thesis using True Suc.prems by (cases suf) simp_all
  qed (use Suc in \<open>auto split: list.split\<close>)
qed simp

lemma str_loop_at:
  "expandable w d ps \<Longrightarrow> variables ps = V \<Longrightarrow>
   returning (at V) (str_loop w d q k acc suf ps)"
proof (induction k arbitrary: acc suf ps)
  case (Suc k)
  have m: "returning (at V)
      (case line_macro w d suf ps of
              Inl e \<Rightarrow> Inl e
            | Inr ((val, rest'), ps') \<Rightarrow> str_loop w d q k (acc @ val) rest' ps')"
    by (rule at_bind [OF line_macro_at [OF Suc.prems] Suc.IH])
      (use Suc.prems in \<open>auto intro: expandable_vars\<close>)
  then show ?case using Suc by (auto split: list.split)
qed simp

lemma lookups_variables [simp]:
  "variables (snd (lookup_sym n ps)) = variables ps" "variables (snd (lookup_const_sym n ps)) = variables ps"
  "variables (snd (sym_or_nmy n ps)) = variables ps" "variables (snd (str_token f prev val ps)) = variables ps"
proof -
  show l: "variables (snd (lookup_sym n ps)) = variables ps" "variables (snd (lookup_const_sym n ps)) = variables ps" for n
    by (simp_all add: lookup_sym_def lookup_const_sym_def put_sym_def warn_plain_def Let_def)
  show "variables (snd (sym_or_nmy n ps)) = variables ps" using l(1) by (simp add: sym_or_nmy_def)
  show "variables (snd (str_token f prev val ps)) = variables ps"
    using l(2) [of val] by (simp add: str_token_def split_def Let_def)
qed

lemma expand_name_at:
  assumes "expandable w d ps" "variables ps = V"
  shows "returning (at V) (expand_name w d suf ps)"
  unfolding expand_name_def
  by (rule at_bind [OF name_loop_at [OF assms]]) simp

lemma next_ident_at:
  assumes "expandable w d ps" "variables ps = V"
  shows "returning (at V) (next_ident w d prev pre suf ps)"
proof -
  have m: "returning (at V) (case expand_name w d suf ps of Inl e \<Rightarrow> Inl e
      | Inr ((name', ws, rest'), ps1) \<Rightarrow> (let (s, ps2) = sym_or_nmy name' ps1 in Inr ((TSym s, pre @ name' @ ws, rest'), ps2)))"
    using expand_name_at [OF assms, of suf]
    by (cases "expand_name w d suf ps") (auto simp: split_def Let_def)
  then show ?thesis
    using assms(2) unfolding next_ident_def Let_def
    by (auto simp: split_def warn_here_def split: option.split)
qed

lemma next_other_at:
  assumes "expandable w d ps" "variables ps = V"
  shows "returning (at V) (next_other w d first prev pre suf ps)"
proof -
  have r: "returning (at V) (read_string w d pre q cs ps)" for q cs
  proof -
    have "returning (at V)
      (case expand_str w d q cs ps of Inl e \<Rightarrow> Inl e
       | Inr ((body, rest), ps') \<Rightarrow> Inr ((string_value w body, pre @ q # body @ [q], rest), ps'))"
      unfolding expand_str_def by (rule at_bind [OF str_loop_at [OF assms]]) simp
    then show ?thesis using assms(2) by (auto simp: read_string_def Let_def split: list.split)
  qed
  have "returning (at V) (case read_string w d pre (hd suf) (tl suf) ps of Inl e \<Rightarrow> Inl e
      | Inr ((val, pre', rest), ps1) \<Rightarrow> (let (t, ps2) = str_token first prev val ps1 in Inr (skip_space t pre' rest, ps2)))"
    using r [of "hd suf" "tl suf"] by (cases "read_string w d pre (hd suf) (tl suf) ps") (auto simp: split_def Let_def skip_space_def)
  then show ?thesis using assms(2) by (auto simp: next_other_def split: option.split)
qed

lemma tok_loop_at:
  "expandable w d ps \<Longrightarrow> variables ps = V \<Longrightarrow> returning (at V) (tok_loop w d first k prev pre suf ps)"
proof (induction k arbitrary: prev pre suf ps)
  case (Suc k)
  show ?case
  proof (cases suf)
    case (Cons c cs)
    have n: "returning (at V) (if name_char c then next_ident w d prev pre suf ps else next_other w d first prev pre suf ps)"
      using next_ident_at [OF Suc.prems] next_other_at [OF Suc.prems] by simp
    have "returning (at V) (case (if name_char c then next_ident w d prev pre suf ps else next_other w d first prev pre suf ps) of
        Inl e \<Rightarrow> Inl e
      | Inr ((t, pre', rest), ps') \<Rightarrow> map_sum id (\<lambda>(ts, ps''). (t # ts, ps'')) (tok_loop w d first k t pre' rest ps'))"
    proof (cases "if name_char c then next_ident w d prev pre suf ps else next_other w d first prev pre suf ps")
      case (Inr p)
      obtain t pre' rest ps' where p: "p = ((t, pre', rest), ps')" by (metis prod.exhaust)
      have v: "variables ps' = V" using n Inr p by simp
      have "returning (at V) (tok_loop w d first k t pre' rest ps')"
        by (rule Suc.IH [OF expandable_vars [OF Suc.prems(1)]]) (use v Suc.prems(2) in simp_all)
      then have "returning (at V) (map_sum id (\<lambda>(ts, ps''). (t # ts, ps'')) (tok_loop w d first k t pre' rest ps'))"
        by (rule returning_map) auto
      then show ?thesis using Inr p by simp
    qed (use n in simp)
    then show ?thesis using Cons Suc.prems(2) by (auto split: if_splits)
  qed (use Suc.prems in simp)
qed simp

section \<open>Room for variables\<close>

text \<open>What is asked of the functions of the module \<^verbatim>\<open>KCONFIG_FUNCTIONS\<close>.\<close>

definition functions_calm :: "world \<Rightarrow> bool" where
  "functions_calm w \<longleftrightarrow>
     (\<forall>fn f lo hi args ps. user_functions w fn = Some (f, lo, hi) \<longrightarrow>
        f args ps \<noteq> Inl RecursionError \<and>
        (\<forall>r ps'. f args ps = Inr (r, ps') \<longrightarrow>
           variables ps' = variables ps \<and> file_lines ps' = file_lines ps \<and> reuse_tokens ps' = reuse_tokens ps \<and>
           include_path ps' = include_path ps \<and> cur_file ps' = cur_file ps \<and> file_stack ps' = file_stack ps))"

lemma calm_behaved: "functions_calm w \<Longrightarrow> well_behaved w"
  unfolding functions_calm_def well_behaved_def by blast

text \<open>The depth, or the part \<open>c\<close> of it, suffices for \<open>n\<close> more variables.\<close>

definition room :: "world \<Rightarrow> nat \<Rightarrow> nat \<Rightarrow> nat \<Rightarrow> pstate \<Rightarrow> bool" where
  "room w d c n ps \<longleftrightarrow>
     functions_calm w \<and> finite (dom (variables ps)) \<and> 101 * (card (dom (variables ps)) + n) < c \<and> c \<le> d"

lemma room_less: "room w d c n ps \<Longrightarrow> m \<le> n \<Longrightarrow> variables ps' = variables ps \<Longrightarrow> room w d c m ps'"
  unfolding room_def by (auto elim: order.strict_trans1 [rotated])

lemma room_expansions: "room w d c n ps \<Longrightarrow> expansions_left (variables ps) < d"
  using expansions_left_bound [of "variables ps"] by (simp add: room_def)

lemma room_expandable: "room w d c n ps \<Longrightarrow> expandable w d ps"
  using room_expansions [of w d c n ps] by (simp add: expandable_def room_def calm_behaved)

lemma expand_whole_room:
  assumes "room w d c n ps" shows "returning (at (variables ps)) (expand_whole w d s args ps)"
proof -
  have "well_behaved w" "finite (dom (variables ps))" using assms calm_behaved by (simp_all add: room_def)
  then show ?thesis
    using expand_whole_good [of w d, unfolded expands_well_def, rule_format, OF _ _ room_expansions [OF assms]]
    by (auto simp: returning_iff)
qed

lemma put_variable_room:
  "room w d c (Suc n) ps \<Longrightarrow> room w d c n (put_variable name v ps)"
  "room w d c n ps \<Longrightarrow> name \<in> dom (variables ps) \<Longrightarrow> room w d c n (put_variable name v ps)"
  unfolding room_def put_variable_def by (auto simp: insert_absorb card_insert_if)

lemma put_variable_dom [simp]: "name \<in> dom (variables (put_variable name v ps))"
  by (simp add: put_variable_def)

lemma assign_variable_room:
  assumes "room w d c (Suc n) ps" shows "returning (room w d c n) (assign_variable w d name opr val ps)"
proof -
  define v where "v = (case variables ps name of Some v \<Rightarrow> v | None \<Rightarrow> fresh_variable)"
  define ps1 where "ps1 = (if variables ps name \<noteq> None then ps else put_variable name v ps)"
  have r: "room w d c n ps1" using assms put_variable_room(1) room_less [of w d c "Suc n" ps n ps] by (simp add: ps1_def)
  have n: "name \<in> dom (variables ps1)" by (auto simp: ps1_def)
  have e: "returning (room w d c n) (map_sum id (\<lambda>(t, ps2). put_variable name (g t) ps2) (expand_whole w d val [] ps2))"
    if "room w d c n ps2" "name \<in> dom (variables ps2)" for g ps2
  proof (rule returning_map [OF expand_whole_room [OF that(1)]])
    fix p :: "string \<times> pstate" assume "at (variables ps2) p"
    then have v: "variables (snd p) = variables ps2" by (simp add: at_def)
    have "room w d c n (put_variable name (g (fst p)) (snd p))"
      by (rule put_variable_room(2) [OF room_less [OF that(1) le_refl v]]) (use v that(2) in simp)
    then show "room w d c n (case p of (t, ps2) \<Rightarrow> put_variable name (g t) ps2)" by (simp add: split_def)
  qed
  have p: "room w d c n (put_variable name x ps1)" for x by (rule put_variable_room(2) [OF r n])
  note e1 = e [OF r n] and e2 = e [OF p, simplified]
  show ?thesis
    unfolding assign_variable_def Let_def v_def [symmetric] ps1_def [symmetric]
    using p e1 e2 by (auto split: assign_op.split option.split simp del: put_variable_dom)
qed

lemma parse_assignment_room:
  assumes "room w d c (Suc n) ps" shows "returning (room w d c n) (parse_assignment w d s ps)"
proof -
  have "returning (room w d c n)
    (case lhs_loop w d (Suc (length (lstrip s))) [] (lstrip s) ps of
           Inl e \<Rightarrow> Inl e
         | Inr ((name, rest), ps1) \<Rightarrow>
             if isspace (name @ rest) then Inr ps1
             else (case rhs_match rest of
                     None \<Rightarrow> Inl (parse_error ps1 ''syntax error'')
                   | Some (opr, val) \<Rightarrow> assign_variable w d name opr val ps1))"
  proof (rule at_bind [OF lhs_loop_at [OF room_expandable [OF assms] refl]])
    fix name rest and ps1 :: pstate assume v: "variables ps1 = variables ps"
    have r: "room w d c (Suc n) ps1" by (rule room_less [OF assms le_refl v])
    have "room w d c n ps1" by (rule room_less [OF r]) simp_all
    then show "returning (room w d c n) (if isspace (name @ rest) then Inr ps1
             else (case rhs_match rest of
                     None \<Rightarrow> Inl (parse_error ps1 ''syntax error'')
                   | Some (opr, val) \<Rightarrow> assign_variable w d name opr val ps1))"
      using assign_variable_room [OF r] by (simp split: option.split)
  qed
  then show ?thesis by (simp add: parse_assignment_def Let_def del: lhs_loop.simps)
qed

lemma tokenize_room:
  assumes "room w d c (Suc n) ps0" shows "returning (\<lambda>(ts, ps'). room w d c n ps') (tokenize w d s ps0)"
proof -
  let ?ps = "ps0\<lparr>line_text := s\<rparr>"
  have r: "room w d c (Suc n) ?ps" by (rule room_less [OF assms]) simp_all
  have r': "room w d c n ?ps" by (rule room_less [OF r]) simp_all
  have a: "returning (\<lambda>(ts, ps'). room w d c n ps') (map_sum id (\<lambda>ps'. ([] :: tok list, ps')) (parse_assignment w d s ?ps))"
    by (rule returning_map [OF parse_assignment_room [OF r]]) simp
  have t: "returning (\<lambda>(ts, ps'). room w d c n ps') (map_sum id (\<lambda>(ts, ps'). (TKey k # ts, ps')) (tok_loop w d k m prev pre suf ?ps))"
    for k m prev pre suf
  proof (rule returning_map [OF tok_loop_at [OF room_expandable [OF r'] refl]])
    fix p :: "tok list \<times> pstate" assume "at (variables ?ps) p"
    then have "room w d c n (snd p)" by (intro room_less [OF r' le_refl]) (simp add: at_def)
    then show "case (case p of (ts, ps') \<Rightarrow> (TKey k # ts, ps')) of (ts, ps') \<Rightarrow> room w d c n ps'" by (simp add: split_def)
  qed
  show ?thesis unfolding tokenize_def Let_def using r' a t by (simp add: split_def split: option.split)
qed

section \<open>Reading lines\<close>

definition same_files :: "pstate \<Rightarrow> pstate \<Rightarrow> bool" where
  "same_files ps ps' \<longleftrightarrow>
     include_path ps' = include_path ps \<and> cur_file ps' = cur_file ps \<and> file_stack ps' = file_stack ps"

definition unread :: "pstate \<Rightarrow> pstate \<Rightarrow> bool" where
  "unread ps ps' \<longleftrightarrow> file_lines ps' = file_lines ps \<and> reuse_tokens ps' = reuse_tokens ps"

interpretation line: line_frame w "\<lambda>ps ps'. functions_calm w \<longrightarrow> unread ps ps'" for w
proof
  fix fn f lo hi args ps r ps'
  assume "user_functions w fn = Some (f, lo, hi)" "f args ps = Inr (r, ps')"
  then show "functions_calm w \<longrightarrow> unread ps ps'" unfolding functions_calm_def unread_def by blast
qed (auto simp: unread_def put_sym_def)

interpretation files: props_frame w "\<lambda>ps ps'. functions_calm w \<longrightarrow> same_files ps ps'" i for w i
proof
  fix fn f lo hi args ps r ps'
  assume "user_functions w fn = Some (f, lo, hi)" "f args ps = Inr (r, ps')"
  then show "functions_calm w \<longrightarrow> same_files ps ps'" unfolding functions_calm_def same_files_def by blast
qed (auto simp: same_files_def put_sym_def upd_sym_def upd_choice_def upd_node_def)

text \<open>
  How much there is to read. Every line brings at most one variable, and a line that is a
  statement up to \<open>f\<close> more from the files it names; a line whose tokens are kept for the next
  statement has brought its own variable already.
\<close>

definition unread_size :: "pstate \<Rightarrow> nat" where
  "unread_size ps = length (file_lines ps) + (if reuse_tokens ps then 1 else 0)"

definition fits :: "world \<Rightarrow> nat \<Rightarrow> nat \<Rightarrow> nat \<Rightarrow> pstate \<Rightarrow> bool" where
  "fits w d c f ps \<longleftrightarrow> room w d c (length (file_lines ps) * Suc f + (if reuse_tokens ps then f else 0)) ps"

definition read_on :: "nat \<Rightarrow> pstate \<Rightarrow> pstate \<Rightarrow> bool" where
  "read_on n ps ps' \<longleftrightarrow> length (file_lines ps') + n \<le> length (file_lines ps) \<and> reuse_tokens ps' = reuse_tokens ps"

lemma readline_read:
  assumes "readline ps = (l, ps')"
  shows "read_on (if l = [] then 0 else 1) ps ps'" "variables ps' = variables ps"
  using assms by (auto simp: readline_def read_on_def split: list.splits)

lemma join_line_read: "join_line l ps = (l', ps') \<Longrightarrow> read_on 0 ps ps' \<and> variables ps' = variables ps"
proof (induction l ps rule: join_line.induct)
  case (1 line ps)
  show ?case
  proof (cases "continued line")
    case True
    obtain l ps1 where r: "readline ps = (l, ps1)" by (cases "readline ps")
    have "join_line (take (length line - 2) line @ l) (ps1\<lparr>cur_line := Suc (cur_line ps1)\<rparr>) = (l', ps')"
      using 1(2) True r by (subst (asm) join_line.simps) simp
    then have "read_on 0 (ps1\<lparr>cur_line := Suc (cur_line ps1)\<rparr>) ps' \<and> variables ps' = variables (ps1\<lparr>cur_line := Suc (cur_line ps1)\<rparr>)"
      using 1(1) [OF True] r by simp
    then show ?thesis using readline_read [OF r] by (auto simp: read_on_def split: if_splits)
  next
    case False
    then have "ps' = ps" using 1(2) by (subst (asm) join_line.simps) simp
    then show ?thesis by (simp add: read_on_def)
  qed
qed

lemma set_tokens_room:
  assumes "room w d c (Suc n) ps"
  shows "returning (\<lambda>ps'. room w d c n ps' \<and> read_on 0 ps ps') (set_tokens w d line ps)"
proof -
  obtain line' ps1 where j: "join_line line ps = (line', ps1)" by (cases "join_line line ps")
  have r: "room w d c (Suc n) ps1" using room_less [OF assms le_refl] join_line_read [OF j] by blast
  have c: "functions_calm w" using assms by (simp add: room_def)
  show ?thesis
  proof (cases "tokenize w d line' ps1")
    case (Inl e)
    then show ?thesis using tokenize_room [OF r, of line'] j by (simp add: set_tokens_def)
  next
    case (Inr p)
    obtain ts ps2 where p: "p = (ts, ps2)" by (cases p)
    have "room w d c n ps2" using tokenize_room [OF r, of line'] Inr p by simp
    then have "room w d c n (ps2\<lparr>tokens := ts\<rparr>)" by (rule room_less) simp_all
    moreover have "unread ps1 ps2" using line.tokenize_frame [of w d line' ps1 ts ps2] Inr p c by blast
    then have "read_on 0 ps (ps2\<lparr>tokens := ts\<rparr>)" using join_line_read [OF j] by (simp add: read_on_def unread_def)
    ultimately show ?thesis using Inr p j by (simp add: set_tokens_def)
  qed
qed

lemma next_line_fits:
  assumes "fits w d c f ps"
  shows "returning (\<lambda>(b, ps'). \<not> reuse_tokens ps' \<and>
      (if b then room w d c (length (file_lines ps') * Suc f + f) ps' \<and> unread_size ps' < unread_size ps
       else fits w d c f ps' \<and> unread_size ps' \<le> unread_size ps)) (next_line w d ps)"
proof (cases "reuse_tokens ps")
  case True
  then show ?thesis using assms room_less [of w d c _ ps]
    by (simp add: next_line_def fits_def unread_size_def)
next
  case F: False
  obtain line ps1 where r: "readline ps = (line, ps1)" by (cases "readline ps")
  note rd = readline_read [OF r]
  show ?thesis
  proof (cases "line = []")
    case True
    have "length (file_lines ps1) * Suc f \<le> length (file_lines ps) * Suc f"
      using rd(1) True by (intro mult_le_mono1) (simp add: read_on_def)
    then have "fits w d c f ps1" using assms F rd True room_less [of w d c _ ps _ ps1] by (simp add: fits_def read_on_def)
    then show ?thesis using True F r rd by (simp add: next_line_def unread_size_def read_on_def)
  next
    case False
    let ?ps = "ps1\<lparr>cur_line := Suc (cur_line ps1)\<rparr>"
    have l: "Suc (length (file_lines ps1)) \<le> length (file_lines ps)" "\<not> reuse_tokens ps1"
      using rd(1) False F by (simp_all add: read_on_def)
    have "room w d c (length (file_lines ps) * Suc f) ps" using assms F by (simp add: fits_def)
    moreover have "Suc (length (file_lines ps1) * Suc f + f) \<le> length (file_lines ps) * Suc f"
      using mult_le_mono1 [OF l(1), of "Suc f"] by simp
    ultimately have "room w d c (Suc (length (file_lines ps1) * Suc f + f)) ?ps"
      by (rule room_less) (simp add: rd(2))
    note st = set_tokens_room [OF this, of line]
    show ?thesis
    proof (cases "set_tokens w d line ?ps")
      case (Inl e)
      then show ?thesis using st F False r by (simp add: next_line_def)
    next
      case (Inr ps2)
      then have 2: "room w d c (length (file_lines ps1) * Suc f + f) ps2" "length (file_lines ps2) \<le> length (file_lines ps1)"
        "\<not> reuse_tokens ps2"
        using st l by (simp_all add: read_on_def)
      have "room w d c (length (file_lines ps2) * Suc f + f) ps2"
        by (rule room_less [OF 2(1)]) (use mult_le_mono1 [OF 2(2), of "Suc f"] in simp_all)
      then show ?thesis using Inr F False r 2 l by (simp add: next_line_def unread_size_def)
    qed
  qed
qed

section \<open>Properties\<close>

definition quiet :: "pstate \<Rightarrow> pstate \<Rightarrow> bool" where
  "quiet ps ps' \<longleftrightarrow> variables ps' = variables ps \<and> file_lines ps' = file_lines ps \<and> reuse_tokens ps' = reuse_tokens ps"

lemma quiet_simps [simp]:
  "quiet ps ps" "quiet ps (upd_node i f ps') = quiet ps ps'" "quiet ps (upd_sym s g ps') = quiet ps ps'"
  "quiet ps (put_sym s y ps') = quiet ps ps'"
  "quiet ps (upd_choice c h ps') = quiet ps ps'" "quiet ps (warn_here m ps') = quiet ps ps'"
  "quiet ps (warn_plain m ps') = quiet ps ps'" "quiet ps (ps'\<lparr>conf := kc\<rparr>) = quiet ps ps'"
  by (simp_all add: quiet_def upd_node_def upd_sym_def put_sym_def upd_choice_def warn_here_def warn_plain_def)

lemma quiet_put_type [simp]: "quiet ps (put_type x t ps') = quiet ps ps'"
  by (cases x) (simp_all add: put_type_def)

lemma quiet_objects [simp]:
  "quiet ps (set_type x t ps') = quiet ps ps'" "quiet ps (snd (lookup_const_sym n ps')) = quiet ps ps'"
  by (simp_all only: set_type_def quiet_put_type quiet_simps lookup_const_sym_def Let_def if_distrib [of "quiet ps"]
      if_distrib [of snd] snd_conv if_cancel)

lemma expect_returns [simp]:
  "expect_sym ps ts \<noteq> Inl RecursionError" "expect_nonconst_sym ps ts \<noteq> Inl RecursionError"
  "expect_str_and_eol ps ts \<noteq> Inl RecursionError" "expect_expr_and_eol ps ts \<noteq> Inl RecursionError"
  "parse_cond ps ts \<noteq> Inl RecursionError" "target_cond ps ts \<noteq> Inl RecursionError"
  "trailing_tokens ps \<noteq> RecursionError"
proof -
  have t: "trailing_tokens ps \<noteq> RecursionError" for ps by (simp add: trailing_tokens_def)
  have e: "parse_expr ps m ts \<noteq> Inl e" if "e = RecursionError" for m ts e using parse_expr_returns that by blast
  show "trailing_tokens ps \<noteq> RecursionError" by (rule t)
  show "expect_sym ps ts \<noteq> Inl RecursionError" by (rule expect_sym_result)
  show n: "expect_nonconst_sym ps ts \<noteq> Inl RecursionError"
    by (auto simp: expect_nonconst_sym_def split: list.splits tok.splits)
  show "expect_str_and_eol ps ts \<noteq> Inl RecursionError"
    using t by (auto simp: expect_str_and_eol_def split: list.splits tok.splits)
  show "expect_expr_and_eol ps ts \<noteq> Inl RecursionError"
    using t e [OF refl] by (auto simp: expect_expr_and_eol_def split: sum.splits)
  show c: "parse_cond ps ts \<noteq> Inl RecursionError" for ts
    using t e [OF refl] by (auto simp: parse_cond_def split: sum.splits option.splits if_splits)
  show "target_cond ps ts \<noteq> Inl RecursionError"
    using n c by (auto simp: target_cond_def map_sum_def split: sum.splits)
qed

lemma returning_map_quiet:
  "r \<noteq> Inl RecursionError \<Longrightarrow> (\<And>a. quiet ps (g a)) \<Longrightarrow> returning (quiet ps) (map_sum id g r)"
  by (cases r) auto

lemma parse_prompt_quiet: "returning (quiet ps) (parse_prompt i ts ps)"
proof (cases "item_sc (item (node_at ps i))")
  case (Some x)
  define ps1 where "ps1 = (if nd_prompt (node_at ps i) \<noteq> None
    then warn_plain (name_and_loc (conf ps) x @ '' defined with multiple prompts in single location'') ps else ps)"
  have q: "quiet ps ps1" by (simp add: ps1_def)
  have "returning (quiet ps)
    (let ps2 = (if t \<noteq> strip t then warn_plain (name_and_loc (conf ps1) x @
         '' has leading or trailing whitespace in its prompt'') ps1 else ps1)
     in map_sum id (\<lambda>c. upd_node i (\<lambda>n. n\<lparr>nd_prompt := Some (strip t, c)\<rparr>) ps2) (parse_cond ps2 r))" for t r
    unfolding Let_def by (rule returning_map_quiet) (use q in simp_all)
  then show ?thesis unfolding parse_prompt_def Some option.case Let_def ps1_def [symmetric]
    by (simp split: list.split tok.split)
qed (simp add: parse_prompt_def)

lemma default_prop_quiet: "returning (quiet ps) (default_prop i ts ps')" if "quiet ps ps'"
proof -
  have "returning (quiet ps) (map_sum id (\<lambda>c. upd_node i (\<lambda>n. n\<lparr>nd_defaults := nd_defaults n @ [(v, c)]\<rparr>) ps') (parse_cond ps' r))" for v r
    by (rule returning_map_quiet) (use that in simp_all)
  moreover have "parse_expr ps' False ts \<noteq> Inl RecursionError" by (rule parse_expr_returns)
  ultimately show ?thesis by (auto simp: default_prop_def split: sum.split)
qed

lemma range_prop_quiet: "returning (quiet ps) (range_prop i ts ps)"
proof -
  have m: "returning (quiet ps)
      (map_sum id (\<lambda>c. upd_node i (\<lambda>n. n\<lparr>nd_ranges := nd_ranges n @ [(low, high, c)]\<rparr>) ps) (parse_cond ps r))" for low high r
    by (rule returning_map_quiet) simp_all
  show ?thesis
  proof (cases "expect_sym ps ts")
    case (Inl e)
    then show ?thesis using expect_returns(1) [of ps ts] by (simp add: range_prop_def)
  next
    case (Inr p)
    obtain low r where p: "p = (low, r)" by (cases p)
    show ?thesis
    proof (cases "expect_sym ps r")
      case (Inl e)
      then show ?thesis using expect_returns(1) [of ps r] Inr p by (simp add: range_prop_def)
    qed (use m Inr p in \<open>auto simp: range_prop_def\<close>)
  qed
qed

lemma entry_props_quiet:
  "returning (quiet ps) (type_prop i t ts ps)" "returning (quiet ps) (depends_prop i ts ps)"
  "returning (quiet ps) (select_prop i ts ps)" "returning (quiet ps) (imply_prop i ts ps)"
  "returning (quiet ps) (def_type_prop i t ts ps)" "returning (quiet ps) (visible_prop i ts ps)"
  "returning (quiet ps) (optional_prop i ps)" "returning (quiet ps) (Inr (modules_warning i m ps) :: exn + pstate)"
proof -
  have w: "returning (quiet ps) (parse_prompt i ts (set_type x t ps))" for x
    by (rule returning_weaken [OF parse_prompt_quiet]) (metis quiet_objects(1) quiet_simps(1) quiet_def)
  show "returning (quiet ps) (type_prop i t ts ps)" using w by (simp add: type_prop_def split: option.split)
  have d: "returning (quiet ps) (default_prop i ts (set_type x t ps))" for x by (rule default_prop_quiet) simp
  show "returning (quiet ps) (def_type_prop i t ts ps)" using d by (simp add: def_type_prop_def split: option.split)
  show "returning (quiet ps) (depends_prop i ts ps)"
    by (auto simp: depends_prop_def intro!: returning_map_quiet split: option.split)
  show "returning (quiet ps) (select_prop i ts ps)" "returning (quiet ps) (imply_prop i ts ps)"
    by (auto simp: select_prop_def imply_prop_def intro!: returning_map_quiet)
  show "returning (quiet ps) (visible_prop i ts ps)"
    by (auto simp: visible_prop_def intro!: returning_map_quiet split: option.split)
  show "returning (quiet ps) (optional_prop i ps)" by (simp add: optional_prop_def split: node_item.split)
  show "returning (quiet ps) (Inr (modules_warning i m ps) :: exn + pstate)" by (simp add: modules_warning_def)
qed

lemma env_value_quiet: "quiet ps (env_value w i s v ps')" if "quiet ps ps'"
proof (cases "environ w v")
  case (Some x)
  have "env_value w i s v ps' = upd_node i (\<lambda>n. n\<lparr>nd_defaults := nd_defaults n @ [(Leaf (Sym (fst (lookup_const_sym x ps'))), expr_y)]\<rparr>) (snd (lookup_const_sym x ps'))"
    using Some by (simp add: env_value_def split_def Let_def)
  then show ?thesis using that by simp
qed (use that in \<open>simp add: env_value_def\<close>)

lemma option_prop_quiet: "returning (quiet ps) (option_prop w i ts ps)"
proof -
  have e: "returning (quiet ps) (env_option w i ts' ps)" for ts'
  proof (cases "check_token T_EQUAL ts'")
    case (Some r)
    show ?thesis
    proof (cases "expect_str_and_eol ps r")
      case (Inl x)
      then show ?thesis using expect_returns(3) [of ps r] Some by (simp add: env_option_def)
    next
      case (Inr v)
      have "quiet ps (env_value w i s v (upd_sym s g ps))" for s g by (rule env_value_quiet) simp
      then show ?thesis using Some Inr by (auto simp: env_option_def Let_def split: node_item.split)
    qed
  qed (simp add: env_option_def)
  have "returning (quiet ps) (defconfig_option i ps)" "returning (quiet ps) (allnoconfig_option i ps)"
    by (simp_all add: defconfig_option_def allnoconfig_option_def split: node_item.split option.split)
  then show ?thesis using e entry_props_quiet(8) by (simp add: option_prop_def)
qed

section \<open>Entries\<close>

definition reads :: "world \<Rightarrow> nat \<Rightarrow> nat \<Rightarrow> nat \<Rightarrow> pstate \<Rightarrow> pstate \<Rightarrow> bool" where
  "reads w d c f ps ps' \<longleftrightarrow> fits w d c f ps' \<and> unread_size ps' \<le> unread_size ps"

lemma fits_quiet: "fits w d c f ps \<Longrightarrow> quiet ps ps' \<Longrightarrow> reads w d c f ps ps'"
  using room_less [of w d c _ ps] by (simp add: reads_def fits_def quiet_def unread_size_def)

lemma help_lines_shorter: "help_lines ind ls = (t, stop, rest) \<Longrightarrow> length rest + (if stop = [] then 0 else 1) \<le> length ls"
proof (induction ind ls arbitrary: t rule: help_lines.induct)
  case (2 ind l ls)
  show ?case
  proof (cases "isspace l")
    case True
    then obtain t' where "help_lines ind ls = (t', stop, rest)" using 2(3) by (auto split: prod.splits)
    then show ?thesis using 2(1) [OF True] by fastforce
  next
    case F: False
    consider "l = []" | "l \<noteq> []" "indentation (expandtabs l) < ind" | "l \<noteq> []" "\<not> indentation (expandtabs l) < ind" by blast
    then show ?thesis
    proof cases
      case 3
      then obtain t' where "help_lines ind ls = (t', stop, rest)" using 2(3) F by (auto split: prod.splits)
      then show ?thesis using 2(2) [OF F 3] by fastforce
    qed (use 2(3) F in auto)
  qed
qed simp

lemma after_help_reads:
  assumes "fits w d c f ps" "\<not> reuse_tokens ps" "length (file_lines ps1) + (if line = [] then 0 else 1) \<le> length (file_lines ps)"
    and "\<not> reuse_tokens ps1" "variables ps1 = variables ps"
  shows "returning (reads w d c f ps) (after_help w d line ps1)"
proof -
  have r: "room w d c (length (file_lines ps) * Suc f) ps" using assms(1,2) by (simp add: fits_def)
  show ?thesis
  proof (cases "line = []")
    case True
    have "room w d c (length (file_lines ps1) * Suc f) ps1"
      by (rule room_less [OF r mult_le_mono1 assms(5)]) (use assms(3) True in simp)
    then have "reads w d c f ps ps1" using assms True by (simp add: reads_def fits_def unread_size_def)
    then show ?thesis using True by (simp add: after_help_def)
  next
    case False
    have "Suc (length (file_lines ps1)) * Suc f \<le> length (file_lines ps) * Suc f"
      using assms(3) False by (intro mult_le_mono1) simp
    then have "room w d c (Suc (length (file_lines ps1) * Suc f + f)) ps1"
      by (intro room_less [OF r _ assms(5)]) simp
    from set_tokens_room [OF this, of line]
    have "returning (reads w d c f ps) (map_sum id (\<lambda>ps1. ps1\<lparr>reuse_tokens := True\<rparr>) (set_tokens w d line ps1))"
    proof (rule returning_map)
      fix ps2 assume a: "room w d c (length (file_lines ps1) * Suc f + f) ps2 \<and> read_on 0 ps1 ps2"
      then have l: "length (file_lines ps2) \<le> length (file_lines ps1)" by (simp add: read_on_def)
      have "room w d c (length (file_lines ps2) * Suc f + f) (ps2\<lparr>reuse_tokens := True\<rparr>)"
        by (rule room_less [OF conjunct1 [OF a]]) (use mult_le_mono1 [OF l, of "Suc f"] in simp_all)
      then show "reads w d c f ps (ps2\<lparr>reuse_tokens := True\<rparr>)"
        using l assms(2,3) False by (simp add: reads_def fits_def unread_size_def)
    qed
    then show ?thesis using False by (simp add: after_help_def line_after_help_def)
  qed
qed

lemma parse_help_reads:
  assumes "fits w d c f ps" "\<not> reuse_tokens ps"
  shows "returning (reads w d c f ps) (parse_help w d i ps)"
proof (cases "item_sc (item (node_at ps i))")
  case (Some x)
  define ps1 where "ps1 = (if nd_help (node_at ps i) \<noteq> None then warn_plain (name_and_loc (conf ps) x @
      '' defined with more than one help text -- only the last one will be used'') ps else ps)"
  obtain line ps2 where l: "readline (ps1\<lparr>file_lines := dropWhile isspace (file_lines ps1)\<rparr>) = (line, ps2)"
    by (cases "readline (ps1\<lparr>file_lines := dropWhile isspace (file_lines ps1)\<rparr>)")
  define ps3 where "ps3 = ps2\<lparr>cur_line := cur_line ps2 + length (takeWhile isspace (file_lines ps1)) + 1\<rparr>"
  have 1: "file_lines ps1 = file_lines ps" "reuse_tokens ps1 = reuse_tokens ps" "variables ps1 = variables ps"
    by (simp_all add: ps1_def warn_plain_def)
  have "length (dropWhile isspace (file_lines ps)) \<le> length (file_lines ps)" by (rule length_dropWhile_le)
  then have 3: "length (file_lines ps3) + (if line = [] then 0 else 1) \<le> length (file_lines ps)"
    "\<not> reuse_tokens ps3" "variables ps3 = variables ps"
    using readline_read [OF l] 1 assms(2) by (auto simp: read_on_def ps3_def)
  obtain more_lines stop rest where h: "help_lines (indentation (expandtabs line)) (file_lines ps3) = (more_lines, stop, rest)"
    by (cases "help_lines (indentation (expandtabs line)) (file_lines ps3)")
  have e: "parse_help w d i ps =
    (if line = [] \<or> indentation (expandtabs line) = 0 then empty_help w d i x line ps3
     else after_help w d stop
       (upd_node i (\<lambda>n. n\<lparr>nd_help := Some (rstrip (concat (drop (indentation (expandtabs line)) (expandtabs line) # more_lines)))\<rparr>)
         (ps3\<lparr>file_lines := rest,
              cur_line := cur_line ps3 + length (drop (indentation (expandtabs line)) (expandtabs line) # more_lines)\<rparr>)))"
    by (simp only: parse_help_def Some option.case Let_def ps1_def [symmetric] l h ps3_def [symmetric] prod.case)
  have "returning (reads w d c f ps) (empty_help w d i x line ps3)"
    unfolding empty_help_def
    by (rule after_help_reads [OF assms]) (use 3 in \<open>simp_all add: upd_node_def warn_plain_def\<close>)
  moreover have "returning (reads w d c f ps) (after_help w d stop (upd_node i g (ps3\<lparr>file_lines := rest, cur_line := n\<rparr>)))" for g n
    by (rule after_help_reads [OF assms]) (use 3 help_lines_shorter [OF h] in \<open>simp_all add: upd_node_def split: if_splits\<close>)
  ultimately show ?thesis unfolding e by simp
qed (simp add: parse_help_def)

lemma parse_prop_reads:
  assumes "fits w d c f ps" "\<not> reuse_tokens ps" "parse_prop w d i t0 ts ps = Some r"
  shows "returning (reads w d c f ps) r"
proof -
  have q: "returning (reads w d c f ps) r" if "returning (quiet ps) r" for r
    by (rule returning_weaken [OF that fits_quiet [OF assms(1)]])
  note e = entry_props_quiet [THEN q]
  show ?thesis
  proof (cases "type_of_token t0")
    case N: None
    show ?thesis
    proof (cases "DEF_TOKEN_TO_TYPE t0")
      case None
      then show ?thesis
        using assms(3) N e q [OF default_prop_quiet] q [OF parse_prompt_quiet] q [OF range_prop_quiet] q [OF option_prop_quiet]
          parse_help_reads [OF assms(1,2)]
        by (auto simp: parse_prop_def split: if_splits)
    qed (use assms(3) N e in \<open>auto simp: parse_prop_def\<close>)
  qed (use assms(3) e in \<open>auto simp: parse_prop_def\<close>)
qed

text \<open>A property takes its line, or leaves the one after its help text.\<close>

lemma props_loop_reads:
  "fits w d c f ps \<Longrightarrow> unread_size ps < k \<Longrightarrow> returning (reads w d c f ps) (props_loop w d i k ps)"
proof (induction k arbitrary: ps)
  case (Suc k)
  note n = next_line_fits [OF Suc.prems(1)]
  show ?case
  proof (cases "next_line w d ps")
    case (Inl e)
    then show ?thesis using n by simp
  next
    case (Inr p)
    obtain b ps1 where p: "p = (b, ps1)" by (cases p)
    have ps1: "\<not> reuse_tokens ps1" using n Inr p by simp
    show ?thesis
    proof (cases b)
      case False
      then show ?thesis using n Inr p by (simp add: reads_def)
    next
      case True
      have r: "room w d c (length (file_lines ps1) * Suc f + f) ps1" "unread_size ps1 < unread_size ps" using n Inr p True by simp_all
      then have fit: "fits w d c f ps1" using ps1 room_less [OF r(1)] by (simp add: fits_def)
      have k: "returning (reads w d c f ps) (props_loop w d i k ps2)" if "reads w d c f ps1 ps2" for ps2
        by (rule returning_weaken [OF Suc.IH]) (use that r(2) Suc.prems(2) in \<open>auto simp: reads_def\<close>)
      have "fits w d c f (ps1\<lparr>reuse_tokens := True\<rparr>)" using room_less [OF r(1), of _ "ps1\<lparr>reuse_tokens := True\<rparr>"] by (simp add: fits_def)
      then have s: "reads w d c f ps (ps1\<lparr>reuse_tokens := True\<rparr>)" using r(2) ps1 by (simp add: reads_def unread_size_def)
      have "returning (reads w d c f ps) (props_loop w d i k ps1)" by (rule k) (simp add: reads_def fit)
      moreover have "returning (reads w d c f ps)
          (case parse_prop w d i t0 ts ps1 of
                  None \<Rightarrow> Inr (ps1\<lparr>reuse_tokens := True\<rparr>)
                | Some (Inl e) \<Rightarrow> Inl e
                | Some (Inr ps2) \<Rightarrow> props_loop w d i k ps2)" for t0 ts
        using parse_prop_reads [OF fit ps1, of i t0 ts] s k by (auto split: option.split sum.split)
      ultimately show ?thesis using Inr p True s
        by (auto simp del: props_loop.simps simp: props_loop.simps(2) split: list.split tok.split)
    qed
  qed
qed simp

lemma parse_props_reads:
  assumes "fits w d c f ps" shows "returning (reads w d c f ps) (parse_props w d i ps)"
proof -
  let ?ps = "upd_node i (\<lambda>n. n\<lparr>dep := expr_y\<rparr>) ps"
  have u: "unread_size ?ps = unread_size ps" by (simp add: unread_size_def upd_node_def)
  have f: "fits w d c f ?ps" using fits_quiet [OF assms, of ?ps] by (simp add: reads_def)
  have l: "unread_size ?ps < 2 * length (file_lines ps) + 2" unfolding u by (simp add: unread_size_def)
  show ?thesis unfolding parse_props_def
    by (rule returning_weaken [OF props_loop_reads [OF f l]]) (simp add: reads_def u)
qed

end
