(* ===== verification/Block_Returns.thy ===== *)
theory Block_Returns
  imports Line_Returns
begin

text \<open>
  Parsing returns. Blocks consume the lines of their file; a file that sources itself is an
  error, so that the nesting of files is bounded by their number.
\<close>

section \<open>Trees of files\<close>

text \<open>The name under which a file is known in the configuration.\<close>

definition known_as :: "world \<Rightarrow> string \<Rightarrow> string" where
  "known_as w f = (if startswith f (srctree_prefix w) then drop (length (srctree_prefix w)) f else f)"

text \<open>The files have their names in \<open>S\<close>, at most \<open>L\<close> lines, and a pattern names at most \<open>F\<close> of them.\<close>

definition tree_within :: "world \<Rightarrow> string set \<Rightarrow> nat \<Rightarrow> nat \<Rightarrow> bool" where
  "tree_within w S F L \<longleftrightarrow>
     finite S \<and> (\<forall>f ls. read_file w f = Some ls \<longrightarrow> known_as w f \<in> S \<and> length ls \<le> L) \<and>
     (\<forall>p. length (iglob w p) \<le> F)"

text \<open>Variables from the files a line names, when \<open>m\<close> more files can be nested; lines to read.\<close>

primrec credit :: "nat \<Rightarrow> nat \<Rightarrow> nat \<Rightarrow> nat" where
  "credit F L 0 = 0"
| "credit F L (Suc m) = F * (L * Suc (credit F L m))"

definition need :: "nat \<Rightarrow> nat \<Rightarrow> nat \<Rightarrow> nat" where
  "need L m n = n + m * (L + 1) + 1"

text \<open>The files that are open are different; at most \<open>m\<close> more can be opened.\<close>

definition open_files :: "pstate \<Rightarrow> string list" where
  "open_files ps = map fst (include_path ps) @ [here_file ps]"

definition level :: "string set \<Rightarrow> nat \<Rightarrow> pstate \<Rightarrow> bool" where
  "level S m ps \<longleftrightarrow>
     distinct (open_files ps) \<and> set (open_files ps) \<subseteq> S \<and> card S \<le> length (open_files ps) + m \<and> cur_file ps \<noteq> None"

lemma level_same: "level S m ps \<Longrightarrow> same_files ps ps' \<Longrightarrow> level S m ps'"
  by (simp add: level_def open_files_def same_files_def here_file_def)

text \<open>Opening a file, and going back.\<close>

lemma enter_file_level:
  assumes "enter_file w f ps = Inr ps'" "level S m ps" "tree_within w S F L"
  obtains m' ls where "m = Suc m'" "level S m' ps'" "read_file w f = Some ls" "file_lines ps' = ls" "length ls \<le> L"
    "variables ps' = variables ps" "reuse_tokens ps' = reuse_tokens ps"
    "file_stack ps' = (include_path ps, file_lines ps) # file_stack ps"
    "include_path ps' = include_path ps @ [(here_file ps, cur_line ps)]"
proof -
  let ?path = "include_path ps @ [(here_file ps, cur_line ps)]"
  have n: "\<not> (\<exists>x \<in> set ?path. fst x = known_as w f)"
    using assms(1) unfolding enter_file_def Let_def known_as_def by (auto split: if_splits)
  obtain ls where ls: "read_file w f = Some ls"
    "ps' = ps\<lparr>kconfig_filenames := kconfig_filenames ps @ [known_as w f], file_stack := (include_path ps, file_lines ps) # file_stack ps,
       include_path := ?path, file_lines := ls, cur_file := Some (known_as w f), cur_line := 0\<rparr>"
    using assms(1) n unfolding enter_file_def Let_def known_as_def [symmetric] by (auto split: option.splits if_splits)
  have t: "known_as w f \<in> S" "length ls \<le> L" "finite S" using assms(3) ls(1) by (auto simp: tree_within_def)
  have o: "open_files ps' = open_files ps @ [known_as w f]" using ls(2) by (simp add: open_files_def here_file_def)
  have d: "distinct (open_files ps')" "set (open_files ps') \<subseteq> S"
    using n assms(2) t(1) unfolding o level_def by (auto simp: open_files_def)
  have "length (open_files ps') \<le> card S" using d distinct_card card_mono [OF t(3)] by metis
  then have "length (open_files ps) < card S" unfolding o by simp
  then obtain m' where m: "m = Suc m'" using assms(2) by (cases m) (auto simp: level_def)
  have "level S m' ps'" using d assms(2) ls(2) unfolding level_def o m by simp
  then show thesis using that m ls t(2) by simp
qed

lemma leave_file_back:
  assumes "file_stack ps = (p, ls) # st" "include_path ps = p @ [(f, l)]"
  shows "include_path (leave_file ps) = p" "file_lines (leave_file ps) = ls" "file_stack (leave_file ps) = st"
    "cur_file (leave_file ps) = Some f" "variables (leave_file ps) = variables ps" "reuse_tokens (leave_file ps) = reuse_tokens ps"
  using assms by (simp_all add: leave_file_def)

section \<open>Statements\<close>

definition still :: "pstate \<Rightarrow> pstate \<Rightarrow> bool" where
  "still ps ps' \<longleftrightarrow> quiet ps ps' \<and> same_files ps ps'"

lemma still_simps [simp]:
  "still ps ps" "still ps (upd_node i f ps') = still ps ps'" "still ps (upd_sym s g ps') = still ps ps'"
  "still ps (upd_choice c h ps') = still ps ps'" "still ps (warn_plain m ps') = still ps ps'"
  "still ps (ps'\<lparr>defined_syms := ds\<rparr>) = still ps ps'" "still ps (ps'\<lparr>choices := cs\<rparr>) = still ps ps'"
  "still ps (ps'\<lparr>menus := ms\<rparr>) = still ps ps'" "still ps (ps'\<lparr>comments := ms\<rparr>) = still ps ps'"
  "still ps (ps'\<lparr>named_choices := nc\<rparr>) = still ps ps'" "still ps (ps'\<lparr>next_choice := k\<rparr>) = still ps ps'"
  "still ps (ps'\<lparr>next_node := k\<rparr>) = still ps ps'"
  by (simp_all add: still_def same_files_def quiet_def upd_node_def upd_sym_def put_sym_def upd_choice_def warn_plain_def)

text \<open>From \<open>ps\<close> to \<open>ps'\<close> lines of the same file were read.\<close>

definition goes :: "world \<Rightarrow> nat \<Rightarrow> nat \<Rightarrow> nat \<Rightarrow> pstate \<Rightarrow> pstate \<Rightarrow> bool" where
  "goes w d c f ps ps' \<longleftrightarrow> fits w d c f ps' \<and> unread_size ps' \<le> unread_size ps \<and> same_files ps ps'"

lemma still_size: "still ps ps' \<Longrightarrow> unread_size ps' = unread_size ps"
  by (simp add: still_def quiet_def unread_size_def)

lemma still_fits: "still ps ps' \<Longrightarrow> fits w d c f ps \<Longrightarrow> fits w d c f ps'"
  using fits_quiet [of w d c f ps ps'] by (simp add: still_def reads_def)

lemma goes_trans: "goes w d c f ps1 ps2 \<Longrightarrow> goes w d c f ps2 ps3 \<Longrightarrow> goes w d c f ps1 ps3"
  by (auto simp: goes_def same_files_def)

lemma goes_still: "goes w d c f ps1 ps2 \<Longrightarrow> still ps2 ps3 \<Longrightarrow> goes w d c f ps1 ps3"
proof -
  assume g: "goes w d c f ps1 ps2" and s: "still ps2 ps3"
  have "unread_size ps3 = unread_size ps2" "fits w d c f ps3" "same_files ps2 ps3"
    using still_size [OF s] still_fits [OF s] s g by (simp_all add: goes_def still_def)
  then show ?thesis using g by (auto simp: goes_def same_files_def)
qed

lemma still_goes: "still ps1 ps2 \<Longrightarrow> goes w d c f ps2 ps3 \<Longrightarrow> goes w d c f ps1 ps3"
proof -
  assume s: "still ps1 ps2" and g: "goes w d c f ps2 ps3"
  have "unread_size ps2 = unread_size ps1" "same_files ps1 ps2" using still_size [OF s] s by (simp_all add: still_def)
  then show ?thesis using g by (auto simp: goes_def same_files_def)
qed

lemma fits_goes: "fits w d c f ps \<Longrightarrow> goes w d c f ps ps"
  by (simp add: goes_def same_files_def)

lemma fits_calm: "fits w d c f ps \<Longrightarrow> functions_calm w"
  by (simp add: fits_def room_def)

lemma parse_props_goes:
  assumes "fits w d c f ps" shows "returning (goes w d c f ps) (parse_props w d i ps)"
proof (cases "parse_props w d i ps")
  case (Inr ps')
  then have "same_files ps ps'" using files.parse_props_frame [of w d i ps ps'] fits_calm [OF assms] by blast
  then show ?thesis using Inr parse_props_reads [OF assms, of i] by (simp add: goes_def reads_def)
qed (use parse_props_reads [OF assms, of i] in simp)

text \<open>What the statements need of the parser of blocks, with \<open>k\<close> as its bound.\<close>

definition block_goes :: "world \<Rightarrow> nat \<Rightarrow> nat \<Rightarrow> nat \<Rightarrow> pstate \<Rightarrow> nat \<times> pstate \<Rightarrow> bool" where
  "block_goes w d c f ps p \<longleftrightarrow> goes w d c f ps (snd p) \<and> \<not> reuse_tokens (snd p)"

definition returns_block :: "world \<Rightarrow> nat \<Rightarrow> string set \<Rightarrow> nat \<Rightarrow> nat \<Rightarrow> nat \<Rightarrow> block_parser \<Rightarrow> bool" where
  "returns_block w d S F L k block \<longleftrightarrow>
     (\<forall>m c e p prev ps. level S m ps \<longrightarrow> fits w d c (credit F L m) ps \<longrightarrow> need L m (unread_size ps) \<le> k \<longrightarrow>
        returning (block_goes w d c (credit F L m) ps) (block e p prev ps))"

lemma returns_blockD:
  "returns_block w d S F L k block \<Longrightarrow> level S m ps \<Longrightarrow> fits w d c (credit F L m) ps \<Longrightarrow>
   need L m (unread_size ps) \<le> k \<Longrightarrow> returning (block_goes w d c (credit F L m) ps) (block e p prev ps)"
  unfolding returns_block_def by blast

definition stmt_goes :: "world \<Rightarrow> nat \<Rightarrow> nat \<Rightarrow> nat \<Rightarrow> pstate \<Rightarrow> nat \<times> pstate \<Rightarrow> bool" where
  "stmt_goes w d c f ps p \<longleftrightarrow> goes w d c f ps (snd p)"

lemma bind_ps_returning:
  "returning P r \<Longrightarrow> (\<And>a ps. P (a, ps) \<Longrightarrow> returning Q (g a ps)) \<Longrightarrow> returning Q (bind_ps r g)"
  by (cases r) auto

lemma new_node_still: "new_node n ps = (i, ps') \<Longrightarrow> still ps ps'"
  by (auto simp: new_node_def)

lemma config_stmt_goes:
  assumes "fits w d c f ps" shows "returning (stmt_goes w d c f ps) (config_stmt w d p prev mc ts ps)"
proof -
  have g: "returning (stmt_goes w d c f ps)
      (case parse_props w d i (upd_sym s u ps2) of Inl e \<Rightarrow> Inl e
       | Inr ps3 \<Rightarrow> Inr (link_node prev i (if mc \<and> nd_prompt (node_at ps3 i) = None then warn_plain (msg ps3) ps3 else ps3)))"
    if "new_node n (ps\<lparr>defined_syms := ds\<rparr>) = (i, ps2)" for n ds i ps2 s u msg
  proof -
    have "still (ps\<lparr>defined_syms := ds\<rparr>) ps2" using new_node_still that by blast
    then have "still ps ps2" by (simp add: still_def quiet_def same_files_def)
    then have s: "still ps (upd_sym s u ps2)" by simp
    show ?thesis
    proof (rule returning_bind [OF parse_props_goes [OF still_fits [OF s assms]]])
      fix ps3 assume "goes w d c f (upd_sym s u ps2) ps3"
      then have "goes w d c f ps ps3" by (rule still_goes [OF s])
      then have "goes w d c f ps (snd (link_node prev i (if mc \<and> nd_prompt (node_at ps3 i) = None then warn_plain (msg ps3) ps3 else ps3)))"
        by (rule goes_still) (simp add: link_node_def)
      then show "returning (stmt_goes w d c f ps)
          (Inr (link_node prev i (if mc \<and> nd_prompt (node_at ps3 i) = None then warn_plain (msg ps3) ps3 else ps3)))"
        by (simp add: stmt_goes_def)
    qed
  qed
  show ?thesis
  proof (cases "\<exists>s. ts = [TSym s] \<and> \<not> is_constant s")
    case True
    then obtain s where s: "ts = [TSym s]" "\<not> is_constant s" by blast
    define ps1 where "ps1 = ps\<lparr>defined_syms := defined_syms ps @ [s]\<rparr>"
    obtain i ps2 where n: "new_node (node_here (ISym s) mc p ps1) ps1 = (i, ps2)"
      by (cases "new_node (node_here (ISym s) mc p ps1) ps1")
    show ?thesis
      unfolding config_stmt_def s list.case tok.case Let_def ps1_def [symmetric] n prod.case
      using s(2) g [OF n [unfolded ps1_def]] by simp
  next
    case False
    then have "(\<exists>m. config_stmt w d p prev mc ts ps = Inl (parse_error ps m)) \<or> config_stmt w d p prev mc ts ps = Inl (trailing_tokens ps)"
      by (auto simp: config_stmt_def split: list.split tok.split)
    then show ?thesis by auto
  qed
qed

lemma entries_goes:
  assumes "returns_block w d S F L k block" "level S m ps" "fits w d c (credit F L m) ps" "need L m (unread_size ps) \<le> k"
  shows "returning (stmt_goes w d c (credit F L m) ps) (entries block e prev i ps)"
  unfolding entries_def
proof (rule bind_ps_returning [OF returns_blockD [OF assms]])
  fix a ps1 assume "block_goes w d c (credit F L m) ps (a, ps1)"
  then have "goes w d c (credit F L m) ps ps1" by (simp add: block_goes_def)
  then have "goes w d c (credit F L m) ps (snd (link_node prev i (tilt i ps1)))"
    by (rule goes_still) (simp add: link_node_def tilt_def)
  then show "returning (stmt_goes w d c (credit F L m) ps) (Inr (link_node prev i (tilt i ps1)))"
    by (simp add: stmt_goes_def)
qed

text \<open>Entries of a node whose line and properties have been read.\<close>

lemma entries_after:
  assumes "returns_block w d S F L k block" "level S m ps" "goes w d c (credit F L m) ps ps1" "need L m (unread_size ps) \<le> k"
  shows "returning (stmt_goes w d c (credit F L m) ps) (entries block e prev i ps1)"
proof -
  have "level S m ps1" using assms(2,3) level_same by (simp add: goes_def)
  moreover have "fits w d c (credit F L m) ps1" "need L m (unread_size ps1) \<le> k" using assms(3,4) by (simp_all add: goes_def need_def)
  ultimately have "returning (stmt_goes w d c (credit F L m) ps1) (entries block e prev i ps1)"
    by (intro entries_goes [OF assms(1)])
  then show ?thesis by (rule returning_weaken) (use assms(3) goes_trans in \<open>auto simp: stmt_goes_def\<close>)
qed

lemma menu_stmt_goes:
  assumes "returns_block w d S F L k block" "level S m ps" "fits w d c (credit F L m) ps" "need L m (unread_size ps) \<le> k"
  shows "returning (stmt_goes w d c (credit F L m) ps) (menu_stmt block w d p prev ts ps)"
proof (cases "expect_str_and_eol ps ts")
  case (Inl e)
  then show ?thesis using expect_returns(3) [of ps ts] by (simp add: menu_stmt_def)
next
  case (Inr t)
  let ?n = "(node_here IMenu True p ps)\<lparr>nd_prompt := Some (t, expr_y)\<rparr>"
  obtain i ps1 where n: "new_node ?n ps = (i, ps1)" by (cases "new_node ?n ps")
  have s: "still ps (ps1\<lparr>menus := menus ps1 @ [i]\<rparr>)" using new_node_still [OF n] by simp
  have "returning (stmt_goes w d c (credit F L m) ps)
      (case parse_props w d i (ps1\<lparr>menus := menus ps1 @ [i]\<rparr>) of Inl e \<Rightarrow> Inl e
       | Inr ps2 \<Rightarrow> entries block T_ENDMENU prev i ps2)"
    by (rule returning_bind [OF parse_props_goes [OF still_fits [OF s assms(3)]]
          entries_after [OF assms(1,2) still_goes [OF s] assms(4)]])
  then show ?thesis unfolding menu_stmt_def Inr sum.case n Let_def prod.case .
qed

lemma comment_stmt_goes:
  assumes "fits w d c f ps" shows "returning (stmt_goes w d c f ps) (comment_stmt w d p prev ts ps)"
proof (cases "expect_str_and_eol ps ts")
  case (Inl e)
  then show ?thesis using expect_returns(3) [of ps ts] by (simp add: comment_stmt_def)
next
  case (Inr t)
  let ?n = "(node_here IComment False p ps)\<lparr>nd_prompt := Some (t, expr_y)\<rparr>"
  obtain i ps1 where n: "new_node ?n ps = (i, ps1)" by (cases "new_node ?n ps")
  have s: "still ps (ps1\<lparr>comments := comments ps1 @ [i]\<rparr>)" using new_node_still [OF n] by simp
  have "returning (stmt_goes w d c f ps) (map_sum id (link_node prev i) (parse_props w d i (ps1\<lparr>comments := comments ps1 @ [i]\<rparr>)))"
  proof (rule returning_map [OF parse_props_goes [OF still_fits [OF s assms]]])
    fix ps2 assume "goes w d c f (ps1\<lparr>comments := comments ps1 @ [i]\<rparr>) ps2"
    from goes_still [OF still_goes [OF s this], of "snd (link_node prev i ps2)"]
    show "stmt_goes w d c f ps (link_node prev i ps2)" by (simp add: stmt_goes_def link_node_def)
  qed
  then show ?thesis unfolding comment_stmt_def Inr sum.case n Let_def prod.case .
qed

lemma if_stmt_goes:
  assumes "returns_block w d S F L k block" "level S m ps" "fits w d c (credit F L m) ps" "need L m (unread_size ps) \<le> k"
  shows "returning (stmt_goes w d c (credit F L m) ps) (if_stmt block p prev ts ps)"
proof (cases "expect_expr_and_eol ps ts")
  case (Inl e)
  then show ?thesis using expect_returns(4) [of ps ts] by (simp add: if_stmt_def)
next
  case (Inr e)
  let ?n = "fresh_node\<lparr>parent := Some p, dep := e\<rparr>"
  obtain i ps1 where n: "new_node ?n ps = (i, ps1)" by (cases "new_node ?n ps")
  have "returning (stmt_goes w d c (credit F L m) ps) (entries block T_ENDIF prev i ps1)"
    by (rule entries_after [OF assms(1,2) goes_still [OF fits_goes [OF assms(3)] new_node_still [OF n]] assms(4)])
  then show ?thesis unfolding if_stmt_def Inr sum.case n Let_def prod.case .
qed

lemma choice_object_still:
  "returning (\<lambda>p. still ps (snd p)) (choice_object ts ps)"
proof -
  have n: "still ps (snd (new_choice name ps))" for name by (simp add: new_choice_def)
  show ?thesis
    using n expect_returns(3) [of ps ts] by (auto simp: choice_object_def split_def Let_def split: sum.split option.split)
qed

lemma choice_stmt_goes:
  assumes "returns_block w d S F L k block" "level S m ps" "fits w d c (credit F L m) ps" "need L m (unread_size ps) \<le> k"
  shows "returning (stmt_goes w d c (credit F L m) ps) (choice_stmt block w d p prev ts ps)"
  unfolding choice_stmt_def
proof (rule bind_ps_returning [OF choice_object_still])
  fix ch :: nat and ps1 assume a: "still ps (snd (ch, ps1))"
  define ps2 where "ps2 = ps1\<lparr>choices := choices ps1 @ [ch]\<rparr>"
  obtain i ps3 where n: "new_node (node_here (ICho ch) True p ps2) ps2 = (i, ps3)"
    by (cases "new_node (node_here (ICho ch) True p ps2) ps2")
  have "still ps ps2" using a by (simp add: ps2_def)
  then have s3: "still ps ps3" using new_node_still [OF n] by (simp add: still_def quiet_def same_files_def)
  let ?ps4 = "upd_choice ch (\<lambda>o_c. o_c\<lparr>c_nodes := c_nodes o_c @ [i]\<rparr>) ps3"
  have s: "still ps ?ps4" using s3 by simp
  have "returning (stmt_goes w d c (credit F L m) ps)
      (case parse_props w d i ?ps4 of Inl e \<Rightarrow> Inl e | Inr ps5 \<Rightarrow> entries block T_ENDCHOICE prev i ps5)"
    by (rule returning_bind [OF parse_props_goes [OF still_fits [OF s assms(3)]]
          entries_after [OF assms(1,2) still_goes [OF s] assms(4)]])
  then show "returning (stmt_goes w d c (credit F L m) ps)
       (let ps2 = ps1\<lparr>choices := choices ps1 @ [ch]\<rparr>; (i, ps3) = new_node (node_here (ICho ch) True p ps2) ps2
        in case parse_props w d i (upd_choice ch (\<lambda>o_c. o_c\<lparr>c_nodes := c_nodes o_c @ [i]\<rparr>) ps3) of Inl e \<Rightarrow> Inl e
           | Inr ps4 \<Rightarrow> entries block T_ENDCHOICE prev i ps4)"
    unfolding Let_def ps2_def [symmetric] n prod.case .
qed

lemma mainmenu_stmt_goes:
  assumes "fits w d c f ps" shows "returning (stmt_goes w d c f ps) (mainmenu_stmt prev ts ps)"
proof (cases "expect_str_and_eol ps ts")
  case (Inl e)
  then show ?thesis using expect_returns(3) [of ps ts] by (simp add: mainmenu_stmt_def)
next
  case (Inr t)
  have "goes w d c f ps (upd_node (top_node (conf ps)) (\<lambda>n. n\<lparr>nd_prompt := Some (t, expr_y)\<rparr>) ps)"
    by (rule goes_still [OF fits_goes [OF assms]]) simp
  then show ?thesis using Inr by (simp add: mainmenu_stmt_def stmt_goes_def)
qed

section \<open>Sourced files\<close>

text \<open>
  Before the files, there is room for what they define and for the rest of the including file.
\<close>

lemma source_all_goes:
  assumes "returns_block w d S F L k block" "tree_within w S F L" "need L m L \<le> k"
  shows "level S (Suc m) ps \<Longrightarrow> \<not> reuse_tokens ps \<Longrightarrow> length fs \<le> N \<Longrightarrow>
    room w d c (X + length fs * (L * Suc (credit F L m))) ps \<Longrightarrow>
    returning (\<lambda>p. room w d c X (snd p) \<and> file_lines (snd p) = file_lines ps \<and> \<not> reuse_tokens (snd p) \<and> same_files ps (snd p))
      (source_all block w p fs prev ps)"
proof (induction fs arbitrary: prev ps)
  case Nil
  then show ?case by (simp add: same_files_def)
next
  case (Cons f fs)
  let ?B = "L * Suc (credit F L m)"
  let ?c = "c - 101 * (X + length fs * ?B)"
  show ?case
  proof (cases "enter_file w f ps")
    case (Inl e)
    then have "e \<noteq> RecursionError" by (auto simp: enter_file_def Let_def split: if_splits option.splits)
    then show ?thesis using Inl by simp
  next
    case (Inr ps1)
    obtain m' ls where e: "Suc m = Suc m'" "level S m' ps1" "file_lines ps1 = ls" "length ls \<le> L"
      "variables ps1 = variables ps" "reuse_tokens ps1 = reuse_tokens ps"
      "file_stack ps1 = (include_path ps, file_lines ps) # file_stack ps"
      "include_path ps1 = include_path ps @ [(here_file ps, cur_line ps)]"
      using enter_file_level [OF Inr Cons.prems(1) assms(2)] by metis
    have r: "functions_calm w" "finite (dom (variables ps))"
      "101 * (card (dom (variables ps)) + (X + (?B + length fs * ?B))) < c" "c \<le> d"
      using Cons.prems(4) by (simp_all add: room_def)
    have "length (file_lines ps1) * Suc (credit F L m) \<le> ?B" using e(3,4) by (intro mult_le_mono1) simp
    then have fit: "fits w d ?c (credit F L m) ps1"
      using r e(5,6) Cons.prems(2) by (simp add: fits_def room_def less_diff_conv algebra_simps)
    have "need L m (unread_size ps1) \<le> k"
      using assms(3) e(3,4,6) Cons.prems(2) by (simp add: need_def unread_size_def)
    note b = returns_blockD [OF assms(1) e(2) [unfolded e(1) [symmetric, THEN Suc_inject]] fit this, of None p prev]
    have "returning (\<lambda>q. room w d c X (snd q) \<and> file_lines (snd q) = file_lines ps \<and> \<not> reuse_tokens (snd q) \<and> same_files ps (snd q))
      (bind_ps (block None p prev ps1) (\<lambda>prev' ps2. source_all block w p fs prev' (leave_file ps2)))"
    proof (rule bind_ps_returning [OF b])
      fix y ps2 assume "block_goes w d ?c (credit F L m) ps1 (y, ps2)"
      then have g: "fits w d ?c (credit F L m) ps2" "same_files ps1 ps2" "\<not> reuse_tokens ps2"
        by (simp_all add: block_goes_def goes_def)
      have v: "finite (dom (variables ps2))" "101 * card (dom (variables ps2)) < ?c"
        using g(1) by (auto simp: fits_def room_def)
      then have "101 * (card (dom (variables ps2)) + (X + length fs * ?B)) < c" by (simp add: less_diff_conv algebra_simps)
      moreover note l = leave_file_back [of ps2 "include_path ps" "file_lines ps" "file_stack ps" "here_file ps" "cur_line ps"]
      have s: "file_stack ps2 = (include_path ps, file_lines ps) # file_stack ps"
        "include_path ps2 = include_path ps @ [(here_file ps, cur_line ps)]"
        using g(2) e(7,8) by (simp_all add: same_files_def)
      ultimately have rm: "room w d c (X + length fs * ?B) (leave_file ps2)"
        using r(1,4) v(1) l(5) [OF s] by (simp add: room_def)
      have "cur_file ps \<noteq> None" using Cons.prems(1) by (simp add: level_def)
      then have sf: "same_files ps (leave_file ps2)" using l [OF s] by (auto simp: same_files_def here_file_def)
      have "returning (\<lambda>q. room w d c X (snd q) \<and> file_lines (snd q) = file_lines (leave_file ps2) \<and>
          \<not> reuse_tokens (snd q) \<and> same_files (leave_file ps2) (snd q)) (source_all block w p fs y (leave_file ps2))"
        by (rule Cons.IH [OF level_same [OF Cons.prems(1) sf] _ _ rm]) (use l(6) [OF s] g(3) Cons.prems(3) in simp_all)
      then show "returning (\<lambda>q. room w d c X (snd q) \<and> file_lines (snd q) = file_lines ps \<and> \<not> reuse_tokens (snd q) \<and>
          same_files ps (snd q)) (source_all block w p fs y (leave_file ps2))"
        by (rule returning_weaken) (use l(2) [OF s] sf in \<open>auto simp: same_files_def\<close>)
    qed
    then show ?thesis using Inr by simp
  qed
qed

text \<open>After the line of a statement is read, there is room for the files that it names.\<close>

definition at_line :: "world \<Rightarrow> nat \<Rightarrow> nat \<Rightarrow> nat \<Rightarrow> pstate \<Rightarrow> bool" where
  "at_line w d c f ps \<longleftrightarrow> room w d c (length (file_lines ps) * Suc f + f) ps \<and> \<not> reuse_tokens ps"

lemma at_line_fits: "at_line w d c f ps \<Longrightarrow> fits w d c f ps"
  using room_less [of w d c "length (file_lines ps) * Suc f + f" ps "length (file_lines ps) * Suc f" ps]
  by (simp add: at_line_def fits_def)

lemma source_stmt_goes:
  assumes "returns_block w d S F L k block" "tree_within w S F L" "level S m ps" "at_line w d c (credit F L m) ps"
    and "need L m (unread_size ps) \<le> k"
  shows "returning (stmt_goes w d c (credit F L m) ps) (source_stmt block w p prev t0 ts ps)"
proof -
  let ?f = "credit F L m"
  have a: "returning (stmt_goes w d c ?f ps) (source_all block w p fs prev ps)" if fs: "length fs \<le> F" for fs
  proof (cases m)
    case 0
    have "enter_file w g ps \<noteq> Inr ps'" for g ps' using enter_file_level [OF _ assms(3,2)] 0 by blast
    moreover have "e \<noteq> RecursionError" if "enter_file w g ps = Inl e" for g e
      using that by (auto simp: enter_file_def Let_def split: if_splits option.splits)
    ultimately show ?thesis
      using fits_goes [OF at_line_fits [OF assms(4)]] by (cases fs; cases "enter_file w (hd fs) ps") (auto simp: stmt_goes_def)
  next
    case (Suc m')
    have k: "need L m' L \<le> k" using assms(5) Suc by (simp add: need_def)
    have "length fs * (L * Suc (credit F L m')) \<le> ?f" unfolding Suc credit.simps by (rule mult_le_mono1 [OF fs])
    then have r: "room w d c (length (file_lines ps) * Suc ?f + length fs * (L * Suc (credit F L m'))) ps"
      using room_less [of w d c "length (file_lines ps) * Suc ?f + ?f" ps] assms(4) by (simp add: at_line_def)
    have u: "\<not> reuse_tokens ps" using assms(4) by (simp add: at_line_def)
    show ?thesis
    proof (rule returning_weaken [OF source_all_goes [OF assms(1,2) k assms(3) [unfolded Suc] u le_refl r]])
      fix q :: "nat \<times> pstate" assume q: "room w d c (length (file_lines ps) * Suc ?f) (snd q) \<and> file_lines (snd q) = file_lines ps \<and>
        \<not> reuse_tokens (snd q) \<and> same_files ps (snd q)"
      then show "stmt_goes w d c ?f ps q" using u by (simp add: stmt_goes_def goes_def fits_def unread_size_def)
    qed
  qed
  show ?thesis
  proof (cases "expect_str_and_eol ps ts")
    case (Inl e)
    then show ?thesis using expect_returns(3) [of ps ts] by (simp add: source_stmt_def)
  next
    case (Inr pattern)
    have "returning (\<lambda>fs. length fs \<le> F) (source_files w t0 q ps)" for q
      using assms(2) by (simp add: source_files_def Let_def tree_within_def)
    from returning_bind [OF this a] show ?thesis using Inr by (simp add: source_stmt_def)
  qed
qed

lemma statement_goes:
  assumes "returns_block w d S F L k block" "tree_within w S F L" "level S m ps" "at_line w d c (credit F L m) ps"
    and "need L m (unread_size ps) \<le> k"
  shows "returning (stmt_goes w d c (credit F L m) ps) (statement block w d p prev t0 ts ps)"
proof -
  note fit = at_line_fits [OF assms(4)]
  show ?thesis
    unfolding statement_def
    by (simp add: source_stmt_goes [OF assms] config_stmt_goes [OF fit] comment_stmt_goes [OF fit] mainmenu_stmt_goes [OF fit]
        if_stmt_goes [OF assms(1,3) fit assms(5)] menu_stmt_goes [OF assms(1,3) fit assms(5)] choice_stmt_goes [OF assms(1,3) fit assms(5)])
qed

section \<open>Blocks and files\<close>

lemma parse_block_returns:
  assumes "tree_within w S F L" shows "returns_block w d S F L k (parse_block w d k)"
proof (induction k)
  case 0
  show ?case by (simp add: returns_block_def need_def)
next
  case (Suc k)
  show ?case unfolding returns_block_def
  proof (intro allI impI)
    fix m c e p prev ps
    let ?f = "credit F L m"
    assume l: "level S m ps" and f: "fits w d c ?f ps" and n: "need L m (unread_size ps) \<le> Suc k"
    note nl = next_line_fits [OF f]
    show "returning (block_goes w d c ?f ps) (parse_block w d (Suc k) e p prev ps)"
    proof (cases "next_line w d ps")
      case (Inl x)
      then show ?thesis using nl by simp
    next
      case (Inr q)
      obtain b ps1 where q: "q = (b, ps1)" by (cases q)
      have sf: "same_files ps ps1" using files.next_line_frame [of w d ps b ps1] Inr q fits_calm [OF f] by blast
      have u: "\<not> reuse_tokens ps1" using nl Inr q by simp
      show ?thesis
      proof (cases b)
        case False
        then have "block_goes w d c ?f ps (prev, ps1)" using nl Inr q sf by (simp add: block_goes_def goes_def)
        then show ?thesis using Inr q False by (simp add: end_of_file_def split: option.split)
      next
        case True
        have a: "at_line w d c ?f ps1" and s: "unread_size ps1 < unread_size ps" using nl Inr q True by (simp_all add: at_line_def)
        have g: "goes w d c ?f ps ps1" using at_line_fits [OF a] s sf by (simp add: goes_def)
        have k: "need L m (unread_size ps1) \<le> k" using n s by (simp add: need_def)
        have l1: "level S m ps1" by (rule level_same [OF l sf])
        have go: "returning (block_goes w d c ?f ps) (parse_block w d k e p y ps2)" if "goes w d c ?f ps1 ps2" for y ps2
        proof -
          have "level S m ps2" "fits w d c ?f ps2" "need L m (unread_size ps2) \<le> k"
            using that k level_same [OF l1] by (auto simp: goes_def need_def)
          from returns_blockD [OF Suc.IH this] show ?thesis
            by (rule returning_weaken) (use goes_trans [OF goes_trans [OF g that]] in \<open>auto simp: block_goes_def\<close>)
        qed
        have st: "returning (block_goes w d c ?f ps)
            (bind_ps (statement (parse_block w d k) w d p prev t0 ts ps1) (parse_block w d k e p))" for t0 ts
          by (rule bind_ps_returning [OF statement_goes [OF Suc.IH assms l1 a k] go]) (simp add: stmt_goes_def)
        have en: "block_goes w d c ?f ps (prev, upd_node prev (\<lambda>n. n\<lparr>nd_next := None\<rparr>) ps1)"
        proof -
          have "\<not> reuse_tokens (upd_node prev (\<lambda>n. n\<lparr>nd_next := None\<rparr>) ps1)" using u by (simp add: upd_node_def)
          moreover have "goes w d c ?f ps (upd_node prev (\<lambda>n. n\<lparr>nd_next := None\<rparr>) ps1)" by (rule goes_still [OF g]) simp
          ultimately show ?thesis by (simp add: block_goes_def)
        qed
        have "returning (block_goes w d c ?f ps) (parse_block w d k e p prev ps1)"
          by (rule go) (rule fits_goes [OF at_line_fits [OF a]])
        then show ?thesis using Inr q True st en by (simp split: list.split tok.split)
      qed
    qed
  qed
qed

text \<open>
  Parsing returns: for files with names in \<open>S\<close>, of at most \<open>L\<close> lines, and patterns that name at most
  \<open>F\<close> of them, no matter how they source each other.
\<close>

lemma parse_files_returns:
  assumes "functions_calm w" "tree_within w S F L" "fname \<in> S"
    and "101 * (L * Suc (credit F L (card S))) < d" "(card S + 1) * (L + 1) \<le> k"
  shows "parse_files w d k fname wrn \<noteq> Inl RecursionError"
proof (cases "read_file w (path_join (srctree_dir w) fname)")
  case (Some ls)
  let ?ps = "start_parser w fname wrn ls" and ?m = "card S"
  have l: "length ls \<le> L" using assms(2) Some by (auto simp: tree_within_def)
  have p: "variables ?ps = Map.empty" "file_lines ?ps = ls" "\<not> reuse_tokens ?ps" "include_path ?ps = []" "cur_file ?ps = Some fname"
    by (simp_all add: start_parser_def lookup_sym_def Let_def put_sym_def empty_config_def)
  have "level S ?m ?ps" using assms(3) p(4,5) by (simp add: level_def open_files_def here_file_def)
  moreover have "length ls * Suc (credit F L ?m) \<le> L * Suc (credit F L ?m)" by (rule mult_le_mono1 [OF l])
  then have "fits w d d (credit F L ?m) ?ps" using assms(1,4) p(1-3) by (simp add: fits_def room_def)
  moreover have "need L ?m (unread_size ?ps) \<le> k" using assms(5) l p(2,3) by (simp add: need_def unread_size_def)
  ultimately have "returning (block_goes w d d (credit F L ?m) ?ps) (parse_block w d k None 0 0 ?ps)"
    by (rule returns_blockD [OF parse_block_returns [OF assms(2)]])
  then show ?thesis using Some by (auto simp: parse_files_def returning_iff split: sum.splits)
qed (simp add: parse_files_def)

end
