(* ===== verification/Init_Returns.thy ===== *)
theory Init_Returns
  imports Init_Values Block_Returns
begin

text \<open>
  The constructor returns: parsing does, the menu is a tree that finalisation walks within its
  bound, the checks raise errors of their own only, and the search for dependency loops is no
  deeper than there are items.
\<close>

section \<open>The checks return\<close>

lemma try_each_returns:
  assumes "\<And>x st. f x st \<noteq> Inl RecursionError" shows "try_each f xs st \<noteq> Inl RecursionError"
proof (induction xs arbitrary: st)
  case (Cons x xs)
  then show ?case using assms [of x st] by (auto split: sum.splits)
qed simp

lemma map_sum_returns: "map_sum id f r \<noteq> Inl RecursionError \<longleftrightarrow> r \<noteq> Inl RecursionError"
  by (cases r) simp_all

lemma check_default_returns: "check_default kc s d st \<noteq> Inl RecursionError"
  by (auto simp: check_default_def Let_def split: expr.split sc.split)

lemma check_sym_returns: "check_sym kc s st \<noteq> Inl RecursionError"
  using try_each_returns [of "check_default kc s", OF check_default_returns]
  unfolding check_sym_def Let_def map_sum_returns by (simp add: map_sum_returns)

lemma select_imply_lines_returns: "select_imply_lines kc sis \<noteq> Inl RecursionError"
  by (induction sis) (auto simp: map_sum_returns split: expr.split)

lemma warn_select_imply_returns: "warn_select_imply kc s e ty st \<noteq> Inl RecursionError"
  unfolding warn_select_imply_def map_sum_returns by (rule select_imply_lines_returns)

lemma check_choice_default_returns: "check_choice_default kc c d st \<noteq> Inl RecursionError"
  by (auto simp: check_choice_default_def split: expr.split sc.split)

lemma check_choice_node_returns: "check_choice_node kc c s i st \<noteq> Inl RecursionError"
  by (auto simp: check_choice_node_def Let_def split: option.split)

lemma case_returns:
  assumes "r \<noteq> Inl RecursionError" "\<And>a. g a \<noteq> Inl RecursionError"
  shows "(case r of Inl e \<Rightarrow> Inl e | Inr a \<Rightarrow> g a) \<noteq> Inl RecursionError"
  using assms by (cases r) simp_all

lemma if_returns: "r \<noteq> Inl RecursionError \<Longrightarrow> (if b then r else Inr st) \<noteq> Inl RecursionError"
  by simp

lemma check_choice_sym_returns: "check_choice_sym kc c s st \<noteq> Inl RecursionError"
  unfolding check_choice_sym_def Let_def
  by (rule case_returns [OF if_returns [OF warn_select_imply_returns]],
      rule case_returns [OF if_returns [OF warn_select_imply_returns]],
      rule try_each_returns [OF check_choice_node_returns])

lemma check_choice_returns: "check_choice kc c st \<noteq> Inl RecursionError"
  unfolding check_choice_def Let_def
  by (rule case_returns [OF try_each_returns [OF check_choice_default_returns]],
      rule try_each_returns [OF check_choice_sym_returns])

lemma check_configuration_returns:
  assumes "node_iter kc k False = Some ns" shows "check_configuration w k names kc st \<noteq> Inl RecursionError"
proof -
  have "(case check_sym_sanity kc st of Inl e \<Rightarrow> Inl e
      | Inr st1 \<Rightarrow> (case check_choice_sanity kc st1 of Inl e \<Rightarrow> Inl e
          | Inr st2 \<Rightarrow> if warn_undef w then Inr (check_undef_syms kc names ns st2) else Inr st2)) \<noteq> Inl RecursionError"
    unfolding check_sym_sanity_def check_choice_sanity_def
    by (rule case_returns [OF try_each_returns [OF check_sym_returns]],
        rule case_returns [OF try_each_returns [OF check_choice_returns]]) simp
  then show ?thesis by (simp only: check_configuration_def assms option.case not_False_eq_True)
qed

section \<open>The search for loops returns\<close>

lemma registered_closed:
  assumes r: "registered (set (unique_defined_syms kc)) (set (unique_choices kc)) kc"
  shows "closed_items (build_dep kc)"
proof -
  note e = conjunct1 [OF build_dep_extends [of kc]]
  note f = extends_fields [OF e]
  have "deps_inside (build_dep kc)"
    using extends_deps(2) [OF e] registered_rules(8) [OF r] f(1) by (simp add: deps_inside_def)
  moreover have "Cho c \<in> all_items kc" if "choice (sym_obj kc s) = Some c" for s c
    using registered_rules(9) [OF r that] by (simp add: all_items_def)
  moreover have "Sym ` set (c_syms (choicetab kc c)) \<subseteq> all_items kc" for c
    using registered_rules(11) [OF r, of c] by (auto simp: all_items_def)
  ultimately show ?thesis using f(1,7,14) by (simp add: closed_items_def)
qed

lemma card_all_items: "card (all_items kc) \<le> length (unique_defined_syms kc) + length (unique_choices kc)"
proof -
  have "card (all_items kc) \<le> card (Sym ` set (unique_defined_syms kc)) + card (Cho ` set (unique_choices kc))"
    unfolding all_items_def by (rule card_Un_le)
  moreover have "card (Sym ` set (unique_defined_syms kc)) \<le> length (unique_defined_syms kc)"
    using card_image_le [of "set (unique_defined_syms kc)" Sym] card_length [of "unique_defined_syms kc"] by simp
  moreover have "card (Cho ` set (unique_choices kc)) \<le> length (unique_choices kc)"
    using card_image_le [of "set (unique_choices kc)" Cho] card_length [of "unique_choices kc"] by simp
  ultimately show ?thesis by simp
qed

lemma dependencies_returns:
  assumes "registered (set (unique_defined_syms kc)) (set (unique_choices kc)) kc"
  shows "dependencies kc \<noteq> Inl RecursionError"
proof -
  let ?kc1 = "build_dep kc"
  have "check_all ?kc1 (Suc (length (unique_defined_syms ?kc1) + length (unique_choices ?kc1)))
      (unique_defined_syms ?kc1) (\<lambda>_. 0) \<noteq> Inl RecursionError"
    by (rule check_all_depth [OF closed_calls [OF registered_closed [OF assms]]])
      (use card_all_items [of ?kc1] in \<open>auto simp: all_items_def less_Suc_eq_le\<close>)
  then show ?thesis by (auto simp: dependencies_def check_dep_loops_def Let_def split: sum.splits)
qed

section \<open>The constructor\<close>

lemma functions_safe_menu: "functions_safe w \<Longrightarrow> menu_safe w"
  unfolding functions_safe_def menu_safe_def by (metis (no_types, lifting))

text \<open>
  C3. The constructor returns, with a configuration or with an error of the files, for files with
  names in \<open>S\<close>, of at most \<open>L\<close> lines, and patterns that name at most \<open>F\<close> of them, no matter how they
  source each other. A sufficient bound for blocks is the number of lines of all files nested in
  each other, a sufficient depth for macros 101 for every line that can be read. Finalisation and
  the search for dependency loops stay within their bounds, and so does the walk over the menu
  that looks for undefined symbols.
\<close>

theorem initialisation_returns:
  assumes "functions_calm w" "functions_safe w" "tree_within w S F L" "fname \<in> S"
    and "101 * (L * Suc (credit F L (card S))) < d" "(card S + 1) * (L + 1) \<le> k"
  shows "kconfig_init w d k fname wrn \<noteq> Inl RecursionError"
proof -
  have p: "parse_files w d k fname wrn \<noteq> Inl RecursionError"
    by (rule parse_files_returns [OF assms(1,3-6)])
  note safe = functions_safe_menu [OF assms(2)]
  have "finalize_menu ps \<noteq> None" if "parse_files w d k fname wrn = Inr ps" for ps
    using finalize_menu_parsed [OF safe that] by auto
  moreover have "check_configuration w (2 * next_node ps + 3) names (register_items ps kc) st \<noteq> Inl RecursionError"
    if ps: "parse_files w d k fname wrn = Inr ps" "finalize_menu ps = Some kc" for ps kc names st
    by (rule check_configuration_returns, rule trans [OF node_iter_cong node_iter_parsed [OF safe ps]])
      (simp_all add: register_items_def)
  moreover have "dependencies (register_items ps kc) \<noteq> Inl RecursionError"
    if ps: "parse_files w d k fname wrn = Inr ps" "finalize_menu ps = Some kc" for ps kc
    by (rule dependencies_returns [OF registered_init [OF assms(2) ps]])
  ultimately show ?thesis
    using p unfolding kconfig_init_def Let_def
    by (auto simp: map_sum_returns split: sum.splits option.splits)
qed

end
