(* ===== verification/Init_Value_Examples.thy ===== *)
theory Init_Value_Examples
  imports Init_Examples Init_Returns
begin

text \<open>
  The theorems that lead from the Kconfig files to the values, on small trees of files: one is
  parsed, a symbol is read, set and read again.
\<close>

section \<open>The constructor returns\<close>

lemma k_tree: "tree_within k_world {''Kconfig'', ''sub''} 1 17"
  by (auto simp: tree_within_def known_as_def srctree_prefix_def k_world_def k_read_def k_glob_def k_lines_def
      sub_lines_def k_realpath_def startswith_def split: if_splits)

lemma initialisation_returns_witness:
  "kconfig_init k_world 600000 54 ''Kconfig'' True \<noteq> Inl RecursionError"
proof (rule initialisation_returns [OF _ _ k_tree])
  show "functions_calm k_world" by (simp add: functions_calm_def k_world_def k_functions_def)
  show "functions_safe k_world" by (simp add: functions_safe_def k_world_def k_functions_def)
  show "101 * (17 * Suc (credit 1 17 (card {''Kconfig'', ''sub''}))) < 600000" by (simp add: numeral_2_eq_2)
qed simp_all

section \<open>Values of a choice\<close>

text \<open>A choice of two symbols; the first is read, the second set, and both are read again.\<close>

definition p_lines :: "string list" where
  "p_lines =
     [ln ''choice'', ln ('' prompt '' @ in_quotes ''pick''), ln ''config X'', ln ('' bool '' @ in_quotes ''x''),
      ln ''config Y'', ln ('' bool '' @ in_quotes ''y''), ln ''endchoice'']"

definition p_read :: "string \<Rightarrow> string list option" where
  "p_read f = (if f = ''Kconfig'' then Some p_lines else None)"

definition p_world :: world where
  "p_world =
     \<lparr>environ = k_environ, uname_release = [], shell = k_shell, user_functions = k_functions, read_file = p_read,
      iglob = k_glob, realpath = k_realpath\<rparr>"

definition read_set_all :: "kconfig \<Rightarrow> kstate \<Rightarrow> (exn + val) list option" where
  "read_set_all kc st =
     (case sym_set_value kc 20 (nsym ''Y'') (VTri TY) (snd (get kc 20 (QTri (nsym ''X'')) st)) of
        Inl e \<Rightarrow> None
      | Inr (b, st2) \<Rightarrow>
          Some [fst (get kc 20 (QTri (nsym ''X'')) st2), fst (get kc 20 (QTri (nsym ''Y'')) st2),
            pure kc (usr st2) 20 (QTri (nsym ''X''))])"

lemma read_set_allE:
  assumes "read_set_all kc st = Some [x, y, v]"
  obtains b st2 where "(step kc)\<^sup>*\<^sup>* st st2" "fst (get kc 20 (QTri (nsym ''X'')) st2) = x"
    "fst (get kc 20 (QTri (nsym ''Y'')) st2) = y" "pure kc (usr st2) 20 (QTri (nsym ''X'')) = v"
    "sym_set_value kc 20 (nsym ''Y'') (VTri TY) (snd (get kc 20 (QTri (nsym ''X'')) st)) = Inr (b, st2)"
proof -
  obtain r1 st1 where g: "get kc 20 (QTri (nsym ''X'')) st = (r1, st1)" by (cases "get kc 20 (QTri (nsym ''X'')) st")
  obtain b st2 where s: "sym_set_value kc 20 (nsym ''Y'') (VTri TY) st1 = Inr (b, st2)"
    and v: "fst (get kc 20 (QTri (nsym ''X'')) st2) = x" "fst (get kc 20 (QTri (nsym ''Y'')) st2) = y"
      "pure kc (usr st2) 20 (QTri (nsym ''X'')) = v"
    using assms g by (auto simp: read_set_all_def split: sum.splits)
  have "step kc st st1" "step kc st1 st2" by (rule step.read [OF g], rule step.set_sym [OF s])
  then have "(step kc)\<^sup>*\<^sup>* st st2" by simp
  then show thesis using that v s g by simp
qed

lemma p_values:
  "map_sum id (\<lambda>ps. (choices_plain (conf ps), read_set_all (conf ps) (out ps))) (kconfig_init p_world 1 30 ''Kconfig'' True) =
   Inr (True, Some [Inr (VT TN), Inr (VT TY), Inr (VT TN)])"
  by code_simp

lemma initialised_caching_witness:
  "\<exists>ps b st r st'. kconfig_init p_world 1 30 ''Kconfig'' True = Inr ps \<and>
     sym_set_value (conf ps) 20 (nsym ''Y'') (VTri TY) (snd (get (conf ps) 20 (QTri (nsym ''X'')) (out ps))) = Inr (b, st) \<and>
     get (conf ps) 20 (QTri (nsym ''X'')) st = (Inr r, st') \<and> r = VT TN"
proof -
  let ?q = "QTri (nsym ''X'')"
  obtain ps where ps: "kconfig_init p_world 1 30 ''Kconfig'' True = Inr ps" "choices_plain (conf ps)"
    and v: "read_set_all (conf ps) (out ps) = Some [Inr (VT TN), Inr (VT TY), Inr (VT TN)]"
    using p_values by (cases "kconfig_init p_world 1 30 ''Kconfig'' True") auto
  obtain b st where st: "(step (conf ps))\<^sup>*\<^sup>* (out ps) st" "fst (get (conf ps) 20 ?q st) = Inr (VT TN)"
    "pure (conf ps) (usr st) 20 ?q = Inr (VT TN)"
    "sym_set_value (conf ps) 20 (nsym ''Y'') (VTri TY) (snd (get (conf ps) 20 ?q (out ps))) = Inr (b, st)"
    using read_set_allE [OF v] by metis
  obtain r st' where g: "get (conf ps) 20 ?q st = (Inr r, st')"
    using st(2) by (cases "get (conf ps) 20 ?q st") auto
  have "functions_safe p_world" by (simp add: functions_safe_def p_world_def k_functions_def)
  then have "r = VT TN" using initialised_caching [OF _ ps st(1) g st(3)] by simp
  then show ?thesis using ps(1) g st(4) by blast
qed

section \<open>No read fails\<close>

definition b_lines :: "string list" where
  "b_lines = [ln ''config A'', ln ('' bool '' @ in_quotes ''a''), ln ''config B'', ln '' bool'', ln '' default y if A'']"

definition b_read :: "string \<Rightarrow> string list option" where
  "b_read f = (if f = ''Kconfig'' then Some b_lines else None)"

definition b_world :: world where
  "b_world =
     \<lparr>environ = k_environ, uname_release = [], shell = k_shell, user_functions = k_functions, read_file = b_read,
      iglob = k_glob, realpath = k_realpath\<rparr>"

definition no_choice_item :: "sc \<Rightarrow> bool" where
  "no_choice_item x = (case x of Sym s \<Rightarrow> True | Cho c \<Rightarrow> False)"

lemma choice_free_code [code]:
  "choice_free kc \<longleftrightarrow> unique_choices kc = [] \<and>
     (\<forall>s \<in> set (unique_defined_syms kc). \<forall>e \<in> set (sym_exprs kc s). \<forall>x \<in> expr_items e. no_choice_item x)"
  unfolding choice_free_def no_choice_item_def by (auto split: sc.splits; blast)

lemma b_plain:
  "map_sum id (\<lambda>ps. (choice_free (conf ps), modules_plain (conf ps))) (kconfig_init b_world 1 30 ''Kconfig'' True) =
     Inr (True, True)"
  by code_simp

lemma initialised_reads_witness:
  "\<exists>ps m. kconfig_init b_world 1 30 ''Kconfig'' True = Inr ps \<and>
     (\<forall>q. \<exists>v st'. get (conf ps) m q (out ps) = (Inr v, st'))"
proof -
  obtain ps where ps: "kconfig_init b_world 1 30 ''Kconfig'' True = Inr ps" "choice_free (conf ps)" "modules_plain (conf ps)"
    using b_plain by (cases "kconfig_init b_world 1 30 ''Kconfig'' True") auto
  have "functions_safe b_world" by (simp add: functions_safe_def b_world_def k_functions_def)
  from initialised_reads [OF this ps] obtain m where
    "\<forall>st q. (step (conf ps))\<^sup>*\<^sup>* (out ps) st \<longrightarrow> (\<exists>v st'. get (conf ps) m q st = (Inr v, st'))" by blast
  then have "\<forall>q. \<exists>v st'. get (conf ps) m q (out ps) = (Inr v, st')" by simp
  then show ?thesis using ps(1) by blast
qed

section \<open>A stale choice symbol\<close>

text \<open>A symbol of a choice whose only prompt stands outside the choice: no property of it mentions the choice.\<close>

definition c_lines :: "string list" where
  "c_lines =
     [ln ''choice'', ln ('' prompt '' @ in_quotes ''pick''), ln ''config X'', ln '' bool'', ln ''config Y'',
      ln ('' bool '' @ in_quotes ''y''), ln ''endchoice'', ln ''config X'', ln ('' bool '' @ in_quotes ''x'')]"

definition c_read :: "string \<Rightarrow> string list option" where
  "c_read f = (if f = ''Kconfig'' then Some c_lines else None)"

definition c_world :: world where
  "c_world =
     \<lparr>environ = k_environ, uname_release = [], shell = k_shell, user_functions = k_functions, read_file = c_read,
      iglob = k_glob, realpath = k_realpath\<rparr>"

lemma c_values:
  "map_sum id (\<lambda>ps. read_set_all (conf ps) (out ps)) (kconfig_init c_world 1 30 ''Kconfig'' True) =
   Inr (Some [Inr (VT TY), Inr (VT TY), Inr (VT TN)])"
  by code_simp

text \<open>
  C38. A choice symbol without a prompt in its choice, and with one outside, does not depend on the
  choice: it keeps its cached value when another symbol of the choice is selected. After the
  constructor, one read and one assignment, two symbols of a choice are y; computed from scratch
  the first is n.
\<close>

theorem stale_choice_symbol:
  "\<exists>ps st. kconfig_init c_world 1 30 ''Kconfig'' True = Inr ps \<and> (step (conf ps))\<^sup>*\<^sup>* (out ps) st \<and>
     fst (get (conf ps) 20 (QTri (nsym ''X'')) st) = Inr (VT TY) \<and>
     fst (get (conf ps) 20 (QTri (nsym ''Y'')) st) = Inr (VT TY) \<and>
     pure (conf ps) (usr st) 20 (QTri (nsym ''X'')) = Inr (VT TN)"
proof -
  obtain ps where ps: "kconfig_init c_world 1 30 ''Kconfig'' True = Inr ps"
    "read_set_all (conf ps) (out ps) = Some [Inr (VT TY), Inr (VT TY), Inr (VT TN)]"
    using c_values by (cases "kconfig_init c_world 1 30 ''Kconfig'' True") auto
  then show ?thesis by (meson read_set_allE)
qed

end
