(* ===== verification/Object_Repr.thy ===== *)
theory Object_Repr
  imports Flags Node_Str Reader
begin

text \<open>
  The texts that show objects at the interactive prompt, the \<^verbatim>\<open>__repr__\<close> methods, and the
  properties of symbols and choices that collect those of their menu nodes. Showing an object
  reads attributes, so it computes and caches values.
\<close>

section \<open>Properties collected from the menu nodes\<close>

definition sc_referenced :: "kconfig \<Rightarrow> sc \<Rightarrow> sc set" where
  "sc_referenced kc x = (\<Union>i \<in> set (sc_nodes kc x). referenced (nodetab kc i))"

definition sc_orig_defaults :: "kconfig \<Rightarrow> sc \<Rightarrow> (expr \<times> expr) list" where
  "sc_orig_defaults kc x = concat (map (\<lambda>i. orig_defaults (nodetab kc i)) (sc_nodes kc x))"

definition sym_orig_selects :: "kconfig \<Rightarrow> sref \<Rightarrow> (sref \<times> expr) list" where
  "sym_orig_selects kc s = concat (map (\<lambda>i. orig_selects (nodetab kc i)) (nodes (sym_obj kc s)))"

definition sym_orig_implies :: "kconfig \<Rightarrow> sref \<Rightarrow> (sref \<times> expr) list" where
  "sym_orig_implies kc s = concat (map (\<lambda>i. orig_implies (nodetab kc i)) (nodes (sym_obj kc s)))"

definition sym_orig_ranges :: "kconfig \<Rightarrow> sref \<Rightarrow> (sref \<times> sref \<times> expr) list" where
  "sym_orig_ranges kc s = concat (map (\<lambda>i. orig_ranges (nodetab kc i)) (nodes (sym_obj kc s)))"

section \<open>Fields of a text\<close>

definition dquoted :: "string \<Rightarrow> string" where
  "dquoted t = [CHR 0x22] @ t @ [CHR 0x22]"

definition in_angles :: "string list \<Rightarrow> string" where
  "in_angles fs = ''<'' @ join_with '', '' fs @ ''>''"

definition when_field :: "bool \<Rightarrow> string \<Rightarrow> string list" where
  "when_field b t = (if b then [t] else [])"

definition prompt_texts :: "kconfig \<Rightarrow> nat list \<Rightarrow> string list" where
  "prompt_texts kc ns =
     concat (map (\<lambda>i. case nd_prompt (nodetab kc i) of None \<Rightarrow> [] | Some (t, _) \<Rightarrow> [dquoted t]) ns)"

definition node_locs :: "kconfig \<Rightarrow> nat list \<Rightarrow> string list" where
  "node_locs kc ns = map (\<lambda>i. node_loc (nodetab kc i)) ns"

section \<open>Symbols\<close>

definition shown_user_value :: "ktype \<Rightarrow> uval option \<Rightarrow> string list prog" where
  "shown_user_value ty v =
     (case v of
        None \<Rightarrow> Ret []
      | Some (VTri t) \<Rightarrow>
          Ret [''user value '' @ (if ty \<in> BOOL_TRISTATE then TRI_TO_STR t else dquoted (py_str (int_of_tri t)))]
      | Some (VStr w) \<Rightarrow>
          if ty \<in> BOOL_TRISTATE then Raise KeyError else Ret [''user value '' @ dquoted w])"

definition sym_state_fields :: "kconfig \<Rightarrow> user_state \<Rightarrow> sref \<Rightarrow> string list prog" where
  "sym_state_fields kc u s =
     (let o_s = sym_obj kc s
      in bindp (shown_user_value (orig_type o_s) (user_value u s)) (\<lambda>uv.
         bindp (rd_vis (Sym s)) (\<lambda>vis.
         bindp (expr_value kc u (direct_dep o_s)) (\<lambda>dv.
           Ret (uv @ [''visibility '' @ TRI_TO_STR vis] @
                when_field (choice o_s \<noteq> None) ''choice symbol'' @
                when_field (is_allnoconfig_y o_s) ''allnoconfig_y'' @
                when_field (defconfig_list kc = Some s) ''is the defconfig_list symbol'' @
                (case env_var o_s of None \<Rightarrow> [] | Some v \<Rightarrow> [''from environment variable '' @ v]) @
                when_field (s = modules) ''is the modules symbol'' @
                [''direct deps '' @ TRI_TO_STR dv])))))"

definition sym_repr :: "kconfig \<Rightarrow> user_state \<Rightarrow> sref \<Rightarrow> string prog" where
  "sym_repr kc u s =
     (let o_s = sym_obj kc s
      in bindp (sym_type kc u s) (\<lambda>ty.
         bindp (rd_str s) (\<lambda>v.
         bindp (if is_constant s then Ret [] else sym_state_fields kc u s) (\<lambda>fs.
           Ret (in_angles
             ([''symbol '' @ sym_name s, TYPE_TO_STR ty] @ prompt_texts kc (nodes o_s) @
              [''value '' @ (if orig_type o_s \<in> BOOL_TRISTATE then v else dquoted v)] @ fs @
              (if nodes o_s \<noteq> [] then node_locs kc (nodes o_s)
               else [if is_constant s then ''constant'' else ''undefined''])))))))"

section \<open>Choices\<close>

text \<open>Each access to \<^verbatim>\<open>self.selection\<close> is a read.\<close>

definition selected_field :: "nat \<Rightarrow> string list prog" where
  "selected_field c =
     bindp (rd_sel c) (\<lambda>sel.
       if sel = None then Ret []
       else bindp (rd_sel c) (\<lambda>sel.
              case sel of None \<Rightarrow> Raise AttributeError | Some s \<Rightarrow> Ret [sym_name s @ '' selected'']))"

definition user_selected_field :: "user_state \<Rightarrow> nat \<Rightarrow> string list prog" where
  "user_selected_field u c =
     (case user_selection u c of
        None \<Rightarrow> Ret []
      | Some s \<Rightarrow>
          bindp (rd_sel c) (\<lambda>sel.
            Ret [sym_name s @ '' selected by user'' @ (if sel \<noteq> Some s then '' (overridden)'' else [])]))"

definition choice_repr :: "kconfig \<Rightarrow> user_state \<Rightarrow> nat \<Rightarrow> string prog" where
  "choice_repr kc u c =
     (let o_c = choicetab kc c
      in bindp (choice_type kc c) (\<lambda>ty.
         bindp (choice_str kc u c) (\<lambda>mode.
         bindp (selected_field c) (\<lambda>sel.
         bindp (user_selected_field u c) (\<lambda>usel.
         bindp (rd_vis (Cho c)) (\<lambda>vis.
           Ret (in_angles
             ([case c_name o_c of None \<Rightarrow> ''choice'' | Some n \<Rightarrow> if n = [] then ''choice'' else ''choice '' @ n,
               TYPE_TO_STR ty] @
              prompt_texts kc (c_nodes o_c) @ [''mode '' @ mode] @
              (case c_user_value u c of None \<Rightarrow> [] | Some t \<Rightarrow> [''user mode '' @ TRI_TO_STR t]) @
              sel @ usel @ [''visibility '' @ TRI_TO_STR vis] @
              when_field (is_optional o_c) ''optional'' @ node_locs kc (c_nodes o_c)))))))))"

section \<open>Menu nodes\<close>

definition node_kind :: "kconfig \<Rightarrow> node_item \<Rightarrow> string" where
  "node_kind kc it =
     (case it of
        ISym s \<Rightarrow> ''menu node for symbol '' @ sym_name s
      | ICho c \<Rightarrow>
          ''menu node for choice'' @ (case c_name (choicetab kc c) of None \<Rightarrow> [] | Some n \<Rightarrow> '' '' @ n)
      | IMenu \<Rightarrow> ''menu node for menu''
      | _ \<Rightarrow> ''menu node for comment'')"

definition node_prompt_field :: "kconfig \<Rightarrow> user_state \<Rightarrow> menu_node \<Rightarrow> string list prog" where
  "node_prompt_field kc u nd =
     (case nd_prompt nd of
        None \<Rightarrow> Ret []
      | Some (t, c) \<Rightarrow>
          bindp (expr_value kc u c) (\<lambda>v. Ret [''prompt '' @ dquoted t @ '' (visibility '' @ TRI_TO_STR v @ '')'']))"

definition node_repr :: "kconfig \<Rightarrow> user_state \<Rightarrow> nat \<Rightarrow> string prog" where
  "node_repr kc u i =
     (let nd = nodetab kc i; is_sym = (case item nd of ISym s \<Rightarrow> True | _ \<Rightarrow> False)
      in bindp (node_prompt_field kc u nd) (\<lambda>p.
         bindp (expr_value kc u (dep nd)) (\<lambda>d.
         bindp (if item nd = IMenu
                then bindp (expr_value kc u (nd_visibility nd)) (\<lambda>v. Ret [[CHR 0x27] @ ''visible if'' @ [CHR 0x27] @ '' deps '' @ TRI_TO_STR v])
                else Ret []) (\<lambda>vis.
           Ret (in_angles
             ([node_kind kc (item nd)] @ p @ when_field (is_sym \<and> is_menuconfig nd) ''is menuconfig'' @
              [''deps '' @ TRI_TO_STR d] @ vis @
              when_field (item_sc (item nd) \<noteq> None \<and> nd_help nd \<noteq> None) ''has help'' @
              when_field (nd_list nd \<noteq> None) ''has child'' @ when_field (nd_next nd \<noteq> None) ''has next'' @
              [node_loc nd]))))))"

section \<open>The configuration and variables\<close>

definition status :: "bool \<Rightarrow> string" where
  "status flag = (if flag then ''enabled'' else ''disabled'')"

text \<open>The text of the main menu's prompt; there is always one.\<close>

definition mainmenu_text :: "kconfig \<Rightarrow> exn + string" where
  "mainmenu_text kc =
     (case nd_prompt (nodetab kc (top_node kc)) of None \<Rightarrow> Inl TypeError | Some (t, _) \<Rightarrow> Inr t)"

text \<open>\<open>to_stderr\<close> is the flag \<^verbatim>\<open>warn_to_stderr\<close>.\<close>

definition kconfig_repr :: "world \<Rightarrow> bool \<Rightarrow> pstate \<Rightarrow> exn + string" where
  "kconfig_repr w to_stderr ps =
     map_sum id (\<lambda>menu.
       in_angles
         [''configuration with '' @ py_str (int (length (syms_keys ps))) @ '' symbols'',
          ''main menu prompt '' @ dquoted menu,
          (if srctree_dir w = [] then ''srctree is current directory'' else ''srctree '' @ dquoted (srctree_dir w)),
          ''config symbol prefix '' @ dquoted (config_prefix (conf ps)),
          ''warnings '' @ status (warn (out ps)),
          ''printing of warnings to stderr '' @ status to_stderr,
          ''undef. symbol assignment warnings '' @ status (warn_assign_undef (out ps)),
          ''overriding symbol assignment warnings '' @ status (warn_assign_override (out ps)),
          ''redundant symbol assignment warnings '' @ status (warn_assign_redun (out ps))])
       (mainmenu_text (conf ps))"

text \<open>A variable that has no value yet is shown with \<^verbatim>\<open>None\<close>... only while it is being assigned.\<close>

definition variable_repr :: "string \<Rightarrow> variable \<Rightarrow> exn + string" where
  "variable_repr name v =
     (case v_value v of
        None \<Rightarrow> Inl AttributeError
      | Some x \<Rightarrow>
          Inr (''<variable '' @ name @ '', '' @ (if is_recursive v then ''recursive'' else ''immediate'') @
               '', value '' @ [CHR 0x27] @ x @ [CHR 0x27] @ ''>''))"

section \<open>Showing an object only reads\<close>

lemma sets_sym_repr: "sets_only S (sym_repr kc u s)"
proof -
  have "sets_only S (shown_user_value ty v)" for ty v
    by (simp add: shown_user_value_def split: option.split uval.split)
  then have "sets_only S (sym_state_fields kc u s)" unfolding sym_state_fields_def Let_def by (intro sets_only_bindp) simp_all
  then show ?thesis unfolding sym_repr_def Let_def by (intro sets_only_bindp) simp_all
qed

lemma sets_choice_repr: "sets_only S (choice_repr kc u c)"
proof -
  have t: "sets_only S (choice_type kc c)" using sets_types(3) [of S kc u "Cho c"] by simp
  have m: "sets_only S (choice_str kc u c)"
    using t by (auto simp: choice_str_def choice_tri_def Let_def)
  have "sets_only S (selected_field c)"
    unfolding selected_field_def by (intro sets_only_bindp) (auto split: option.split)
  moreover have "sets_only S (user_selected_field u c)"
    unfolding user_selected_field_def by (auto split: option.split)
  ultimately show ?thesis
    unfolding choice_repr_def Let_def using t m by (intro sets_only_bindp) simp_all
qed

lemma sets_node_repr: "sets_only S (node_repr kc u i)"
proof -
  have "sets_only S (node_prompt_field kc u nd)" for nd
    unfolding node_prompt_field_def by (auto split: option.split)
  then show ?thesis unfolding node_repr_def Let_def by (intro sets_only_bindp) auto
qed

lemma reading_repr:
  "reading kc (eval kc n (\<lambda>u. sym_repr kc u s))" "reading kc (eval kc n (\<lambda>u. choice_repr kc u c))"
  "reading kc (eval kc n (\<lambda>u. node_repr kc u i))"
  by (rule reading_eval, rule sets_sym_repr, rule reading_eval, rule sets_choice_repr, rule reading_eval, rule sets_node_repr)

end
