(* ===== verification/Spec2Isabelle.thy ===== *)
theory Spec2Isabelle
  imports Dot_Examples Check_Examples Init_Value_Examples Object_Repr
begin

text \<open>
  A model of Kconfiglib as it is kept in this repository
  (\<^verbatim>\<open>buildroot-external/scripts/kconfiglib.py\<close>), and of the configuration checker built on it
  (\<^verbatim>\<open>buildroot-external/scripts/check-dotconfig.py\<close>). The rest of the repository is Makefiles, shell
  scripts, patches and configuration data for an operating system image, and tests that drive a
  virtual machine.

  \<^bold>\<open>The program.\<close> A \<^verbatim>\<open>Kconfig\<close> object is built from Kconfig files: a preprocessor expands macros, a
  tokenizer and a parser turn the lines into symbols, choices and menu nodes, a pass over the menu
  tree propagates dependencies and creates submenus, sanity checks and a search for dependency loops
  follow. After that the object has one state that changes: the values the user has given, the cache
  of computed values, the warnings and some flags. Configurations are loaded into it, edited with
  \<^verbatim>\<open>set_value\<close>, and written in several formats. \<^verbatim>\<open>check-dotconfig.py\<close> compares the values in such
  an object with the options that a list of fragments requests.

  \<^bold>\<open>State.\<close> What parsing and finalisation build is the record \<open>kconfig\<close> (\<open>Config\<close>): symbols by
  reference, choices and menu nodes by number, so that shared objects and the \<^verbatim>\<open>next\<close>, \<^verbatim>\<open>list\<close> and
  \<^verbatim>\<open>parent\<close> pointers of the source are explicit. What changes afterwards is the record \<open>kstate\<close>:
  user values, cache, flags, warnings. The parser has the record \<open>pstate\<close> (\<open>Preproc\<close>), which
  contains both. Exceptions are the values of type \<open>exn\<close>. A property of a Python object is a hidden
  call; \<open>Attr_Prog\<close> has programs that read attributes, so that one body serves the cached reads of
  the source and the stateless meaning.

  \<^bold>\<open>From files to a configuration.\<close>
  \<^item> \<open>Kconfig_Const\<close>, \<open>Expr\<close>: constants, token tables, expressions and the functions on them.
  \<^item> \<open>Preproc\<close>: variables, macro expansion, functions, assignments (\<^verbatim>\<open>_parse_assignment\<close>,
    \<^verbatim>\<open>_expand_*\<close>, \<^verbatim>\<open>_fn_val\<close> and the built-in functions). \<open>Preproc_Props\<close>: expansion returns, leaves
    the variables as they were, and what a variable assigned from itself does.
  \<^item> \<open>Tokenizer\<close>: \<^verbatim>\<open>_tokenize\<close>, \<^verbatim>\<open>_lookup_sym\<close>. \<open>Tokenizer_Props\<close>: its two ways to read strings agree.
  \<^item> \<open>Expr_Parser\<close>: \<^verbatim>\<open>_parse_expr\<close> and \<^verbatim>\<open>eval_string\<close>. \<open>Parse_Print\<close>: parsing a printed expression.
  \<^item> \<open>Reader\<close>: lines, the stack of files, the properties of an entry (\<^verbatim>\<open>_next_line\<close>,
    \<^verbatim>\<open>_enter_file\<close>, \<^verbatim>\<open>_parse_props\<close>). \<open>Block_Parser\<close>: \<^verbatim>\<open>_parse_block\<close> and the parsing part of \<^verbatim>\<open>_init\<close>.
    \<open>Parser_Frame\<close>: what parsing a line leaves as it is. \<open>Parse_Tree\<close>: the nodes form a tree.
    \<open>Line_Returns\<close>, \<open>Block_Returns\<close>: parsing returns, since lines are consumed, a line assigns at
    most one variable and no file is open twice.
  \<^item> \<open>Menu_Finalize\<close>: \<^verbatim>\<open>_finalize_node\<close> and its helpers. \<open>Menu_Trees\<close>, \<open>Menu_Order\<close>: it keeps the tree
    and the order of the nodes. \<open>Menu_Deps\<close>: what propagation does to the conditions of a node, and
    what the \<^verbatim>\<open>orig_*\<close> properties undo.
  \<^item> \<open>Sanity\<close>, \<open>Dep_Loop\<close>, \<open>Build_Dep\<close>: the checks after parsing and the dependency sets.
    \<open>Loop_Free\<close>: a passed check means that all values can be computed, and where it does not.
  \<^item> \<open>Kconfig_Init\<close>: \<^verbatim>\<open>_init\<close> as a whole. \<open>Registered\<close>: parsing and finalisation register the symbols,
    the choices and their members. \<open>Init_Values\<close>: so the theorems on values apply to what \<^verbatim>\<open>_init\<close>
    returns. \<open>Init_Returns\<close>: it returns. \<open>Init_Value_Examples\<close>: small trees of files, and a choice symbol outside the conditions
    of these theorems that keeps a stale value.

  \<^bold>\<open>Values.\<close>
  \<^item> \<open>Values\<close>: visibility, types, string and tristate values, assignable values, selections.
    \<open>Semantics\<close>: the meaning of attributes without caches; \<open>Totality\<close>: when every attribute has a
    value; \<open>Value_Props\<close>: what values satisfy.
  \<^item> \<open>User_Values\<close>: \<^verbatim>\<open>set_value\<close>, \<^verbatim>\<open>unset_value\<close> and invalidation. \<open>Cache\<close>, \<open>Support\<close>, \<open>Tracking\<close>,
    \<open>Invalidation\<close>, \<open>Invalidation_Correct\<close>: caching is transparent. \<open>Reachable\<close>: the states that
    reads, assignments, loading and writing reach, and what holds in all of them.

  \<^bold>\<open>Files of configurations.\<close>
  \<^item> \<open>Dot_Lines\<close>, \<open>Load_Config\<close>, \<open>Load_Correct\<close>: the lines of a \<^verbatim>\<open>.config\<close> file and loading it.
  \<^item> \<open>Menu_Walk\<close>, \<open>Write_Config\<close>, \<open>Flags\<close>, \<open>Write_Load\<close>: the walk over the menu, writing, and that
    loading a written configuration gives the values back.
  \<^item> \<open>Sync_Deps\<close>, \<open>Sync_Correct\<close>: incremental builds, over a \<open>disk\<close> that remembers which files were
    opened for writing. \<open>Node_Str\<close>: printing in Kconfig syntax.
    \<open>Object_Repr\<close>: the \<^verbatim>\<open>__repr__\<close> methods.
  \<^item> \<open>Check_Dotconfig\<close>: \<^verbatim>\<open>check-dotconfig.py\<close>.

  \<^bold>\<open>Interfaces.\<close> \<open>sound_reader\<close> and \<open>complete_reader\<close> (a function that reads attributes, against
  their meaning) are interpreted by the cached reads, \<open>caching_reader\<close> likewise; \<open>evaluator\<close> (what
  the loops over a text need of the function that evaluates a macro) by \<^verbatim>\<open>_fn_val\<close>; \<open>line_frame\<close> and
  \<open>props_frame\<close> (a relation that elementary changes respect is respected by the tokenizer and the
  properties) by the relations that the invariants of the parser need: tree, registered items, and
  for a line the files, variables and unread lines (\<open>place\<close>, \<open>parts\<close>, \<open>files\<close>, \<open>line\<close>); \<open>block_builder\<close> (what a
  statement needs of the function that parses the block inside it) by \<open>parse_block\<close>; \<open>finalizer\<close>
  (what a level of the menu needs of the function that finalises its entries) by \<open>finalize_node\<close>.

  \<^bold>\<open>Bounds.\<close> Functions that recurse on something other than their data take a number. Where the
  recursion follows attribute reads, macros or the search for loops, the number stands for Python's
  limit on recursion and running out is \<open>RecursionError\<close>; the theorems on totality give the numbers
  that suffice (\<open>attr_total\<close>: the rank of an attribute; \<open>expansion_returns\<close>: 101 nestings for each
  variable; \<open>initialisation_returns\<close>: the lines of all files nested in each other for blocks, 101 for each
  line that can be read for macros; \<open>dep_loop_check_returns\<close>, \<open>set_value_returns\<close>: the number of items). Loops over the
  pointers of the menu take the number of nodes, and \<open>finalize_keeps_order\<close> shows that it suffices;
  \<^verbatim>\<open>node_iter\<close> takes two steps for every node and three more (\<open>node_iter_preorder\<close>).

  \<^bold>\<open>Parameters.\<close> The file system, the environment, the shell and the functions of the module
  \<^verbatim>\<open>KCONFIG_FUNCTIONS\<close> are the record \<open>world\<close>; reading and writing of configuration files is over
  maps from names to contents. Times of files are modelled for incremental builds only, as the
  order of writing.

  \<^bold>\<open>Conditions.\<close> The theorems on caching need a configuration in which every dependency is
  registered (\<open>wf_deps\<close>). A configuration from the constructor is one if its choices are plain
  (\<open>initialised_caching\<close>), and \<open>stale_choice_symbol\<close> shows one that is not. That all reads return is shown
  without choices and with a \<^verbatim>\<open>MODULES\<close> that depends on nothing: the check for loops does not see that
  tristate symbols read \<^verbatim>\<open>MODULES\<close>.

  \<^bold>\<open>Not modelled.\<close> Encodings and Python 2; the deprecated properties and methods that only warn and
  forward; \<^verbatim>\<open>standard_kconfig\<close>, \<^verbatim>\<open>standard_config_filename\<close> apart, and argument parsing (command
  lines); the texts of decoding errors; identity of equal tuples: expressions are
  compared by structure where the source compares by identity. Regular expression metacharacters in
  \<^verbatim>\<open>CONFIG_\<close> are taken literally.
\<close>

end
